(* ===== verification/Prelude.thy ===== *)
theory Prelude
  imports Main "HOL-Library.Word"
begin

text \<open>
  What every component of the development shares: the Rust vocabulary of the sources (the result
  type, 64-bit and 16-bit unsigned integers with their checked, saturating and wrapping
  operations, strings as lists of Unicode scalar values), the list lemmas that the component
  proofs use, and the collections the component theories add their facts to.
\<close>

named_theorems window_simps \<open>definitions of the sequence window\<close>
named_theorems journal_simps \<open>definitions of the command journal\<close>
named_theorems pool_simps \<open>definitions of the connection pool\<close>
named_theorems lexer_simps \<open>definitions of the SQL lexer\<close>

section \<open>Results\<close>

datatype ('a, 'e) result = Ok 'a | Err 'e

fun is_ok :: "('a, 'e) result \<Rightarrow> bool" where
  "is_ok (Ok _) = True"
| "is_ok (Err _) = False"

section \<open>Machine integers\<close>

type_synonym u8 = "8 word"
type_synonym u16 = "16 word"
type_synonym u32 = "32 word"
type_synonym u64 = "64 word"

definition checked_add_one :: "u64 \<Rightarrow> u64 option" where
  "checked_add_one w = (if w = - 1 then None else Some (w + 1))"

lemma unat_u64_max: "unat (- 1 :: u64) = 18446744073709551615"
  by (simp add: unsigned_minus_1_eq_mask mask_eq_exp_minus_1)

lemma u64_Suc_no_wrap:
  fixes w :: u64
  assumes "w \<noteq> - 1"
  shows unat_u64_Suc: "unat (w + 1) = unat w + 1" and u64_less_Suc: "w < w + 1"
proof -
  have "unat w \<noteq> 18446744073709551615"
    using assms unat_u64_max by (metis word_unat_eq_iff)
  moreover have "unat w < 18446744073709551616"
    using unsigned_less [of w] by simp
  ultimately have "unat w + 1 < 18446744073709551616"
    by simp
  then show "unat (w + 1) = unat w + 1"
    by (simp add: unat_word_ariths)
  then show "w < w + 1"
    by (simp add: word_less_nat_alt)
qed

lemma u64_less_Suc_trans:
  fixes v w :: u64
  assumes "v \<le> w" "w \<noteq> - 1"
  shows "v < w + 1"
  using assms u64_less_Suc [of w] by (meson order_le_less_trans)

lemma checked_add_one_Some [simp]: "w \<noteq> - 1 \<Longrightarrow> checked_add_one w = Some (w + 1)"
  by (simp add: checked_add_one_def)

section \<open>Time\<close>

text \<open>An \<open>Instant\<close> and a \<open>Duration\<close> count nanoseconds; \<open>elapsed\<close> saturates at zero.\<close>

type_synonym instant = nat
type_synonym duration = nat

definition elapsed :: "instant \<Rightarrow> instant \<Rightarrow> duration" where
  "elapsed now t = now - t"

section \<open>Strings\<close>

text \<open>
  A Rust \<open>str\<close> is modelled as the list of its Unicode scalar values. Literals of the sources are
  ASCII and are written through \<open>lit\<close>.
\<close>

type_synonym rust_str = "nat list"

definition lit :: "string \<Rightarrow> rust_str" where
  "lit s = map of_char s"

text \<open>\<open>char::is_whitespace\<close>: the Unicode property White_Space.\<close>

definition char_is_whitespace :: "nat \<Rightarrow> bool" where
  "char_is_whitespace c \<longleftrightarrow>
     9 \<le> c \<and> c \<le> 13 \<or> c = 32 \<or> c = 133 \<or> c = 160 \<or> c = 5760 \<or> 8192 \<le> c \<and> c \<le> 8202
     \<or> c = 8232 \<or> c = 8233 \<or> c = 8239 \<or> c = 8287 \<or> c = 12288"

definition str_trim :: "rust_str \<Rightarrow> rust_str" where
  "str_trim s = rev (dropWhile char_is_whitespace (rev (dropWhile char_is_whitespace s)))"

lemma dropWhile_rev_Nil_iff: "dropWhile P (rev xs) = [] \<longleftrightarrow> (\<forall>x\<in>set xs. P x)"
  by (simp add: dropWhile_eq_Nil_conv)

lemma str_trim_Nil_iff: "str_trim s = [] \<longleftrightarrow> (\<forall>c\<in>set s. char_is_whitespace c)"
proof -
  have "str_trim s = [] \<longleftrightarrow> (\<forall>c\<in>set (dropWhile char_is_whitespace s). char_is_whitespace c)"
    by (simp add: str_trim_def dropWhile_eq_Nil_conv)
  also have "\<dots> \<longleftrightarrow> (\<forall>c\<in>set s. char_is_whitespace c)"
    by (induction s) auto
  finally show ?thesis .
qed

text \<open>\<open>str::encode_utf16\<close>.\<close>

definition encode_utf16 :: "rust_str \<Rightarrow> u16 list" where
  "encode_utf16 s = concat (map (\<lambda>c. if c < 65536 then [of_nat c]
     else [of_nat (55296 + (c - 65536) div 1024), of_nat (56320 + (c - 65536) mod 1024)]) s)"

text \<open>Decimal formatting of an unsigned number.\<close>

fun decimal :: "nat \<Rightarrow> rust_str" where
  "decimal n = (if n < 10 then [48 + n] else decimal (n div 10) @ [48 + n mod 10])"

declare decimal.simps [simp del]

section \<open>Lists\<close>

fun position :: "('a \<Rightarrow> bool) \<Rightarrow> 'a list \<Rightarrow> nat option" where
  "position P [] = None"
| "position P (x # xs) = (if P x then Some 0 else map_option Suc (position P xs))"

lemma position_Some:
  "position P xs = Some i \<Longrightarrow> i < length xs \<and> P (xs ! i) \<and> (\<forall>j<i. \<not> P (xs ! j))"
proof (induction xs arbitrary: i)
  case (Cons x xs)
  then show ?case
    by (cases i) (auto split: if_splits simp: less_Suc_eq_0_disj)
qed simp

lemma position_None_iff: "position P xs = None \<longleftrightarrow> (\<forall>x\<in>set xs. \<not> P x)"
  by (induction xs) auto

lemma find_append: "find P (xs @ ys) = (case find P xs of Some x \<Rightarrow> Some x | None \<Rightarrow> find P ys)"
  by (induction xs) auto

text \<open>\<open>VecDeque::remove\<close> and \<open>Vec::remove\<close> at an index in range.\<close>

definition remove_at :: "nat \<Rightarrow> 'a list \<Rightarrow> 'a list" where
  "remove_at i xs = take i xs @ drop (Suc i) xs"

lemma length_remove_at [simp]: "i < length xs \<Longrightarrow> length (remove_at i xs) = length xs - 1"
  by (simp add: remove_at_def)

lemma set_remove_at_subset: "set (remove_at i xs) \<subseteq> set xs"
  by (auto simp: remove_at_def dest: in_set_takeD in_set_dropD)

lemma distinct_remove_at:
  assumes "distinct xs" "i < length xs"
  shows "distinct (remove_at i xs)" and "set (remove_at i xs) = set xs - {xs ! i}"
proof -
  have xs: "xs = take i xs @ xs ! i # drop (Suc i) xs"
    using assms(2) by (rule id_take_nth_drop)
  with assms(1) have d: "distinct (take i xs @ xs ! i # drop (Suc i) xs)"
    by simp
  then show "distinct (remove_at i xs)"
    by (simp add: remove_at_def)
  have "set xs = set (take i xs) \<union> {xs ! i} \<union> set (drop (Suc i) xs)"
    using arg_cong [OF xs, of set] by auto
  with d show "set (remove_at i xs) = set xs - {xs ! i}"
    by (auto simp: remove_at_def)
qed

lemma filter_neq_nth:
  assumes "distinct xs" "i < length xs"
  shows "filter (\<lambda>x. x \<noteq> xs ! i) xs = remove_at i xs"
proof -
  have xs: "xs = take i xs @ xs ! i # drop (Suc i) xs"
    using assms(2) by (rule id_take_nth_drop)
  with assms(1) have "xs ! i \<notin> set (take i xs)" "xs ! i \<notin> set (drop (Suc i) xs)"
    by (metis distinct_append not_distinct_conv_prefix append.assoc disjoint_iff list.set_intros(1),
        metis distinct_append distinct.simps(2))
  then have "filter (\<lambda>x. x \<noteq> xs ! i) (take i xs) = take i xs"
    "filter (\<lambda>x. x \<noteq> xs ! i) (drop (Suc i) xs) = drop (Suc i) xs"
    by (auto intro!: filter_True)
  then have "filter (\<lambda>x. x \<noteq> xs ! i) (take i xs @ xs ! i # drop (Suc i) xs) = remove_at i xs"
    by (simp add: remove_at_def)
  with xs show ?thesis by simp
qed

end
