(* ===== verification/Connection_Holder.thy ===== *)
theory Connection_Holder
  imports Prelude
begin

text \<open>
  The connection holder (\<open>druid/src/core/druid_connection_holder.rs\<close>) and the disposition of a
  returned connection (\<open>druid/src/core/connection_recycle_disposition.rs\<close>). An \<open>Instant\<close> is a
  number of nanoseconds on the monotonic clock and a \<open>Duration\<close> a number of nanoseconds; an
  operation that reads the clock takes the reading as an argument. The driver's connection is a
  type parameter: the holder code only asks it whether it is closed, through the function
  \<open>is_closed\<close> that the driver supplies (\<open>None\<close> for an error).
\<close>

definition duration_max :: duration where
  "duration_max = (2 ^ 64 - 1) * 1000000000 + 999999999"

text \<open>\<open>duration_millis\<close> of the pool: whole milliseconds as \<open>u64\<close>, saturating.\<close>

definition duration_millis :: "duration \<Rightarrow> u64" where
  "duration_millis d = (if d div 1000000 < 2 ^ 64 then of_nat (d div 1000000) else - 1)"

section \<open>Holder state\<close>

datatype ConnectionState = Idle | Active | Validating | Closing | Closed | StateError

type_synonym 'c closed_check = "'c \<Rightarrow> bool option"

record 'c Holder =
  connection :: "'c option"
  return_completion :: bool
  holder_id :: u64
  created_at :: instant
  last_active_at :: instant
  last_exec_at :: instant
  last_keep_at :: "instant option"
  last_valid_at :: "instant option"
  use_count :: u64
  keep_alive_checks :: u64
  state :: ConnectionState
  discard :: bool
  password_version :: u64

definition holder_new :: "instant \<Rightarrow> 'c option \<Rightarrow> u64 \<Rightarrow> u64 \<Rightarrow> 'c Holder" where
  "holder_new now c i version =
     \<lparr>connection = c, return_completion = False, holder_id = i, created_at = now, last_active_at = now,
      last_exec_at = now, last_keep_at = None, last_valid_at = None, use_count = 0,
      keep_alive_checks = 0, state = Idle, discard = False, password_version = version\<rparr>"

definition raw_connection_is_unusable :: "'c closed_check \<Rightarrow> 'c Holder \<Rightarrow> bool" where
  "raw_connection_is_unusable is_closed h =
     (case connection h of None \<Rightarrow> True
      | Some c \<Rightarrow> (case is_closed c of None \<Rightarrow> True | Some b \<Rightarrow> b))"

definition begin_return_completion :: "'c Holder \<Rightarrow> 'c Holder" where
  "begin_return_completion h = h\<lparr>return_completion := True\<rparr>"

definition take_return_completion :: "'c Holder \<Rightarrow> bool \<times> 'c Holder" where
  "take_return_completion h = (return_completion h, h\<lparr>return_completion := False\<rparr>)"

definition try_transition :: "ConnectionState \<Rightarrow> ConnectionState \<Rightarrow> 'c Holder \<Rightarrow> bool \<times> 'c Holder" where
  "try_transition from to h = (if state h = from then (True, h\<lparr>state := to\<rparr>) else (False, h))"

definition mark_active :: "'c Holder \<Rightarrow> bool \<times> 'c Holder" where
  "mark_active h =
     (case try_transition Idle Active h of
        (True, h1) \<Rightarrow> (True, h1\<lparr>use_count := use_count h1 + 1\<rparr>)
      | (False, h1) \<Rightarrow> (False, h1))"

definition mark_idle :: "instant \<Rightarrow> 'c Holder \<Rightarrow> bool \<times> 'c Holder" where
  "mark_idle now h = try_transition Active Idle (h\<lparr>last_active_at := now\<rparr>)"

definition connection_age :: "instant \<Rightarrow> 'c Holder \<Rightarrow> duration" where
  "connection_age now h = elapsed now (created_at h)"

definition idle_duration :: "instant \<Rightarrow> 'c Holder \<Rightarrow> duration" where
  "idle_duration now h = elapsed now (last_active_at h)"

definition record_execute :: "instant \<Rightarrow> 'c Holder \<Rightarrow> 'c Holder" where
  "record_execute now h = h\<lparr>last_exec_at := now\<rparr>"

definition record_valid :: "instant \<Rightarrow> 'c Holder \<Rightarrow> 'c Holder" where
  "record_valid now h = h\<lparr>last_valid_at := Some now\<rparr>"

definition record_keep_alive :: "instant \<Rightarrow> 'c Holder \<Rightarrow> 'c Holder" where
  "record_keep_alive now h = h\<lparr>last_keep_at := Some now\<rparr>"

definition last_keep_elapsed :: "instant \<Rightarrow> 'c Holder \<Rightarrow> duration option" where
  "last_keep_elapsed now h = map_option (elapsed now) (last_keep_at h)"

definition last_valid_elapsed :: "instant \<Rightarrow> 'c Holder \<Rightarrow> duration option" where
  "last_valid_elapsed now h = map_option (elapsed now) (last_valid_at h)"

definition increment_keep_alive_check_count :: "'c Holder \<Rightarrow> 'c Holder" where
  "increment_keep_alive_check_count h = h\<lparr>keep_alive_checks := keep_alive_checks h + 1\<rparr>"

definition mark_discarded :: "'c Holder \<Rightarrow> 'c Holder" where
  "mark_discarded h = h\<lparr>discard := True\<rparr>"

definition is_discard :: "'c closed_check \<Rightarrow> 'c Holder \<Rightarrow> bool" where
  "is_discard is_closed h \<longleftrightarrow> discard h \<or> raw_connection_is_unusable is_closed h"

definition is_alive :: "instant \<Rightarrow> duration \<Rightarrow> 'c Holder \<Rightarrow> bool" where
  "is_alive now idle_timeout h \<longleftrightarrow>
     state h \<noteq> Closed \<and> state h \<noteq> StateError \<and> idle_duration now h < idle_timeout"

section \<open>Disposition of a returned connection\<close>

datatype 'e Disposition = Reusable | Discard "'e option"

fun is_reusable :: "'e Disposition \<Rightarrow> bool" where
  "is_reusable Reusable = True"
| "is_reusable (Discard _) = False"

fun has_recycle_error :: "'e Disposition \<Rightarrow> bool" where
  "has_recycle_error (Discard (Some _)) = True"
| "has_recycle_error _ = False"

section \<open>Facts\<close>

lemma mark_active_iff: "fst (mark_active h) \<longleftrightarrow> state h = Idle"
  by (simp add: mark_active_def try_transition_def)

lemma mark_active_state: "fst (mark_active h) \<Longrightarrow> state (snd (mark_active h)) = Active"
  by (simp add: mark_active_def try_transition_def split: if_splits)

lemma mark_active_frame [simp]:
  "holder_id (snd (mark_active h)) = holder_id h"
  "password_version (snd (mark_active h)) = password_version h"
  "connection (snd (mark_active h)) = connection h"
  "discard (snd (mark_active h)) = discard h"
  by (simp_all add: mark_active_def try_transition_def)

lemma mark_idle_iff: "fst (mark_idle now h) \<longleftrightarrow> state h = Active"
  by (simp add: mark_idle_def try_transition_def)

lemma mark_idle_state: "fst (mark_idle now h) \<Longrightarrow> state (snd (mark_idle now h)) = Idle"
  by (simp add: mark_idle_def try_transition_def split: if_splits)

lemma mark_idle_frame [simp]:
  "holder_id (snd (mark_idle now h)) = holder_id h"
  "password_version (snd (mark_idle now h)) = password_version h"
  "connection (snd (mark_idle now h)) = connection h"
  "discard (snd (mark_idle now h)) = discard h"
  "use_count (snd (mark_idle now h)) = use_count h"
  "created_at (snd (mark_idle now h)) = created_at h"
  by (simp_all add: mark_idle_def try_transition_def)

lemma mark_discarded_frame [simp]:
  "holder_id (mark_discarded h) = holder_id h" "discard (mark_discarded h)"
  by (simp_all add: mark_discarded_def)

lemma record_valid_frame [simp]:
  "holder_id (record_valid now h) = holder_id h" "state (record_valid now h) = state h"
  "discard (record_valid now h) = discard h"
  by (simp_all add: record_valid_def)

lemma take_return_completion_frame [simp]:
  "holder_id (snd (take_return_completion h)) = holder_id h"
  "state (snd (take_return_completion h)) = state h"
  "discard (snd (take_return_completion h)) = discard h"
  by (simp_all add: take_return_completion_def)

end
