(* ===== verification/Pool_State.thy ===== *)
theory Pool_State
  imports Connection_Holder
begin

text \<open>
  The state of the connection pool and its synchronous operations
  (\<open>druid/src/pool/pool_inner.rs\<close>, \<open>pool_inner/state.rs\<close>, the synchronous part of
  \<open>pool_inner/recycle.rs\<close>, the guards of \<open>druid_pool.rs\<close> and the configuration of
  \<open>config.rs\<close>). Every atomic is a field; the connection counters are natural numbers (the
  invariant of the pool bounds them by \<open>max_open\<close>), the statistics are 64-bit words that wrap, the
  fatal-error counters 32-bit words read as signed numbers. Wake-ups of waiting tasks are recorded
  in order in \<open>signals\<close>. The channel to the creator is its last value and whether a receiver is
  alive; the channel to the closer is its queue. Wall-clock readings are arguments.
\<close>

section \<open>Configuration\<close>

record Config =
  max_open :: nat
  close_queue_capacity :: nat
  initial_size :: nat
  async_init :: bool
  init_exception_throw :: bool
  min_idle :: nat
  not_full_timeout_retry_count :: int
  max_wait_thread_count :: "nat option"
  connection_error_retry_attempts :: nat
  break_after_acquire_failure :: bool
  time_between_connect_error :: duration
  fail_fast :: bool
  on_fatal_error_max_active :: "32 word"
  max_lifetime :: duration
  idle_timeout :: duration
  max_evictable_idle_time :: duration
  driver_connection_timeout :: "duration option"
  physical_connection_timeout :: "duration option"
  test_on_borrow :: bool
  test_while_idle :: bool
  time_between_eviction_runs :: duration
  validation_query :: "rust_str option"
  remove_abandoned :: bool
  remove_abandoned_timeout :: duration
  keep_alive :: bool
  keep_alive_between_time :: duration
  max_use_count :: nat

definition secs :: "nat \<Rightarrow> duration" where
  "secs n = n * 1000000000"

definition Config_default :: Config where
  "Config_default = \<lparr>max_open = 8, close_queue_capacity = 64, initial_size = 0, async_init = False,
     init_exception_throw = True, min_idle = 0, not_full_timeout_retry_count = 0,
     max_wait_thread_count = None, connection_error_retry_attempts = 1,
     break_after_acquire_failure = False, time_between_connect_error = 500 * 1000000,
     fail_fast = False, on_fatal_error_max_active = 0, max_lifetime = duration_max,
     idle_timeout = secs 1800, max_evictable_idle_time = secs (7 * 60 * 60),
     driver_connection_timeout = None, physical_connection_timeout = None, test_on_borrow = False,
     test_while_idle = False, time_between_eviction_runs = secs 60, validation_query = None,
     remove_abandoned = False, remove_abandoned_timeout = secs 300, keep_alive = False,
     keep_alive_between_time = secs 120, max_use_count = 0\<rparr>"

definition effective_driver_connection_timeout :: "Config \<Rightarrow> duration option" where
  "effective_driver_connection_timeout cfg =
     (case driver_connection_timeout cfg of Some d \<Rightarrow> Some d | None \<Rightarrow> physical_connection_timeout cfg)"

section \<open>Errors\<close>

datatype DruidError =
    DataSourceClosed u64
  | AcquireTimeout
  | GetConnectionTimeout u64 nat nat nat "u64 option" u64 "DruidError option"
  | LoginTimeout
  | PoolExhausted
  | MaxWaitThreadCountExceeded nat nat
  | ValidationFailed rust_str
  | ConnectionDiscarded
  | DriverError rust_str
  | DataSourceNotAvailable "DruidError option"
  | DataSourceDisabled
  | OnFatalError nat "32 word" u64 "u16 list option" "DruidError option"
  | InvalidArgument rust_str
  | ActiveConnectionsPreventRestart nat
  | OtherError rust_str

section \<open>State\<close>

record FatalErrorState =
  on_fatal_error :: bool
  fatal_error_count :: "32 word"
  fatal_error_count_last_shrink :: "32 word"
  last_fatal_error_at :: "instant option"
  last_fatal_error_time_millis :: u64
  last_fatal_error_sql :: "u16 list option"
  last_fatal_error :: "DruidError option"

record FatalShrinkSnapshot =
  fs_on_fatal_error :: bool
  fatal_error_increment :: "32 word"
  fs_last_fatal_error_at :: "instant option"

record CreateFailureState =
  create_started_at :: "instant option"
  create_error :: "DruidError option"
  last_create_error :: "DruidError option"
  last_create_error_time_millis :: u64
  fail_continuous :: bool
  fail_continuous_time_millis :: u64

record PreparedStatementCacheStats =
  prepared_statement_count :: u64
  closed_prepared_statement_count :: u64
  cached_prepared_statement_count :: u64
  cached_prepared_statement_delete_count :: u64
  cached_prepared_statement_hit_count :: u64
  cached_prepared_statement_miss_count :: u64

datatype Signal = NotifyOne | NotifyWaiters

record 'c PoolInner =
  idle :: "'c Holder list"
  signals :: "Signal list"
  active_count :: nat
  pending_owner_discards :: nat
  active_peak :: nat
  active_peak_time_millis :: u64
  wait_count :: nat
  creating_count :: nat
  total_count :: nat
  next_id :: u64
  user_password_version :: u64
  lifecycle_generation :: u64
  enabled :: bool
  closed :: bool
  close_time_millis :: u64
  fatal_error_state :: FatalErrorState
  create_failure_state :: CreateFailureState
  create_count :: u64
  close_count :: u64
  destroy_count :: u64
  connect_count :: u64
  connect_error_count :: u64
  driver_connect_error_count :: u64
  pooling_peak :: nat
  pooling_peak_time_millis :: u64
  not_empty_wait_count :: u64
  not_empty_wait_nanos :: u64
  recycle_count :: u64
  recycle_error_count :: u64
  discard_count :: u64
  keep_alive_check_count :: u64
  keep_alive_check_error_count :: u64
  prepared_statement_stats :: PreparedStatementCacheStats
  create_sender :: "bool option"
  create_command :: "nat option"
  close_sender :: bool
  close_receiver :: bool
  close_queue :: "'c Holder list"
  close_queue_permits :: nat
  close_queue_rejected_total :: u64
  close_timeout_total :: u64
  close_worker_terminated :: bool
  refill_target :: nat

definition FatalErrorState_default :: FatalErrorState where
  "FatalErrorState_default = \<lparr>on_fatal_error = False, fatal_error_count = 0,
     fatal_error_count_last_shrink = 0, last_fatal_error_at = None, last_fatal_error_time_millis = 0,
     last_fatal_error_sql = None, last_fatal_error = None\<rparr>"

definition CreateFailureState_default :: CreateFailureState where
  "CreateFailureState_default = \<lparr>create_started_at = None, create_error = None,
     last_create_error = None, last_create_error_time_millis = 0, fail_continuous = False,
     fail_continuous_time_millis = 0\<rparr>"

definition PreparedStatementCacheStats_default :: PreparedStatementCacheStats where
  "PreparedStatementCacheStats_default = \<lparr>prepared_statement_count = 0,
     closed_prepared_statement_count = 0, cached_prepared_statement_count = 0,
     cached_prepared_statement_delete_count = 0, cached_prepared_statement_hit_count = 0,
     cached_prepared_statement_miss_count = 0\<rparr>"

definition PoolInner_new :: "Config \<Rightarrow> 'c PoolInner" where
  "PoolInner_new cfg = \<lparr>idle = [], signals = [], active_count = 0, pending_owner_discards = 0,
     active_peak = 0, active_peak_time_millis = 0, wait_count = 0, creating_count = 0,
     total_count = 0, next_id = 10001, user_password_version = 0, lifecycle_generation = 0,
     enabled = True, closed = False, close_time_millis = 0,
     fatal_error_state = FatalErrorState_default, create_failure_state = CreateFailureState_default,
     create_count = 0, close_count = 0, destroy_count = 0, connect_count = 0,
     connect_error_count = 0, driver_connect_error_count = 0, pooling_peak = 0,
     pooling_peak_time_millis = 0, not_empty_wait_count = 0, not_empty_wait_nanos = 0,
     recycle_count = 0, recycle_error_count = 0, discard_count = 0, keep_alive_check_count = 0,
     keep_alive_check_error_count = 0, prepared_statement_stats = PreparedStatementCacheStats_default,
     create_sender = None, create_command = Some 0, close_sender = False, close_receiver = False,
     close_queue = [], close_queue_permits = max (close_queue_capacity cfg) 1,
     close_queue_rejected_total = 0, close_timeout_total = 0, close_worker_terminated = False,
     refill_target = 0\<rparr>"

section \<open>Wake-ups and channels\<close>

definition notify :: "Signal \<Rightarrow> 'c PoolInner \<Rightarrow> 'c PoolInner" where
  "notify s p = p\<lparr>signals := signals p @ [s]\<rparr>"

text \<open>The pool installs the sender of a fresh channel for each new worker.\<close>

definition install_create_sender :: "'c PoolInner \<Rightarrow> 'c PoolInner" where
  "install_create_sender p = p\<lparr>create_sender := Some True, create_command := Some 0\<rparr>"

definition install_close_sender :: "'c PoolInner \<Rightarrow> 'c PoolInner" where
  "install_close_sender p = p\<lparr>close_sender := True, close_receiver := True, close_queue := []\<rparr>"

definition PoolInner_next_id :: "'c PoolInner \<Rightarrow> u64 \<times> 'c PoolInner" where
  "PoolInner_next_id p = (next_id p, p\<lparr>next_id := next_id p + 1\<rparr>)"

section \<open>Gates\<close>

definition data_source_closed_error :: "'c PoolInner \<Rightarrow> DruidError" where
  "data_source_closed_error p = DataSourceClosed (close_time_millis p)"

definition ensure_not_closed :: "'c PoolInner \<Rightarrow> (unit, DruidError) result" where
  "ensure_not_closed p = (if closed p then Err (data_source_closed_error p) else Ok ())"

definition ensure_available :: "'c PoolInner \<Rightarrow> (unit, DruidError) result" where
  "ensure_available p =
     (case ensure_not_closed p of Err e \<Rightarrow> Err e
      | Ok _ \<Rightarrow> if \<not> enabled p then Err DataSourceDisabled else Ok ())"

definition ensure_borrow_generation :: "u64 \<Rightarrow> 'c PoolInner \<Rightarrow> (unit, DruidError) result" where
  "ensure_borrow_generation expected p =
     (if lifecycle_generation p \<noteq> expected then Err DataSourceDisabled else ensure_available p)"

definition ensure_fatal_error_available :: "Config \<Rightarrow> 'c PoolInner \<Rightarrow> (unit, DruidError) result" where
  "ensure_fatal_error_available cfg p =
     (let s = fatal_error_state p; max_active = on_fatal_error_max_active cfg in
      if \<not> on_fatal_error s \<or> sint max_active \<le> 0 \<or> active_count p < nat (sint max_active) then Ok ()
      else Err (OnFatalError (active_count p) max_active (last_fatal_error_time_millis s)
                  (last_fatal_error_sql s) (last_fatal_error s)))"

definition can_grow :: "Config \<Rightarrow> 'c PoolInner \<Rightarrow> bool" where
  "can_grow cfg p \<longleftrightarrow> total_count p < max_open cfg"

definition should_evict :: "Config \<Rightarrow> 'c PoolInner \<Rightarrow> bool" where
  "should_evict cfg p \<longleftrightarrow> length (idle p) > min_idle cfg"

definition is_full :: "Config \<Rightarrow> 'c PoolInner \<Rightarrow> bool" where
  "is_full cfg p \<longleftrightarrow> active_count p + length (idle p) \<ge> max_open cfg"

definition set_enabled :: "bool \<Rightarrow> 'c PoolInner \<Rightarrow> 'c PoolInner" where
  "set_enabled b p = (let p = p\<lparr>enabled := b\<rparr> in if \<not> b then notify NotifyWaiters p else p)"

definition advance_lifecycle_generation :: "'c PoolInner \<Rightarrow> u64 \<times> 'c PoolInner" where
  "advance_lifecycle_generation p =
     (let p = p\<lparr>lifecycle_generation := lifecycle_generation p + 1\<rparr>
      in (lifecycle_generation p, notify NotifyWaiters p))"

definition prepare_restart :: "'c PoolInner \<Rightarrow> 'c PoolInner" where
  "prepare_restart p = notify NotifyWaiters (p\<lparr>closed := False, enabled := True\<rparr>)"

section \<open>Statistics\<close>

definition record_connect_error :: "u64 \<Rightarrow> 'c PoolInner \<Rightarrow> 'c PoolInner" where
  "record_connect_error n p = p\<lparr>connect_error_count := connect_error_count p + n\<rparr>"

text \<open>The compare-and-swap loop of \<open>record_peak\<close>, on an atomic nobody else writes meanwhile.\<close>

definition record_peak :: "u64 \<Rightarrow> nat \<Rightarrow> nat \<times> u64 \<Rightarrow> nat \<times> u64" where
  "record_peak now value peak = (if value > fst peak then (value, now) else peak)"

definition record_active_acquire :: "u64 \<Rightarrow> 'c PoolInner \<Rightarrow> 'c PoolInner" where
  "record_active_acquire now p =
     (let p = p\<lparr>active_count := active_count p + 1, connect_count := connect_count p + 1\<rparr>;
          (peak, time) = record_peak now (active_count p) (active_peak p, active_peak_time_millis p)
      in p\<lparr>active_peak := peak, active_peak_time_millis := time\<rparr>)"

definition record_pooling_count :: "u64 \<Rightarrow> nat \<Rightarrow> 'c PoolInner \<Rightarrow> 'c PoolInner" where
  "record_pooling_count now n p =
     (let (peak, time) = record_peak now n (pooling_peak p, pooling_peak_time_millis p)
      in p\<lparr>pooling_peak := peak, pooling_peak_time_millis := time\<rparr>)"

definition record_not_empty_wait :: "duration \<Rightarrow> 'c PoolInner \<Rightarrow> 'c PoolInner" where
  "record_not_empty_wait d p =
     p\<lparr>not_empty_wait_count := not_empty_wait_count p + 1,
       not_empty_wait_nanos := not_empty_wait_nanos p + (if d < 2 ^ 64 then of_nat d else - 1)\<rparr>"

record PoolStatSnapshot =
  st_active_count :: nat
  st_active_peak :: nat
  st_active_peak_time_millis :: u64
  st_pooling_count :: nat
  st_pooling_peak :: nat
  st_pooling_peak_time_millis :: u64
  st_connect_count :: u64
  st_close_count :: u64
  st_wait_thread_count :: nat
  st_not_empty_wait_count :: u64
  st_not_empty_wait_nanos :: u64
  st_logic_connect_error_count :: u64
  st_driver_connect_count :: u64
  st_driver_close_count :: u64
  st_driver_connect_error_count :: u64
  st_keep_alive_check_count :: u64
  st_pstmt_cache_hit_count :: u64
  st_pstmt_cache_miss_count :: u64

definition stat_snapshot_and_reset :: "'c PoolInner \<Rightarrow> PoolStatSnapshot \<times> 'c PoolInner" where
  "stat_snapshot_and_reset p =
     (\<lparr>st_active_count = active_count p, st_active_peak = active_peak p,
       st_active_peak_time_millis = active_peak_time_millis p, st_pooling_count = length (idle p),
       st_pooling_peak = pooling_peak p, st_pooling_peak_time_millis = pooling_peak_time_millis p,
       st_connect_count = connect_count p, st_close_count = close_count p,
       st_wait_thread_count = wait_count p, st_not_empty_wait_count = not_empty_wait_count p,
       st_not_empty_wait_nanos = not_empty_wait_nanos p,
       st_logic_connect_error_count = connect_error_count p,
       st_driver_connect_count = create_count p, st_driver_close_count = destroy_count p,
       st_driver_connect_error_count = driver_connect_error_count p,
       st_keep_alive_check_count = keep_alive_check_count p,
       st_pstmt_cache_hit_count = cached_prepared_statement_hit_count (prepared_statement_stats p),
       st_pstmt_cache_miss_count = cached_prepared_statement_miss_count (prepared_statement_stats p)\<rparr>,
      p\<lparr>active_peak := 0, active_peak_time_millis := 0, pooling_peak := 0,
        pooling_peak_time_millis := 0, connect_count := 0, close_count := 0,
        not_empty_wait_count := 0, not_empty_wait_nanos := 0, connect_error_count := 0,
        create_count := 0, destroy_count := 0, driver_connect_error_count := 0,
        keep_alive_check_count := 0,
        prepared_statement_stats := (prepared_statement_stats p)
          \<lparr>cached_prepared_statement_hit_count := 0, cached_prepared_statement_miss_count := 0\<rparr>\<rparr>)"

definition PreparedStatementCacheStats_reset :: "PreparedStatementCacheStats \<Rightarrow> PreparedStatementCacheStats" where
  "PreparedStatementCacheStats_reset s =
     s\<lparr>prepared_statement_count := 0, closed_prepared_statement_count := 0,
       cached_prepared_statement_delete_count := 0, cached_prepared_statement_hit_count := 0,
       cached_prepared_statement_miss_count := 0\<rparr>"

definition reset_stats :: "'c PoolInner \<Rightarrow> 'c PoolInner" where
  "reset_stats p =
     (let p = snd (stat_snapshot_and_reset p) in
      p\<lparr>active_peak := active_count p, active_peak_time_millis := 0, recycle_count := 0,
        recycle_error_count := 0, discard_count := 0, keep_alive_check_error_count := 0,
        prepared_statement_stats := PreparedStatementCacheStats_reset (prepared_statement_stats p),
        create_failure_state := (create_failure_state p)
          \<lparr>last_create_error := None, last_create_error_time_millis := 0\<rparr>\<rparr>)"

section \<open>Fatal errors\<close>

definition handle_fatal_error ::
  "Config \<Rightarrow> instant \<Rightarrow> u64 \<Rightarrow> DruidError \<Rightarrow> rust_str option \<Rightarrow> 'c PoolInner \<Rightarrow> bool \<times> 'c PoolInner" where
  "handle_fatal_error cfg now now_millis error sql p =
     (let s = (fatal_error_state p)\<lparr>last_fatal_error_at := Some now,
                 last_fatal_error_time_millis := now_millis,
                 fatal_error_count := fatal_error_count (fatal_error_state p) + 1\<rparr>;
          increment = fatal_error_count s - fatal_error_count_last_shrink s;
          s = (if sint increment > sint (on_fatal_error_max_active cfg)
               then s\<lparr>fatal_error_count_last_shrink := fatal_error_count_last_shrink s + 1,
                      on_fatal_error := True\<rparr>
               else s\<lparr>on_fatal_error := False\<rparr>);
          s = s\<lparr>last_fatal_error := Some error,
                 last_fatal_error_sql := map_option (\<lambda>q. take 1024 (encode_utf16 q)) sql\<rparr>
      in (on_fatal_error s, p\<lparr>fatal_error_state := s\<rparr>))"

definition clear_on_fatal_error :: "'c PoolInner \<Rightarrow> 'c PoolInner" where
  "clear_on_fatal_error p =
     (let s = fatal_error_state p in
      if on_fatal_error s then p\<lparr>fatal_error_state := s\<lparr>on_fatal_error := False\<rparr>\<rparr> else p)"

definition fatal_shrink_snapshot :: "'c PoolInner \<Rightarrow> FatalShrinkSnapshot \<times> 'c PoolInner" where
  "fatal_shrink_snapshot p =
     (let s = fatal_error_state p in
      (\<lparr>fs_on_fatal_error = on_fatal_error s,
        fatal_error_increment = fatal_error_count s - fatal_error_count_last_shrink s,
        fs_last_fatal_error_at = last_fatal_error_at s\<rparr>,
       p\<lparr>fatal_error_state := s\<lparr>fatal_error_count_last_shrink := fatal_error_count s\<rparr>\<rparr>))"

section \<open>Creation failures\<close>

definition fail_fast_error :: "Config \<Rightarrow> 'c PoolInner \<Rightarrow> DruidError option" where
  "fail_fast_error cfg p =
     (if fail_fast cfg \<and> fail_continuous (create_failure_state p)
      then Some (DataSourceNotAvailable (create_error (create_failure_state p))) else None)"

definition set_fail_continuous :: "Config \<Rightarrow> u64 \<Rightarrow> bool \<Rightarrow> 'c PoolInner \<Rightarrow> 'c PoolInner" where
  "set_fail_continuous cfg now_millis b p =
     (let s = (create_failure_state p)\<lparr>fail_continuous_time_millis := (if b then now_millis else 0)\<rparr> in
      if fail_continuous s = b then p\<lparr>create_failure_state := s\<rparr>
      else let p = p\<lparr>create_failure_state := s\<lparr>fail_continuous := b\<rparr>\<rparr>
           in if b \<and> fail_fast cfg then notify NotifyWaiters p else p)"

definition record_create_error :: "u64 \<Rightarrow> DruidError \<Rightarrow> 'c PoolInner \<Rightarrow> 'c PoolInner" where
  "record_create_error now_millis e p =
     p\<lparr>create_failure_state := (create_failure_state p)
        \<lparr>create_error := Some e, last_create_error := Some e, last_create_error_time_millis := now_millis\<rparr>\<rparr>"

definition record_create_success :: "Config \<Rightarrow> u64 \<Rightarrow> 'c PoolInner \<Rightarrow> 'c PoolInner" where
  "record_create_success cfg now_millis p =
     set_fail_continuous cfg now_millis False
       (p\<lparr>create_failure_state := (create_failure_state p)\<lparr>create_error := None\<rparr>\<rparr>)"

definition connection_timeout_error :: "Config \<Rightarrow> instant \<Rightarrow> duration \<Rightarrow> 'c PoolInner \<Rightarrow> DruidError" where
  "connection_timeout_error cfg now waited p =
     (let s = create_failure_state p;
          create_elapsed_millis =
            (if creating_count p > 0 then
               (case create_started_at s of None \<Rightarrow> None
                | Some t \<Rightarrow> (let m = duration_millis (elapsed now t) in if m > 0 then Some m else None))
             else None)
      in GetConnectionTimeout (duration_millis waited) (active_count p) (max_open cfg) (creating_count p)
           create_elapsed_millis (driver_connect_error_count p) (create_error s))"

section \<open>Destruction and refill\<close>

definition record_destroy :: "'c PoolInner \<Rightarrow> 'c PoolInner" where
  "record_destroy p =
     p\<lparr>total_count := (if total_count p > 0 then total_count p - 1 else total_count p),
       destroy_count := destroy_count p + 1\<rparr>"

definition reject_close :: "'c PoolInner \<Rightarrow> 'c PoolInner" where
  "reject_close p = p\<lparr>close_queue_rejected_total := close_queue_rejected_total p + 1\<rparr>"

text \<open>A command that the channel refuses gives its permit back when it is dropped.\<close>

definition enqueue_close_holder ::
  "Config \<Rightarrow> 'c Holder \<Rightarrow> 'c PoolInner \<Rightarrow> 'c Holder option \<times> 'c PoolInner" where
  "enqueue_close_holder cfg h p =
     (if \<not> close_sender p then (Some h, reject_close p)
      else if close_queue_permits p = 0 then (Some h, reject_close p)
      else if \<not> close_receiver p \<or> length (close_queue p) \<ge> max (close_queue_capacity cfg) 1
      then (Some h, reject_close p)
      else (None, p\<lparr>close_queue := close_queue p @ [h], close_queue_permits := close_queue_permits p - 1\<rparr>))"

definition destroy_holder_with_overflow ::
  "Config \<Rightarrow> 'c Holder \<Rightarrow> 'c PoolInner \<Rightarrow> 'c Holder option \<times> 'c PoolInner" where
  "destroy_holder_with_overflow cfg h p = enqueue_close_holder cfg (mark_discarded h) (record_destroy p)"

definition destroy_holder :: "Config \<Rightarrow> 'c Holder \<Rightarrow> 'c PoolInner \<Rightarrow> 'c PoolInner" where
  "destroy_holder cfg h p = snd (destroy_holder_with_overflow cfg h p)"

text \<open>\<open>destroy_holder_now\<close>: the argument tells whether the driver's close exceeded \<open>close_timeout\<close>.\<close>

definition destroy_holder_now :: "bool \<Rightarrow> 'c PoolInner \<Rightarrow> 'c PoolInner" where
  "destroy_holder_now timed_out p =
     (let p = record_destroy p
      in if timed_out then p\<lparr>close_timeout_total := close_timeout_total p + 1\<rparr> else p)"

definition request_refill :: "Config \<Rightarrow> nat \<Rightarrow> 'c PoolInner \<Rightarrow> bool \<times> 'c PoolInner" where
  "request_refill cfg to_count p =
     (let p = notify NotifyWaiters p in
      if closed p \<or> to_count = 0 then (False, p)
      else let target = min to_count (max_open cfg) in
        if total_count p \<ge> target then (False, p)
        else let p = p\<lparr>refill_target := target\<rparr> in
          case create_sender p of
            Some True \<Rightarrow> (True, p\<lparr>create_command := Some target\<rparr>)
          | _ \<Rightarrow> (False, p))"

definition request_fatal_error_refill :: "Config \<Rightarrow> 'c PoolInner \<Rightarrow> 'c PoolInner" where
  "request_fatal_error_refill cfg p = snd (request_refill cfg 1 p)"

definition request_create_worker_shutdown :: "'c PoolInner \<Rightarrow> 'c PoolInner" where
  "request_create_worker_shutdown p =
     (let p = p\<lparr>refill_target := 0\<rparr>
      in if create_sender p = Some True then p\<lparr>create_command := None\<rparr> else p)"

definition close_worker_is_idle :: "'c PoolInner \<Rightarrow> bool" where
  "close_worker_is_idle p \<longleftrightarrow> active_count p = 0 \<and> pending_owner_discards p = 0"

definition request_close_worker_shutdown_if_idle :: "'c PoolInner \<Rightarrow> 'c PoolInner" where
  "request_close_worker_shutdown_if_idle p =
     (if \<not> closed p \<or> \<not> close_worker_is_idle p then p else p\<lparr>close_sender := False\<rparr>)"

text \<open>One turn of the closer's loop: it takes the oldest command, frees its permit and closes the
  connection, which may exceed the timeout.\<close>

definition close_worker_turn :: "bool \<Rightarrow> 'c PoolInner \<Rightarrow> 'c PoolInner" where
  "close_worker_turn timed_out p =
     (case close_queue p of
        [] \<Rightarrow> if close_sender p then p else p\<lparr>close_worker_terminated := True, close_receiver := False\<rparr>
      | h # hs \<Rightarrow>
          let p = p\<lparr>close_queue := hs, close_queue_permits := close_queue_permits p + 1\<rparr>
          in if timed_out then p\<lparr>close_timeout_total := close_timeout_total p + 1\<rparr> else p)"

end
