(* ===== verification/Pool_Recycle.thy ===== *)
theory Pool_Recycle
  imports Pool_State
begin

text \<open>
  Returning, discarding and closing connections (\<open>druid/src/pool/pool_inner/recycle.rs\<close>), the waiter
  guard and the abandoned-lease scan of \<open>druid_pool.rs\<close>. \<open>return_connection_with_overflow\<close> runs on
  the thread of the caller while other threads use the same pool, so it is composed here from the
  sections between its accesses to shared state; the step relation of the theory \<open>Pool_Steps\<close>
  interleaves these sections, and this theory gives what the whole call does alone.
\<close>

section \<open>Discarding\<close>

definition discard_recycled_holder_with_overflow ::
  "Config \<Rightarrow> 'c Holder \<Rightarrow> 'c PoolInner \<Rightarrow> (bool \<times> 'c Holder option) \<times> 'c PoolInner" where
  "discard_recycled_holder_with_overflow cfg h p =
     (let (overflow, p) = destroy_holder_with_overflow cfg h p;
          (refill, p) = request_refill cfg (min_idle cfg) p
      in ((refill, overflow), p))"

definition signal_owner_discard :: "Config \<Rightarrow> 'e Disposition \<Rightarrow> 'c PoolInner \<Rightarrow> 'c PoolInner" where
  "signal_owner_discard cfg disposition p =
     (let p = p\<lparr>pending_owner_discards := pending_owner_discards p + 1\<rparr> in
      if active_count p = 0 then p\<lparr>pending_owner_discards := pending_owner_discards p - 1\<rparr>
      else
        let p = p\<lparr>active_count := active_count p - 1\<rparr>;
            p = p\<lparr>close_count := close_count p + 1, discard_count := discard_count p + 1\<rparr>;
            p = (if has_recycle_error disposition
                 then p\<lparr>recycle_error_count := recycle_error_count p + 1\<rparr> else p)
        in snd (request_refill cfg (min_idle cfg) (record_destroy p)))"

definition finish_signaled_discard_with_overflow ::
  "Config \<Rightarrow> 'c Holder \<Rightarrow> 'c PoolInner \<Rightarrow> 'c Holder option \<times> 'c PoolInner" where
  "finish_signaled_discard_with_overflow cfg h p =
     (let (overflow, p) = enqueue_close_holder cfg (mark_discarded h) p;
          p = p\<lparr>pending_owner_discards := pending_owner_discards p - 1\<rparr>
      in (overflow, request_close_worker_shutdown_if_idle p))"

section \<open>Returning\<close>

text \<open>Section 1: the lease ends. \<open>True\<close> when the holder may still be reused.\<close>

definition return_release ::
  "instant \<Rightarrow> 'e Disposition \<Rightarrow> 'c Holder \<Rightarrow> 'c PoolInner \<Rightarrow> bool \<times> 'c Holder \<times> 'c PoolInner" where
  "return_release now disposition h p =
     (if active_count p = 0 then (False, h, p\<lparr>discard_count := discard_count p + 1\<rparr>)
      else
        let p = p\<lparr>active_count := active_count p - 1, close_count := close_count p + 1\<rparr>;
            (holder_was_active, h) = mark_idle now h;
            p = (if has_recycle_error disposition
                 then p\<lparr>recycle_error_count := recycle_error_count p + 1\<rparr> else p)
        in if \<not> holder_was_active \<or> \<not> is_reusable disposition
           then (False, h, p\<lparr>discard_count := discard_count p + 1\<rparr>)
           else (True, h, p))"

text \<open>The reasons to retire a healthy connection on return.\<close>

definition return_expired :: "Config \<Rightarrow> instant \<Rightarrow> 'c Holder \<Rightarrow> 'c PoolInner \<Rightarrow> bool" where
  "return_expired cfg now h p \<longleftrightarrow>
     connection_age now h \<ge> max_lifetime cfg
     \<or> (case effective_driver_connection_timeout cfg of None \<Rightarrow> False
         | Some timeout \<Rightarrow> timeout \<noteq> 0 \<and> connection_age now h > timeout)
     \<or> (max_use_count cfg > 0 \<and> unat (use_count h) \<ge> max_use_count cfg)
     \<or> password_version h < user_password_version p"

text \<open>Section 2: the checks made without the queue lock. \<open>True\<close> when the holder is to be queued.\<close>

definition return_check ::
  "Config \<Rightarrow> 'c closed_check \<Rightarrow> instant \<Rightarrow> 'c Holder \<Rightarrow> 'c PoolInner \<Rightarrow> bool \<times> 'c PoolInner" where
  "return_check cfg is_closed now h p =
     (if closed p \<or> \<not> enabled p \<or> raw_connection_is_unusable is_closed h \<or> is_discard is_closed h
      then (False, p)
      else if return_expired cfg now h p then (False, p\<lparr>discard_count := discard_count p + 1\<rparr>)
      else (True, p))"

text \<open>Section 3: \<open>putLast\<close> under the queue lock.\<close>

definition return_push ::
  "Config \<Rightarrow> u64 \<Rightarrow> 'c Holder \<Rightarrow> 'c PoolInner \<Rightarrow> (bool \<times> 'c Holder option) \<times> 'c PoolInner" where
  "return_push cfg now_millis h p =
     (if length (idle p) \<ge> max_open cfg
      then discard_recycled_holder_with_overflow cfg h (p\<lparr>recycle_count := recycle_count p + 1\<rparr>)
      else
        let (_, h) = take_return_completion h;
            p = p\<lparr>idle := idle p @ [h], recycle_count := recycle_count p + 1\<rparr>
        in ((False, None), notify NotifyOne (record_pooling_count now_millis (length (idle p)) p)))"

definition return_connection_with_overflow ::
  "Config \<Rightarrow> 'c closed_check \<Rightarrow> instant \<Rightarrow> u64 \<Rightarrow> 'c Holder \<Rightarrow> 'e Disposition \<Rightarrow> 'c PoolInner \<Rightarrow>
   (bool \<times> 'c Holder option) \<times> 'c PoolInner" where
  "return_connection_with_overflow cfg is_closed now now_millis h disposition p =
     (let (reuse, h, p) = return_release now disposition h p;
          (r, p) =
            (if \<not> reuse then discard_recycled_holder_with_overflow cfg h p
             else let (queue, p) = return_check cfg is_closed now h p in
               if \<not> queue then discard_recycled_holder_with_overflow cfg h p
               else return_push cfg now_millis h p)
      in (r, request_close_worker_shutdown_if_idle p))"

definition return_connection ::
  "Config \<Rightarrow> 'c closed_check \<Rightarrow> instant \<Rightarrow> u64 \<Rightarrow> 'c Holder \<Rightarrow> 'e Disposition \<Rightarrow> 'c PoolInner \<Rightarrow>
   bool \<times> 'c PoolInner" where
  "return_connection cfg is_closed now now_millis h disposition p =
     (let ((refill, _), p) = return_connection_with_overflow cfg is_closed now now_millis h disposition p
      in (refill, p))"

section \<open>Waiters\<close>

definition register_waiter :: "Config \<Rightarrow> 'c PoolInner \<Rightarrow> (unit, DruidError) result \<times> 'c PoolInner" where
  "register_waiter cfg p =
     (case max_wait_thread_count cfg of
        Some m \<Rightarrow>
          if m > 0 then
            (if wait_count p < m then (Ok (), p\<lparr>wait_count := wait_count p + 1\<rparr>)
             else (Err (MaxWaitThreadCountExceeded m (wait_count p)), p))
          else (Ok (), p\<lparr>wait_count := wait_count p + 1\<rparr>)
      | None \<Rightarrow> (Ok (), p\<lparr>wait_count := wait_count p + 1\<rparr>))"

definition drop_waiter :: "duration \<Rightarrow> 'c PoolInner \<Rightarrow> 'c PoolInner" where
  "drop_waiter waited p =
     (let p = record_not_empty_wait waited p
      in p\<lparr>wait_count := (if wait_count p > 0 then wait_count p - 1 else wait_count p)\<rparr>)"

section \<open>Abandoned leases\<close>

text \<open>A lease as the scan sees it: the two tokens are weak references to atomics of the owner.\<close>

record Lease =
  borrowed_at :: instant
  lease_active :: "bool option"
  execution_running :: "bool option"

datatype LeaseVerdict = Stale | Abandoned | Kept

definition lease_verdict :: "Config \<Rightarrow> instant \<Rightarrow> Lease \<Rightarrow> LeaseVerdict" where
  "lease_verdict cfg now l =
     (case lease_active l of
        None \<Rightarrow> Stale
      | Some False \<Rightarrow> Stale
      | Some True \<Rightarrow>
          if execution_running l = Some True then Kept
          else if elapsed now (borrowed_at l) \<ge> remove_abandoned_timeout cfg then Abandoned
          else Kept)"

text \<open>The scan returns the remaining leases, the number of abandoned ones and the identifiers whose
  token it cleared.\<close>

definition remove_abandoned_leases ::
  "Config \<Rightarrow> instant \<Rightarrow> (u64 \<times> Lease) list \<Rightarrow> (u64 \<times> Lease) list \<times> nat \<times> u64 list" where
  "remove_abandoned_leases cfg now leases =
     (if \<not> remove_abandoned cfg then (leases, 0, [])
      else let abandoned = filter (\<lambda>(_, l). lease_verdict cfg now l = Abandoned) leases
           in (filter (\<lambda>(_, l). lease_verdict cfg now l = Kept) leases, length abandoned, map fst abandoned))"

section \<open>Frame facts\<close>

lemmas [pool_simps] = notify_def record_destroy_def reject_close_def

text \<open>What the small operations leave alone; each is proved once so that the larger ones are
  unfolded only down to this level.\<close>

lemma notify_frame [simp]:
  "idle (notify s p) = idle p" "active_count (notify s p) = active_count p"
  "total_count (notify s p) = total_count p" "creating_count (notify s p) = creating_count p"
  "pending_owner_discards (notify s p) = pending_owner_discards p" "wait_count (notify s p) = wait_count p"
  "closed (notify s p) = closed p" "enabled (notify s p) = enabled p"
  "user_password_version (notify s p) = user_password_version p"
  "close_queue (notify s p) = close_queue p" "close_queue_permits (notify s p) = close_queue_permits p"
  "signals (notify s p) = signals p @ [s]" "lifecycle_generation (notify s p) = lifecycle_generation p"
  "destroy_count (notify s p) = destroy_count p" "discard_count (notify s p) = discard_count p"
  "close_count (notify s p) = close_count p" "recycle_count (notify s p) = recycle_count p"
  "create_sender (notify s p) = create_sender p" "refill_target (notify s p) = refill_target p"
  "connect_count (notify s p) = connect_count p" "create_count (notify s p) = create_count p"
  by (simp_all add: notify_def)

lemma record_pooling_count_frame [simp]:
  "idle (record_pooling_count t n p) = idle p" "active_count (record_pooling_count t n p) = active_count p"
  "total_count (record_pooling_count t n p) = total_count p"
  "creating_count (record_pooling_count t n p) = creating_count p"
  "pending_owner_discards (record_pooling_count t n p) = pending_owner_discards p"
  "wait_count (record_pooling_count t n p) = wait_count p" "closed (record_pooling_count t n p) = closed p"
  "enabled (record_pooling_count t n p) = enabled p"
  "user_password_version (record_pooling_count t n p) = user_password_version p"
  "close_queue (record_pooling_count t n p) = close_queue p"
  "close_queue_permits (record_pooling_count t n p) = close_queue_permits p"
  "signals (record_pooling_count t n p) = signals p"
  "destroy_count (record_pooling_count t n p) = destroy_count p"
  "discard_count (record_pooling_count t n p) = discard_count p"
  "close_count (record_pooling_count t n p) = close_count p"
  "recycle_count (record_pooling_count t n p) = recycle_count p"
  "create_count (record_pooling_count t n p) = create_count p"
  "lifecycle_generation (record_pooling_count t n p) = lifecycle_generation p"
  by (simp_all add: record_pooling_count_def split_def Let_def)

lemma request_refill_frame [simp]:
  "idle (snd (request_refill cfg n p)) = idle p"
  "active_count (snd (request_refill cfg n p)) = active_count p"
  "total_count (snd (request_refill cfg n p)) = total_count p"
  "creating_count (snd (request_refill cfg n p)) = creating_count p"
  "pending_owner_discards (snd (request_refill cfg n p)) = pending_owner_discards p"
  "wait_count (snd (request_refill cfg n p)) = wait_count p"
  "closed (snd (request_refill cfg n p)) = closed p"
  "enabled (snd (request_refill cfg n p)) = enabled p"
  "user_password_version (snd (request_refill cfg n p)) = user_password_version p"
  "close_queue (snd (request_refill cfg n p)) = close_queue p"
  "close_queue_permits (snd (request_refill cfg n p)) = close_queue_permits p"
  "signals (snd (request_refill cfg n p)) = signals p @ [NotifyWaiters]"
  "destroy_count (snd (request_refill cfg n p)) = destroy_count p"
  "discard_count (snd (request_refill cfg n p)) = discard_count p"
  "close_count (snd (request_refill cfg n p)) = close_count p"
  "recycle_count (snd (request_refill cfg n p)) = recycle_count p"
  by (simp_all add: request_refill_def Let_def split: option.split bool.split)

lemma request_refill_result:
  "fst (request_refill cfg n p) \<longleftrightarrow>
     \<not> closed p \<and> n > 0 \<and> total_count p < min n (max_open cfg) \<and> create_sender p = Some True"
  by (auto simp: request_refill_def Let_def split: option.split bool.split)

lemma enqueue_close_holder_frame [simp]:
  "idle (snd (enqueue_close_holder cfg h p)) = idle p"
  "active_count (snd (enqueue_close_holder cfg h p)) = active_count p"
  "total_count (snd (enqueue_close_holder cfg h p)) = total_count p"
  "creating_count (snd (enqueue_close_holder cfg h p)) = creating_count p"
  "pending_owner_discards (snd (enqueue_close_holder cfg h p)) = pending_owner_discards p"
  "wait_count (snd (enqueue_close_holder cfg h p)) = wait_count p"
  "closed (snd (enqueue_close_holder cfg h p)) = closed p"
  "enabled (snd (enqueue_close_holder cfg h p)) = enabled p"
  "user_password_version (snd (enqueue_close_holder cfg h p)) = user_password_version p"
  "signals (snd (enqueue_close_holder cfg h p)) = signals p"
  "destroy_count (snd (enqueue_close_holder cfg h p)) = destroy_count p"
  "discard_count (snd (enqueue_close_holder cfg h p)) = discard_count p"
  "close_count (snd (enqueue_close_holder cfg h p)) = close_count p"
  "recycle_count (snd (enqueue_close_holder cfg h p)) = recycle_count p"
  by (simp_all add: enqueue_close_holder_def reject_close_def)

lemma record_destroy_frame [simp]:
  "idle (record_destroy p) = idle p" "active_count (record_destroy p) = active_count p"
  "total_count (record_destroy p) = total_count p - 1"
  "creating_count (record_destroy p) = creating_count p"
  "pending_owner_discards (record_destroy p) = pending_owner_discards p"
  "wait_count (record_destroy p) = wait_count p" "closed (record_destroy p) = closed p"
  "enabled (record_destroy p) = enabled p"
  "user_password_version (record_destroy p) = user_password_version p"
  "close_queue (record_destroy p) = close_queue p"
  "close_queue_permits (record_destroy p) = close_queue_permits p"
  "signals (record_destroy p) = signals p" "destroy_count (record_destroy p) = destroy_count p + 1"
  "discard_count (record_destroy p) = discard_count p" "close_count (record_destroy p) = close_count p"
  "recycle_count (record_destroy p) = recycle_count p"
  by (simp_all add: record_destroy_def)

lemma shutdown_if_idle_frame [simp]:
  "idle (request_close_worker_shutdown_if_idle p) = idle p"
  "active_count (request_close_worker_shutdown_if_idle p) = active_count p"
  "total_count (request_close_worker_shutdown_if_idle p) = total_count p"
  "creating_count (request_close_worker_shutdown_if_idle p) = creating_count p"
  "pending_owner_discards (request_close_worker_shutdown_if_idle p) = pending_owner_discards p"
  "wait_count (request_close_worker_shutdown_if_idle p) = wait_count p"
  "closed (request_close_worker_shutdown_if_idle p) = closed p"
  "enabled (request_close_worker_shutdown_if_idle p) = enabled p"
  "user_password_version (request_close_worker_shutdown_if_idle p) = user_password_version p"
  "close_queue (request_close_worker_shutdown_if_idle p) = close_queue p"
  "close_queue_permits (request_close_worker_shutdown_if_idle p) = close_queue_permits p"
  "signals (request_close_worker_shutdown_if_idle p) = signals p"
  "destroy_count (request_close_worker_shutdown_if_idle p) = destroy_count p"
  "discard_count (request_close_worker_shutdown_if_idle p) = discard_count p"
  "close_count (request_close_worker_shutdown_if_idle p) = close_count p"
  "recycle_count (request_close_worker_shutdown_if_idle p) = recycle_count p"
  by (simp_all add: request_close_worker_shutdown_if_idle_def)

section \<open>What a return does\<close>

definition returnable ::
  "Config \<Rightarrow> 'c closed_check \<Rightarrow> instant \<Rightarrow> 'c Holder \<Rightarrow> 'e Disposition \<Rightarrow> 'c PoolInner \<Rightarrow> bool" where
  "returnable cfg is_closed now h disposition p \<longleftrightarrow>
     is_reusable disposition \<and> state h = Active \<and> \<not> closed p \<and> enabled p
     \<and> \<not> is_discard is_closed h \<and> \<not> return_expired cfg now h p \<and> length (idle p) < max_open cfg"

lemma return_expired_cong:
  "created_at h' = created_at h \<Longrightarrow> use_count h' = use_count h \<Longrightarrow> password_version h' = password_version h \<Longrightarrow>
   user_password_version p' = user_password_version p \<Longrightarrow>
   return_expired cfg now h' p' = return_expired cfg now h p"
  by (simp add: return_expired_def connection_age_def split: option.split)

lemma unusable_cong: "connection h' = connection h \<Longrightarrow>
    raw_connection_is_unusable is_closed h' = raw_connection_is_unusable is_closed h"
  by (simp add: raw_connection_is_unusable_def)

lemma mark_idle_checks [simp]:
  "return_expired cfg now (snd (mark_idle t h)) p = return_expired cfg now h p"
  "raw_connection_is_unusable is_closed (snd (mark_idle t h)) = raw_connection_is_unusable is_closed h"
  "is_discard is_closed (snd (mark_idle t h)) = is_discard is_closed h"
  by (rule return_expired_cong unusable_cong; simp)+ (simp add: is_discard_def raw_connection_is_unusable_def)

lemma return_release_frame [simp]:
  "idle (snd (snd (return_release now d h p))) = idle p"
  "total_count (snd (snd (return_release now d h p))) = total_count p"
  "destroy_count (snd (snd (return_release now d h p))) = destroy_count p"
  "signals (snd (snd (return_release now d h p))) = signals p"
  "closed (snd (snd (return_release now d h p))) = closed p"
  "enabled (snd (snd (return_release now d h p))) = enabled p"
  "user_password_version (snd (snd (return_release now d h p))) = user_password_version p"
  "recycle_count (snd (snd (return_release now d h p))) = recycle_count p"
  "pending_owner_discards (snd (snd (return_release now d h p))) = pending_owner_discards p"
  "creating_count (snd (snd (return_release now d h p))) = creating_count p"
  "wait_count (snd (snd (return_release now d h p))) = wait_count p"
  "close_queue (snd (snd (return_release now d h p))) = close_queue p"
  "close_queue_permits (snd (snd (return_release now d h p))) = close_queue_permits p"
  "active_count (snd (snd (return_release now d h p))) = active_count p - 1"
  by (simp_all add: return_release_def Let_def split_def)

lemma return_release_active:
  assumes "active_count p > 0"
  shows "fst (return_release now d h p) \<longleftrightarrow> state h = Active \<and> is_reusable d"
    and "fst (snd (return_release now d h p)) = snd (mark_idle now h)"
    and "close_count (snd (snd (return_release now d h p))) = close_count p + 1"
  using assms by (simp_all add: return_release_def Let_def split_def mark_idle_iff)

lemma return_check_frame [simp]:
  "idle (snd (return_check cfg ic now h p)) = idle p"
  "total_count (snd (return_check cfg ic now h p)) = total_count p"
  "destroy_count (snd (return_check cfg ic now h p)) = destroy_count p"
  "signals (snd (return_check cfg ic now h p)) = signals p"
  "closed (snd (return_check cfg ic now h p)) = closed p"
  "recycle_count (snd (return_check cfg ic now h p)) = recycle_count p"
  "close_count (snd (return_check cfg ic now h p)) = close_count p"
  "pending_owner_discards (snd (return_check cfg ic now h p)) = pending_owner_discards p"
  "creating_count (snd (return_check cfg ic now h p)) = creating_count p"
  "wait_count (snd (return_check cfg ic now h p)) = wait_count p"
  "close_queue (snd (return_check cfg ic now h p)) = close_queue p"
  "close_queue_permits (snd (return_check cfg ic now h p)) = close_queue_permits p"
  "active_count (snd (return_check cfg ic now h p)) = active_count p"
  by (simp_all add: return_check_def)

lemma return_check_result:
  "fst (return_check cfg ic now h p) \<longleftrightarrow> \<not> closed p \<and> enabled p \<and> \<not> is_discard ic h \<and> \<not> return_expired cfg now h p"
  by (auto simp: return_check_def is_discard_def)

lemma discard_recycled_frame [simp]:
  "idle (snd (discard_recycled_holder_with_overflow cfg h p)) = idle p"
  "active_count (snd (discard_recycled_holder_with_overflow cfg h p)) = active_count p"
  "total_count (snd (discard_recycled_holder_with_overflow cfg h p)) = total_count p - 1"
  "creating_count (snd (discard_recycled_holder_with_overflow cfg h p)) = creating_count p"
  "pending_owner_discards (snd (discard_recycled_holder_with_overflow cfg h p)) = pending_owner_discards p"
  "wait_count (snd (discard_recycled_holder_with_overflow cfg h p)) = wait_count p"
  "closed (snd (discard_recycled_holder_with_overflow cfg h p)) = closed p"
  "enabled (snd (discard_recycled_holder_with_overflow cfg h p)) = enabled p"
  "signals (snd (discard_recycled_holder_with_overflow cfg h p)) = signals p @ [NotifyWaiters]"
  "destroy_count (snd (discard_recycled_holder_with_overflow cfg h p)) = destroy_count p + 1"
  "close_count (snd (discard_recycled_holder_with_overflow cfg h p)) = close_count p"
  "recycle_count (snd (discard_recycled_holder_with_overflow cfg h p)) = recycle_count p"
  "user_password_version (snd (discard_recycled_holder_with_overflow cfg h p)) = user_password_version p"
  by (simp_all add: discard_recycled_holder_with_overflow_def destroy_holder_with_overflow_def split_def Let_def)

text \<open>C4. Returning a borrowed connection either queues it as the next one to be borrowed or retires
  it, and which of the two is decided exactly by the conditions of \<open>returnable\<close>. In both cases the
  lease is closed once; a queued connection keeps its slot and wakes one waiter, a retired one
  frees its slot, is counted as destroyed once and wakes all waiters.\<close>

theorem return_connection_effect:
  assumes "active_count p > 0"
  shows "case return_connection_with_overflow cfg is_closed now now_millis h disposition p of (_, p') \<Rightarrow>
    active_count p' = active_count p - 1 \<and> close_count p' = close_count p + 1 \<and>
    (if returnable cfg is_closed now h disposition p
     then idle p' = idle p @ [snd (take_return_completion (snd (mark_idle now h)))] \<and>
          total_count p' = total_count p \<and> destroy_count p' = destroy_count p \<and>
          recycle_count p' = recycle_count p + 1 \<and> signals p' = signals p @ [NotifyOne]
     else idle p' = idle p \<and> total_count p' = total_count p - 1 \<and>
          destroy_count p' = destroy_count p + 1 \<and> signals p' = signals p @ [NotifyWaiters])"
proof -
  let ?rel = "return_release now disposition h p"
  let ?p1 = "snd (snd ?rel)" and ?h = "snd (mark_idle now h)"
  let ?chk = "return_check cfg is_closed now ?h ?p1"
  have rel: "return_release now disposition h p = (state h = Active \<and> is_reusable disposition, ?h, ?p1)"
    by (simp add: prod_eq_iff return_release_active [OF assms])
  have expired: "return_expired cfg now h ?p1 = return_expired cfg now h p"
    by (rule return_expired_cong) simp_all
  have chk: "fst ?chk \<longleftrightarrow> \<not> closed p \<and> enabled p \<and> \<not> is_discard is_closed h \<and> \<not> return_expired cfg now h p"
    by (simp add: return_check_result expired)
  note close = return_release_active(3) [OF assms, of now disposition h]
  consider (dropped) "\<not> (state h = Active \<and> is_reusable disposition)"
    | (refused) "state h = Active" "is_reusable disposition" "\<not> fst ?chk"
    | (queued) "state h = Active" "is_reusable disposition" "fst ?chk"
    by blast
  then show ?thesis
  proof cases
    case dropped
    then have "return_connection_with_overflow cfg is_closed now now_millis h disposition p =
      map_prod id request_close_worker_shutdown_if_idle (discard_recycled_holder_with_overflow cfg ?h ?p1)"
      by (subst return_connection_with_overflow_def, subst rel) (simp add: split_def Let_def prod_eq_iff)
    with dropped close show ?thesis
      by (auto simp: returnable_def split_def)
  next
    case refused
    then have "return_connection_with_overflow cfg is_closed now now_millis h disposition p =
      map_prod id request_close_worker_shutdown_if_idle (discard_recycled_holder_with_overflow cfg ?h (snd ?chk))"
      by (subst return_connection_with_overflow_def, subst rel) (simp add: split_def Let_def prod_eq_iff)
    with refused chk close show ?thesis
      by (auto simp: returnable_def split_def)
  next
    case queued
    then have "return_connection_with_overflow cfg is_closed now now_millis h disposition p =
      map_prod id request_close_worker_shutdown_if_idle (return_push cfg now_millis ?h (snd ?chk))"
      by (subst return_connection_with_overflow_def, subst rel) (simp add: split_def Let_def prod_eq_iff)
    with queued chk close show ?thesis
      by (auto simp: returnable_def return_push_def split_def Let_def)
  qed
qed

theorem return_connection_effect_witness:
  "length (idle (snd (return_connection_with_overflow Config_default (\<lambda>_. Some False) 0 0
     ((holder_new 0 (Some (0::nat)) 10001 0)\<lparr>state := Active\<rparr>) (Reusable :: DruidError Disposition)
     ((PoolInner_new Config_default)\<lparr>active_count := 1, total_count := 1\<rparr>)))) = 1"
  using return_connection_effect [where p = "(PoolInner_new Config_default)\<lparr>active_count := 1, total_count := 1\<rparr>"
      and cfg = Config_default and is_closed = "\<lambda>_. Some False" and now = 0 and now_millis = 0
      and h = "(holder_new 0 (Some (0::nat)) 10001 0)\<lparr>state := Active\<rparr>"
      and disposition = "Reusable :: DruidError Disposition"]
  by (simp add: split_def returnable_def PoolInner_new_def holder_new_def is_discard_def return_expired_def
      raw_connection_is_unusable_def connection_age_def elapsed_def Config_default_def duration_max_def
      effective_driver_connection_timeout_def)

end
