(* ===== verification/Pool_Acquire.thy ===== *)
theory Pool_Acquire
  imports Pool_Recycle
begin

text \<open>
  Creating and borrowing connections (\<open>druid/src/pool/pool_inner/create.rs\<close>,
  \<open>pool_inner/state.rs\<close> from \<open>validate_connection\<close> on, \<open>druid_pool/acquire.rs\<close>). What an
  asynchronous call of the driver answers is an argument: an \<open>Attempt\<close> holds the outcomes of one
  physical creation in the order the code awaits them, a \<open>Turn\<close> adds the timers of
  \<open>create_connection_until\<close>, a \<open>BorrowEnv\<close> the readings of one round of the borrow loop. A loop
  consumes one such element per round and is \<open>None\<close> while it still runs, so that a result is
  proved, never assumed.
\<close>

section \<open>Validation\<close>

text \<open>What the driver answers to the validation of one connection; \<open>v_checker\<close> is \<open>None\<close> when no
  \<open>ValidConnectionChecker\<close> is configured.\<close>

record Validation =
  v_is_closed :: "(bool, DruidError) result"
  v_checker :: "(bool, DruidError) result option"
  v_query :: "(bool, DruidError) result"

definition valid_or :: "rust_str \<Rightarrow> (bool, DruidError) result \<Rightarrow> (unit, DruidError) result" where
  "valid_or msg r =
     (case r of Err e \<Rightarrow> Err e | Ok b \<Rightarrow> if b then Ok () else Err (ValidationFailed msg))"

definition validate_connection ::
  "Config \<Rightarrow> Validation \<Rightarrow> 'c PoolInner \<Rightarrow> (unit, DruidError) result \<times> 'c PoolInner" where
  "validate_connection cfg v p =
     (let r = (case v_is_closed v of
                 Err e \<Rightarrow> Err e
               | Ok b \<Rightarrow>
                   if b then Err (ValidationFailed (lit ''validateConnection: connection closed''))
                   else case v_checker v of
                     Some c \<Rightarrow> valid_or (lit ''ValidConnectionChecker returned false'') c
                   | None \<Rightarrow>
                       (case validation_query cfg of
                          Some _ \<Rightarrow> valid_or (lit ''validationQuery didn't return a row'') (v_query v)
                        | None \<Rightarrow> Ok ()))
      in (r, if is_ok r then clear_on_fatal_error p else p))"

definition test_holder_internal ::
  "Config \<Rightarrow> Validation \<Rightarrow> 'c Holder \<Rightarrow> 'c PoolInner \<Rightarrow> bool \<times> 'c PoolInner" where
  "test_holder_internal cfg v h p =
     (case connection h of
        None \<Rightarrow> (False, p)
      | Some _ \<Rightarrow> (let (r, p) = validate_connection cfg v p in (is_ok r, p)))"

section \<open>Creation\<close>

record 'c Attempt =
  open_result :: "('c, DruidError) result"
  init_result :: "(unit, DruidError) result"
  sqls_result :: "(bool, DruidError) result"
  a_validation :: Validation
  holder_result :: "(unit, DruidError) result"
  begun_at :: instant
  made_at :: instant
  recorded_at :: u64

text \<open>The slot is reserved before the factory is called, with the credential version of that moment.\<close>

definition create_reserve ::
  "nat \<Rightarrow> instant \<Rightarrow> 'c PoolInner \<Rightarrow> (u64, DruidError) result \<times> 'c PoolInner" where
  "create_reserve capacity_limit now p =
     (case ensure_not_closed p of
        Err e \<Rightarrow> (Err e, p)
      | Ok _ \<Rightarrow>
          if total_count p < capacity_limit then
            (Ok (user_password_version p),
             p\<lparr>total_count := total_count p + 1, creating_count := creating_count p + 1,
               create_failure_state := (create_failure_state p)\<lparr>create_started_at := Some now\<rparr>\<rparr>)
          else (Err PoolExhausted, p))"

text \<open>\<open>Drop\<close> of the two guards when the attempt fails or is cancelled.\<close>

definition create_release :: "'c PoolInner \<Rightarrow> 'c PoolInner" where
  "create_release p = p\<lparr>creating_count := creating_count p - 1, total_count := total_count p - 1\<rparr>"

definition driver_error :: "'c PoolInner \<Rightarrow> 'c PoolInner" where
  "driver_error p = p\<lparr>driver_connect_error_count := driver_connect_error_count p + 1\<rparr>"

definition create_complete ::
  "Config \<Rightarrow> 'c Attempt \<Rightarrow> u64 \<Rightarrow> 'c PoolInner \<Rightarrow> ('c Holder, DruidError) result \<times> 'c PoolInner" where
  "create_complete cfg a version p =
     (case open_result a of
        Err e \<Rightarrow> (Err e, create_release (driver_error p))
      | Ok c \<Rightarrow>
          let (i, p) = PoolInner_next_id p;
              p = p\<lparr>create_count := create_count p + 1\<rparr>
          in case ensure_not_closed p of
               Err e \<Rightarrow> (Err e, create_release (p\<lparr>destroy_count := destroy_count p + 1\<rparr>))
             | Ok _ \<Rightarrow>
                 (case init_result a of Err e \<Rightarrow> (Err e, create_release (driver_error p)) | Ok _ \<Rightarrow>
                  (case sqls_result a of Err e \<Rightarrow> (Err e, create_release (driver_error p)) | Ok checked \<Rightarrow>
                   (let (r, p) = (if checked then (Ok (), p) else validate_connection cfg (a_validation a) p) in
                    case r of Err e \<Rightarrow> (Err e, create_release (driver_error p)) | Ok _ \<Rightarrow>
                    (case holder_result a of
                       Err e \<Rightarrow> (Err e, create_release p)
                     | Ok _ \<Rightarrow> (Ok (holder_new (made_at a) (Some c) i version),
                                p\<lparr>creating_count := creating_count p - 1\<rparr>))))))"

definition create_connection_to_limit_internal ::
  "Config \<Rightarrow> nat \<Rightarrow> 'c Attempt \<Rightarrow> 'c PoolInner \<Rightarrow> ('c Holder, DruidError) result \<times> 'c PoolInner" where
  "create_connection_to_limit_internal cfg capacity_limit a p =
     (case create_reserve capacity_limit (begun_at a) p of
        (Err e, p) \<Rightarrow> (Err e, p)
      | (Ok version, p) \<Rightarrow> create_complete cfg a version p)"

definition create_connection_to_limit ::
  "Config \<Rightarrow> nat \<Rightarrow> 'c Attempt \<Rightarrow> 'c PoolInner \<Rightarrow> ('c Holder, DruidError) result \<times> 'c PoolInner" where
  "create_connection_to_limit cfg capacity_limit a p =
     (let (r, p) = create_connection_to_limit_internal cfg capacity_limit a p in
      (r, case r of
            Ok _ \<Rightarrow> record_create_success cfg (recorded_at a) p
          | Err PoolExhausted \<Rightarrow> p
          | Err (DataSourceClosed _) \<Rightarrow> p
          | Err e \<Rightarrow> record_create_error (recorded_at a) e p))"

definition create_connection ::
  "Config \<Rightarrow> 'c Attempt \<Rightarrow> 'c PoolInner \<Rightarrow> ('c Holder, DruidError) result \<times> 'c PoolInner" where
  "create_connection cfg a p = create_connection_to_limit cfg (max_open cfg) a p"

section \<open>Filling\<close>

fun fill_loop ::
  "Config \<Rightarrow> nat \<Rightarrow> 'c Attempt list \<Rightarrow> nat \<Rightarrow> 'c PoolInner \<Rightarrow> (nat, DruidError) result option \<times> 'c PoolInner" where
  "fill_loop cfg target as created p =
     (if total_count p \<ge> target
      then (Some (Ok created), if created > 0 then notify NotifyWaiters p else p)
      else case as of
        [] \<Rightarrow> (None, p)
      | a # as \<Rightarrow>
          (case create_connection_to_limit cfg target a p of
             (Err PoolExhausted, p) \<Rightarrow>
               (Some (Ok created), if created > 0 then notify NotifyWaiters p else p)
           | (Err e, p) \<Rightarrow> (Some (Err e), p)
           | (Ok h, p) \<Rightarrow>
               if password_version h < user_password_version p
               then fill_loop cfg target as created
                      (destroy_holder cfg h (p\<lparr>discard_count := discard_count p + 1\<rparr>))
               else if closed p
               then (Some (Err (data_source_closed_error p)), destroy_holder cfg h p)
               else let p = p\<lparr>idle := idle p @ [h]\<rparr>
                    in fill_loop cfg target as (created + 1)
                         (record_pooling_count (recorded_at a) (length (idle p)) p)))"

declare fill_loop.simps [simp del]

definition fill ::
  "Config \<Rightarrow> nat \<Rightarrow> 'c Attempt list \<Rightarrow> 'c PoolInner \<Rightarrow> (nat, DruidError) result option \<times> 'c PoolInner" where
  "fill cfg to_count as p =
     (case ensure_not_closed p of
        Err e \<Rightarrow> (Some (Err e), p)
      | Ok _ \<Rightarrow> fill_loop cfg (min to_count (max_open cfg)) as 0 p)"

text \<open>\<open>fill_initial\<close>: each element of the argument holds the attempts of one round of its loop.\<close>

fun fill_initial_loop ::
  "Config \<Rightarrow> 'c Attempt list list \<Rightarrow> 'c PoolInner \<Rightarrow> (unit, DruidError) result option \<times> 'c PoolInner" where
  "fill_initial_loop cfg [] p = (None, p)"
| "fill_initial_loop cfg (as # ass) p =
     (case fill cfg (initial_size cfg) as p of
        (None, p) \<Rightarrow> (None, p)
      | (Some (Ok _), p) \<Rightarrow> (Some (Ok ()), p)
      | (Some (Err e), p) \<Rightarrow>
          if init_exception_throw cfg \<or> closed p then (Some (Err e), p)
          else fill_initial_loop cfg ass p)"

definition fill_initial ::
  "Config \<Rightarrow> 'c Attempt list list \<Rightarrow> 'c PoolInner \<Rightarrow> (unit, DruidError) result option \<times> 'c PoolInner" where
  "fill_initial cfg ass p =
     (if async_init cfg then (Some (Ok ()), snd (request_refill cfg (initial_size cfg) p))
      else fill_initial_loop cfg ass p)"

text \<open>\<open>credentials_changed\<close>: the version moves first, so that everything older is replaced.\<close>

definition discard_stale :: "Config \<Rightarrow> 'c Holder \<Rightarrow> 'c PoolInner \<Rightarrow> 'c PoolInner" where
  "discard_stale cfg h p = destroy_holder cfg h (p\<lparr>discard_count := discard_count p + 1\<rparr>)"

definition credentials_changed ::
  "Config \<Rightarrow> 'c Attempt list \<Rightarrow> 'c PoolInner \<Rightarrow> (u64, DruidError) result option \<times> 'c PoolInner" where
  "credentials_changed cfg as p =
     (let p = p\<lparr>user_password_version := user_password_version p + 1\<rparr>;
          new_version = user_password_version p;
          target_total = total_count p;
          (stale, retained) = partition (\<lambda>h. password_version h < new_version) (idle p);
          p = fold (discard_stale cfg) stale (p\<lparr>idle := retained\<rparr>)
      in case fill cfg target_total as p of
           (None, p) \<Rightarrow> (None, p)
         | (Some (Err e), p) \<Rightarrow> (Some (Err e), p)
         | (Some (Ok _), p) \<Rightarrow> (Some (Ok new_version), p))"

section \<open>Creating for a borrower\<close>

record 'c Turn =
  attempt :: "'c Attempt"
  attempt_timed_out :: bool
  sleep_timed_out :: bool

text \<open>A timed-out attempt is dropped while the factory runs, which releases the reserved slot.\<close>

definition run_attempt ::
  "Config \<Rightarrow> 'c Turn \<Rightarrow> 'c PoolInner \<Rightarrow> ('c Holder, DruidError) result \<times> 'c PoolInner" where
  "run_attempt cfg t p =
     (if attempt_timed_out t then
        (case create_reserve (max_open cfg) (begun_at (attempt t)) p of
           (Err e, _) \<Rightarrow> create_connection cfg (attempt t) p
         | (Ok _, p) \<Rightarrow> (Err AcquireTimeout, create_release p))
      else create_connection cfg (attempt t) p)"

fun create_connection_until ::
  "Config \<Rightarrow> 'c Turn list \<Rightarrow> nat \<Rightarrow> 'c PoolInner \<Rightarrow> ('c Holder, DruidError) result option \<times> 'c PoolInner" where
  "create_connection_until cfg [] error_count p = (None, p)"
| "create_connection_until cfg (t # ts) error_count p =
     (if idle p \<noteq> [] then (Some (Err PoolExhausted), p)
      else case fail_fast_error cfg p of
        Some e \<Rightarrow> (Some (Err e), p)
      | None \<Rightarrow>
          (case run_attempt cfg t p of
             (Ok h, p) \<Rightarrow> (Some (Ok h), p)
           | (Err PoolExhausted, p) \<Rightarrow> (Some (Err PoolExhausted), p)
           | (Err (DataSourceClosed m), p) \<Rightarrow> (Some (Err (DataSourceClosed m)), p)
           | (Err e, p) \<Rightarrow>
               if attempt_timed_out t \<and> e = AcquireTimeout then (Some (Err AcquireTimeout), p)
               else if error_count + 1 \<le> connection_error_retry_attempts cfg
               then create_connection_until cfg ts (error_count + 1) p
               else if time_between_connect_error cfg = 0
               then create_connection_until cfg ts (error_count + 1) p
               else
                 let p = set_fail_continuous cfg (recorded_at (attempt t)) True p in
                 case fail_fast_error cfg p of
                   Some e \<Rightarrow> (Some (Err e), p)
                 | None \<Rightarrow>
                     if break_after_acquire_failure cfg then (Some (Err PoolExhausted), p)
                     else if sleep_timed_out t then (Some (Err AcquireTimeout), p)
                     else create_connection_until cfg ts 0 p))"

section \<open>Borrowing\<close>

record 'c BorrowEnv =
  env_now :: instant
  env_now_millis :: u64
  b_validation :: Validation
  turns :: "'c Turn list"
  wait_timed_out :: bool
  env_waited :: duration

datatype 'c BorrowStep = Lent "'c Holder" | Failed DruidError | Again | Pending

text \<open>Both ways of lending end the same way: the lease is counted, then the generation is checked
  once more and an outdated lease is discarded.\<close>

definition lend ::
  "Config \<Rightarrow> 'c closed_check \<Rightarrow> u64 \<Rightarrow> 'c BorrowEnv \<Rightarrow> 'c Holder \<Rightarrow> 'c PoolInner \<Rightarrow> 'c BorrowStep \<times> 'c PoolInner" where
  "lend cfg is_closed generation env h p =
     (let p = record_active_acquire (env_now_millis env) p in
      case ensure_borrow_generation generation p of
        Err e \<Rightarrow>
          (let (_, p) = return_connection cfg is_closed (env_now env) (env_now_millis env) h (Discard None :: DruidError Disposition) p
           in (Failed e, record_connect_error 2 p))
      | Ok _ \<Rightarrow> (Lent h, p))"

text \<open>A popped idle holder; every \<open>continue\<close> drops the candidate guard, which destroys the holder.\<close>

definition borrow_idle ::
  "Config \<Rightarrow> 'c closed_check \<Rightarrow> u64 \<Rightarrow> 'c BorrowEnv \<Rightarrow> 'c Holder \<Rightarrow> nat \<Rightarrow> 'c PoolInner \<Rightarrow>
   'c BorrowStep \<times> 'c PoolInner" where
  "borrow_idle cfg is_closed generation env h remaining_idle p =
     (if password_version h < user_password_version p then (Again, destroy_holder cfg h p)
      else if connection_age (env_now env) h \<ge> max_lifetime cfg
              \<or> (remaining_idle \<ge> min_idle cfg \<and> idle_duration (env_now env) h \<ge> idle_timeout cfg)
      then (Again, destroy_holder cfg h p)
      else if raw_connection_is_unusable is_closed h then (Again, destroy_holder cfg h p)
      else
        let validate = test_on_borrow cfg
              \<or> (test_while_idle cfg \<and> idle_duration (env_now env) h \<ge> time_between_eviction_runs cfg);
            (valid, p) = (if validate then test_holder_internal cfg (b_validation env) h p else (True, p))
        in if \<not> valid then (Again, destroy_holder cfg h p)
           else
             let h = (if validate then record_valid (env_now env) h else h);
                 (marked, h) = mark_active h
             in if \<not> marked then (Again, destroy_holder cfg h p)
                else lend cfg is_closed generation env h p)"

definition borrow_created ::
  "Config \<Rightarrow> 'c closed_check \<Rightarrow> u64 \<Rightarrow> 'c BorrowEnv \<Rightarrow> 'c Holder \<Rightarrow> 'c PoolInner \<Rightarrow> 'c BorrowStep \<times> 'c PoolInner" where
  "borrow_created cfg is_closed generation env h p =
     (if password_version h < user_password_version p
      then (Again, destroy_holder cfg h (p\<lparr>discard_count := discard_count p + 1\<rparr>))
      else let (marked, h) = mark_active h in
        if \<not> marked then (Again, destroy_holder cfg h p)
        else lend cfg is_closed generation env h p)"

definition borrow_wait ::
  "Config \<Rightarrow> instant \<Rightarrow> 'c BorrowEnv \<Rightarrow> 'c PoolInner \<Rightarrow> 'c BorrowStep \<times> 'c PoolInner" where
  "borrow_wait cfg started_at env p =
     (case register_waiter cfg p of
        (Err e, p) \<Rightarrow> (Failed e, record_connect_error 2 p)
      | (Ok _, p) \<Rightarrow>
          if wait_timed_out env
          then (Failed (connection_timeout_error cfg (env_now env) (elapsed (env_now env) started_at) p),
                drop_waiter (env_waited env) p)
          else (Again, drop_waiter (env_waited env) p))"

definition borrow_round ::
  "Config \<Rightarrow> 'c closed_check \<Rightarrow> u64 \<Rightarrow> instant \<Rightarrow> 'c BorrowEnv \<Rightarrow> 'c PoolInner \<Rightarrow> 'c BorrowStep \<times> 'c PoolInner" where
  "borrow_round cfg is_closed generation started_at env p =
     (case ensure_borrow_generation generation p of
        Err e \<Rightarrow> (Failed e, record_connect_error 2 p)
      | Ok _ \<Rightarrow>
     (case ensure_fatal_error_available cfg p of
        Err e \<Rightarrow> (Failed e, record_connect_error 2 p)
      | Ok _ \<Rightarrow>
        let p = p\<lparr>connect_count := connect_count p + 1\<rparr> in
        if idle p \<noteq> [] then
          (let h = last (idle p); p = p\<lparr>idle := butlast (idle p)\<rparr>
           in borrow_idle cfg is_closed generation env h (length (idle p)) p)
        else
          (case create_connection_until cfg (turns env) 0 p of
             (None, p) \<Rightarrow> (Pending, p)
           | (Some (Ok h), p) \<Rightarrow> borrow_created cfg is_closed generation env h p
           | (Some (Err e), p) \<Rightarrow>
               if e = PoolExhausted then
                 (if idle p \<noteq> [] then (Again, p) else borrow_wait cfg started_at env p)
               else if e = AcquireTimeout then
                 (Failed (connection_timeout_error cfg (env_now env) (elapsed (env_now env) started_at) p), p)
               else if idle p \<noteq> [] then (Again, p)
               else (case e of
                       DataSourceNotAvailable _ \<Rightarrow> (Failed e, record_connect_error 1 p)
                     | _ \<Rightarrow> (Failed e, p)))))"

fun borrow_loop ::
  "Config \<Rightarrow> 'c closed_check \<Rightarrow> u64 \<Rightarrow> instant \<Rightarrow> 'c BorrowEnv list \<Rightarrow> 'c PoolInner \<Rightarrow>
   ('c Holder, DruidError) result option \<times> 'c PoolInner" where
  "borrow_loop cfg is_closed generation started_at [] p = (None, p)"
| "borrow_loop cfg is_closed generation started_at (env # envs) p =
     (case borrow_round cfg is_closed generation started_at env p of
        (Lent h, p) \<Rightarrow> (Some (Ok h), p)
      | (Failed e, p) \<Rightarrow> (Some (Err e), p)
      | (Again, p) \<Rightarrow> borrow_loop cfg is_closed generation started_at envs p
      | (Pending, p) \<Rightarrow> (None, p))"

text \<open>\<open>get_connection_internal\<close> of an initialised pool.\<close>

definition get_connection_internal ::
  "Config \<Rightarrow> 'c closed_check \<Rightarrow> instant \<Rightarrow> 'c BorrowEnv list \<Rightarrow> 'c PoolInner \<Rightarrow>
   ('c Holder, DruidError) result option \<times> 'c PoolInner" where
  "get_connection_internal cfg is_closed started_at envs p =
     (case ensure_available p of
        Err e \<Rightarrow> (Some (Err e), record_connect_error 1 p)
      | Ok _ \<Rightarrow> borrow_loop cfg is_closed (lifecycle_generation p) started_at envs p)"

text \<open>The retry loop around it: one element of the argument per call.\<close>

fun get_with_timeout ::
  "Config \<Rightarrow> 'c closed_check \<Rightarrow> int \<Rightarrow> (instant \<times> 'c BorrowEnv list) list \<Rightarrow> 'c PoolInner \<Rightarrow>
   ('c Holder, DruidError) result option \<times> 'c PoolInner" where
  "get_with_timeout cfg is_closed retries [] p = (None, p)"
| "get_with_timeout cfg is_closed retries ((started_at, envs) # calls) p =
     (case get_connection_internal cfg is_closed started_at envs p of
        (Some (Err (GetConnectionTimeout a b c d e f g)), p) \<Rightarrow>
          if retries < not_full_timeout_retry_count cfg \<and> \<not> is_full cfg p
          then get_with_timeout cfg is_closed (retries + 1) calls p
          else (Some (Err (GetConnectionTimeout a b c d e f g)), p)
      | (r, p) \<Rightarrow> (r, p))"

end
