(* ===== verification/Shrink_Policy.thy ===== *)
theory Shrink_Policy
  imports Prelude
begin

text \<open>
  The pure shrink policy (\<open>druid-rdbc/src/governance/shrink_policy.rs\<close>): the decision for one idle
  connection. Durations are \<open>u64\<close> milliseconds.
\<close>

datatype ShrinkDecision = Evict | KeepAlive | Retain | StopScan

record ShrinkPolicy =
  sp_min_idle :: nat
  min_evictable_idle_millis :: u64
  max_evictable_idle_millis :: u64
  sp_keep_alive :: bool
  keep_alive_between_millis :: u64
  phy_timeout_millis :: u64

definition ShrinkPolicy_default :: ShrinkPolicy where
  "ShrinkPolicy_default = \<lparr>sp_min_idle = 0, min_evictable_idle_millis = 1800000,
     max_evictable_idle_millis = 7200000, sp_keep_alive = False, keep_alive_between_millis = 120000,
     phy_timeout_millis = 0\<rparr>"

definition classify :: "nat \<Rightarrow> nat \<Rightarrow> u64 \<Rightarrow> u64 \<Rightarrow> u64 \<Rightarrow> ShrinkPolicy \<Rightarrow> ShrinkDecision" where
  "classify index pooling_count idle_millis connect_age_millis since_last_keep_millis policy =
     (let check_count = pooling_count - sp_min_idle policy in
      if phy_timeout_millis policy > 0 \<and> connect_age_millis > phy_timeout_millis policy then Evict
      else if idle_millis < min_evictable_idle_millis policy
              \<and> idle_millis < keep_alive_between_millis policy then StopScan
      else if idle_millis \<ge> min_evictable_idle_millis policy
              \<and> (index < check_count \<or> idle_millis > max_evictable_idle_millis policy) then Evict
      else if sp_keep_alive policy \<and> idle_millis \<ge> keep_alive_between_millis policy
              \<and> since_last_keep_millis \<ge> keep_alive_between_millis policy then KeepAlive
      else Retain)"

section \<open>What a decision means\<close>

lemma classify_evict_iff:
  "classify i n idle age keep p = Evict \<longleftrightarrow>
     (phy_timeout_millis p > 0 \<and> age > phy_timeout_millis p) \<or>
     (idle \<ge> min_evictable_idle_millis p \<and> (i < n - sp_min_idle p \<or> idle > max_evictable_idle_millis p))"
  by (auto simp: classify_def Let_def not_less)

text \<open>An eviction of a connection among the \<open>minIdle\<close> last ones needs the hard limit or the
  physical timeout.\<close>

lemma classify_evict_protected:
  assumes "classify i n idle age keep p = Evict" and "n - sp_min_idle p \<le> i"
  shows "idle > max_evictable_idle_millis p \<or> (phy_timeout_millis p > 0 \<and> age > phy_timeout_millis p)"
  using assms by (auto simp: classify_evict_iff)

lemma classify_keep_alive:
  "classify i n idle age keep p = KeepAlive \<Longrightarrow>
     sp_keep_alive p \<and> idle \<ge> keep_alive_between_millis p \<and> keep \<ge> keep_alive_between_millis p"
  by (auto simp: classify_def Let_def split: if_splits)

lemma classify_stop_scan_iff:
  "classify i n idle age keep p = StopScan \<longleftrightarrow>
     \<not> (phy_timeout_millis p > 0 \<and> age > phy_timeout_millis p) \<and>
     idle < min_evictable_idle_millis p \<and> idle < keep_alive_between_millis p"
  by (auto simp: classify_def Let_def)

text \<open>Without a physical timeout, the scan may stop at the first connection that is idle for less
  than both thresholds: every connection that was idle for at most as long gets the same decision,
  so stopping loses nothing on a queue ordered by idle time.\<close>

lemma classify_stop_scan_antimono:
  assumes "classify i n idle age keep p = StopScan" and "idle' \<le> idle" and "phy_timeout_millis p = 0"
  shows "classify j n idle' age' keep' p = StopScan"
  using assms by (auto simp: classify_stop_scan_iff)

end
