(* ===== verification/Pool_Shrink.thy ===== *)
theory Pool_Shrink
  imports Pool_Acquire Shrink_Policy
begin

text \<open>
  Shrinking, keep-alive and closing (\<open>druid/src/pool/pool_inner/recycle.rs\<close>, \<open>shrink\<close> and
  \<open>close\<close>; the maintenance turn of \<open>druid_pool/acquire.rs\<close>). The scan runs under the queue lock;
  everything after it works on holders that left the queue and belong to the call.
\<close>

section \<open>The scan\<close>

definition shrink_policy_of :: "Config \<Rightarrow> bool \<Rightarrow> ShrinkPolicy" where
  "shrink_policy_of cfg keep =
     \<lparr>sp_min_idle = min_idle cfg, min_evictable_idle_millis = duration_millis (idle_timeout cfg),
      max_evictable_idle_millis = duration_millis (max_evictable_idle_time cfg), sp_keep_alive = keep,
      keep_alive_between_millis = duration_millis (keep_alive_between_time cfg),
      phy_timeout_millis =
        (case effective_driver_connection_timeout cfg of
           Some t \<Rightarrow> if t \<noteq> 0 then duration_millis t else 0 | None \<Rightarrow> 0)\<rparr>"

definition predates_fatal_error :: "FatalShrinkSnapshot \<Rightarrow> 'c Holder \<Rightarrow> bool" where
  "predates_fatal_error fatal h =
     (case fs_last_fatal_error_at fatal of None \<Rightarrow> False | Some t \<Rightarrow> created_at h < t)"

definition recheck :: "FatalShrinkSnapshot \<Rightarrow> 'c Holder \<Rightarrow> bool" where
  "recheck fatal h \<longleftrightarrow>
     (fs_on_fatal_error fatal \<or> sint (fatal_error_increment fatal) > 0) \<and> predates_fatal_error fatal h"

definition holder_decision ::
  "Config \<Rightarrow> bool \<Rightarrow> instant \<Rightarrow> nat \<Rightarrow> nat \<Rightarrow> 'c Holder \<Rightarrow> ShrinkDecision" where
  "holder_decision cfg keep now pooling_count index h =
     classify index pooling_count (duration_millis (idle_duration now h))
       (duration_millis (connection_age now h))
       (duration_millis (case last_keep_elapsed now h of Some d \<Rightarrow> d | None \<Rightarrow> duration_max))
       (shrink_policy_of cfg keep)"

text \<open>The loop over the queue from its oldest end: retained, evicted and keep-alive holders.\<close>

fun shrink_scan ::
  "Config \<Rightarrow> FatalShrinkSnapshot \<Rightarrow> bool \<Rightarrow> bool \<Rightarrow> instant \<Rightarrow> nat \<Rightarrow> nat \<Rightarrow> 'c Holder list \<Rightarrow>
   'c Holder list \<times> 'c Holder list \<times> 'c Holder list" where
  "shrink_scan cfg fatal check_time keep now pooling_count index [] = ([], [], [])"
| "shrink_scan cfg fatal check_time keep now pooling_count index (h # queue) =
     (if recheck fatal h then
        (case shrink_scan cfg fatal check_time keep now pooling_count (index + 1) queue of
           (retained, evicted, candidates) \<Rightarrow> (retained, evicted, h # candidates))
      else if \<not> check_time then
        (if index < pooling_count - min_idle cfg then
           (case shrink_scan cfg fatal check_time keep now pooling_count (index + 1) queue of
              (retained, evicted, candidates) \<Rightarrow> (retained, h # evicted, candidates))
         else (h # queue, [], []))
      else
        (case holder_decision cfg keep now pooling_count index h of
           StopScan \<Rightarrow> (h # queue, [], [])
         | Evict \<Rightarrow>
             (case shrink_scan cfg fatal check_time keep now pooling_count (index + 1) queue of
                (retained, evicted, candidates) \<Rightarrow> (retained, h # evicted, candidates))
         | KeepAlive \<Rightarrow>
             (case shrink_scan cfg fatal check_time keep now pooling_count (index + 1) queue of
                (retained, evicted, candidates) \<Rightarrow> (retained, evicted, h # candidates))
         | Retain \<Rightarrow>
             (case shrink_scan cfg fatal check_time keep now pooling_count (index + 1) queue of
                (retained, evicted, candidates) \<Rightarrow> (h # retained, evicted, candidates))))"

section \<open>After the scan\<close>

text \<open>The keep-alive check of one candidate: its validation, whether a close of it would time out,
  and the clock after a success. \<open>Some\<close> of the refreshed holder when it is valid.\<close>

definition keep_alive_check ::
  "Config \<Rightarrow> Validation \<Rightarrow> bool \<Rightarrow> instant \<Rightarrow> 'c Holder \<Rightarrow> 'c PoolInner \<Rightarrow> 'c Holder option \<times> 'c PoolInner" where
  "keep_alive_check cfg v close_timed_out now h p =
     (let h = increment_keep_alive_check_count h;
          (entered, h) = try_transition Idle Validating h;
          (valid, p) = (if entered then test_holder_internal cfg v h p else (False, p));
          (back, h) = (if valid then try_transition Validating Idle h else (False, h))
      in if valid \<and> back then (Some (record_keep_alive now h), p)
         else (None, destroy_holder_now close_timed_out
                       (p\<lparr>keep_alive_check_error_count := keep_alive_check_error_count p + 1,
                          discard_count := discard_count p + 1\<rparr>)))"

text \<open>Candidates are checked from the last one to the first; the valid ones keep their order.\<close>

fun keep_alive_loop ::
  "Config \<Rightarrow> ('c Holder \<Rightarrow> Validation \<times> bool \<times> instant) \<Rightarrow> 'c Holder list \<Rightarrow> 'c Holder list \<Rightarrow>
   'c PoolInner \<Rightarrow> 'c Holder list \<times> 'c PoolInner" where
  "keep_alive_loop cfg answer [] validated p = (validated, p)"
| "keep_alive_loop cfg answer (h # hs) validated p =
     (case answer h of (v, close_timed_out, now) \<Rightarrow>
      (case keep_alive_check cfg v close_timed_out now h p of
         (Some h', p) \<Rightarrow> keep_alive_loop cfg answer hs (h' # validated) p
       | (None, p) \<Rightarrow> keep_alive_loop cfg answer hs validated p))"

definition put_back_validated :: "Config \<Rightarrow> u64 \<Rightarrow> 'c Holder list \<Rightarrow> 'c PoolInner \<Rightarrow> 'c PoolInner" where
  "put_back_validated cfg now_millis validated p =
     (if validated \<noteq> [] \<and> \<not> closed p then
        let p = p\<lparr>idle := validated @ idle p\<rparr>
        in notify NotifyWaiters (record_pooling_count now_millis (length (idle p)) p)
      else fold (destroy_holder cfg) validated p)"

text \<open>What the driver and the clock answer during one shrink.\<close>

record 'c ShrinkEnv =
  s_now :: instant
  s_now_millis :: u64
  s_close_timeouts :: "'c Holder \<Rightarrow> bool"
  s_answer :: "'c Holder \<Rightarrow> Validation \<times> bool \<times> instant"
  s_attempts :: "'c Attempt list"

definition shrink_tail ::
  "Config \<Rightarrow> FatalShrinkSnapshot \<Rightarrow> bool \<Rightarrow> 'c Attempt list \<Rightarrow> 'c PoolInner \<Rightarrow> 'c PoolInner" where
  "shrink_tail cfg fatal keep as p =
     (let p = (if keep \<and> total_count p < min_idle cfg then snd (fill cfg (min_idle cfg) as p) else p)
      in if sint (fatal_error_increment fatal) > 0 then request_fatal_error_refill cfg p else p)"

definition shrink :: "Config \<Rightarrow> bool \<Rightarrow> bool \<Rightarrow> 'c ShrinkEnv \<Rightarrow> 'c PoolInner \<Rightarrow> 'c PoolInner" where
  "shrink cfg check_time keep env p =
     (if closed p then p
      else
        let (fatal, p) = fatal_shrink_snapshot p;
            (retained, evicted, candidates) =
              shrink_scan cfg fatal check_time keep (s_now env) (length (idle p)) 0 (idle p);
            p = p\<lparr>idle := retained\<rparr>;
            p = fold (\<lambda>h. destroy_holder_now (s_close_timeouts env h)) evicted p
        in if candidates = [] then shrink_tail cfg fatal keep (s_attempts env) p
           else
             let p = p\<lparr>keep_alive_check_count := keep_alive_check_count p + of_nat (length candidates)\<rparr>;
                 (validated, p) = keep_alive_loop cfg (s_answer env) (rev candidates) [] p;
                 p = put_back_validated cfg (s_now_millis env) validated p
             in shrink_tail cfg fatal keep (s_attempts env) p)"

definition close :: "u64 \<Rightarrow> ('c Holder \<Rightarrow> bool) \<Rightarrow> 'c PoolInner \<Rightarrow> 'c PoolInner" where
  "close now_millis close_timeouts p =
     (let p = p\<lparr>enabled := False, close_time_millis := now_millis, closed := True\<rparr>;
          drained = idle p;
          p = p\<lparr>idle := []\<rparr>;
          p = fold (\<lambda>h. destroy_holder_now (close_timeouts h)) drained p
      in notify NotifyWaiters p)"

text \<open>One turn of the maintenance task.\<close>

definition maintenance_turn :: "Config \<Rightarrow> 'c ShrinkEnv \<Rightarrow> 'c Attempt list \<Rightarrow> 'c PoolInner \<Rightarrow> 'c PoolInner" where
  "maintenance_turn cfg env as p =
     (if closed p then p
      else let p = shrink cfg True (keep_alive cfg) env p
           in if keep_alive cfg then snd (fill cfg (min_idle cfg) as p) else p)"

end
