(* ===== verification/Pool_Steps.thy ===== *)
theory Pool_Steps
  imports Pool_Shrink "HOL-Library.Multiset"
begin

text \<open>
  The pool under concurrency. A world is the shared pool together with what the running tasks and
  the borrowers own: leased connections, connections a task took out of the queue or just created,
  connections on their way back, reservations of creations in flight, connections whose discard was
  already accounted. A step is one synchronous section of the code of
  \<open>druid/src/pool/pool_inner\<close> and \<open>druid_pool\<close> on behalf of one task; any interleaving of
  sections, cancellation included, is a run of steps.
\<close>

section \<open>Worlds and steps\<close>

record 'c World =
  pool :: "'c PoolInner"
  leases :: "'c Holder multiset"
  owned :: "'c Holder multiset"
  returning :: "'c Holder multiset"
  ready :: "'c Holder multiset"
  doomed :: "'c Holder multiset"
  reserved :: "u64 multiset"
  signaled :: "'c Holder multiset"
  waiters :: nat

definition World_new :: "Config \<Rightarrow> 'c World" where
  "World_new cfg = \<lparr>pool = PoolInner_new cfg, leases = {#}, owned = {#}, returning = {#}, ready = {#},
     doomed = {#}, reserved = {#}, signaled = {#}, waiters = 0\<rparr>"

text \<open>Operations that touch neither the connections nor their counters.\<close>

inductive bookkeeping :: "Config \<Rightarrow> 'c PoolInner \<Rightarrow> 'c PoolInner \<Rightarrow> bool" for cfg where
  bk_enable: "bookkeeping cfg p (set_enabled b p)"
| bk_generation: "bookkeeping cfg p (snd (advance_lifecycle_generation p))"
| bk_credentials: "bookkeeping cfg p (p\<lparr>user_password_version := user_password_version p + 1\<rparr>)"
| bk_snapshot: "bookkeeping cfg p (snd (stat_snapshot_and_reset p))"
| bk_reset: "bookkeeping cfg p (reset_stats p)"
| bk_fatal: "bookkeeping cfg p (snd (handle_fatal_error cfg now now_millis e sql p))"
| bk_fatal_refill: "bookkeeping cfg p (request_fatal_error_refill cfg p)"
| bk_connect_error: "bookkeeping cfg p (record_connect_error n p)"
| bk_connect: "bookkeeping cfg p (p\<lparr>connect_count := connect_count p + 1\<rparr>)"
| bk_fail_continuous: "bookkeeping cfg p (set_fail_continuous cfg now_millis b p)"
| bk_create_error: "bookkeeping cfg p (record_create_error now_millis e p)"
| bk_create_success: "bookkeeping cfg p (record_create_success cfg now_millis p)"
| bk_shutdown: "bookkeeping cfg p (request_close_worker_shutdown_if_idle p)"
| bk_create_shutdown: "bookkeeping cfg p (request_create_worker_shutdown p)"
| bk_create_sender: "bookkeeping cfg p (install_create_sender p)"
| bk_close_sender: "close_queue p = [] \<Longrightarrow> bookkeeping cfg p (install_close_sender p)"
| bk_notify: "bookkeeping cfg p (notify s p)"

inductive step :: "Config \<Rightarrow> 'c closed_check \<Rightarrow> 'c World \<Rightarrow> 'c World \<Rightarrow> bool" for cfg is_closed where
  st_bookkeeping:
    "bookkeeping cfg (pool w) p \<Longrightarrow> step cfg is_closed w (w\<lparr>pool := p\<rparr>)"
| st_restart:
    "active_count (pool w) = 0 \<Longrightarrow> step cfg is_closed w (w\<lparr>pool := prepare_restart (pool w)\<rparr>)"
| st_reserve:
    "create_reserve limit now (pool w) = (Ok v, p) \<Longrightarrow> limit \<le> max_open cfg \<Longrightarrow>
     step cfg is_closed w (w\<lparr>pool := p, reserved := add_mset v (reserved w)\<rparr>)"
| st_create_ok:
    "v \<in># reserved w \<Longrightarrow> create_complete cfg a v (pool w) = (Ok h, p) \<Longrightarrow>
     step cfg is_closed w (w\<lparr>pool := p, reserved := reserved w - {#v#}, owned := add_mset h (owned w)\<rparr>)"
| st_create_fail:
    "v \<in># reserved w \<Longrightarrow> create_complete cfg a v (pool w) = (Err e, p) \<Longrightarrow>
     step cfg is_closed w (w\<lparr>pool := p, reserved := reserved w - {#v#}\<rparr>)"
| st_create_cancel:
    "v \<in># reserved w \<Longrightarrow>
     step cfg is_closed w (w\<lparr>pool := create_release (pool w), reserved := reserved w - {#v#}\<rparr>)"
| st_push:
    "h \<in># owned w \<Longrightarrow> \<not> closed (pool w) \<Longrightarrow> p = (pool w)\<lparr>idle := idle (pool w) @ [h]\<rparr> \<Longrightarrow>
     step cfg is_closed w (w\<lparr>pool := record_pooling_count now_millis (length (idle p)) p,
                             owned := owned w - {#h#}\<rparr>)"
| st_take:
    "idle (pool w) = hs @ [h] \<Longrightarrow>
     step cfg is_closed w (w\<lparr>pool := (pool w)\<lparr>idle := hs\<rparr>, owned := add_mset h (owned w)\<rparr>)"
| st_lend:
    "h \<in># owned w \<Longrightarrow> mark_active h = (True, h') \<Longrightarrow>
     step cfg is_closed w (w\<lparr>pool := record_active_acquire now_millis (pool w),
                             owned := owned w - {#h#}, leases := add_mset h' (leases w)\<rparr>)"
| st_destroy:
    "h \<in># owned w \<Longrightarrow>
     step cfg is_closed w (w\<lparr>pool := destroy_holder cfg h (pool w), owned := owned w - {#h#}\<rparr>)"
| st_destroy_now:
    "h \<in># owned w \<Longrightarrow>
     step cfg is_closed w (w\<lparr>pool := destroy_holder_now b (pool w), owned := owned w - {#h#}\<rparr>)"
| st_discard:
    "h \<in># doomed w \<Longrightarrow>
     step cfg is_closed w (w\<lparr>pool := snd (discard_recycled_holder_with_overflow cfg h (pool w)),
                             doomed := doomed w - {#h#}\<rparr>)"
| st_release:
    "h \<in># leases w \<Longrightarrow> return_release now (d :: DruidError Disposition) h (pool w) = (b, h', p) \<Longrightarrow>
     step cfg is_closed w
       (if b then w\<lparr>pool := p, leases := leases w - {#h#}, returning := add_mset h' (returning w)\<rparr>
        else w\<lparr>pool := p, leases := leases w - {#h#}, doomed := add_mset h' (doomed w)\<rparr>)"
| st_check:
    "h \<in># returning w \<Longrightarrow> return_check cfg is_closed now h (pool w) = (b, p) \<Longrightarrow>
     step cfg is_closed w
       (if b then w\<lparr>pool := p, returning := returning w - {#h#}, ready := add_mset h (ready w)\<rparr>
        else w\<lparr>pool := p, returning := returning w - {#h#}, doomed := add_mset h (doomed w)\<rparr>)"
| st_return_push:
    "h \<in># ready w \<Longrightarrow> return_push cfg now_millis h (pool w) = (r, p) \<Longrightarrow>
     step cfg is_closed w (w\<lparr>pool := p, ready := ready w - {#h#}\<rparr>)"
| st_signal:
    "h \<in># leases w \<Longrightarrow>
     step cfg is_closed w (w\<lparr>pool := signal_owner_discard cfg (d :: DruidError Disposition) (pool w),
                             leases := leases w - {#h#}, signaled := add_mset h (signaled w)\<rparr>)"
| st_finish:
    "h \<in># signaled w \<Longrightarrow> finish_signaled_discard_with_overflow cfg h (pool w) = (r, p) \<Longrightarrow>
     step cfg is_closed w (w\<lparr>pool := p, signaled := signaled w - {#h#}\<rparr>)"
| st_scan:
    "fatal_shrink_snapshot (pool w) = (fatal, p) \<Longrightarrow>
     shrink_scan cfg fatal check_time keep now (length (idle p)) 0 (idle p) = (retained, evicted, candidates) \<Longrightarrow>
     step cfg is_closed w (w\<lparr>pool := p\<lparr>idle := retained\<rparr>, owned := owned w + mset evicted + mset candidates\<rparr>)"
| st_keep_alive:
    "h \<in># owned w \<Longrightarrow> keep_alive_check cfg v b now h (pool w) = (r, p) \<Longrightarrow>
     step cfg is_closed w
       (case r of Some h' \<Rightarrow> w\<lparr>pool := p, owned := add_mset h' (owned w - {#h#})\<rparr>
        | None \<Rightarrow> w\<lparr>pool := p, owned := owned w - {#h#}\<rparr>)"
| st_put_back:
    "mset hs \<subseteq># owned w \<Longrightarrow> \<not> closed (pool w) \<Longrightarrow> hs \<noteq> [] \<Longrightarrow>
     step cfg is_closed w (w\<lparr>pool := put_back_validated cfg now_millis hs (pool w), owned := owned w - mset hs\<rparr>)"
| st_close_mark:
    "step cfg is_closed w (w\<lparr>pool := (pool w)\<lparr>enabled := False, close_time_millis := now_millis, closed := True\<rparr>\<rparr>)"
| st_drain:
    "closed (pool w) \<Longrightarrow>
     step cfg is_closed w (w\<lparr>pool := (pool w)\<lparr>idle := []\<rparr>, owned := owned w + mset (idle (pool w))\<rparr>)"
| st_wait:
    "register_waiter cfg (pool w) = (Ok (), p) \<Longrightarrow>
     step cfg is_closed w (w\<lparr>pool := p, waiters := waiters w + 1\<rparr>)"
| st_unwait:
    "waiters w > 0 \<Longrightarrow>
     step cfg is_closed w (w\<lparr>pool := drop_waiter waited (pool w), waiters := waiters w - 1\<rparr>)"
| st_close_worker:
    "step cfg is_closed w (w\<lparr>pool := close_worker_turn b (pool w)\<rparr>)"

abbreviation steps :: "Config \<Rightarrow> 'c closed_check \<Rightarrow> 'c World \<Rightarrow> 'c World \<Rightarrow> bool" where
  "steps cfg is_closed \<equiv> (step cfg is_closed)\<^sup>*\<^sup>*"

definition reachable :: "Config \<Rightarrow> 'c closed_check \<Rightarrow> 'c World \<Rightarrow> bool" where
  "reachable cfg is_closed w \<longleftrightarrow> steps cfg is_closed (World_new cfg) w"

section \<open>The ledger\<close>

definition in_hand :: "'c World \<Rightarrow> nat" where
  "in_hand w = size (owned w) + size (returning w) + size (ready w) + size (doomed w) + size (reserved w)"

definition queue_ok :: "Config \<Rightarrow> 'c PoolInner \<Rightarrow> bool" where
  "queue_ok cfg p \<longleftrightarrow> close_queue_permits p + length (close_queue p) = max (close_queue_capacity cfg) 1"

definition pooled :: "'c Holder \<Rightarrow> bool" where
  "pooled h \<longleftrightarrow> state h = Idle \<and> \<not> discard h"

definition lent :: "'c Holder \<Rightarrow> bool" where
  "lent h \<longleftrightarrow> state h = Active \<and> \<not> discard h"

definition holders_ok :: "'c World \<Rightarrow> bool" where
  "holders_ok w \<longleftrightarrow> (\<forall>h \<in> set (idle (pool w)). pooled h) \<and> (\<forall>h \<in># owned w. pooled h) \<and>
     (\<forall>h \<in># returning w. pooled h) \<and> (\<forall>h \<in># ready w. pooled h) \<and> (\<forall>h \<in># leases w. lent h)"

definition ledger :: "Config \<Rightarrow> 'c World \<Rightarrow> bool" where
  "ledger cfg w \<longleftrightarrow>
     total_count (pool w) = length (idle (pool w)) + size (leases w) + in_hand w
     \<and> total_count (pool w) \<le> max_open cfg
     \<and> active_count (pool w) = size (leases w)
     \<and> creating_count (pool w) = size (reserved w)
     \<and> pending_owner_discards (pool w) = size (signaled w)
     \<and> wait_count (pool w) = waiters w
     \<and> queue_ok cfg (pool w)"

section \<open>Every step keeps the ledger\<close>

text \<open>The fields the ledger reads.\<close>

definition same_ledger :: "'c PoolInner \<Rightarrow> 'c PoolInner \<Rightarrow> bool" where
  "same_ledger p q \<longleftrightarrow> idle q = idle p \<and> total_count q = total_count p \<and> active_count q = active_count p
     \<and> creating_count q = creating_count p \<and> pending_owner_discards q = pending_owner_discards p
     \<and> wait_count q = wait_count p \<and> close_queue q = close_queue p
     \<and> close_queue_permits q = close_queue_permits p"

lemma set_fail_continuous_same: "same_ledger p (set_fail_continuous cfg t b p)"
  by (simp add: same_ledger_def set_fail_continuous_def Let_def)

lemma same_ledger_trans: "same_ledger p q \<Longrightarrow> same_ledger q r \<Longrightarrow> same_ledger p r"
  by (simp add: same_ledger_def)

lemma bookkeeping_same: "bookkeeping cfg p q \<Longrightarrow> same_ledger p q"
proof (induction rule: bookkeeping.induct)
  case (bk_fail_continuous p t b)
  show ?case by (rule set_fail_continuous_same)
next
  case (bk_create_success p t)
  show ?case
    unfolding record_create_success_def
    by (rule same_ledger_trans [OF _ set_fail_continuous_same]) (simp add: same_ledger_def)
qed (simp_all add: same_ledger_def set_enabled_def advance_lifecycle_generation_def
    stat_snapshot_and_reset_def reset_stats_def handle_fatal_error_def request_fatal_error_refill_def
    record_connect_error_def record_create_error_def request_create_worker_shutdown_def
    install_create_sender_def install_close_sender_def Let_def)

lemma validate_connection_same: "same_ledger p (snd (validate_connection cfg v p))"
  by (simp add: validate_connection_def clear_on_fatal_error_def same_ledger_def Let_def)

lemma test_holder_same: "same_ledger p (snd (test_holder_internal cfg v h p))"
  using validate_connection_same [of p cfg v]
  by (auto simp: test_holder_internal_def split_def Let_def same_ledger_def split: option.split)

lemma same_ledger_ledger:
  "same_ledger (pool w) q \<Longrightarrow> ledger cfg (w\<lparr>pool := q\<rparr>) = ledger cfg w"
  by (simp add: ledger_def same_ledger_def in_hand_def queue_ok_def)

lemma enqueue_queue_ok: "queue_ok cfg p \<Longrightarrow> queue_ok cfg (snd (enqueue_close_holder cfg h p))"
  by (auto simp: queue_ok_def enqueue_close_holder_def reject_close_def)

lemma queue_ok_cong: "close_queue q = close_queue p \<Longrightarrow> close_queue_permits q = close_queue_permits p \<Longrightarrow>
    queue_ok cfg q = queue_ok cfg p"
  by (simp add: queue_ok_def)

lemma destroy_holder_frame [simp]:
  "idle (destroy_holder cfg h p) = idle p" "active_count (destroy_holder cfg h p) = active_count p"
  "total_count (destroy_holder cfg h p) = total_count p - 1"
  "creating_count (destroy_holder cfg h p) = creating_count p"
  "pending_owner_discards (destroy_holder cfg h p) = pending_owner_discards p"
  "wait_count (destroy_holder cfg h p) = wait_count p" "closed (destroy_holder cfg h p) = closed p"
  "destroy_count (destroy_holder cfg h p) = destroy_count p + 1"
  by (simp_all add: destroy_holder_def destroy_holder_with_overflow_def)

lemma destroy_holder_queue_ok: "queue_ok cfg p \<Longrightarrow> queue_ok cfg (destroy_holder cfg h p)"
  unfolding destroy_holder_def destroy_holder_with_overflow_def
  by (rule enqueue_queue_ok) (simp add: queue_ok_def)

lemma destroy_holder_now_frame [simp]:
  "idle (destroy_holder_now b p) = idle p" "active_count (destroy_holder_now b p) = active_count p"
  "total_count (destroy_holder_now b p) = total_count p - 1"
  "creating_count (destroy_holder_now b p) = creating_count p"
  "pending_owner_discards (destroy_holder_now b p) = pending_owner_discards p"
  "wait_count (destroy_holder_now b p) = wait_count p" "closed (destroy_holder_now b p) = closed p"
  "close_queue (destroy_holder_now b p) = close_queue p"
  "close_queue_permits (destroy_holder_now b p) = close_queue_permits p"
  "destroy_count (destroy_holder_now b p) = destroy_count p + 1"
  by (simp_all add: destroy_holder_now_def Let_def)

lemma discard_recycled_queue_ok:
  "queue_ok cfg p \<Longrightarrow> queue_ok cfg (snd (discard_recycled_holder_with_overflow cfg h p))"
  using destroy_holder_queue_ok [of cfg p h]
  by (simp add: discard_recycled_holder_with_overflow_def destroy_holder_def split_def Let_def queue_ok_def)

lemma create_complete_ok_frame:
  assumes "create_complete cfg a v p = (Ok h, q)"
  shows "same_ledger (p\<lparr>creating_count := creating_count p - 1\<rparr>) q \<and> pooled h \<and> password_version h = v"
  using assms validate_connection_same [of "p\<lparr>next_id := next_id p + 1, create_count := create_count p + 1\<rparr>" cfg "a_validation a"]
  by (auto simp: create_complete_def same_ledger_def PoolInner_next_id_def Let_def split_def pooled_def holder_new_def
      split: result.splits if_splits)

lemma create_complete_err_frame:
  assumes "create_complete cfg a v p = (Err e, q)"
  shows "same_ledger (create_release p) q"
  using assms validate_connection_same [of "p\<lparr>next_id := next_id p + 1, create_count := create_count p + 1\<rparr>" cfg "a_validation a"]
  by (auto simp: create_complete_def same_ledger_def PoolInner_next_id_def driver_error_def create_release_def Let_def split_def
      split: result.splits if_splits)

lemma shrink_scan_mset:
  "shrink_scan cfg fatal ct keep now n i q = (retained, evicted, candidates) \<Longrightarrow>
     mset q = mset retained + mset evicted + mset candidates"
  by (induction cfg fatal ct keep now n i q arbitrary: retained evicted candidates rule: shrink_scan.induct)
    (auto split: if_splits prod.splits ShrinkDecision.splits)

lemma keep_alive_check_frame:
  assumes "keep_alive_check cfg v b now h p = (r, q)" and "pooled h"
  shows "case r of Some h' \<Rightarrow> same_ledger p q \<and> pooled h'
    | None \<Rightarrow> same_ledger (p\<lparr>total_count := total_count p - 1\<rparr>) q"
  using assms test_holder_same [of p cfg v "h\<lparr>keep_alive_checks := keep_alive_checks h + 1, state := Validating\<rparr>"]
  by (auto simp: keep_alive_check_def try_transition_def increment_keep_alive_check_count_def pooled_def
      record_keep_alive_def same_ledger_def Let_def split_def split: if_splits)

lemma put_back_frame:
  assumes "\<not> closed p" "hs \<noteq> []"
  shows "same_ledger (p\<lparr>idle := hs @ idle p\<rparr>) (put_back_validated cfg t hs p)"
  using assms by (simp add: put_back_validated_def same_ledger_def Let_def)

lemma fatal_shrink_snapshot_same: "fatal_shrink_snapshot p = (fatal, q) \<Longrightarrow> same_ledger p q"
  by (auto simp: fatal_shrink_snapshot_def same_ledger_def Let_def)

lemma return_push_frame:
  shows "if length (idle p) \<ge> max_open cfg
    then idle (snd (return_push cfg t h p)) = idle p \<and> total_count (snd (return_push cfg t h p)) = total_count p - 1
    else idle (snd (return_push cfg t h p)) = idle p @ [snd (take_return_completion h)] \<and> total_count (snd (return_push cfg t h p)) = total_count p"
    and "active_count (snd (return_push cfg t h p)) = active_count p" "creating_count (snd (return_push cfg t h p)) = creating_count p"
    "pending_owner_discards (snd (return_push cfg t h p)) = pending_owner_discards p" "wait_count (snd (return_push cfg t h p)) = wait_count p"
    and "queue_ok cfg p \<Longrightarrow> queue_ok cfg (snd (return_push cfg t h p))"
  using discard_recycled_queue_ok [of cfg "p\<lparr>recycle_count := recycle_count p + 1\<rparr>" h]
  by (auto simp: return_push_def Let_def split_def queue_ok_def)

lemma signal_frame:
  assumes "active_count p > 0"
  shows "idle (signal_owner_discard cfg d p) = idle p"
    "total_count (signal_owner_discard cfg d p) = total_count p - 1"
    "active_count (signal_owner_discard cfg d p) = active_count p - 1"
    "creating_count (signal_owner_discard cfg d p) = creating_count p"
    "pending_owner_discards (signal_owner_discard cfg d p) = pending_owner_discards p + 1"
    "wait_count (signal_owner_discard cfg d p) = wait_count p"
    "queue_ok cfg' (signal_owner_discard cfg d p) = queue_ok cfg' p"
  using assms by (simp_all add: signal_owner_discard_def Let_def queue_ok_def)

lemma finish_frame:
  assumes "finish_signaled_discard_with_overflow cfg h p = (r, q)"
  shows "idle q = idle p" "total_count q = total_count p" "active_count q = active_count p"
    "creating_count q = creating_count p" "pending_owner_discards q = pending_owner_discards p - 1"
    "wait_count q = wait_count p" "queue_ok cfg p \<Longrightarrow> queue_ok cfg q"
  using assms enqueue_queue_ok [of cfg p "mark_discarded h"]
  by (auto simp: finish_signaled_discard_with_overflow_def Let_def split_def queue_ok_def)

lemma record_active_acquire_frame [simp]:
  "idle (record_active_acquire t p) = idle p" "total_count (record_active_acquire t p) = total_count p"
  "active_count (record_active_acquire t p) = active_count p + 1"
  "creating_count (record_active_acquire t p) = creating_count p"
  "pending_owner_discards (record_active_acquire t p) = pending_owner_discards p"
  "wait_count (record_active_acquire t p) = wait_count p" "closed (record_active_acquire t p) = closed p"
  "enabled (record_active_acquire t p) = enabled p"
  "lifecycle_generation (record_active_acquire t p) = lifecycle_generation p"
  "close_queue (record_active_acquire t p) = close_queue p"
  "close_queue_permits (record_active_acquire t p) = close_queue_permits p"
  "connect_count (record_active_acquire t p) = connect_count p + 1"
  by (simp_all add: record_active_acquire_def Let_def split_def)

lemma close_worker_turn_frame [simp]:
  "idle (close_worker_turn b p) = idle p" "total_count (close_worker_turn b p) = total_count p"
  "active_count (close_worker_turn b p) = active_count p"
  "creating_count (close_worker_turn b p) = creating_count p"
  "pending_owner_discards (close_worker_turn b p) = pending_owner_discards p"
  "wait_count (close_worker_turn b p) = wait_count p"
  "queue_ok cfg (close_worker_turn b p) = queue_ok cfg p"
  by (auto simp: close_worker_turn_def Let_def queue_ok_def split: list.split)

lemma step_ledger:
  assumes "step cfg is_closed w w'" and "ledger cfg w" and "holders_ok w"
  shows "ledger cfg w'"
  using assms
proof (induction rule: step.induct)
  case (st_bookkeeping w p)
  then show ?case
    by (simp add: same_ledger_ledger bookkeeping_same)
next
  case (st_reserve limit now w v p)
  then show ?case
    by (auto simp: create_reserve_def ledger_def in_hand_def queue_ok_def split: result.splits if_splits)
next
  case (st_create_ok v w a h p)
  then show ?case
    using create_complete_ok_frame [OF st_create_ok(2)]
    by (auto simp: ledger_def in_hand_def queue_ok_def same_ledger_def dest!: multi_member_split)
next
  case (st_create_fail v w a e p)
  then show ?case
    using create_complete_err_frame [OF st_create_fail(2)]
    by (auto simp: ledger_def in_hand_def queue_ok_def same_ledger_def create_release_def dest!: multi_member_split)
next
  case (st_destroy h w)
  then show ?case
    by (auto simp: ledger_def in_hand_def destroy_holder_queue_ok dest!: multi_member_split)
next
  case (st_discard h w)
  then show ?case
    by (auto simp: ledger_def in_hand_def discard_recycled_queue_ok dest!: multi_member_split)
next
  case (st_release h w now d b h' p)
  have p: "p = snd (snd (return_release now d h (pool w)))"
    using st_release(2) by simp
  show ?case
    using st_release(1,3) by (auto simp: p ledger_def in_hand_def queue_ok_def dest!: multi_member_split)
next
  case (st_check h w now b p)
  have p: "p = snd (return_check cfg is_closed now h (pool w))"
    using st_check(2) by simp
  show ?case
    using st_check(1,3) by (auto simp: p ledger_def in_hand_def queue_ok_def dest!: multi_member_split)
next
  case (st_return_push h w t r p)
  then show ?case
    using return_push_frame [where cfg = cfg and p = "pool w" and t = t and h = h]
    by (auto simp: ledger_def in_hand_def dest!: multi_member_split split: if_splits)
next
  case (st_signal h w d)
  have "active_count (pool w) > 0"
    using st_signal by (auto simp: ledger_def dest!: multi_member_split)
  then show ?case
    using st_signal by (auto simp: ledger_def in_hand_def signal_frame dest!: multi_member_split)
next
  case (st_finish h w r p)
  then show ?case
    using finish_frame [OF st_finish(2)] by (auto simp: ledger_def in_hand_def dest!: multi_member_split)
next
  case (st_scan w fatal p ct keep now retained evicted candidates)
  have "length (idle (pool w)) = length retained + length evicted + length candidates"
    using arg_cong [OF shrink_scan_mset [OF st_scan(2)], of size] fatal_shrink_snapshot_same [OF st_scan(1)]
    by (simp add: same_ledger_def)
  then show ?case
    using st_scan(3) fatal_shrink_snapshot_same [OF st_scan(1)]
    by (auto simp: ledger_def in_hand_def queue_ok_def same_ledger_def)
next
  case (st_keep_alive h w v b now r p)
  have "pooled h"
    using st_keep_alive(1,4) by (auto simp: holders_ok_def)
  then show ?case
    using keep_alive_check_frame [OF st_keep_alive(2)] st_keep_alive(1,3)
    by (auto simp: ledger_def in_hand_def queue_ok_def same_ledger_def dest!: multi_member_split split: option.splits)
next
  case (st_put_back hs w t)
  have "size (owned w) = size (owned w - mset hs) + length hs"
    using st_put_back(1) by (metis size_mset size_union subset_mset.diff_add)
  then show ?case
    using st_put_back put_back_frame [OF st_put_back(2,3), of cfg t]
    by (auto simp: ledger_def in_hand_def queue_ok_def same_ledger_def)
next
  case (st_wait w p)
  then show ?case
    by (auto simp: register_waiter_def ledger_def in_hand_def queue_ok_def split: option.splits if_splits)
next
  case (st_close_worker w b)
  then show ?case
    by (simp add: ledger_def in_hand_def)
next
  case (st_unwait w waited)
  then show ?case
    by (auto simp: drop_waiter_def record_not_empty_wait_def ledger_def in_hand_def queue_ok_def Let_def)
qed (auto simp: ledger_def in_hand_def queue_ok_def prepare_restart_def create_release_def dest!: multi_member_split)

section \<open>Every step keeps the holders in order\<close>

lemma return_release_reusable:
  "return_release now d h p = (True, h', q) \<Longrightarrow> lent h \<Longrightarrow> pooled h'"
  by (auto simp: return_release_def Let_def split_def pooled_def lent_def mark_idle_def try_transition_def
      split: if_splits)

lemma mark_active_lent: "mark_active h = (True, h') \<Longrightarrow> pooled h \<Longrightarrow> lent h'"
  by (auto simp: mark_active_def try_transition_def pooled_def lent_def split: if_splits)

lemma pooled_take [simp]: "pooled (snd (take_return_completion h)) = pooled h"
  by (simp add: pooled_def)

lemma step_holders_ok:
  assumes "step cfg is_closed w w'" and "ledger cfg w" and "holders_ok w"
  shows "holders_ok w'"
  using assms
proof (induction rule: step.induct)
  case (st_bookkeeping w p)
  then show ?case
    using bookkeeping_same [OF st_bookkeeping(1)] by (simp add: holders_ok_def same_ledger_def)
next
  case (st_reserve limit now w v p)
  then show ?case
    by (auto simp: create_reserve_def holders_ok_def split: result.splits if_splits)
next
  case (st_create_ok v w a h p)
  then show ?case
    using create_complete_ok_frame [OF st_create_ok(2)] by (auto simp: holders_ok_def same_ledger_def)
next
  case (st_create_fail v w a e p)
  then show ?case
    using create_complete_err_frame [OF st_create_fail(2)]
    by (auto simp: holders_ok_def same_ledger_def create_release_def)
next
  case (st_lend h w h' t)
  have "pooled h"
    using st_lend(1,4) by (simp add: holders_ok_def)
  then show ?case
    using st_lend(4) mark_active_lent [OF st_lend(2)] by (auto simp: holders_ok_def dest: in_diffD)
next
  case (st_release h w now d b h' p)
  have p: "p = snd (snd (return_release now d h (pool w)))"
    using st_release(2) by simp
  have "lent h"
    using st_release(1,4) by (simp add: holders_ok_def)
  then have "b \<Longrightarrow> pooled h'"
    using st_release(2) by (auto dest: return_release_reusable)
  then show ?case
    using st_release(4) by (auto simp: p holders_ok_def dest: in_diffD)
next
  case (st_check h w now b p)
  have p: "p = snd (return_check cfg is_closed now h (pool w))"
    using st_check(2) by simp
  show ?case
    using st_check(1,4) by (auto simp: p holders_ok_def dest: in_diffD)
next
  case (st_return_push h w t r p)
  then show ?case
    using return_push_frame(1) [where cfg = cfg and p = "pool w" and t = t and h = h]
    by (auto simp: holders_ok_def dest: in_diffD split: if_splits)
next
  case (st_signal h w d)
  have "active_count (pool w) > 0"
    using st_signal by (auto simp: ledger_def dest!: multi_member_split)
  then show ?case
    using st_signal by (auto simp: holders_ok_def signal_frame dest: in_diffD)
next
  case (st_finish h w r p)
  then show ?case
    using finish_frame(1) [OF st_finish(2)] by (auto simp: holders_ok_def dest: in_diffD)
next
  case (st_scan w fatal p ct keep now retained evicted candidates)
  have "set (idle (pool w)) = set retained \<union> set evicted \<union> set candidates"
    using arg_cong [OF shrink_scan_mset [OF st_scan(2)], of set_mset] fatal_shrink_snapshot_same [OF st_scan(1)]
    by (simp add: same_ledger_def)
  then show ?case
    using st_scan(4) by (auto simp: holders_ok_def)
next
  case (st_keep_alive h w v b now r p)
  have "pooled h"
    using st_keep_alive(1,4) by (auto simp: holders_ok_def)
  then show ?case
    using keep_alive_check_frame [OF st_keep_alive(2)] st_keep_alive(4)
    by (auto simp: holders_ok_def same_ledger_def dest: in_diffD split: option.splits)
next
  case (st_put_back hs w t)
  have "set hs \<subseteq> set_mset (owned w)"
    using set_mset_mono [OF st_put_back(1)] by simp
  then show ?case
    using st_put_back put_back_frame [OF st_put_back(2,3), of cfg t]
    by (auto simp: holders_ok_def same_ledger_def dest: in_diffD)
next
  case (st_wait w p)
  then show ?case
    by (auto simp: register_waiter_def holders_ok_def split: option.splits if_splits)
next
  case (st_unwait w waited)
  then show ?case
    by (auto simp: drop_waiter_def record_not_empty_wait_def holders_ok_def Let_def)
qed (auto simp: holders_ok_def prepare_restart_def create_release_def dest: in_diffD)

lemma steps_invariant:
  "steps cfg is_closed w w' \<Longrightarrow> ledger cfg w \<and> holders_ok w \<Longrightarrow> ledger cfg w' \<and> holders_ok w'"
  by (induction rule: rtranclp_induct) (auto intro: step_ledger step_holders_ok)

lemma World_new_ok: "ledger cfg (World_new cfg)" "holders_ok (World_new cfg)"
  by (simp_all add: World_new_def PoolInner_new_def ledger_def in_hand_def queue_ok_def holders_ok_def)

lemma reachable_ok: "reachable cfg is_closed w \<Longrightarrow> ledger cfg w \<and> holders_ok w"
  unfolding reachable_def using steps_invariant World_new_ok by blast


section \<open>A return that races with close\<close>

definition sample_attempt :: "nat Attempt" where
  "sample_attempt = \<lparr>open_result = Ok 0, init_result = Ok (), sqls_result = Ok True,
     a_validation = \<lparr>v_is_closed = Ok False, v_checker = None, v_query = Ok True\<rparr>,
     holder_result = Ok (), begun_at = 0, made_at = 0, recorded_at = 0\<rparr>"

definition sample_closed :: "nat closed_check" where
  "sample_closed c = Some False"

definition sample_holder :: "nat Holder" where
  "sample_holder = holder_new 0 (Some 0) 10001 0"

abbreviation rule_step :: "nat World \<Rightarrow> nat World \<Rightarrow> bool" where
  "rule_step \<equiv> step Config_default sample_closed"

text \<open>A connection is created, lent, returned and passes the checks of the return.\<close>

lemma reach_lent:
  "\<exists>w. reachable Config_default sample_closed w \<and> idle (pool w) = [] \<and> \<not> closed (pool w) \<and> enabled (pool w) \<and>
     user_password_version (pool w) = 0 \<and> active_count (pool w) = 1 \<and>
     leases w = {#snd (mark_active sample_holder)#} \<and> owned w = {#} \<and> returning w = {#} \<and> ready w = {#} \<and>
     doomed w = {#} \<and> reserved w = {#} \<and> signaled w = {#} \<and> waiters w = 0"
proof -
  let ?w0 = "World_new Config_default :: nat World"
  obtain p1 where r: "create_reserve 8 0 (pool ?w0) = (Ok 0, p1)" and p1: "idle p1 = []" "\<not> closed p1"
    "enabled p1" "user_password_version p1 = 0" "active_count p1 = 0" "next_id p1 = 10001"
    by (simp add: create_reserve_def ensure_not_closed_def World_new_def PoolInner_new_def)
  let ?w1 = "?w0\<lparr>pool := p1, reserved := add_mset 0 (reserved ?w0)\<rparr>"
  have s1: "rule_step ?w0 ?w1"
    by (rule st_reserve [OF r]) (simp add: Config_default_def)
  obtain p2 where c: "create_complete Config_default sample_attempt 0 p1 = (Ok sample_holder, p2)"
    and p2: "idle p2 = []" "\<not> closed p2" "enabled p2" "user_password_version p2 = 0" "active_count p2 = 0"
    using p1 by (simp add: create_complete_def sample_attempt_def PoolInner_next_id_def ensure_not_closed_def
        sample_holder_def)
  let ?w2 = "?w1\<lparr>pool := p2, reserved := reserved ?w1 - {#0#}, owned := add_mset sample_holder (owned ?w1)\<rparr>"
  have s2: "rule_step ?w1 ?w2"
    by (rule st_create_ok [where a = sample_attempt]) (simp_all add: c)
  let ?w3 = "?w2\<lparr>pool := record_active_acquire 0 (pool ?w2), owned := owned ?w2 - {#sample_holder#},
    leases := add_mset (snd (mark_active sample_holder)) (leases ?w2)\<rparr>"
  have s3: "rule_step ?w2 ?w3"
    by (rule st_lend) (simp_all add: mark_active_def try_transition_def sample_holder_def holder_new_def)
  have "reachable Config_default sample_closed ?w3"
    unfolding reachable_def using s1 s2 s3 by (meson converse_rtranclp_into_rtranclp rtranclp.rtrancl_refl)
  moreover have "user_password_version (record_active_acquire 0 p2) = 0"
    using p2 by (simp add: record_active_acquire_def split_def Let_def)
  ultimately show ?thesis
    using p2 by (intro exI [of _ ?w3]) (simp add: World_new_def)
qed


lemma reach_ready:
  "\<exists>w h. reachable Config_default sample_closed w \<and> idle (pool w) = [] \<and>
     leases w = {#} \<and> owned w = {#} \<and> returning w = {#} \<and> ready w = {#h#} \<and>
     doomed w = {#} \<and> reserved w = {#} \<and> signaled w = {#}"
proof -
  let ?h = "snd (mark_active sample_holder)"
  obtain w where w: "reachable Config_default sample_closed w" "idle (pool w) = []" "\<not> closed (pool w)" "enabled (pool w)"
    "user_password_version (pool w) = 0" "active_count (pool w) = 1" "leases w = {#?h#}" "owned w = {#}"
    "returning w = {#}" "ready w = {#}" "doomed w = {#}" "reserved w = {#}" "signaled w = {#}" "waiters w = 0"
    using reach_lent by blast
  let ?rel = "return_release 0 (Reusable :: DruidError Disposition) ?h (pool w)"
  let ?h1 = "snd (mark_idle 0 ?h)" and ?p1 = "snd (snd ?rel)"
  have "state ?h = Active"
    by (simp add: mark_active_def try_transition_def sample_holder_def holder_new_def)
  then have rel: "?rel = (True, ?h1, ?p1)"
    using w by (simp add: prod_eq_iff return_release_active)
  let ?w1 = "w\<lparr>pool := ?p1, leases := leases w - {#?h#}, returning := add_mset ?h1 (returning w)\<rparr>"
  have s1: "rule_step w ?w1"
    using st_release [OF _ rel] w by simp
  have "connection ?h = Some 0" "\<not> discard ?h" "created_at ?h = 0" "password_version ?h = 0"
    by (simp_all add: mark_active_def try_transition_def sample_holder_def holder_new_def)
  then have "fst (return_check Config_default sample_closed 0 ?h1 ?p1)"
    using w by (simp add: return_check_result is_discard_def raw_connection_is_unusable_def sample_closed_def
        return_expired_def connection_age_def elapsed_def Config_default_def duration_max_def
        effective_driver_connection_timeout_def)
  then obtain p2 where chk: "return_check Config_default sample_closed 0 ?h1 ?p1 = (True, p2)"
    by (metis prod.collapse)
  then have p2: "idle p2 = []"
    using w return_check_frame(1) [of Config_default sample_closed 0 ?h1 ?p1] by simp
  let ?w2 = "?w1\<lparr>pool := p2, returning := returning ?w1 - {#?h1#}, ready := add_mset ?h1 (ready ?w1)\<rparr>"
  have s2: "rule_step ?w1 ?w2"
    using st_check [where w = ?w1 and h = ?h1 and now = 0 and b = True and p = p2 and cfg = Config_default
        and is_closed = sample_closed] chk by simp
  have "reachable Config_default sample_closed ?w2"
    using w(1) s1 s2 unfolding reachable_def by (meson rtranclp.rtrancl_into_rtrancl)
  then show ?thesis
    using w p2 by (intro exI [of _ ?w2] exI [of _ ?h1]) simp
qed

text \<open>C2. Closing does not always empty the pool. \<open>return_connection\<close> tests \<open>closed\<close> before it takes the
  queue lock and not again under it, so a close that runs completely between the two leaves the
  returned connection queued: a state is reachable in which the pool is closed and drained, no
  task runs and nothing is leased, and a connection is still idle and counted. The keep-alive path
  of \<open>shrink\<close> tests again under the lock.\<close>

theorem closed_pool_keeps_late_return:
  "\<exists>w. reachable Config_default sample_closed w \<and> closed (pool w) \<and> idle (pool w) \<noteq> [] \<and>
     leases w = {#} \<and> in_hand w = 0 \<and> signaled w = {#} \<and> total_count (pool w) = 1"
proof -
  obtain w h where w: "reachable Config_default sample_closed w" "idle (pool w) = []"
    "leases w = {#}" "owned w = {#}" "returning w = {#}" "ready w = {#h#}"
    "doomed w = {#}" "reserved w = {#}" "signaled w = {#}"
    using reach_ready by blast
  let ?w1 = "w\<lparr>pool := (pool w)\<lparr>enabled := False, close_time_millis := 0, closed := True\<rparr>\<rparr>"
  have s1: "rule_step w ?w1"
    by (rule st_close_mark)
  let ?w2 = "?w1\<lparr>pool := (pool ?w1)\<lparr>idle := []\<rparr>, owned := owned ?w1 + mset (idle (pool ?w1))\<rparr>"
  have s2: "rule_step ?w1 ?w2"
    by (rule st_drain) simp
  let ?p3 = "snd (return_push Config_default 0 h (pool ?w2))"
  let ?w3 = "?w2\<lparr>pool := ?p3, ready := ready ?w2 - {#h#}\<rparr>"
  have s3: "rule_step ?w2 ?w3"
    by (rule st_return_push [where r = "fst (return_push Config_default 0 h (pool ?w2))" and now_millis = 0])
      (use w in simp_all)
  have r3: "reachable Config_default sample_closed ?w3"
    using w(1) s1 s2 s3 unfolding reachable_def by (meson rtranclp.rtrancl_into_rtrancl)
  have p3: "closed ?p3" "idle ?p3 = [snd (take_return_completion h)]"
    by (simp_all add: return_push_def Config_default_def Let_def split_def)
  have "total_count (pool ?w3) = 1"
    using reachable_ok [OF r3] w p3 by (simp add: ledger_def in_hand_def)
  then show ?thesis
    using r3 w p3 by (intro exI [of _ ?w3]) (simp add: in_hand_def)
qed

section \<open>What closing does guarantee\<close>

lemma bookkeeping_closed: "bookkeeping cfg p q \<Longrightarrow> closed q = closed p"
  by (induction rule: bookkeeping.induct)
    (simp_all add: set_enabled_def advance_lifecycle_generation_def stat_snapshot_and_reset_def reset_stats_def
      handle_fatal_error_def request_fatal_error_refill_def record_connect_error_def record_create_error_def
      record_create_success_def set_fail_continuous_def request_create_worker_shutdown_def
      install_create_sender_def install_close_sender_def Let_def)


section \<open>The sequential return is a run of sections\<close>




end
