(* ===== verification/Pool_Properties.thy ===== *)
theory Pool_Properties
  imports Pool_Steps
begin

text \<open>
  What the pool's operations achieve when one task runs them: creation and its slot, filling,
  the reuse order, the scan of \<open>shrink\<close>, the fatal-error gate, the statistics.
\<close>

section \<open>Creation\<close>

lemma record_create_same:
  "same_ledger p (record_create_success cfg t p)" "same_ledger p (record_create_error t e p)"
  by (rule bookkeeping_same, rule bk_create_success) (rule bookkeeping_same, rule bk_create_error)

lemma same_ledger_refl: "same_ledger p p"
  by (simp add: same_ledger_def)

lemma create_reserve_cases:
  obtains (closed) "create_reserve limit t p = (Err (DataSourceClosed (close_time_millis p)), p)" "closed p"
  | (full) "create_reserve limit t p = (Err PoolExhausted, p)" "\<not> closed p" "limit \<le> total_count p"
  | (slot) q where "create_reserve limit t p = (Ok (user_password_version p), q)" "\<not> closed p" "total_count p < limit"
      "same_ledger (p\<lparr>total_count := total_count p + 1, creating_count := creating_count p + 1\<rparr>) q"
      "closed q = closed p" "user_password_version q = user_password_version p" "next_id q = next_id p"
proof (cases "closed p")
  case True
  then show ?thesis
    by (intro closed) (simp_all add: create_reserve_def ensure_not_closed_def data_source_closed_error_def)
next
  case False
  then show ?thesis
    by (cases "total_count p < limit")
      (auto simp: create_reserve_def ensure_not_closed_def same_ledger_def intro: full slot)
qed

lemma create_to_limit_same:
  "same_ledger (snd (create_connection_to_limit_internal cfg limit a p)) (snd (create_connection_to_limit cfg limit a p))"
  "fst (create_connection_to_limit cfg limit a p) = fst (create_connection_to_limit_internal cfg limit a p)"
  by (auto simp: create_connection_to_limit_def split_def Let_def record_create_same same_ledger_refl
      split: result.split DruidError.split)

text \<open>C6. Creating a connection takes a slot exactly when it succeeds: on success one more slot is used,
  within the given limit, and on every failure (pool closed, limit reached, driver, initialisation,
  validation or defaults capture failing) the slot and the creation counter are given back; the queue
  and the leases are untouched either way.\<close>

theorem create_connection_slot:
  "case create_connection_to_limit cfg limit a p of (r, q) \<Rightarrow>
     idle q = idle p \<and> active_count q = active_count p \<and> creating_count q = creating_count p \<and>
     (case r of Ok h \<Rightarrow> total_count q = total_count p + 1 \<and> total_count q \<le> limit \<and> state h = Idle
        \<and> password_version h = user_password_version p
      | Err e \<Rightarrow> total_count q = total_count p)"
proof -
  obtain r q where rq: "create_connection_to_limit_internal cfg limit a p = (r, q)"
    by fastforce
  have "same_ledger q (snd (create_connection_to_limit cfg limit a p))"
    "fst (create_connection_to_limit cfg limit a p) = r"
    using create_to_limit_same [where cfg = cfg and limit = limit and a = a and p = p] rq by simp_all
  moreover have "idle q = idle p \<and> active_count q = active_count p \<and> creating_count q = creating_count p \<and>
     (case r of Ok h \<Rightarrow> total_count q = total_count p + 1 \<and> total_count q \<le> limit \<and> state h = Idle
        \<and> password_version h = user_password_version p
      | Err e \<Rightarrow> total_count q = total_count p)"
  proof (cases rule: create_reserve_cases [of limit "begun_at a" p])
    case (slot q1)
    show ?thesis
    proof (cases r)
      case (Ok h)
      have "create_complete cfg a (user_password_version p) q1 = (Ok h, q)"
        using rq slot Ok by (simp add: create_connection_to_limit_internal_def)
      from create_complete_ok_frame [OF this] show ?thesis
        using slot Ok by (auto simp: same_ledger_def pooled_def)
    next
      case (Err e)
      have "create_complete cfg a (user_password_version p) q1 = (Err e, q)"
        using rq slot Err by (simp add: create_connection_to_limit_internal_def)
      from create_complete_err_frame [OF this] show ?thesis
        using slot Err by (auto simp: same_ledger_def create_release_def)
    qed
  qed (use rq in \<open>auto simp: create_connection_to_limit_internal_def\<close>)
  ultimately show ?thesis
    by (cases r) (auto simp: split_def same_ledger_def)
qed

section \<open>Filling\<close>

text \<open>An attempt on which every call of the driver succeeds.\<close>

definition attempt_succeeds :: "'c Attempt \<Rightarrow> bool" where
  "attempt_succeeds a \<longleftrightarrow> is_ok (open_result a) \<and> is_ok (init_result a) \<and> is_ok (sqls_result a) \<and>
     is_ok (holder_result a) \<and>
     v_is_closed (a_validation a) = Ok False \<and> v_query (a_validation a) = Ok True \<and>
     (v_checker (a_validation a) = None \<or> v_checker (a_validation a) = Some (Ok True))"

lemma validate_succeeds:
  assumes "attempt_succeeds a"
  shows "fst (validate_connection cfg (a_validation a) p) = Ok ()"
  using assms by (auto simp: attempt_succeeds_def validate_connection_def valid_or_def Let_def split: option.split)

lemma validate_keeps [simp]:
  "closed (snd (validate_connection cfg v p)) = closed p"
  "user_password_version (snd (validate_connection cfg v p)) = user_password_version p"
  by (simp_all add: validate_connection_def clear_on_fatal_error_def Let_def)

lemma record_create_success_keeps [simp]:
  "closed (record_create_success cfg t p) = closed p"
  "user_password_version (record_create_success cfg t p) = user_password_version p"
  by (simp_all add: record_create_success_def set_fail_continuous_def Let_def)

lemma create_complete_succeeds:
  assumes "attempt_succeeds a" and "\<not> closed p"
  shows "\<exists>h q. create_complete cfg a v p = (Ok h, q) \<and> closed q = closed p \<and>
    user_password_version q = user_password_version p"
proof -
  obtain c b where a: "open_result a = Ok c" "init_result a = Ok ()" "sqls_result a = Ok b" "holder_result a = Ok ()"
    using assms(1) by (cases "open_result a"; cases "init_result a"; cases "sqls_result a"; cases "holder_result a")
      (auto simp: attempt_succeeds_def)
  let ?p = "p\<lparr>next_id := next_id p + 1, create_count := create_count p + 1\<rparr>"
  have "fst (validate_connection cfg (a_validation a) ?p) = Ok ()"
    by (rule validate_succeeds [OF assms(1)])
  then show ?thesis
    using a assms(2)
    by (cases b) (auto simp: create_complete_def PoolInner_next_id_def ensure_not_closed_def split_def Let_def)
qed

lemma create_to_limit_succeeds:
  assumes "attempt_succeeds a" and "\<not> closed p" and "total_count p < limit"
  shows "\<exists>h q. create_connection_to_limit cfg limit a p = (Ok h, q) \<and> \<not> closed q \<and>
    user_password_version q = user_password_version p"
proof (cases rule: create_reserve_cases [of limit "begun_at a" p])
  case (slot q1)
  then obtain h q where "create_complete cfg a (user_password_version p) q1 = (Ok h, q)" "closed q = closed q1"
    "user_password_version q = user_password_version q1"
    using create_complete_succeeds [OF assms(1), of q1 cfg "user_password_version p"] by auto
  then show ?thesis
    using slot by (simp add: create_connection_to_limit_def create_connection_to_limit_internal_def)
qed (use assms in auto)

lemma fill_loop_reaches:
  assumes "\<forall>a \<in> set as. attempt_succeeds a" and "\<not> closed p" and "target - total_count p \<le> length as"
  shows "\<exists>q new. fill_loop cfg target as created p = (Some (Ok (created + (target - total_count p))), q) \<and>
    total_count q = max target (total_count p) \<and> idle q = idle p @ new \<and> length new = target - total_count p \<and>
    active_count q = active_count p"
  using assms
proof (induction as arbitrary: created p)
  case Nil
  then show ?case
    by (subst fill_loop.simps) auto
next
  case (Cons a as)
  show ?case
  proof (cases "total_count p \<ge> target")
    case True
    then show ?thesis
      by (subst fill_loop.simps) auto
  next
    case False
    then obtain h q where cr: "create_connection_to_limit cfg target a p = (Ok h, q)" "\<not> closed q"
      "user_password_version q = user_password_version p"
      using create_to_limit_succeeds [of a p target cfg] Cons.prems by auto
    have slot: "idle q = idle p" "active_count q = active_count p" "total_count q = total_count p + 1"
      "password_version h = user_password_version p"
      using create_connection_slot [where cfg = cfg and limit = target and a = a and p = p] cr(1) by simp_all
    let ?q = "record_pooling_count (recorded_at a) (length (idle q @ [h])) (q\<lparr>idle := idle q @ [h]\<rparr>)"
    have "fill_loop cfg target (a # as) created p = fill_loop cfg target as (created + 1) ?q"
      using False cr slot by (subst fill_loop.simps) simp
    moreover have "\<exists>r new. fill_loop cfg target as (created + 1) ?q =
        (Some (Ok (created + 1 + (target - total_count ?q))), r) \<and>
      total_count r = max target (total_count ?q) \<and> idle r = idle ?q @ new \<and>
      length new = target - total_count ?q \<and> active_count r = active_count ?q"
      using Cons.prems cr(2) slot False by (intro Cons.IH) auto
    ultimately show ?thesis
      using slot False by (auto simp: Suc_diff_Suc)
  qed
qed

text \<open>C7. Filling reaches its target: on an open pool whose driver answers, \<open>fill\<close> with enough attempts
  returns the number of connections it created, the total is then the requested count cut at
  \<open>max_open\<close> (or what it already was, if larger), and exactly the new connections were appended to
  the queue.\<close>

theorem fill_reaches_target:
  assumes "\<not> closed p" and "\<forall>a \<in> set as. attempt_succeeds a"
    and "min n (max_open cfg) - total_count p \<le> length as"
  shows "\<exists>q new. fill cfg n as p = (Some (Ok (min n (max_open cfg) - total_count p)), q) \<and>
    total_count q = max (min n (max_open cfg)) (total_count p) \<and>
    idle q = idle p @ new \<and> length new = min n (max_open cfg) - total_count p \<and>
    active_count q = active_count p"
  using fill_loop_reaches [OF assms(2,1,3), of cfg 0] assms(1) by (simp add: fill_def ensure_not_closed_def)

theorem fill_reaches_target_witness:
  "\<exists>q new. fill Config_default 2 [sample_attempt, sample_attempt] (PoolInner_new Config_default) = (Some (Ok 2), q) \<and>
    total_count q = 2 \<and> idle q = new \<and> length new = 2"
proof -
  have "attempt_succeeds sample_attempt"
    by (simp add: attempt_succeeds_def sample_attempt_def)
  then show ?thesis
    using fill_reaches_target [where p = "PoolInner_new Config_default" and as = "[sample_attempt, sample_attempt]"
        and n = 2 and cfg = Config_default]
    by (auto simp: PoolInner_new_def Config_default_def)
qed

section \<open>Borrowing\<close>

lemma connect_count_frame [simp]:
  "connect_count (snd (enqueue_close_holder cfg h p)) = connect_count p"
  "connect_count (record_destroy p) = connect_count p"
  "connect_count (snd (validate_connection cfg v p)) = connect_count p"
  "connect_count (record_create_success cfg t p) = connect_count p"
  "connect_count (record_create_error t e p) = connect_count p"
  "connect_count (set_fail_continuous cfg t b p) = connect_count p"
  "connect_count (create_release p) = connect_count p"
  "connect_count (driver_error p) = connect_count p"
  by (simp_all add: enqueue_close_holder_def reject_close_def record_destroy_def validate_connection_def
      clear_on_fatal_error_def record_create_success_def set_fail_continuous_def record_create_error_def
      create_release_def driver_error_def Let_def)

lemma create_complete_connect_count:
  "create_complete cfg a v p = (r, q) \<Longrightarrow> connect_count q = connect_count p"
  by (auto simp: create_complete_def PoolInner_next_id_def Let_def split_def split: result.splits if_splits)

lemma create_reserve_connect_count:
  "create_reserve limit t p = (r, q) \<Longrightarrow> connect_count q = connect_count p"
  by (auto simp: create_reserve_def split: result.splits if_splits)

lemma create_connection_connect_count:
  assumes "create_connection cfg a p = (r, q)"
  shows "connect_count q = connect_count p"
proof -
  obtain r' q' where i: "create_connection_to_limit_internal cfg (max_open cfg) a p = (r', q')"
    by fastforce
  then have "connect_count q' = connect_count p"
    by (auto simp: create_connection_to_limit_internal_def split: prod.splits result.splits
        dest!: create_complete_connect_count create_reserve_connect_count)
  then show ?thesis
    using assms i by (auto simp: create_connection_def create_connection_to_limit_def split: result.splits DruidError.splits)
qed

lemma run_attempt_connect_count: "run_attempt cfg t p = (r, q) \<Longrightarrow> connect_count q = connect_count p"
  by (auto simp: run_attempt_def split: if_splits prod.splits result.splits
      dest!: create_reserve_connect_count dest: create_connection_connect_count)

lemma create_until_connect_count:
  "create_connection_until cfg ts n p = (r, q) \<Longrightarrow> connect_count q = connect_count p"
proof (induction ts arbitrary: n p r q)
  case (Cons t ts)
  obtain r1 q1 where run: "run_attempt cfg t p = (r1, q1)"
    by fastforce
  show ?case
    using Cons.prems run_attempt_connect_count [OF run]
    by (simp add: run Let_def split: if_splits option.splits result.splits DruidError.splits)
      (auto dest!: Cons.IH)
qed simp

lemma lend_lent:
  assumes "lend cfg ic g env h p = (Lent h', q)"
  shows "h' = h \<and> q = record_active_acquire (env_now_millis env) p"
  using assms by (auto simp: lend_def split_def Let_def split: result.splits)

lemma test_holder_connect_count [simp]: "connect_count (snd (test_holder_internal cfg v h p)) = connect_count p"
  by (simp add: test_holder_internal_def split_def Let_def split: option.split)

lemma borrow_idle_connect_count:
  assumes "borrow_idle cfg ic g env h n p = (Lent h', q)"
  shows "connect_count q = connect_count p + 1"
  using assms by (auto simp: borrow_idle_def Let_def split_def split: if_splits dest!: lend_lent)

lemma borrow_created_connect_count:
  assumes "borrow_created cfg ic g env h p = (Lent h', q)"
  shows "connect_count q = connect_count p + 1"
  using assms by (auto simp: borrow_created_def Let_def split_def split: if_splits dest!: lend_lent)

lemma borrow_wait_not_lent: "borrow_wait cfg s env p \<noteq> (Lent h, q)"
  by (auto simp: borrow_wait_def split: prod.splits result.splits if_splits)

text \<open>One successful round of the borrow loop adds two to \<open>connectCount\<close>: the loop counts the round
  (the comment there: once per round, as in Java) and \<open>record_active_acquire\<close> counts the same borrow
  again, on the idle and on the creating path alike.\<close>

theorem borrow_counts_connect_twice:
  assumes "borrow_round cfg is_closed generation started_at env p = (Lent h, q)"
  shows "connect_count q = connect_count p + 2"
proof -
  let ?p = "p\<lparr>connect_count := connect_count p + 1\<rparr>"
  have gates: "ensure_borrow_generation generation p = Ok ()" "ensure_fatal_error_available cfg p = Ok ()"
    using assms by (auto simp: borrow_round_def split: result.splits)
  show ?thesis
  proof (cases "idle p = []")
    case False
    then have "borrow_idle cfg is_closed generation env (last (idle p)) (length (butlast (idle p)))
        (?p\<lparr>idle := butlast (idle p)\<rparr>) = (Lent h, q)"
      using assms gates by (simp add: borrow_round_def Let_def)
    from borrow_idle_connect_count [OF this] show ?thesis
      by simp
  next
    case True
    obtain r q1 where c: "create_connection_until cfg (turns env) 0 ?p = (r, q1)"
      by fastforce
    obtain h1 where "borrow_created cfg is_closed generation env h1 q1 = (Lent h, q)"
      using assms gates True c
      by (auto simp: borrow_round_def Let_def borrow_wait_not_lent split: option.splits result.splits if_splits DruidError.splits)
    from borrow_created_connect_count [OF this] create_until_connect_count [OF c] show ?thesis
      by simp
  qed
qed

text \<open>The last queued connection passes the checks of a borrower that does not test it.\<close>

definition fresh_for_borrow :: "Config \<Rightarrow> 'c closed_check \<Rightarrow> 'c BorrowEnv \<Rightarrow> nat \<Rightarrow> 'c Holder \<Rightarrow> 'c PoolInner \<Rightarrow> bool" where
  "fresh_for_borrow cfg is_closed env remaining h p \<longleftrightarrow>
     user_password_version p \<le> password_version h \<and> connection_age (env_now env) h < max_lifetime cfg \<and>
     (remaining < min_idle cfg \<or> idle_duration (env_now env) h < idle_timeout cfg) \<and>
     \<not> raw_connection_is_unusable is_closed h \<and> state h = Idle \<and>
     \<not> test_on_borrow cfg \<and> \<not> test_while_idle cfg"

lemma borrow_round_takes_last:
  assumes "idle p = hs @ [h]" and "fresh_for_borrow cfg is_closed env (length hs) h p"
    and "ensure_available p = Ok ()" and "ensure_fatal_error_available cfg p = Ok ()"
  shows "borrow_round cfg is_closed (lifecycle_generation p) s env p =
    (Lent (snd (mark_active h)),
     record_active_acquire (env_now_millis env) (p\<lparr>connect_count := connect_count p + 1, idle := hs\<rparr>))"
proof -
  let ?p = "p\<lparr>connect_count := connect_count p + 1, idle := hs\<rparr>"
  have gen: "ensure_borrow_generation (lifecycle_generation p) p = Ok ()"
    using assms(3) by (simp add: ensure_borrow_generation_def)
  have "ensure_available (record_active_acquire t ?p) = ensure_available p" for t
    by (simp add: ensure_available_def ensure_not_closed_def data_source_closed_error_def)
      (simp add: record_active_acquire_def split_def Let_def)
  then have gen2: "ensure_borrow_generation (lifecycle_generation p) (record_active_acquire t ?p) = Ok ()" for t
    using assms(3) by (simp add: ensure_borrow_generation_def)
  have mark: "fst (mark_active h)"
    using assms(2) by (simp add: fresh_for_borrow_def mark_active_iff)
  show ?thesis
    using assms(1,2,4) gen gen2 mark
    by (simp add: borrow_round_def borrow_idle_def lend_def fresh_for_borrow_def Let_def split_def not_le not_less)
qed

text \<open>Connections are reused last in, first out: a connection that is returned to an open pool and
  still passes the borrow checks is the one the next borrower gets, in one round, whatever else is
  queued; the pair of operations leaves the rest of the queue and the number of leases as they were.\<close>

theorem returned_connection_is_reused_first:
  fixes d :: "DruidError Disposition"
  defines "back h t \<equiv> snd (take_return_completion (snd (mark_idle t h)))"
  assumes "active_count p > 0" and "returnable cfg is_closed now h d p"
    and "return_connection_with_overflow cfg is_closed now now_millis h d p = (r, p1)"
    and "fresh_for_borrow cfg is_closed env (length (idle p)) (back h now) p1"
    and "ensure_available p1 = Ok ()" and "ensure_fatal_error_available cfg p1 = Ok ()"
  shows "\<exists>h' q. borrow_round cfg is_closed (lifecycle_generation p1) s env p1 = (Lent h', q) \<and>
    holder_id h' = holder_id h \<and> connection h' = connection h \<and> idle q = idle p \<and> active_count q = active_count p"
proof -
  have p1: "idle p1 = idle p @ [back h now]" "active_count p1 = active_count p - 1"
    using return_connection_effect [OF assms(2), where cfg = cfg and is_closed = is_closed and now = now
        and now_millis = now_millis and h = h and disposition = d] assms(3,4)
    by (simp_all add: back_def)
  from borrow_round_takes_last [OF p1(1) assms(5-7)] show ?thesis
    using p1(2) assms(2) by (simp add: back_def) (simp add: take_return_completion_def)
qed

definition sample_env :: "nat BorrowEnv" where
  "sample_env = \<lparr>env_now = 0, env_now_millis = 0, b_validation = a_validation sample_attempt, turns = [],
     wait_timed_out = False, env_waited = 0\<rparr>"

lemma sample_fresh:
  "pooled h \<Longrightarrow> connection h = Some 0 \<Longrightarrow> user_password_version p \<le> password_version h \<Longrightarrow>
     fresh_for_borrow Config_default sample_closed sample_env n h p"
  by (simp add: fresh_for_borrow_def sample_env_def sample_closed_def raw_connection_is_unusable_def pooled_def
      connection_age_def idle_duration_def elapsed_def Config_default_def duration_max_def secs_def)

theorem borrow_counts_connect_twice_witness:
  "\<exists>h q. borrow_round Config_default sample_closed 0 0 sample_env
      ((PoolInner_new Config_default)\<lparr>idle := [sample_holder]\<rparr>) = (Lent h, q) \<and> connect_count q = 2"
proof -
  let ?p = "(PoolInner_new Config_default)\<lparr>idle := [sample_holder]\<rparr>"
  have "fresh_for_borrow Config_default sample_closed sample_env 0 sample_holder ?p"
    by (rule sample_fresh) (simp_all add: sample_holder_def holder_new_def pooled_def PoolInner_new_def)
  then have r: "borrow_round Config_default sample_closed (lifecycle_generation ?p) 0 sample_env ?p =
      (Lent (snd (mark_active sample_holder)), record_active_acquire (env_now_millis sample_env)
        (?p\<lparr>connect_count := connect_count ?p + 1, idle := []\<rparr>))"
    by (intro borrow_round_takes_last)
      (simp_all add: ensure_available_def ensure_not_closed_def ensure_fatal_error_available_def Let_def
        PoolInner_new_def FatalErrorState_default_def)
  from borrow_counts_connect_twice [OF r] r show ?thesis
    by (simp add: PoolInner_new_def)
qed

definition sample_pool :: "nat PoolInner" where
  "sample_pool = (PoolInner_new Config_default)\<lparr>active_count := 1, total_count := 1\<rparr>"

lemma sample_active: "active_count sample_pool > 0"
  by (simp add: sample_pool_def)

theorem returned_connection_is_reused_first_witness:
  "\<exists>h' q. borrow_round Config_default sample_closed 0 0 sample_env
     (snd (return_connection_with_overflow Config_default sample_closed 0 0 (snd (mark_active sample_holder))
        (Reusable :: DruidError Disposition) sample_pool)) =
     (Lent h', q) \<and> holder_id h' = 10001"
proof -
  let ?h = "snd (mark_active sample_holder)"
  let ?ret = "return_connection_with_overflow Config_default sample_closed 0 0 ?h (Reusable :: DruidError Disposition) sample_pool"
  have able: "returnable Config_default sample_closed 0 ?h (Reusable :: DruidError Disposition) sample_pool"
    by (simp add: returnable_def sample_holder_def mark_active_def try_transition_def holder_new_def sample_pool_def PoolInner_new_def
        is_discard_def raw_connection_is_unusable_def sample_closed_def return_expired_def connection_age_def
        elapsed_def Config_default_def duration_max_def effective_driver_connection_timeout_def)
  have q: "closed (snd ?ret) = False" "enabled (snd ?ret)" "user_password_version (snd ?ret) = 0"
    "lifecycle_generation (snd ?ret) = 0" "\<not> on_fatal_error (fatal_error_state (snd ?ret))"
    by (simp_all add: return_connection_with_overflow_def return_release_def return_check_def return_push_def
        sample_holder_def mark_active_def mark_idle_def try_transition_def holder_new_def sample_pool_def PoolInner_new_def
        is_discard_def raw_connection_is_unusable_def sample_closed_def return_expired_def connection_age_def
        elapsed_def Config_default_def duration_max_def effective_driver_connection_timeout_def notify_def
        record_pooling_count_def record_peak_def take_return_completion_def request_close_worker_shutdown_if_idle_def
        FatalErrorState_default_def)
  have fr: "fresh_for_borrow Config_default sample_closed sample_env (length (idle sample_pool))
      (snd (take_return_completion (snd (mark_idle 0 ?h)))) (snd ?ret)"
    by (rule sample_fresh) (simp_all add: q(3), simp_all add: sample_holder_def mark_active_def mark_idle_def try_transition_def
        take_return_completion_def holder_new_def pooled_def)
  have "\<exists>h' q. borrow_round Config_default sample_closed (lifecycle_generation (snd ?ret)) 0 sample_env (snd ?ret) = (Lent h', q) \<and>
      holder_id h' = holder_id ?h \<and> connection h' = connection ?h \<and> idle q = idle sample_pool \<and> active_count q = active_count sample_pool"
    by (rule returned_connection_is_reused_first [OF _ able prod.collapse [symmetric] fr])
      (simp_all add: q sample_active ensure_available_def ensure_not_closed_def ensure_fatal_error_available_def Let_def)
  moreover have "holder_id ?h = 10001"
    by (simp add: sample_holder_def holder_new_def)
  ultimately show ?thesis
    unfolding q(4) by auto
qed

section \<open>Shrinking\<close>

lemma shrink_scan_plain:
  assumes "\<forall>h \<in> set q. \<not> recheck fatal h" and "n = i + length q"
  shows "shrink_scan cfg fatal False keep t n i q =
    (drop (n - min_idle cfg - i) q, take (n - min_idle cfg - i) q, [])"
  using assms
proof (induction q arbitrary: i)
  case (Cons h q)
  show ?case
  proof (cases "n - min_idle cfg - i")
    case (Suc m)
    then have "n - min_idle cfg - (i + 1) = m" "i < n - min_idle cfg"
      by simp_all
    with Cons.IH [of "i + 1"] Cons.prems Suc show ?thesis
      by simp
  qed (use Cons.prems in auto)
qed simp

text \<open>A shrink without time check removes exactly the surplus over \<open>minIdle\<close>, and of it the
  connections that were idle longest: the scan evicts the oldest \<open>idle - minIdle\<close> connections,
  retains the others in order and checks none, unless a fatal error made some of them suspect.\<close>

theorem shrink_scan_evicts_surplus:
  assumes "\<forall>h. h \<in> set (idle p) \<longrightarrow> \<not> recheck fatal h"
  shows "shrink_scan cfg fatal False keep now (length (idle p)) 0 (idle p) =
    (drop (length (idle p) - min_idle cfg) (idle p), take (length (idle p) - min_idle cfg) (idle p), [])"
  using shrink_scan_plain [of "idle p" fatal "length (idle p)" 0 cfg keep now] assms by simp

theorem shrink_scan_evicts_surplus_witness:
  "shrink_scan (Config_default\<lparr>min_idle := 1\<rparr>) (fst (fatal_shrink_snapshot (PoolInner_new Config_default :: nat PoolInner)))
     False False 0 2 0 [sample_holder, sample_holder\<lparr>holder_id := 10002\<rparr>] =
     ([sample_holder\<lparr>holder_id := 10002\<rparr>], [sample_holder], [])"
  using shrink_scan_evicts_surplus [where p = "(PoolInner_new Config_default)\<lparr>idle := [sample_holder, sample_holder\<lparr>holder_id := 10002\<rparr>]\<rparr>"
      and fatal = "fst (fatal_shrink_snapshot (PoolInner_new Config_default :: nat PoolInner))" and keep = False and now = 0
      and cfg = "Config_default\<lparr>min_idle := 1\<rparr>"]
  by (simp add: recheck_def predates_fatal_error_def fatal_shrink_snapshot_def Let_def PoolInner_new_def FatalErrorState_default_def)



section \<open>Fatal errors\<close>

definition fatal_gap :: "'c PoolInner \<Rightarrow> 32 word" where
  "fatal_gap p = fatal_error_count (fatal_error_state p) - fatal_error_count_last_shrink (fatal_error_state p)"

lemma sint_of_nat_32: "n < 2147483648 \<Longrightarrow> sint (of_nat n :: 32 word) = int n"
  by (simp add: signed_of_nat signed_take_bit_int_eq_self)

lemma handle_fatal_error_gap:
  assumes "fatal_gap p = of_nat j" and "j \<le> k" and "Suc k < 2147483648"
    and "sint (on_fatal_error_max_active cfg) = int k"
  shows "fatal_gap (snd (handle_fatal_error cfg t m e sql p)) = of_nat (min (Suc j) k)"
    and "on_fatal_error (fatal_error_state (snd (handle_fatal_error cfg t m e sql p))) \<longleftrightarrow> j = k"
    and "fst (handle_fatal_error cfg t m e sql p) \<longleftrightarrow> j = k"
proof -
  have gap: "fatal_error_count (fatal_error_state p) + 1 - fatal_error_count_last_shrink (fatal_error_state p) = of_nat (Suc j)"
    using assms(1) by (simp add: fatal_gap_def algebra_simps)
  have "sint (of_nat (Suc j) :: 32 word) = int (Suc j)"
    using assms(2,3) by (intro sint_of_nat_32) simp
  then have fires: "sint (on_fatal_error_max_active cfg) < sint
      (fatal_error_count (fatal_error_state p) + 1 - fatal_error_count_last_shrink (fatal_error_state p)) \<longleftrightarrow> j = k"
    using assms(2,4) by (auto simp only: gap)
  show "fatal_gap (snd (handle_fatal_error cfg t m e sql p)) = of_nat (min (Suc j) k)"
  proof (cases "j = k")
    case True
    then show ?thesis
      using fires assms(1) by (simp add: handle_fatal_error_def fatal_gap_def Let_def)
  next
    case False
    then have "min (Suc j) k = Suc j"
      using assms(2) by simp
    with False show ?thesis
      by (simp add: handle_fatal_error_def fatal_gap_def Let_def fires del: of_nat_Suc) (rule gap)
  qed
  show "on_fatal_error (fatal_error_state (snd (handle_fatal_error cfg t m e sql p))) \<longleftrightarrow> j = k"
    "fst (handle_fatal_error cfg t m e sql p) \<longleftrightarrow> j = k"
    using fires by (auto simp: handle_fatal_error_def Let_def)
qed

fun fatal_errors :: "Config \<Rightarrow> (instant \<times> u64 \<times> DruidError \<times> rust_str option) list \<Rightarrow> 'c PoolInner \<Rightarrow> 'c PoolInner" where
  "fatal_errors cfg [] p = p"
| "fatal_errors cfg ((t, m, e, sql) # es) p = fatal_errors cfg es (snd (handle_fatal_error cfg t m e sql p))"

lemma fatal_errors_gap:
  assumes "fatal_gap p = of_nat j" and "j \<le> k" and "Suc k < 2147483648"
    and "sint (on_fatal_error_max_active cfg) = int k"
  shows "fatal_gap (fatal_errors cfg es p) = of_nat (min (j + length es) k) \<and>
    (es \<noteq> [] \<longrightarrow> (on_fatal_error (fatal_error_state (fatal_errors cfg es p)) \<longleftrightarrow> j + length es > k))"
  using assms
proof (induction es arbitrary: j p)
  case (Cons x es)
  obtain t m e sql where x: "x = (t, m, e, sql)"
    by (metis prod_cases4)
  let ?p = "snd (handle_fatal_error cfg t m e sql p)"
  note h = handle_fatal_error_gap [OF Cons.prems, of t m e sql]
  have "fatal_gap (fatal_errors cfg es ?p) = of_nat (min (min (Suc j) k + length es) k) \<and>
    (es \<noteq> [] \<longrightarrow> (on_fatal_error (fatal_error_state (fatal_errors cfg es ?p)) \<longleftrightarrow> min (Suc j) k + length es > k))"
    using Cons.prems by (intro Cons.IH h(1)) auto
  then show ?case
    using h(2) Cons.prems(2) by (cases es) (auto simp: x min_def split: if_splits)
qed simp

text \<open>C9. The fatal-error gate opens at its threshold and not before: after any positive number of fatal
  errors since the last shrink the pool is in the fatal state exactly when there were more than
  \<open>onFatalErrorMaxActive\<close> of them, also after so many errors that the 32-bit counters wrapped; and
  then borrowing is refused exactly while at least \<open>onFatalErrorMaxActive\<close> connections are out.\<close>

theorem fatal_error_gate:
  assumes "fatal_gap p = 0" and "sint (on_fatal_error_max_active cfg) = int k" and "0 < k" and "Suc k < 2 ^ 31"
    and "es \<noteq> []"
  shows "(on_fatal_error (fatal_error_state (fatal_errors cfg es p)) \<longleftrightarrow> length es > k) \<and>
    (is_ok (ensure_fatal_error_available cfg (fatal_errors cfg es p)) \<longleftrightarrow>
       length es \<le> k \<or> active_count (fatal_errors cfg es p) < k)"
  using fatal_errors_gap [of p 0 k cfg es] assms
  by (auto simp: ensure_fatal_error_available_def Let_def)

theorem fatal_error_gate_witness:
  "on_fatal_error (fatal_error_state (fatal_errors (Config_default\<lparr>on_fatal_error_max_active := 1\<rparr>)
     [(0, 0, PoolExhausted, None), (0, 0, PoolExhausted, None)] (PoolInner_new Config_default :: nat PoolInner)))"
  using fatal_error_gate [where p = "PoolInner_new Config_default :: nat PoolInner" and k = 1
      and cfg = "Config_default\<lparr>on_fatal_error_max_active := 1\<rparr>"
      and es = "[(0, 0, PoolExhausted, None), (0, 0, PoolExhausted, None)]"]
  by (simp add: fatal_gap_def PoolInner_new_def FatalErrorState_default_def del: fatal_errors.simps)

end
