(* ===== verification/Command_Journal.thy ===== *)
theory Command_Journal
  imports Prelude "HOL-Library.AList"
begin

text \<open>
  The client's bounded command journal (\<open>druid-metrics/src/command_journal.rs\<close>) and the server's
  staged snapshot transaction (\<open>snapshot_transaction_state.rs\<close>), the two objects that make remote
  commands execute once and snapshots appear atomically across reconnects. The journal's hash map
  is an association list (\<open>HOL-Library.AList\<close>), its arrival queue a list.
\<close>

section \<open>The journal\<close>

type_synonym CommandResult = "(unit, rust_str) result"
type_synonym CommandRecord = "u8 list \<times> CommandResult option"

datatype JournalError = EmptyCommandId | ConflictingPayload | JournalFull nat

record CommandJournal =
  j_capacity :: nat
  records :: "(rust_str \<times> CommandRecord) list"
  arrivals :: "rust_str list"

definition CommandJournal_new :: "nat \<Rightarrow> CommandJournal" where
  "CommandJournal_new cap = \<lparr>j_capacity = max cap 1, records = [], arrivals = []\<rparr>"

definition completed :: "CommandJournal \<Rightarrow> rust_str \<Rightarrow> bool" where
  "completed j i = (case map_of (records j) i of Some (_, Some _) \<Rightarrow> True | _ \<Rightarrow> False)"

function evict_until_room :: "CommandJournal \<Rightarrow> (unit, JournalError) result \<times> CommandJournal" where
  "evict_until_room j =
     (if length (records j) \<ge> j_capacity j then
        (case position (completed j) (arrivals j) of
           None \<Rightarrow> (Err (JournalFull (j_capacity j)), j)
         | Some i \<Rightarrow>
             evict_until_room (j\<lparr>arrivals := remove_at i (arrivals j),
                                 records := AList.delete (arrivals j ! i) (records j)\<rparr>))
      else (Ok (), j))"
  by pat_completeness auto
termination
  by (relation "measure (\<lambda>j. length (arrivals j))") (auto dest: position_Some)

declare evict_until_room.simps [simp del]

definition CommandJournal_begin ::
  "CommandJournal \<Rightarrow> rust_str \<Rightarrow> u8 list \<Rightarrow>
     (bool \<times> CommandResult option, JournalError) result \<times> CommandJournal" where
  "CommandJournal_begin j command_id canonical_payload =
     (if str_trim command_id = [] then (Err EmptyCommandId, j)
      else case map_of (records j) command_id of
        Some (stored_payload, res) \<Rightarrow>
          (if stored_payload \<noteq> canonical_payload then (Err ConflictingPayload, j)
           else (Ok (False, res), j))
      | None \<Rightarrow>
          (case evict_until_room j of
             (Err e, j') \<Rightarrow> (Err e, j')
           | (Ok _, j') \<Rightarrow>
               (Ok (True, None),
                j'\<lparr>records := AList.update command_id (canonical_payload, None) (records j'),
                   arrivals := arrivals j' @ [command_id]\<rparr>)))"

definition CommandJournal_complete :: "CommandJournal \<Rightarrow> rust_str \<Rightarrow> CommandResult \<Rightarrow> CommandJournal" where
  "CommandJournal_complete j command_id r =
     (case map_of (records j) command_id of
        Some (payload, _) \<Rightarrow> j\<lparr>records := AList.update command_id (payload, Some r) (records j)\<rparr>
      | None \<Rightarrow> j)"

text \<open>Interleavings of journal calls; a run records the commands it let through for execution.\<close>

datatype journal_op = Begin rust_str "u8 list" | Complete rust_str CommandResult

fun journal_step :: "CommandJournal \<Rightarrow> journal_op \<Rightarrow> CommandJournal" where
  "journal_step j (Begin i p) = snd (CommandJournal_begin j i p)"
| "journal_step j (Complete i r) = CommandJournal_complete j i r"

definition journal_run :: "CommandJournal \<Rightarrow> journal_op list \<Rightarrow> CommandJournal" where
  "journal_run = foldl journal_step"

section \<open>The staged snapshot transaction\<close>

record 'e SnapshotTransactionState =
  transaction_id :: rust_str
  next_chunk_index :: u32
  chunk_count :: u32
  entries :: "'e list"

definition SnapshotTransactionState_new :: "rust_str \<Rightarrow> u32 \<Rightarrow> 'e SnapshotTransactionState" where
  "SnapshotTransactionState_new tid n =
     \<lparr>transaction_id = tid, next_chunk_index = 0, chunk_count = n, entries = []\<rparr>"

definition SnapshotTransactionState_accepts ::
  "'e SnapshotTransactionState \<Rightarrow> rust_str \<Rightarrow> u32 \<Rightarrow> u32 \<Rightarrow> bool" where
  "SnapshotTransactionState_accepts s tid i n \<longleftrightarrow>
     transaction_id s = tid \<and> next_chunk_index s = i \<and> chunk_count s = n"

definition u32_saturating_succ :: "u32 \<Rightarrow> u32" where
  "u32_saturating_succ w = (if w = - 1 then w else w + 1)"

definition SnapshotTransactionState_stage ::
  "'e SnapshotTransactionState \<Rightarrow> 'e list \<Rightarrow> 'e SnapshotTransactionState" where
  "SnapshotTransactionState_stage s es =
     s\<lparr>entries := entries s @ es, next_chunk_index := u32_saturating_succ (next_chunk_index s)\<rparr>"

definition SnapshotTransactionState_entry_count :: "'e SnapshotTransactionState \<Rightarrow> nat" where
  "SnapshotTransactionState_entry_count s = length (entries s)"

definition SnapshotTransactionState_complete_candidate ::
  "'e SnapshotTransactionState \<Rightarrow> 'e list \<Rightarrow> 'e list" where
  "SnapshotTransactionState_complete_candidate s es = entries s @ es"

section \<open>The journal's invariant\<close>

lemmas [journal_simps] = CommandJournal_new_def CommandJournal_begin_def CommandJournal_complete_def

definition journal_ok :: "CommandJournal \<Rightarrow> bool" where
  "journal_ok j \<longleftrightarrow> 1 \<le> j_capacity j \<and> length (records j) \<le> j_capacity j \<and>
     distinct (map fst (records j)) \<and> distinct (arrivals j) \<and>
     set (arrivals j) = fst ` set (records j)"

lemma journal_okD:
  assumes "journal_ok j"
  shows "1 \<le> j_capacity j" "length (records j) \<le> j_capacity j" "distinct (map fst (records j))"
    and "distinct (arrivals j)" "set (arrivals j) = fst ` set (records j)"
  using assms by (auto simp: journal_ok_def)

lemma journal_ok_new: "journal_ok (CommandJournal_new cap)"
  by (simp add: journal_ok_def journal_simps)

lemma keys_delete: "fst ` set (AList.delete k m) = fst ` set m - {k}"
  by (induction m) auto

lemma keys_update: "fst ` set (AList.update k v m) = insert k (fst ` set m)"
  by (induction m) auto

lemma length_delete:
  "distinct (map fst m) \<Longrightarrow> k \<in> fst ` set m \<Longrightarrow> length (AList.delete k m) = length m - 1"
proof -
  assume d: "distinct (map fst m)" and k: "k \<in> fst ` set m"
  have "distinct (map fst (AList.delete k m))"
    using d by (rule distinct_delete)
  then have "length (AList.delete k m) = card (set (map fst (AList.delete k m)))"
    by (metis distinct_card length_map)
  also have "\<dots> = card (fst ` set m - {k})"
    by (simp add: keys_delete)
  also have "\<dots> = length m - 1"
    using d k by (simp add: card_Diff_singleton) (metis distinct_card length_map set_map)
  finally show ?thesis .
qed

lemma length_update:
  "distinct (map fst m) \<Longrightarrow>
     length (AList.update k v m) = (if k \<in> fst ` set m then length m else Suc (length m))"
  by (induction m) (auto split: if_splits)

lemma journal_ok_evict:
  assumes ok: "journal_ok j" and i: "position (completed j) (arrivals j) = Some i"
    and j': "j' = j\<lparr>arrivals := remove_at i (arrivals j),
                    records := AList.delete (arrivals j ! i) (records j)\<rparr>"
  shows "journal_ok j'" and "length (records j') < j_capacity j'"
proof -
  have lt: "i < length (arrivals j)"
    using position_Some [OF i] by blast
  then have k: "arrivals j ! i \<in> fst ` set (records j)"
    using journal_okD(5) [OF ok] by (metis nth_mem)
  have len: "length (AList.delete (arrivals j ! i) (records j)) = length (records j) - 1"
    using length_delete [OF journal_okD(3) [OF ok] k] .
  have pos: "0 < length (records j)"
    using k by (cases "records j") auto
  have "length (records j) - 1 < j_capacity j"
    using pos journal_okD(2) [OF ok] by linarith
  then show "length (records j') < j_capacity j'"
    by (simp add: j' len)
  show "journal_ok j'"
    using len journal_okD [OF ok] distinct_remove_at [OF journal_okD(4) [OF ok] lt]
    by (simp add: journal_ok_def j' distinct_delete keys_delete)
qed

text \<open>The eviction loop runs at most once on a well-formed journal.\<close>

lemma evict_until_room_eq:
  assumes "journal_ok j"
  shows "evict_until_room j =
    (if length (records j) < j_capacity j then (Ok (), j)
     else case position (completed j) (arrivals j) of
        None \<Rightarrow> (Err (JournalFull (j_capacity j)), j)
      | Some i \<Rightarrow> (Ok (), j\<lparr>arrivals := remove_at i (arrivals j),
                            records := AList.delete (arrivals j ! i) (records j)\<rparr>))"
proof (cases "length (records j) < j_capacity j \<or> position (completed j) (arrivals j) = None")
  case True
  then show ?thesis
    by (subst evict_until_room.simps) auto
next
  case False
  then obtain i where i: "position (completed j) (arrivals j) = Some i" by blast
  let ?j' = "j\<lparr>arrivals := remove_at i (arrivals j), records := AList.delete (arrivals j ! i) (records j)\<rparr>"
  have "evict_until_room ?j' = (Ok (), ?j')"
    using journal_ok_evict(2) [OF assms i refl] by (subst evict_until_room.simps) simp
  with False i show ?thesis
    by (subst evict_until_room.simps) simp
qed

lemma completed_iff: "completed j i \<longleftrightarrow> (\<exists>p r. map_of (records j) i = Some (p, Some r))"
  by (auto simp: completed_def split: option.splits prod.splits)

lemma journal_ok_append:
  assumes "journal_ok j" and "map_of (records j) i = None" and "length (records j) < j_capacity j"
  shows "journal_ok (j\<lparr>records := AList.update i v (records j), arrivals := arrivals j @ [i]\<rparr>)"
  using assms by (auto simp: journal_ok_def length_update distinct_update keys_update map_of_eq_None_iff)

lemma journal_ok_begin: "journal_ok j \<Longrightarrow> journal_ok (snd (CommandJournal_begin j i p))"
proof -
  assume ok: "journal_ok j"
  show ?thesis
  proof (cases "str_trim i \<noteq> [] \<and> map_of (records j) i = None")
    case fresh: True
    show ?thesis
    proof (cases "length (records j) < j_capacity j")
      case True
      with fresh ok journal_ok_append show ?thesis
        by (simp add: journal_simps evict_until_room_eq)
    next
      case full: False
      show ?thesis
      proof (cases "position (completed j) (arrivals j)")
        case None
        with fresh full ok show ?thesis by (simp add: journal_simps evict_until_room_eq)
      next
        case (Some k)
        note ev = journal_ok_evict [OF ok Some refl]
        have "map_of (AList.delete (arrivals j ! k) (records j)) i = None"
          using fresh by (simp add: delete_conv)
        with journal_ok_append [OF ev(1) _ ev(2), of i] fresh full ok Some show ?thesis
          by (simp add: journal_simps evict_until_room_eq)
      qed
    qed
  next
    case False
    with ok show ?thesis
      by (auto simp: journal_simps split: option.splits)
  qed
qed

lemma journal_ok_complete: "journal_ok j \<Longrightarrow> journal_ok (CommandJournal_complete j i r)"
proof (cases "map_of (records j) i")
  case (Some rec)
  assume ok: "journal_ok j"
  have "i \<in> fst ` set (records j)"
    using Some by (force dest: map_of_SomeD)
  with ok Some show ?thesis
    by (cases rec) (simp add: journal_ok_def journal_simps length_update distinct_update keys_update insert_absorb)
qed (simp add: journal_simps)

lemma journal_ok_run: "journal_ok j \<Longrightarrow> journal_ok (journal_run j ops)"
  unfolding journal_run_def
proof (induction ops arbitrary: j)
  case (Cons op ops)
  have "journal_ok (journal_step j op)"
    using Cons.prems journal_ok_begin journal_ok_complete by (cases op) auto
  with Cons.IH show ?case by simp
qed simp

text \<open>The journal stays within its capacity and consistent (every journalled command is queued
  exactly once, and nothing else is) whatever begins and completions happen, in any order.\<close>

theorem journal_run_invariant: "journal_ok (journal_run (CommandJournal_new cap) ops)"
  by (rule journal_ok_run [OF journal_ok_new])

section \<open>Execution at most once\<close>

lemma in_flight_step:
  assumes ok: "journal_ok j" and i: "map_of (records j) i = Some (p, None)"
    and op: "\<forall>r. op \<noteq> Complete i r"
  shows "map_of (records (journal_step j op)) i = Some (p, None)"
proof (cases op)
  case (Begin k q)
  show ?thesis
  proof (cases "str_trim k \<noteq> [] \<and> map_of (records j) k = None")
    case fresh: True
    then have neq: "k \<noteq> i" using i by auto
    show ?thesis
    proof (cases "position (completed j) (arrivals j)")
      case None
      with fresh neq i ok Begin show ?thesis
        by (simp add: journal_simps evict_until_room_eq update_conv)
    next
      case (Some n)
      have "completed j (arrivals j ! n)"
        using position_Some [OF Some] by blast
      then have "arrivals j ! n \<noteq> i"
        using i by (auto simp: completed_iff)
      with fresh neq i ok Begin Some show ?thesis
        by (simp add: journal_simps evict_until_room_eq update_conv delete_conv)
    qed
  next
    case False
    with i Begin show ?thesis
      by (auto simp: journal_simps split: option.splits)
  qed
next
  case (Complete k r)
  with op i have "k \<noteq> i" by auto
  with i Complete show ?thesis
    by (auto simp: journal_simps update_conv split: option.splits)
qed

text \<open>C18. A command whose side effect is still running is never evicted and never let through a
  second time: from any well-formed journal that holds it without a result, after any further
  calls other than its own completion, asking for it again with the same payload is answered
  "do not execute, no result yet", and with another payload it is refused as a conflict.\<close>

theorem in_flight_command_not_repeated:
  assumes "journal_ok j" and "map_of (records j) i = Some (p, None)" and "str_trim i \<noteq> []"
    and "\<forall>r. Complete i r \<notin> set ops"
  shows "fst (CommandJournal_begin (journal_run j ops) i q) =
    (if q = p then Ok (False, None) else Err ConflictingPayload)"
proof -
  have "map_of (records (journal_run j ops)) i = Some (p, None)"
    using assms(1,2,4) unfolding journal_run_def
  proof (induction ops arbitrary: j)
    case (Cons op ops)
    have "journal_ok (journal_step j op)"
      using Cons.prems(1) journal_ok_begin journal_ok_complete by (cases op) auto
    moreover have "map_of (records (journal_step j op)) i = Some (p, None)"
      using Cons.prems by (intro in_flight_step) auto
    ultimately show ?case
      using Cons.prems(3) Cons.IH by simp
  qed simp
  with assms(3) show ?thesis
    by (simp add: journal_simps)
qed

theorem in_flight_command_not_repeated_witness:
  "fst (CommandJournal_begin
     (journal_run \<lparr>j_capacity = 1, records = [([65], [7], None)], arrivals = [[65]]\<rparr>
        [Begin [66] [1], Complete [66] (Ok ())]) [65] [7]) = Ok (False, None)"
  using in_flight_command_not_repeated
    [of "\<lparr>j_capacity = 1, records = [([65], [7], None)], arrivals = [[65]]\<rparr>" "[65]" "[7]"
        "[Begin [66] [1], Complete [66] (Ok ())]" "[7]"]
  by (simp add: journal_ok_def str_trim_def char_is_whitespace_def)

text \<open>Beginning a command that is not journalled: it is let through when there is room; when
  the journal is full, exactly the oldest completed command makes room for it; when every command
  is still running, it is refused and the journal is unchanged.\<close>

theorem begin_new_command:
  assumes "journal_ok j" and "map_of (records j) i = None" and "str_trim i \<noteq> []"
  shows "CommandJournal_begin j i p =
    (if length (records j) < j_capacity j
     then (Ok (True, None), j\<lparr>records := AList.update i (p, None) (records j), arrivals := arrivals j @ [i]\<rparr>)
     else if \<forall>c\<in>set (arrivals j). \<not> completed j c then (Err (JournalFull (j_capacity j)), j)
     else let c = the (find (completed j) (arrivals j)) in
       (Ok (True, None),
        j\<lparr>records := AList.update i (p, None) (AList.delete c (records j)),
          arrivals := filter (\<lambda>x. x \<noteq> c) (arrivals j) @ [i]\<rparr>))"
proof (cases "length (records j) < j_capacity j \<or> (\<forall>c\<in>set (arrivals j). \<not> completed j c)")
  case True
  have "position (completed j) (arrivals j) = None" if "\<forall>c\<in>set (arrivals j). \<not> completed j c"
    using that by (simp add: position_None_iff)
  with True assms show ?thesis
    by (auto simp: journal_simps evict_until_room_eq)
next
  case False
  then obtain n where n: "position (completed j) (arrivals j) = Some n"
    by (cases "position (completed j) (arrivals j)") (auto simp: position_None_iff)
  note pos = position_Some [OF n]
  have "find (completed j) (arrivals j) = Some (arrivals j ! n)"
    using pos by (auto simp: find_Some_iff)
  then have c: "the (find (completed j) (arrivals j)) = arrivals j ! n"
    by simp
  have rest: "filter (\<lambda>x. x \<noteq> arrivals j ! n) (arrivals j) = remove_at n (arrivals j)"
    using journal_okD(4) [OF assms(1)] pos by (simp add: filter_neq_nth)
  from False assms n c rest show ?thesis
    by (simp add: journal_simps evict_until_room_eq Let_def)
qed

theorem begin_new_command_witness:
  "CommandJournal_begin
     \<lparr>j_capacity = 2, records = [([65], [7], Some (Ok ())), ([66], [8], None)], arrivals = [[66], [65]]\<rparr>
     [67] [9] =
   (Ok (True, None),
    \<lparr>j_capacity = 2, records = [([66], [8], None), ([67], [9], None)], arrivals = [[66], [67]]\<rparr>)"
  using begin_new_command
    [of "\<lparr>j_capacity = 2, records = [([65], [7], Some (Ok ())), ([66], [8], None)], arrivals = [[66], [65]]\<rparr>"
        "[67]" "[9]"]
  by (simp add: journal_ok_def completed_def str_trim_def char_is_whitespace_def insert_commute)

end
