(* ===== verification/Utf8.thy ===== *)
theory Utf8
  imports Prelude
begin

text \<open>
  The UTF-8 layer of Rust strings, shared by the components that look at bytes: \<open>utf8_bytes\<close> is
  \<open>str::as_bytes\<close> and \<open>from_utf8\<close> is the strict \<open>std::str::from_utf8\<close> (shortest forms only, no
  surrogates, nothing above U+10FFFF). A string is well formed when all its elements are Unicode
  scalar values, which every Rust \<open>str\<close> is.
\<close>

section \<open>Definitions\<close>

definition valid_scalar :: "nat \<Rightarrow> bool" where
  "valid_scalar c \<longleftrightarrow> c < 55296 \<or> 57344 \<le> c \<and> c \<le> 1114111"

abbreviation valid_str :: "rust_str \<Rightarrow> bool" where
  "valid_str s \<equiv> \<forall>c\<in>set s. valid_scalar c"

definition byte :: "nat \<Rightarrow> u8" where
  "byte n = of_nat n"

definition utf8_char :: "nat \<Rightarrow> u8 list" where
  "utf8_char c =
     (if c < 128 then [byte c]
      else if c < 2048 then [byte (192 + c div 64), byte (128 + c mod 64)]
      else if c < 65536 then
        [byte (224 + c div 4096), byte (128 + c div 64 mod 64), byte (128 + c mod 64)]
      else [byte (240 + c div 262144), byte (128 + c div 4096 mod 64),
            byte (128 + c div 64 mod 64), byte (128 + c mod 64)])"

definition utf8_bytes :: "rust_str \<Rightarrow> u8 list" where
  "utf8_bytes s = concat (map utf8_char s)"

text \<open>The scalar value that the next bytes spell, and how many bytes it takes. It is accepted only
  when its own encoding is those bytes, which excludes overlong forms.\<close>

fun utf8_next :: "u8 list \<Rightarrow> nat \<times> nat" where
  "utf8_next [] = (0, 0)"
| "utf8_next (b # bs) =
     (let x = unat b; y = (\<lambda>i. if i < length bs then unat (bs ! i) mod 64 else 0) in
      if x < 192 then (x, 1)
      else if x < 224 then ((x - 192) * 64 + y 0, 2)
      else if x < 240 then ((x - 224) * 4096 + y 0 * 64 + y 1, 3)
      else ((x - 240) * 262144 + y 0 * 4096 + y 1 * 64 + y 2, 4))"

function from_utf8 :: "u8 list \<Rightarrow> rust_str option" where
  "from_utf8 bs =
     (if bs = [] then Some []
      else let (c, k) = utf8_next bs in
        if valid_scalar c \<and> k \<noteq> 0 \<and> utf8_char c = take k bs
        then map_option ((#) c) (from_utf8 (drop k bs)) else None)"
  by pat_completeness auto
termination
  by (relation "measure length") auto

declare from_utf8.simps [simp del]

section \<open>Encoding and decoding are inverse\<close>

lemma unat_byte: "unat (byte n) = n mod 256"
  by (simp add: byte_def unat_of_nat)

lemma utf8_char_nonempty [simp]: "utf8_char c \<noteq> []"
  by (simp add: utf8_char_def)

lemma radix2: "(c::nat) div 64 * 64 + c mod 64 = c"
  by simp

lemma radix3: "(c::nat) div 4096 * 4096 + c div 64 mod 64 * 64 + c mod 64 = c"
proof -
  have "c div 4096 = c div 64 div 64"
    using div_mult2_eq [of c 64 64] by simp
  then show ?thesis
    using div_mult_mod_eq [of c 64] div_mult_mod_eq [of "c div 64" 64] by linarith
qed

lemma radix4:
  "(c::nat) div 262144 * 262144 + c div 4096 mod 64 * 4096 + c div 64 mod 64 * 64 + c mod 64 = c"
proof -
  have "c div 262144 = c div 4096 div 64"
    using div_mult2_eq [of c 4096 64] by simp
  then show ?thesis
    using radix3 [of c] div_mult_mod_eq [of "c div 4096" 64] by linarith
qed

lemma continuation_byte [simp]: "unat (byte (128 + x mod 64)) mod 64 = x mod 64"
proof -
  have "(128 + x mod 64) mod 256 = 128 + x mod 64"
    using mod_less_divisor [of 64 x] by (intro mod_less) linarith
  moreover have "(128 + x mod 64) mod 64 = x mod 64"
    using mod_mult_self2 [of "x mod 64" 64 2] by (simp add: add.commute)
  ultimately show ?thesis by (simp only: unat_byte)
qed

lemma utf8_next_char:
  assumes "valid_scalar c"
  shows "utf8_next (utf8_char c @ bs) = (c, length (utf8_char c))"
proof -
  consider "c < 128" | "128 \<le> c" "c < 2048" | "2048 \<le> c" "c < 65536" | "65536 \<le> c" "c \<le> 1114111"
    using assms by (fastforce simp: valid_scalar_def)
  then show ?thesis
  proof cases
    case 1
    then show ?thesis by (simp add: utf8_char_def unat_byte)
  next
    case 2
    then have "(192 + c div 64) mod 256 = 192 + c div 64" "c div 64 < 32" by auto
    with 2 radix2 [of c] show ?thesis by (simp add: utf8_char_def Let_def unat_byte [of "_ + _ div _"])
  next
    case 3
    then have "(224 + c div 4096) mod 256 = 224 + c div 4096" "c div 4096 < 16" by auto
    with 3 radix3 [of c] show ?thesis by (simp add: utf8_char_def Let_def unat_byte [of "_ + _ div _"])
  next
    case 4
    then have "(240 + c div 262144) mod 256 = 240 + c div 262144" "c div 262144 < 5" by auto
    with 4 radix4 [of c] show ?thesis by (simp add: utf8_char_def Let_def unat_byte [of "_ + _ div _"])
  qed
qed

lemma from_utf8_Nil [simp]: "from_utf8 [] = Some []"
  by (simp add: from_utf8.simps)

lemma from_utf8_char:
  assumes "valid_scalar c"
  shows "from_utf8 (utf8_char c @ bs) = map_option ((#) c) (from_utf8 bs)"
  by (subst from_utf8.simps) (simp add: utf8_next_char [OF assms] assms)

lemma from_utf8_bytes [simp]: "valid_str s \<Longrightarrow> from_utf8 (utf8_bytes s) = Some s"
proof (induction s)
  case (Cons c s)
  then show ?case
    by (simp add: utf8_bytes_def from_utf8_char)
qed (simp add: utf8_bytes_def)

lemma from_utf8_Some: "from_utf8 bs = Some s \<Longrightarrow> utf8_bytes s = bs \<and> valid_str s"
proof (induction bs arbitrary: s rule: from_utf8.induct)
  case (1 bs)
  show ?case
  proof (cases "bs = []")
    case True
    with "1.prems" show ?thesis by (simp add: utf8_bytes_def)
  next
    case False
    obtain c k where ck: "utf8_next bs = (c, k)" by fastforce
    with False "1.prems" obtain s' where
      c: "valid_scalar c" "k \<noteq> 0" "utf8_char c = take k bs" and s: "s = c # s'"
      and rest: "from_utf8 (drop k bs) = Some s'"
      by (subst (asm) from_utf8.simps) (auto split: if_splits)
    have "utf8_bytes s' = drop k bs \<and> valid_str s'"
      using "1.IH" [OF False ck [symmetric] refl] c rest by blast
    with c s show ?thesis
      by (simp add: utf8_bytes_def)
  qed
qed

lemma utf8_bytes_inj: "valid_str s \<Longrightarrow> valid_str t \<Longrightarrow> utf8_bytes s = utf8_bytes t \<Longrightarrow> s = t"
  by (metis from_utf8_bytes option.inject)

end
