(* ===== verification/Service_Identity.thy ===== *)
theory Service_Identity
  imports Utf8
begin

text \<open>
  The stable service identity of a metrics stream (\<open>druid-metrics/src/service_identity.rs\<close>): three
  strings, length-prefixed behind a magic, base64-encoded behind a prefix, and the strict parser of
  that canonical form. Base64 (the crate \<open>base64\<close>, engine \<open>URL_SAFE_NO_PAD\<close>) is not part of the
  repository: its encoder and decoder are parameters of the definitions, and what the code relies
  on (decoding inverts encoding; the text is at most four thirds of the bytes, rounded up) are
  hypotheses of the theorems. The end of the theory gives an instance for the witnesses.
\<close>

section \<open>Definitions\<close>

datatype IdentityError =
    ComponentTooLong | SizeOverflow | CanonicalTooLong | BadPrefix | BadEncoding
  | PayloadTooLong | BadMagic | Truncated | NotUtf8 | TrailingData | NotNormalized

record ServiceIdentity =
  service_name :: rust_str
  instance_id :: rust_str
  boot_id :: rust_str
  service_id :: rust_str

type_synonym b64_encoder = "u8 list \<Rightarrow> rust_str"
type_synonym b64_decoder = "rust_str \<Rightarrow> u8 list option"

definition SERVICE_ID_PREFIX :: rust_str where
  "SERVICE_ID_PREFIX = lit ''sid1_''"

definition SERVICE_ID_MAGIC :: "u8 list" where
  "SERVICE_ID_MAGIC = utf8_bytes (lit ''druid-service-identity-v1'') @ [0]"

definition MAX_SERVICE_ID_COMPONENT_BYTES :: nat where
  "MAX_SERVICE_ID_COMPONENT_BYTES = 256"

definition MAX_IDENTITY_PAYLOAD_BYTES :: nat where
  "MAX_IDENTITY_PAYLOAD_BYTES = length SERVICE_ID_MAGIC + 3 * (8 + MAX_SERVICE_ID_COMPONENT_BYTES)"

definition div_ceil :: "nat \<Rightarrow> nat \<Rightarrow> nat" where
  "div_ceil a b = (a + b - 1) div b"

definition MAX_CANONICAL_SERVICE_ID_BYTES :: nat where
  "MAX_CANONICAL_SERVICE_ID_BYTES =
     length (utf8_bytes SERVICE_ID_PREFIX) + div_ceil (MAX_IDENTITY_PAYLOAD_BYTES * 4) 3"

definition str_len :: "rust_str \<Rightarrow> nat" where
  "str_len s = length (utf8_bytes s)"

text \<open>\<open>u64::to_be_bytes\<close> and \<open>u64::from_be_bytes\<close>, most significant byte first.\<close>

fun be_bytes :: "nat \<Rightarrow> nat \<Rightarrow> u8 list" where
  "be_bytes 0 n = []"
| "be_bytes (Suc k) n = be_bytes k (n div 256) @ [byte n]"

definition be_value :: "u8 list \<Rightarrow> nat" where
  "be_value bs = foldl (\<lambda>acc b. acc * 256 + unat b) 0 bs"

definition usize_limit :: nat where
  "usize_limit = 18446744073709551616"

definition component_frame :: "rust_str \<Rightarrow> u8 list" where
  "component_frame c = be_bytes 8 (str_len c) @ utf8_bytes c"

definition identity_payload :: "rust_str \<Rightarrow> rust_str \<Rightarrow> rust_str \<Rightarrow> u8 list" where
  "identity_payload a b c = SERVICE_ID_MAGIC @ component_frame a @ component_frame b @ component_frame c"

definition encode_components ::
  "b64_encoder \<Rightarrow> rust_str \<Rightarrow> rust_str \<Rightarrow> rust_str \<Rightarrow> (rust_str, IdentityError) result" where
  "encode_components enc a b c =
     (if length SERVICE_ID_MAGIC + (8 + str_len a) + (8 + str_len b) + (8 + str_len c) \<ge> usize_limit
      then Err SizeOverflow
      else let encoded = enc (identity_payload a b c);
               total = str_len SERVICE_ID_PREFIX + str_len encoded
           in if total \<ge> usize_limit then Err SizeOverflow
              else if total > MAX_CANONICAL_SERVICE_ID_BYTES then Err CanonicalTooLong
              else Ok (SERVICE_ID_PREFIX @ encoded))"

definition ServiceIdentity_try_new ::
  "b64_encoder \<Rightarrow> rust_str \<Rightarrow> rust_str \<Rightarrow> rust_str \<Rightarrow> (ServiceIdentity, IdentityError) result" where
  "ServiceIdentity_try_new enc a b c =
     (if \<exists>x\<in>set [a, b, c]. str_len x > MAX_SERVICE_ID_COMPONENT_BYTES then Err ComponentTooLong
      else case encode_components enc a b c of
             Err e \<Rightarrow> Err e
           | Ok sid \<Rightarrow> Ok \<lparr>service_name = a, instance_id = b, boot_id = c, service_id = sid\<rparr>)"

definition take_component :: "u8 list \<Rightarrow> (rust_str \<times> u8 list, IdentityError) result" where
  "take_component remaining =
     (if length remaining < 8 then Err Truncated
      else let n = be_value (take 8 remaining) in
        if n > MAX_SERVICE_ID_COMPONENT_BYTES then Err ComponentTooLong
        else if length remaining < 8 + n then Err Truncated
        else case from_utf8 (take n (drop 8 remaining)) of
               None \<Rightarrow> Err NotUtf8
             | Some s \<Rightarrow> Ok (s, drop (8 + n) remaining))"

definition strip_prefix :: "'a list \<Rightarrow> 'a list \<Rightarrow> 'a list option" where
  "strip_prefix p s = (if take (length p) s = p then Some (drop (length p) s) else None)"

definition ServiceIdentity_parse ::
  "b64_encoder \<Rightarrow> b64_decoder \<Rightarrow> rust_str \<Rightarrow> (ServiceIdentity, IdentityError) result" where
  "ServiceIdentity_parse enc dec sid =
     (if str_len sid > MAX_CANONICAL_SERVICE_ID_BYTES then Err CanonicalTooLong
      else case strip_prefix SERVICE_ID_PREFIX sid of None \<Rightarrow> Err BadPrefix | Some encoded \<Rightarrow>
      (case dec encoded of None \<Rightarrow> Err BadEncoding | Some payload \<Rightarrow>
       if length payload > MAX_IDENTITY_PAYLOAD_BYTES then Err PayloadTooLong
       else case strip_prefix SERVICE_ID_MAGIC payload of None \<Rightarrow> Err BadMagic | Some r0 \<Rightarrow>
       (case take_component r0 of Err e \<Rightarrow> Err e | Ok (a, r1) \<Rightarrow>
        (case take_component r1 of Err e \<Rightarrow> Err e | Ok (b, r2) \<Rightarrow>
         (case take_component r2 of Err e \<Rightarrow> Err e | Ok (c, r3) \<Rightarrow>
          if r3 \<noteq> [] then Err TrailingData
          else case ServiceIdentity_try_new enc a b c of
                 Err e \<Rightarrow> Err e
               | Ok i \<Rightarrow> if service_id i \<noteq> sid then Err NotNormalized else Ok i)))))"

section \<open>Framing\<close>

lemma be_value_append [simp]: "be_value (bs @ [b]) = be_value bs * 256 + unat b"
  by (simp add: be_value_def)

lemma length_be_bytes [simp]: "length (be_bytes k n) = k"
  by (induction k arbitrary: n) auto

lemma be_value_be_bytes: "be_value (be_bytes k n) = n mod 256 ^ k"
proof (induction k arbitrary: n)
  case (Suc k)
  have "n mod (256 * 256 ^ k) = 256 * (n div 256 mod 256 ^ k) + n mod 256"
    by (rule mod_mult2_eq)
  with Suc show ?case
    by (simp add: unat_byte)
qed (simp add: be_value_def)

lemma strip_prefix_append [simp]: "strip_prefix p (p @ s) = Some s"
  by (simp add: strip_prefix_def)

lemma take_component_frame:
  assumes "valid_str s" and "str_len s \<le> MAX_SERVICE_ID_COMPONENT_BYTES"
  shows "take_component (component_frame s @ rest) = Ok (s, rest)"
proof -
  have "be_value (be_bytes 8 (str_len s)) = str_len s"
    using assms(2) by (simp add: be_value_be_bytes MAX_SERVICE_ID_COMPONENT_BYTES_def)
  with assms show ?thesis
    by (simp add: take_component_def component_frame_def str_len_def Let_def)
qed

lemma magic_length: "length SERVICE_ID_MAGIC = 26"
  by code_simp

lemma prefix_length: "str_len SERVICE_ID_PREFIX = 5"
  by code_simp

lemmas identity_limits = MAX_SERVICE_ID_COMPONENT_BYTES_def MAX_IDENTITY_PAYLOAD_BYTES_def
  MAX_CANONICAL_SERVICE_ID_BYTES_def magic_length prefix_length usize_limit_def div_ceil_def

lemma length_identity_payload:
  "length (identity_payload a b c) = 26 + (8 + str_len a) + (8 + str_len b) + (8 + str_len c)"
  by (simp add: identity_payload_def component_frame_def str_len_def magic_length)

lemma utf8_bytes_append: "utf8_bytes (s @ t) = utf8_bytes s @ utf8_bytes t"
  by (simp add: utf8_bytes_def)

section \<open>The canonical form\<close>

definition components_ok :: "rust_str \<Rightarrow> rust_str \<Rightarrow> rust_str \<Rightarrow> bool" where
  "components_ok a b c \<longleftrightarrow> (\<forall>x\<in>set [a, b, c]. valid_str x \<and> str_len x \<le> 256)"

lemma encode_components_Ok:
  assumes len: "\<And>p. str_len (enc p) \<le> div_ceil (length p * 4) 3" and ok: "components_ok a b c"
  shows "encode_components enc a b c = Ok (SERVICE_ID_PREFIX @ enc (identity_payload a b c))"
proof -
  have "length (identity_payload a b c) \<le> 818"
    using ok by (simp add: components_ok_def length_identity_payload)
  then have "div_ceil (length (identity_payload a b c) * 4) 3 \<le> 1091"
    by (simp add: div_ceil_def)
  then have "str_len (enc (identity_payload a b c)) \<le> 1091"
    using len [of "identity_payload a b c"] by linarith
  with ok show ?thesis
    by (simp add: encode_components_def Let_def identity_limits components_ok_def
        prefix_length [unfolded str_len_def])
qed

lemma try_new_Ok:
  assumes "\<And>p. str_len (enc p) \<le> div_ceil (length p * 4) 3" and "components_ok a b c"
  shows "ServiceIdentity_try_new enc a b c =
    Ok \<lparr>service_name = a, instance_id = b, boot_id = c,
        service_id = SERVICE_ID_PREFIX @ enc (identity_payload a b c)\<rparr>"
  using assms encode_components_Ok [OF assms]
  by (auto simp: ServiceIdentity_try_new_def components_ok_def MAX_SERVICE_ID_COMPONENT_BYTES_def)

lemma parse_canonical:
  assumes len: "\<And>p. str_len (enc p) \<le> div_ceil (length p * 4) 3"
    and inv: "\<And>p. dec (enc p) = Some p" and ok: "components_ok a b c"
    and i: "ServiceIdentity_try_new enc a b c = Ok i"
  shows "ServiceIdentity_parse enc dec (service_id i) = Ok i"
proof -
  have pay: "length (identity_payload a b c) \<le> 818"
    using ok by (simp add: components_ok_def length_identity_payload)
  then have "div_ceil (length (identity_payload a b c) * 4) 3 \<le> 1091"
    by (simp add: div_ceil_def)
  then have enc_len: "str_len (enc (identity_payload a b c)) \<le> 1091"
    using len [of "identity_payload a b c"] by linarith
  have sid: "service_id i = SERVICE_ID_PREFIX @ enc (identity_payload a b c)"
    using i try_new_Ok [OF len ok] by auto
  have "str_len (service_id i) \<le> MAX_CANONICAL_SERVICE_ID_BYTES"
    using enc_len by (simp add: sid str_len_def utf8_bytes_append identity_limits
        prefix_length [unfolded str_len_def])
  moreover have comp: "\<And>x rest. x \<in> set [a, b, c] \<Longrightarrow> take_component (component_frame x @ rest) = Ok (x, rest)"
    using ok by (intro take_component_frame) (auto simp: components_ok_def MAX_SERVICE_ID_COMPONENT_BYTES_def)
  moreover have "take_component (component_frame c) = Ok (c, [])"
    using comp [of c "[]"] by simp
  ultimately show ?thesis
    using pay i by (simp add: ServiceIdentity_parse_def sid inv identity_payload_def identity_limits)
qed

text \<open>C19. Encoding and parsing an identity are inverse: for any three strings of at most 256 bytes
  construction succeeds (no size check fires), and the strict parser reads the canonical id back to
  exactly that identity.\<close>

theorem identity_round_trip:
  assumes "\<And>p. dec (enc p) = Some p" and "\<And>p. str_len (enc p) \<le> div_ceil (length p * 4) 3"
    and "components_ok a b c"
  shows "\<exists>i. ServiceIdentity_try_new enc a b c = Ok i \<and>
      service_name i = a \<and> instance_id i = b \<and> boot_id i = c \<and>
      ServiceIdentity_parse enc dec (service_id i) = Ok i"
  using parse_canonical [OF assms(2,1,3)] try_new_Ok [OF assms(2,3)] by auto

text \<open>Two different identities never share a canonical id: the id determines all three
  components, however their bytes are divided between them.\<close>

theorem canonical_id_injective:
  assumes "\<And>p. dec (enc p) = Some p" and "\<And>p. str_len (enc p) \<le> div_ceil (length p * 4) 3"
    and "components_ok a b c" and "components_ok a' b' c'"
    and "ServiceIdentity_try_new enc a b c = Ok i" and "ServiceIdentity_try_new enc a' b' c' = Ok i'"
  shows "service_id i = service_id i' \<longleftrightarrow> a = a' \<and> b = b' \<and> c = c'"
proof
  assume "service_id i = service_id i'"
  then have "i = i'"
    using parse_canonical [OF assms(2,1,3,5)] parse_canonical [OF assms(2,1,4,6)]
    by (metis result.inject(1))
  moreover have "service_name i = a" "instance_id i = b" "boot_id i = c"
    "service_name i' = a'" "instance_id i' = b'" "boot_id i' = c'"
    using assms(5,6) by (auto simp: try_new_Ok [OF assms(2,3)] try_new_Ok [OF assms(2,4)])
  ultimately show "a = a' \<and> b = b' \<and> c = c'" by simp
next
  assume "a = a' \<and> b = b' \<and> c = c'"
  with assms(5,6) show "service_id i = service_id i'" by simp
qed

text \<open>C20. The parser accepts nothing but canonical ids: whatever the base64 decoder does, an
  accepted text is exactly the id that construction produces from the parsed components, and every
  component is within its byte budget.\<close>

theorem parse_accepts_only_canonical:
  assumes "ServiceIdentity_parse enc dec sid = Ok i"
  shows "ServiceIdentity_try_new enc (service_name i) (instance_id i) (boot_id i) = Ok i \<and>
    service_id i = sid \<and> str_len sid \<le> MAX_CANONICAL_SERVICE_ID_BYTES \<and>
    components_ok (service_name i) (instance_id i) (boot_id i)"
proof -
  from assms obtain a b c r0 r1 r2 where
    comp: "take_component r0 = Ok (a, r1)" "take_component r1 = Ok (b, r2)" "take_component r2 = Ok (c, [])"
    and new: "ServiceIdentity_try_new enc a b c = Ok i" and sid: "service_id i = sid"
    and len: "str_len sid \<le> MAX_CANONICAL_SERVICE_ID_BYTES"
    unfolding ServiceIdentity_parse_def
    by (auto split: if_splits option.splits result.splits prod.splits)
  have valid: "valid_str x" if "take_component r = Ok (x, r')" for x r r'
    using that by (auto simp: take_component_def Let_def split: if_splits option.splits dest: from_utf8_Some)
  from new have fields: "service_name i = a" "instance_id i = b" "boot_id i = c"
    and short: "\<forall>x\<in>set [a, b, c]. str_len x \<le> 256"
    by (auto simp: ServiceIdentity_try_new_def MAX_SERVICE_ID_COMPONENT_BYTES_def
        split: if_splits result.splits)
  with new sid len valid comp show ?thesis
    by (auto simp: components_ok_def)
qed

section \<open>A base64 instance for the witnesses\<close>

text \<open>The URL-safe alphabet without padding, so that the hypotheses above can be discharged.\<close>

definition b64_char :: "nat \<Rightarrow> nat" where
  "b64_char i = (if i < 26 then 65 + i else if i < 52 then 71 + i else if i < 62 then i - 4
                 else if i = 62 then 45 else 95)"

definition b64_digit :: "nat \<Rightarrow> nat" where
  "b64_digit c = (if c = 95 then 63 else if c = 45 then 62 else if c < 58 then c + 4
                  else if c < 91 then c - 65 else c - 71)"

fun b64_url_encode :: "u8 list \<Rightarrow> rust_str" where
  "b64_url_encode [] = []"
| "b64_url_encode [a] = map b64_char [unat a div 4, unat a mod 4 * 16]"
| "b64_url_encode [a, b] =
     map b64_char [unat a div 4, unat a mod 4 * 16 + unat b div 16, unat b mod 16 * 4]"
| "b64_url_encode (a # b # c # bs) =
     map b64_char [unat a div 4, unat a mod 4 * 16 + unat b div 16,
                   unat b mod 16 * 4 + unat c div 64, unat c mod 64] @ b64_url_encode bs"

fun b64_url_decode :: "rust_str \<Rightarrow> u8 list option" where
  "b64_url_decode [] = Some []"
| "b64_url_decode [_] = None"
| "b64_url_decode [w, x] = Some [byte (b64_digit w * 4 + b64_digit x div 16)]"
| "b64_url_decode [w, x, y] =
     Some [byte (b64_digit w * 4 + b64_digit x div 16), byte (b64_digit x mod 16 * 16 + b64_digit y div 4)]"
| "b64_url_decode (w # x # y # z # r) =
     map_option (\<lambda>bs. byte (b64_digit w * 4 + b64_digit x div 16) #
        byte (b64_digit x mod 16 * 16 + b64_digit y div 4) #
        byte (b64_digit y mod 4 * 64 + b64_digit z) # bs) (b64_url_decode r)"

lemma b64_digit_char [simp]: "i < 64 \<Longrightarrow> b64_digit (b64_char i) = i"
  by (auto simp: b64_digit_def b64_char_def)

lemma u8_less [simp]: "unat (a::u8) < 256"
  using unsigned_less [of a] by simp

lemma byte_unat [simp]: "byte (unat a) = a"
  by (simp add: byte_def)

lemma b64_pieces:
  fixes a b :: u8
  shows "unat a div 4 < 64" "unat a mod 4 * 16 + unat b div 16 < 64" "unat a mod 4 * 16 < 64"
    "unat a mod 16 * 4 + unat b div 64 < 64" "unat a mod 16 * 4 < 64" "unat a mod 64 < 64"
  using u8_less [of a] u8_less [of b] by linarith+

lemma split_digit: "r < m \<Longrightarrow> (q * m + r) div m = q" "r < m \<Longrightarrow> (q * m + r) mod m = (r::nat)"
  by simp_all

lemma b64_join:
  fixes a b c :: u8
  shows "unat a div 4 * 4 + (unat a mod 4 * 16 + unat b div 16) div 16 = unat a"
    "(unat a mod 4 * 16 + unat b div 16) mod 16 * 16 + (unat b mod 16 * 4 + unat c div 64) div 4 = unat b"
    "(unat b mod 16 * 4 + unat c div 64) mod 4 * 64 + unat c mod 64 = unat c"
proof -
  have "unat b div 16 < 16" "unat c div 64 < 4"
    using u8_less [of b] u8_less [of c] by linarith+
  note split = split_digit [OF this(1)] split_digit [OF this(2)]
  show "unat a div 4 * 4 + (unat a mod 4 * 16 + unat b div 16) div 16 = unat a"
    "(unat a mod 4 * 16 + unat b div 16) mod 16 * 16 + (unat b mod 16 * 4 + unat c div 64) div 4 = unat b"
    "(unat b mod 16 * 4 + unat c div 64) mod 4 * 64 + unat c mod 64 = unat c"
    by (simp_all only: split div_mult_mod_eq)
qed

lemma b64_url_decode_encode: "b64_url_decode (b64_url_encode p) = Some p"
proof (induction p rule: b64_url_encode.induct)
  case (4 a b c bs)
  then show ?case
    using b64_join(1) [of a b] b64_join(2) [of a b c] b64_join(3) [of b c]
    by (simp add: b64_pieces)
next
  case (3 a b)
  show ?case
    using b64_join(2) [of a b 0] by (simp add: b64_pieces b64_join)
next
  case (2 a)
  show ?case
    using b64_join(1) [of a 0] by (simp add: b64_pieces)
qed simp

lemma b64_ascii: "b64_char i < 128" if "i < 64"
  using that by (auto simp: b64_char_def)

lemma str_len_ascii: "\<forall>c\<in>set s. c < 128 \<Longrightarrow> str_len s = length s"
  by (induction s) (auto simp: str_len_def utf8_bytes_def utf8_char_def)

lemma b64_encode_ascii: "\<forall>c\<in>set (b64_url_encode p). c < 128"
  by (induction p rule: b64_url_encode.induct) (auto simp: b64_pieces intro!: b64_ascii)

lemma b64_encode_length: "str_len (b64_url_encode p) \<le> div_ceil (length p * 4) 3"
proof -
  have "length (b64_url_encode p) \<le> div_ceil (length p * 4) 3"
    by (induction p rule: b64_url_encode.induct) (simp_all add: div_ceil_def)
  then show ?thesis
    by (simp add: str_len_ascii [OF b64_encode_ascii])
qed

lemma example_components: "components_ok (lit ''svc'') (lit ''node-1'') (lit ''b'')"
  "components_ok (lit ''svcn'') (lit ''ode-1'') (lit ''b'')"
  by (simp_all add: components_ok_def lit_def str_len_def utf8_bytes_def utf8_char_def valid_scalar_def)

theorem identity_round_trip_witness:
  "\<exists>i. ServiceIdentity_try_new b64_url_encode (lit ''svc'') (lit ''node-1'') (lit ''b'') = Ok i \<and>
     ServiceIdentity_parse b64_url_encode b64_url_decode (service_id i) = Ok i"
  using identity_round_trip [of b64_url_decode b64_url_encode "lit ''svc''" "lit ''node-1''" "lit ''b''",
      OF b64_url_decode_encode b64_encode_length example_components(1)] by blast

theorem canonical_id_injective_witness:
  "\<exists>i i'. ServiceIdentity_try_new b64_url_encode (lit ''svc'') (lit ''node-1'') (lit ''b'') = Ok i \<and>
     ServiceIdentity_try_new b64_url_encode (lit ''svcn'') (lit ''ode-1'') (lit ''b'') = Ok i' \<and>
     service_id i \<noteq> service_id i'"
proof -
  note new = try_new_Ok [of b64_url_encode, OF b64_encode_length example_components(1)]
    try_new_Ok [of b64_url_encode, OF b64_encode_length example_components(2)]
  have "lit ''svc'' \<noteq> lit ''svcn''"
    by (simp add: lit_def)
  then show ?thesis
    using new canonical_id_injective
      [OF b64_url_decode_encode b64_encode_length example_components new] by blast
qed

theorem parse_accepts_only_canonical_witness:
  "\<exists>sid i. ServiceIdentity_parse b64_url_encode b64_url_decode sid = Ok i \<and> service_id i = sid"
proof -
  note new = try_new_Ok [of b64_url_encode, OF b64_encode_length example_components(1)]
  note i = parse_canonical [of b64_url_encode b64_url_decode, OF b64_encode_length b64_url_decode_encode
        example_components(1) new]
  show ?thesis
    using i parse_accepts_only_canonical [OF i] by blast
qed

end
