(* ===== verification/Ingest.thy ===== *)
theory Ingest
  imports Command_Journal Service_Identity
begin

text \<open>
  The server's ingest handler (\<open>druid-metrics/src/ingest_handler.rs\<close>): deduplication by stream
  identity and sequence, staged full-snapshot transactions, stream capacity and expiry. A call
  takes the clock readings it makes and returns the optional reply, the new handler state and the
  list of calls it made to the external \<open>commit\<close> closure, whose answers are a parameter. Only the
  data source id of a snapshot entry is inspected by this code; the rest of the generated protobuf
  message is a type parameter.
\<close>

section \<open>Messages and state\<close>

record FrameHeader =
  protocol_version :: u32
  h_service_name :: rust_str
  h_instance_id :: rust_str
  h_boot_id :: rust_str
  h_stream_epoch :: u64
  h_sequence :: u64
  emitted_at_unix_ms :: u64

record 'p SnapshotEntry =
  datasource_id :: u64
  contents :: 'p

record SnapshotTransaction =
  tx_id :: rust_str
  tx_chunk_index :: u32
  tx_chunk_count :: u32
  tx_end :: bool

record 'p SnapshotBatch =
  b_header :: "FrameHeader option"
  b_entries :: "'p SnapshotEntry list"
  is_full_snapshot :: bool
  b_transaction :: "SnapshotTransaction option"

datatype 'p ClientPayload =
    PSnapshotBatch "'p SnapshotBatch"
  | PHello "FrameHeader option"
  | PHeartbeat "FrameHeader option"
  | PCommandAck rust_str bool
  | PGoodbye "FrameHeader option"

datatype TransactionError =
    IncrementalWithTransaction | FullWithoutTransaction | EmptyTransactionId | InvalidChunk
  | IdentityMismatch | IdentityInvalid IdentityError | StreamCapacity | ChunkCountTooLarge
  | MustStartAtZero | ChunkOutOfOrder | EntriesTooMany | InterleavedIncremental

datatype ResyncReason = sequence_gap | repository_rejected

datatype ServerPayload =
    BatchAck FrameHeader u64
  | HelloAck FrameHeader bool
  | ResyncRequired FrameHeader ResyncReason u64
  | SequenceError FrameHeader
  | TransactionRefused FrameHeader TransactionError
  | ResetStats FrameHeader rust_str "u64 list"

record StreamKey =
  k_identity :: ServiceIdentity
  k_epoch :: u64

record 'p StreamState =
  last_seen :: nat
  expected_seq :: u64
  initialized :: bool
  snapshots :: "(u64 \<times> 'p SnapshotEntry) list"
  snapshot_transaction :: "'p SnapshotEntry SnapshotTransactionState option"

record 'p IngestHandler =
  streams :: "(StreamKey \<times> 'p StreamState) list"
  pending_commands :: "rust_str set"
  ingest_count :: u64
  command_counter :: u64
  max_streams :: nat
  max_snapshot_entries :: nat
  stream_ttl :: nat

text \<open>The clock readings of one call: the monotonic clock at expiry and at the touch of the stream,
  and the wall clock of the reply.\<close>

record clock =
  prune_at :: nat
  seen_at :: nat
  unix_ms :: u64

section \<open>Operations\<close>

definition StreamState_new :: "nat \<Rightarrow> 'p StreamState" where
  "StreamState_new now = \<lparr>last_seen = now, expected_seq = 1, initialized = False, snapshots = [],
                          snapshot_transaction = None\<rparr>"

definition IngestHandler_new :: "'p IngestHandler" where
  "IngestHandler_new = \<lparr>streams = [], pending_commands = {}, ingest_count = 0, command_counter = 0,
     max_streams = 1024, max_snapshot_entries = 256, stream_ttl = 15 * 60 * 1000000000\<rparr>"

definition with_limits :: "'p IngestHandler \<Rightarrow> nat \<Rightarrow> nat \<Rightarrow> 'p IngestHandler" where
  "with_limits h ms me = h\<lparr>max_streams := max ms 1, max_snapshot_entries := max me 1\<rparr>"

definition with_stream_ttl :: "'p IngestHandler \<Rightarrow> nat \<Rightarrow> 'p IngestHandler" where
  "with_stream_ttl h ttl = h\<lparr>stream_ttl := max ttl 1000000\<rparr>"

definition reply_header :: "clock \<Rightarrow> FrameHeader \<Rightarrow> FrameHeader" where
  "reply_header clk hdr = hdr\<lparr>protocol_version := 1, h_sequence := 0, emitted_at_unix_ms := unix_ms clk\<rparr>"

definition make_batch_ack :: "clock \<Rightarrow> FrameHeader \<Rightarrow> u64 \<Rightarrow> ServerPayload" where
  "make_batch_ack clk hdr s = BatchAck (reply_header clk hdr) s"

definition make_hello_ack :: "clock \<Rightarrow> FrameHeader \<Rightarrow> bool \<Rightarrow> ServerPayload" where
  "make_hello_ack clk hdr full = HelloAck (reply_header clk hdr) full"

definition make_resync_required :: "clock \<Rightarrow> FrameHeader \<Rightarrow> u64 \<Rightarrow> ServerPayload" where
  "make_resync_required clk hdr expected = ResyncRequired (reply_header clk hdr) sequence_gap expected"

definition make_repository_rejected :: "clock \<Rightarrow> FrameHeader \<Rightarrow> u64 \<Rightarrow> ServerPayload" where
  "make_repository_rejected clk hdr expected =
     ResyncRequired (reply_header clk hdr) repository_rejected expected"

definition make_sequence_error :: "clock \<Rightarrow> FrameHeader \<Rightarrow> ServerPayload" where
  "make_sequence_error clk hdr = SequenceError (reply_header clk hdr)"

definition make_snapshot_transaction_error :: "clock \<Rightarrow> FrameHeader \<Rightarrow> TransactionError \<Rightarrow> ServerPayload" where
  "make_snapshot_transaction_error clk hdr e = TransactionRefused (reply_header clk hdr) e"

definition validate_snapshot_transaction ::
  "'p SnapshotBatch \<Rightarrow> (SnapshotTransaction option, TransactionError) result" where
  "validate_snapshot_transaction batch =
     (if \<not> is_full_snapshot batch then
        (if b_transaction batch = None then Ok None else Err IncrementalWithTransaction)
      else case b_transaction batch of
        None \<Rightarrow> Err FullWithoutTransaction
      | Some t \<Rightarrow>
          if str_trim (tx_id t) = [] then Err EmptyTransactionId
          else let is_last = (tx_chunk_index t \<noteq> - 1 \<and> tx_chunk_index t + 1 = tx_chunk_count t) in
            if tx_chunk_count t = 0 \<or> tx_chunk_index t \<ge> tx_chunk_count t \<or> tx_end t \<noteq> is_last
            then Err InvalidChunk else Ok (Some t))"

definition stream_key ::
  "b64_encoder \<Rightarrow> FrameHeader \<Rightarrow> ServiceIdentity option \<Rightarrow> (StreamKey, TransactionError) result" where
  "stream_key enc hdr sid =
     (case sid of
        Some i \<Rightarrow>
          if service_name i \<noteq> h_service_name hdr \<or> instance_id i \<noteq> h_instance_id hdr
             \<or> boot_id i \<noteq> h_boot_id hdr
          then Err IdentityMismatch
          else Ok \<lparr>k_identity = i, k_epoch = h_stream_epoch hdr\<rparr>
      | None \<Rightarrow>
          case ServiceIdentity_try_new enc (h_service_name hdr) (h_instance_id hdr) (h_boot_id hdr) of
            Err e \<Rightarrow> Err (IdentityInvalid e)
          | Ok i \<Rightarrow> Ok \<lparr>k_identity = i, k_epoch = h_stream_epoch hdr\<rparr>)"

definition prune_expired_streams :: "nat \<Rightarrow> 'p IngestHandler \<Rightarrow> 'p IngestHandler" where
  "prune_expired_streams now h =
     h\<lparr>streams := filter (\<lambda>(_, s). now - last_seen s < stream_ttl h) (streams h)\<rparr>"

definition put_stream :: "StreamKey \<Rightarrow> 'p StreamState \<Rightarrow> 'p IngestHandler \<Rightarrow> 'p IngestHandler" where
  "put_stream k s h = h\<lparr>streams := AList.update k s (streams h)\<rparr>"

text \<open>\<open>entry(key).or_insert_with(StreamState::new)\<close>.\<close>

definition stream_or_new :: "nat \<Rightarrow> StreamKey \<Rightarrow> 'p IngestHandler \<Rightarrow> 'p StreamState" where
  "stream_or_new now k h = (case map_of (streams h) k of Some s \<Rightarrow> s | None \<Rightarrow> StreamState_new now)"

definition collect_by_id :: "'p SnapshotEntry list \<Rightarrow> (u64 \<times> 'p SnapshotEntry) list" where
  "collect_by_id es = foldl (\<lambda>m e. AList.update (datasource_id e) e m) [] es"

definition store_snapshots :: "'p StreamState \<Rightarrow> 'p SnapshotEntry list \<Rightarrow> 'p StreamState" where
  "store_snapshots s es =
     s\<lparr>snapshots := foldl (\<lambda>m e. AList.update (datasource_id e) e m) (snapshots s) es\<rparr>"

type_synonym 'p commit = "'p SnapshotEntry list \<Rightarrow> bool \<Rightarrow> bool"
type_synonym 'p outcome =
  "ServerPayload option \<times> 'p IngestHandler \<times> ('p SnapshotEntry list \<times> bool) list"

text \<open>The part of \<open>handle_snapshot_batch\<close> after the sequence checks, for a transaction chunk.\<close>

definition ingest_chunk ::
  "clock \<Rightarrow> 'p commit \<Rightarrow> FrameHeader \<Rightarrow> u64 \<Rightarrow> SnapshotTransaction \<Rightarrow> 'p SnapshotEntry list \<Rightarrow>
   StreamKey \<Rightarrow> 'p StreamState \<Rightarrow> 'p IngestHandler \<Rightarrow> 'p outcome" where
  "ingest_chunk clk commit hdr next_sequence t es k s h =
     (if unat (tx_chunk_count t) > max_snapshot_entries h
      then (Some (make_snapshot_transaction_error clk hdr ChunkCountTooLarge), h, [])
      else
        let s = (if tx_chunk_index t = 0
                 then s\<lparr>snapshot_transaction :=
                          Some (SnapshotTransactionState_new (tx_id t) (tx_chunk_count t))\<rparr>
                 else s);
            h = put_stream k s h in
        case snapshot_transaction s of
          None \<Rightarrow> (Some (make_snapshot_transaction_error clk hdr MustStartAtZero), h, [])
        | Some staged \<Rightarrow>
            if \<not> SnapshotTransactionState_accepts staged (tx_id t) (tx_chunk_index t) (tx_chunk_count t)
            then (Some (make_snapshot_transaction_error clk hdr ChunkOutOfOrder), h, [])
            else if SnapshotTransactionState_entry_count staged + length es > max_snapshot_entries h
            then (Some (make_snapshot_transaction_error clk hdr EntriesTooMany), h, [])
            else if tx_end t then
              (let candidate = SnapshotTransactionState_complete_candidate staged es in
               if \<not> commit candidate True
               then (Some (make_repository_rejected clk hdr (expected_seq s)), h, [(candidate, True)])
               else (Some (make_batch_ack clk hdr (h_sequence hdr)),
                     put_stream k
                       (s\<lparr>snapshots := collect_by_id candidate, snapshot_transaction := None,
                          initialized := True, expected_seq := next_sequence\<rparr>)
                       (h\<lparr>ingest_count := ingest_count h + 1\<rparr>),
                     [(candidate, True)]))
            else (Some (make_batch_ack clk hdr (h_sequence hdr)),
                  put_stream k
                    (s\<lparr>snapshot_transaction := Some (SnapshotTransactionState_stage staged es),
                       expected_seq := next_sequence\<rparr>)
                    (h\<lparr>ingest_count := ingest_count h + 1\<rparr>),
                  []))"

text \<open>The same for an incremental batch.\<close>

definition ingest_incremental ::
  "clock \<Rightarrow> 'p commit \<Rightarrow> FrameHeader \<Rightarrow> u64 \<Rightarrow> 'p SnapshotEntry list \<Rightarrow>
   StreamKey \<Rightarrow> 'p StreamState \<Rightarrow> 'p IngestHandler \<Rightarrow> 'p outcome" where
  "ingest_incremental clk commit hdr next_sequence es k s h =
     (if snapshot_transaction s \<noteq> None
      then (Some (make_snapshot_transaction_error clk hdr InterleavedIncremental), h, [])
      else if \<not> initialized s then (Some (make_hello_ack clk hdr True), h, [])
      else if \<not> commit es False
      then (Some (make_repository_rejected clk hdr (expected_seq s)), h, [(es, False)])
      else (Some (make_batch_ack clk hdr (h_sequence hdr)),
            put_stream k (store_snapshots (s\<lparr>expected_seq := next_sequence\<rparr>) es)
              (h\<lparr>ingest_count := ingest_count h + 1\<rparr>),
            [(es, False)]))"

definition handle_snapshot_batch ::
  "b64_encoder \<Rightarrow> clock \<Rightarrow> 'p commit \<Rightarrow> 'p SnapshotBatch \<Rightarrow> ServiceIdentity option \<Rightarrow>
   'p IngestHandler \<Rightarrow> 'p outcome" where
  "handle_snapshot_batch enc clk commit batch sid h =
     (case b_header batch of None \<Rightarrow> (None, h, []) | Some hdr \<Rightarrow>
      (case validate_snapshot_transaction batch of
         Err e \<Rightarrow> (Some (make_snapshot_transaction_error clk hdr e), h, [])
       | Ok transaction \<Rightarrow>
      (case stream_key enc hdr sid of
         Err e \<Rightarrow> (Some (make_snapshot_transaction_error clk hdr e), h, [])
       | Ok k \<Rightarrow>
       if h_sequence hdr = 0 \<or> h_sequence hdr = - 1 then (Some (make_sequence_error clk hdr), h, [])
       else
         let next_sequence = h_sequence hdr + 1; h = prune_expired_streams (prune_at clk) h in
         if map_of (streams h) k = None \<and> length (streams h) \<ge> max_streams h
         then (Some (make_snapshot_transaction_error clk hdr StreamCapacity), h, [])
         else
           let s = (stream_or_new (seen_at clk) k h)\<lparr>last_seen := seen_at clk\<rparr>;
               h = put_stream k s h in
           if h_sequence hdr < expected_seq s
           then (Some (make_batch_ack clk hdr (h_sequence hdr)), h, [])
           else if h_sequence hdr > expected_seq s
                   \<and> (case transaction of None \<Rightarrow> True | Some t \<Rightarrow> tx_chunk_index t \<noteq> 0)
           then (Some (make_resync_required clk hdr (expected_seq s)), h, [])
           else case transaction of
                  Some t \<Rightarrow> ingest_chunk clk commit hdr next_sequence t (b_entries batch) k s h
                | None \<Rightarrow> ingest_incremental clk commit hdr next_sequence (b_entries batch) k s h)))"

definition handle_hello ::
  "b64_encoder \<Rightarrow> clock \<Rightarrow> FrameHeader option \<Rightarrow> ServiceIdentity option \<Rightarrow> 'p IngestHandler \<Rightarrow> 'p outcome" where
  "handle_hello enc clk header sid h =
     (case header of None \<Rightarrow> (None, h, []) | Some hdr \<Rightarrow>
      (case stream_key enc hdr sid of
         Err e \<Rightarrow> (Some (make_snapshot_transaction_error clk hdr e), h, [])
       | Ok k \<Rightarrow>
         let h = prune_expired_streams (prune_at clk) h;
             h = (if map_of (streams h) k = None
                  then h\<lparr>streams := filter (\<lambda>(k', _). k_identity k' \<noteq> k_identity k) (streams h)\<rparr>
                  else h) in
         if map_of (streams h) k = None \<and> length (streams h) \<ge> max_streams h
         then (Some (make_snapshot_transaction_error clk hdr StreamCapacity), h, [])
         else let s = (stream_or_new (seen_at clk) k h)\<lparr>last_seen := seen_at clk\<rparr>
              in (Some (make_hello_ack clk hdr (\<not> initialized s)), put_stream k s h, [])))"

definition handle_heartbeat ::
  "b64_encoder \<Rightarrow> clock \<Rightarrow> FrameHeader option \<Rightarrow> ServiceIdentity option \<Rightarrow> 'p IngestHandler \<Rightarrow> 'p outcome" where
  "handle_heartbeat enc clk header sid h =
     (case header of None \<Rightarrow> (None, h, []) | Some hdr \<Rightarrow>
      (case stream_key enc hdr sid of
         Err _ \<Rightarrow> (None, h, [])
       | Ok k \<Rightarrow>
         let h = prune_expired_streams (prune_at clk) h in
         case map_of (streams h) k of
           None \<Rightarrow> (None, h, [])
         | Some s \<Rightarrow> (None, put_stream k (s\<lparr>last_seen := seen_at clk\<rparr>) h, [])))"

definition handle_goodbye ::
  "b64_encoder \<Rightarrow> clock \<Rightarrow> FrameHeader option \<Rightarrow> ServiceIdentity option \<Rightarrow> 'p IngestHandler \<Rightarrow> 'p outcome" where
  "handle_goodbye enc clk header sid h =
     (case header of None \<Rightarrow> (None, h, []) | Some hdr \<Rightarrow>
      (case stream_key enc hdr sid of
         Err e \<Rightarrow> (Some (make_snapshot_transaction_error clk hdr e), h, [])
       | Ok k \<Rightarrow> (None, h\<lparr>streams := AList.delete k (streams h)\<rparr>, [])))"

definition handle_command_ack :: "rust_str \<Rightarrow> 'p IngestHandler \<Rightarrow> 'p IngestHandler" where
  "handle_command_ack cid h = h\<lparr>pending_commands := pending_commands h - {cid}\<rparr>"

fun handle_frame_with_optional_identity ::
  "b64_encoder \<Rightarrow> clock \<Rightarrow> 'p commit \<Rightarrow> 'p ClientPayload option \<Rightarrow> ServiceIdentity option \<Rightarrow>
   'p IngestHandler \<Rightarrow> 'p outcome" where
  "handle_frame_with_optional_identity enc clk commit (Some (PSnapshotBatch b)) sid h =
     handle_snapshot_batch enc clk commit b sid h"
| "handle_frame_with_optional_identity enc clk commit (Some (PHello hdr)) sid h =
     handle_hello enc clk hdr sid h"
| "handle_frame_with_optional_identity enc clk commit (Some (PHeartbeat hdr)) sid h =
     handle_heartbeat enc clk hdr sid h"
| "handle_frame_with_optional_identity enc clk commit (Some (PCommandAck cid _)) sid h =
     (None, handle_command_ack cid h, [])"
| "handle_frame_with_optional_identity enc clk commit (Some (PGoodbye hdr)) sid h =
     handle_goodbye enc clk hdr sid h"
| "handle_frame_with_optional_identity enc clk commit None sid h = (None, h, [])"

definition next_command_id :: "'p IngestHandler \<Rightarrow> rust_str \<times> 'p IngestHandler" where
  "next_command_id h = (lit ''cmd-'' @ decimal (unat (command_counter h)),
                        h\<lparr>command_counter := command_counter h + 1\<rparr>)"

definition issue_reset_command :: "clock \<Rightarrow> u64 list \<Rightarrow> 'p IngestHandler \<Rightarrow> ServerPayload \<times> 'p IngestHandler" where
  "issue_reset_command clk ids h =
     (let (cid, h) = next_command_id h
      in (ResetStats \<lparr>protocol_version = 1, h_service_name = [], h_instance_id = [], h_boot_id = [],
                      h_stream_epoch = 0, h_sequence = 0, emitted_at_unix_ms = unix_ms clk\<rparr> cid ids,
          h\<lparr>pending_commands := insert cid (pending_commands h)\<rparr>))"

definition has_pending_command :: "rust_str \<Rightarrow> 'p IngestHandler \<Rightarrow> bool" where
  "has_pending_command cid h \<longleftrightarrow> cid \<in> pending_commands h"

definition latest_snapshots ::
  "b64_encoder \<Rightarrow> nat \<Rightarrow> rust_str \<Rightarrow> rust_str \<Rightarrow> rust_str \<Rightarrow> 'p IngestHandler \<Rightarrow>
   'p SnapshotEntry list \<times> 'p IngestHandler" where
  "latest_snapshots enc now svc inst boot h =
     (case ServiceIdentity_try_new enc svc inst boot of
        Err _ \<Rightarrow> ([], h)
      | Ok i \<Rightarrow>
          let h = prune_expired_streams now h in
          (concat (map (\<lambda>(_, s). map snd (snapshots s)) (filter (\<lambda>(k, _). k_identity k = i) (streams h))), h))"

section \<open>The invariant\<close>

definition stream_ok :: "nat \<Rightarrow> 'p StreamState \<Rightarrow> bool" where
  "stream_ok bound s \<longleftrightarrow> expected_seq s \<noteq> 0 \<and>
     (\<forall>t. snapshot_transaction s = Some t \<longrightarrow> length (entries t) \<le> bound)"

definition ingest_ok :: "'p IngestHandler \<Rightarrow> bool" where
  "ingest_ok h \<longleftrightarrow> distinct (map fst (streams h)) \<and> length (streams h) \<le> max_streams h \<and>
     (\<forall>(k, s)\<in>set (streams h). stream_ok (max_snapshot_entries h) s)"

lemma ingest_ok_new: "ingest_ok IngestHandler_new"
  by (simp add: ingest_ok_def IngestHandler_new_def)

lemma ingest_ok_lookup: "ingest_ok h \<Longrightarrow> map_of (streams h) k = Some s \<Longrightarrow> stream_ok (max_snapshot_entries h) s"
  by (auto simp: ingest_ok_def dest!: map_of_SomeD)

lemma set_alist_update: "set (AList.update k v m) \<subseteq> insert (k, v) (set m)"
  by (induction m) auto

lemma ingest_ok_put:
  assumes "ingest_ok h" and "stream_ok (max_snapshot_entries h) s"
    and "map_of (streams h) k \<noteq> None \<or> length (streams h) < max_streams h"
  shows "ingest_ok (put_stream k s h)"
proof -
  have "k \<in> fst ` set (streams h) \<or> length (streams h) < max_streams h"
    using assms(3) by (metis map_of_eq_None_iff set_map)
  moreover have "\<forall>(k', s')\<in>set (AList.update k s (streams h)). stream_ok (max_snapshot_entries h) s'"
    using assms(1,2) set_alist_update [of k s "streams h"] by (auto simp: ingest_ok_def)
  ultimately show ?thesis
    using assms(1) by (auto simp: ingest_ok_def put_stream_def length_update distinct_update)
qed

lemma ingest_ok_filter: "ingest_ok h \<Longrightarrow> ingest_ok (h\<lparr>streams := filter P (streams h)\<rparr>)"
  by (auto simp: ingest_ok_def distinct_map_filter intro: order_trans [OF length_filter_le])

lemma ingest_ok_prune: "ingest_ok h \<Longrightarrow> ingest_ok (prune_expired_streams now h)"
  unfolding prune_expired_streams_def by (rule ingest_ok_filter)

lemma ingest_ok_frame [simp]:
  "ingest_ok (h\<lparr>ingest_count := n\<rparr>) = ingest_ok h"
  "ingest_ok (h\<lparr>pending_commands := c\<rparr>) = ingest_ok h"
  by (simp_all add: ingest_ok_def)

lemma put_stream_simps [simp]:
  "max_snapshot_entries (put_stream k s h) = max_snapshot_entries h"
  "max_streams (put_stream k s h) = max_streams h"
  "stream_ttl (put_stream k s h) = stream_ttl h"
  "ingest_count (put_stream k s h) = ingest_count h"
  "map_of (streams (put_stream k s h)) = (map_of (streams h))(k \<mapsto> s)"
  by (simp_all add: put_stream_def update_conv')

lemma stream_ok_touch [simp]:
  "stream_ok n (s\<lparr>last_seen := t\<rparr>) = stream_ok n s" "stream_ok n (StreamState_new t)"
  "stream_ok n (s\<lparr>initialized := b\<rparr>) = stream_ok n s" "stream_ok n (s\<lparr>snapshots := m\<rparr>) = stream_ok n s"
  by (simp_all add: stream_ok_def StreamState_new_def)

lemma stream_or_new_ok: "ingest_ok h \<Longrightarrow> stream_ok (max_snapshot_entries h) (stream_or_new now k h)"
  by (auto simp: stream_or_new_def split: option.splits dest: ingest_ok_lookup)

lemma ingest_ok_chunk:
  assumes "ingest_ok h" "map_of (streams h) k \<noteq> None" "stream_ok (max_snapshot_entries h) s" "n \<noteq> 0"
  shows "ingest_ok (fst (snd (ingest_chunk clk commit hdr n t es k s h)))"
proof -
  define s' where "s' = (if tx_chunk_index t = 0
     then s\<lparr>snapshot_transaction := Some (SnapshotTransactionState_new (tx_id t) (tx_chunk_count t))\<rparr> else s)"
  have s': "stream_ok (max_snapshot_entries h) s'"
    using assms(3) by (simp add: s'_def stream_ok_def SnapshotTransactionState_new_def)
  have h': "ingest_ok (put_stream k s' h)"
    using assms s' by (intro ingest_ok_put) auto
  have staged: "stream_ok (max_snapshot_entries h)
      (s'\<lparr>snapshot_transaction := Some (SnapshotTransactionState_stage st es), expected_seq := n\<rparr>)"
    if "SnapshotTransactionState_entry_count st + length es \<le> max_snapshot_entries h" for st
    using that assms(4) by (simp add: stream_ok_def SnapshotTransactionState_stage_def
        SnapshotTransactionState_entry_count_def)
  have finish: "stream_ok (max_snapshot_entries h)
      (s'\<lparr>snapshots := m, snapshot_transaction := None, initialized := True, expected_seq := n\<rparr>)" for m
    using assms(4) by (simp add: stream_ok_def)
  show ?thesis
    unfolding ingest_chunk_def Let_def s'_def [symmetric] using assms(1) h' staged finish
    by (auto simp: not_less split: option.splits intro!: ingest_ok_put)
qed

lemma ingest_ok_incremental:
  assumes "ingest_ok h" "map_of (streams h) k \<noteq> None" "stream_ok (max_snapshot_entries h) s" "n \<noteq> 0"
  shows "ingest_ok (fst (snd (ingest_incremental clk commit hdr n es k s h)))"
proof -
  have "stream_ok (max_snapshot_entries h) (store_snapshots (s\<lparr>expected_seq := n\<rparr>) es)"
    using assms(3,4) by (auto simp: stream_ok_def store_snapshots_def)
  with assms show ?thesis
    by (auto simp: ingest_incremental_def intro!: ingest_ok_put)
qed

lemma u64_Suc_nonzero: "w \<noteq> - 1 \<Longrightarrow> (w::u64) + 1 \<noteq> 0"
  by (metis add.commute add_eq_0_iff add.inverse_inverse)

lemma ingest_ok_batch:
  assumes "ingest_ok h"
  shows "ingest_ok (fst (snd (handle_snapshot_batch enc clk commit batch sid h)))"
proof -
  let ?h1 = "prune_expired_streams (prune_at clk) h"
  have ok1: "ingest_ok ?h1"
    by (rule ingest_ok_prune [OF assms])
  have ok2: "ingest_ok (put_stream k ((stream_or_new (seen_at clk) k ?h1)\<lparr>last_seen := seen_at clk\<rparr>) ?h1)"
    if "\<not> (map_of (streams ?h1) k = None \<and> length (streams ?h1) \<ge> max_streams ?h1)" for k
    using that ok1 stream_or_new_ok [OF ok1] by (intro ingest_ok_put) auto
  show ?thesis
    unfolding handle_snapshot_batch_def Let_def
    using assms ok1 ok2 stream_or_new_ok [OF ok1] u64_Suc_nonzero
    by (auto split: option.splits result.splits intro!: ingest_ok_chunk ingest_ok_incremental)
qed

lemma ingest_ok_hello:
  assumes "ingest_ok h"
  shows "ingest_ok (fst (snd (handle_hello enc clk hdr sid h)))"
proof -
  let ?h1 = "prune_expired_streams (prune_at clk) h"
  have ok1: "ingest_ok ?h1"
    by (rule ingest_ok_prune [OF assms])
  define h2 where "h2 k = (if map_of (streams ?h1) k = None
      then ?h1\<lparr>streams := filter (\<lambda>(k', _). k_identity k' \<noteq> k_identity k) (streams ?h1)\<rparr> else ?h1)" for k
  have ok2: "ingest_ok (h2 k)" for k
    using ok1 by (auto simp: h2_def intro: ingest_ok_filter)
  have "ingest_ok (put_stream k ((stream_or_new (seen_at clk) k (h2 k))\<lparr>last_seen := seen_at clk\<rparr>) (h2 k))"
    if "\<not> (map_of (streams (h2 k)) k = None \<and> length (streams (h2 k)) \<ge> max_streams (h2 k))" for k
    using that ok2 [of k] stream_or_new_ok [OF ok2 [of k]] by (intro ingest_ok_put) auto
  with assms ok2 show ?thesis
    unfolding handle_hello_def Let_def h2_def [symmetric]
    by (auto split: option.splits result.splits)
qed

lemma ingest_ok_heartbeat:
  assumes "ingest_ok h"
  shows "ingest_ok (fst (snd (handle_heartbeat enc clk hdr sid h)))"
proof -
  have "ingest_ok (prune_expired_streams (prune_at clk) h)"
    by (rule ingest_ok_prune [OF assms])
  with assms show ?thesis
    unfolding handle_heartbeat_def Let_def
    by (auto split: option.splits result.splits intro!: ingest_ok_put dest: ingest_ok_lookup)
qed

lemma ingest_ok_goodbye: "ingest_ok h \<Longrightarrow> ingest_ok (fst (snd (handle_goodbye enc clk hdr sid h)))"
  by (auto simp: handle_goodbye_def AList.delete_eq split: option.splits result.splits intro: ingest_ok_filter)

text \<open>C10. No sequence of client frames can exhaust the server's ingest state: every frame, valid or
  not, keeps at most \<open>max_streams\<close> streams, one state per stream identity, at most
  \<open>max_snapshot_entries\<close> staged entries in any open transaction, and a non-zero expected sequence.\<close>

theorem ingest_frame_invariant:
  assumes "ingest_ok h"
  shows "ingest_ok (fst (snd (handle_frame_with_optional_identity enc clk commit frame sid h)))"
proof (cases frame)
  case (Some p)
  with assms show ?thesis
    by (cases p) (simp_all add: ingest_ok_batch ingest_ok_hello ingest_ok_heartbeat ingest_ok_goodbye
        handle_command_ack_def)
qed (simp add: assms)

theorem ingest_frame_invariant_witness:
  "ingest_ok (fst (snd (handle_frame_with_optional_identity b64_url_encode
     \<lparr>prune_at = 0, seen_at = 0, unix_ms = 0\<rparr> (\<lambda>_ _. True) None None (IngestHandler_new :: nat IngestHandler))))"
  by (rule ingest_frame_invariant [OF ingest_ok_new])

section \<open>Deduplication and rejected commits\<close>

text \<open>The live stream that a batch reaches, after expiry and the touch of the stream.\<close>

definition reached_stream ::
  "b64_encoder \<Rightarrow> clock \<Rightarrow> FrameHeader \<Rightarrow> ServiceIdentity option \<Rightarrow> 'p IngestHandler \<Rightarrow> StreamKey \<Rightarrow> 'p StreamState \<Rightarrow> bool" where
  "reached_stream enc clk hdr sid h k s \<longleftrightarrow>
     stream_key enc hdr sid = Ok k \<and> map_of (streams (prune_expired_streams (prune_at clk) h)) k = Some s"

text \<open>C12. A batch whose sequence was already ingested is acknowledged again without any effect: the
  repository is not called, no counter moves, and the stream keeps its sequence, its visible
  snapshots and its open transaction.\<close>

theorem duplicate_batch_has_no_effect:
  assumes "b_header batch = Some hdr" and "validate_snapshot_transaction batch = Ok tx"
    and "reached_stream enc clk hdr sid h k s"
    and "h_sequence hdr \<noteq> 0" and "h_sequence hdr < expected_seq s"
  shows "handle_snapshot_batch enc clk commit batch sid h =
    (Some (make_batch_ack clk hdr (h_sequence hdr)),
     put_stream k (s\<lparr>last_seen := seen_at clk\<rparr>) (prune_expired_streams (prune_at clk) h), [])"
proof -
  have "h_sequence hdr \<noteq> - 1"
    using assms(5) by (metis word_n1_ge not_less)
  with assms show ?thesis
    by (simp add: handle_snapshot_batch_def reached_stream_def stream_or_new_def Let_def)
qed

text \<open>When the repository rejects a batch, the client is told to resend the same sequence and
  nothing it can observe has moved: the expected sequence, the visible snapshots and the
  initialised flag of the stream and the ingest counter are as before, and the repository was
  asked at most once.\<close>

theorem rejected_commit_keeps_stream:
  assumes "b_header batch = Some hdr" and "reached_stream enc clk hdr sid h k s"
    and "\<forall>es full. \<not> commit es full"
    and "handle_snapshot_batch enc clk commit batch sid h = (reply, h', calls)" and "calls \<noteq> []"
  shows "reply = Some (make_repository_rejected clk hdr (expected_seq s)) \<and> length calls = 1 \<and>
    ingest_count h' = ingest_count h \<and>
    (\<exists>s'. map_of (streams h') k = Some s' \<and> expected_seq s' = expected_seq s \<and>
          snapshots s' = snapshots s \<and> initialized s' = initialized s)"
  using assms unfolding handle_snapshot_batch_def ingest_chunk_def ingest_incremental_def reached_stream_def Let_def
  by (auto simp: stream_or_new_def prune_expired_streams_def split: option.splits result.splits if_splits)

section \<open>Full snapshots appear atomically\<close>

lemma unat_of_nat_u32: "n < 4294967296 \<Longrightarrow> unat (of_nat n :: u32) = n"
  by (simp add: unat_of_nat)

lemma of_nat_u32_eq_iff: "m < 4294967296 \<Longrightarrow> n < 4294967296 \<Longrightarrow> (of_nat m :: u32) = of_nat n \<longleftrightarrow> m = n"
  by (metis unat_of_nat_u32)

lemma of_nat_u32_less_iff: "m < 4294967296 \<Longrightarrow> n < 4294967296 \<Longrightarrow> (of_nat m :: u32) < of_nat n \<longleftrightarrow> m < n"
  by (simp add: word_less_nat_alt unat_of_nat_u32)

lemma u32_max: "- 1 = (of_nat 4294967295 :: u32)"
  by simp

lemma u32_succ: "Suc i < 4294967296 \<Longrightarrow> u32_saturating_succ (of_nat i) = of_nat (Suc i)"
  by (simp only: u32_saturating_succ_def u32_max of_nat_u32_eq_iff) simp

lemma unat_of_nat_u64: "n < 18446744073709551616 \<Longrightarrow> unat (of_nat n :: u64) = n"
  by (simp add: unat_of_nat)

lemma of_nat_u64_bounds:
  assumes "0 < n" "Suc n < 18446744073709551616"
  shows "(of_nat n :: u64) \<noteq> 0" "(of_nat n :: u64) \<noteq> - 1"
proof -
  show "(of_nat n :: u64) \<noteq> 0"
    using unat_of_nat_u64 [of n] assms by auto
  show "(of_nat n :: u64) \<noteq> - 1"
    using unat_of_nat_u64 [of n] unat_u64_max assms by auto
qed

text \<open>The frames of one snapshot transaction of \<open>n\<close> chunks, numbered from sequence \<open>q\<close>.\<close>

definition chunk_batch :: "FrameHeader \<Rightarrow> rust_str \<Rightarrow> nat \<Rightarrow> nat \<Rightarrow> nat \<Rightarrow> 'p SnapshotEntry list \<Rightarrow> 'p SnapshotBatch" where
  "chunk_batch hdr tid n q i es =
     \<lparr>b_header = Some (hdr\<lparr>h_sequence := of_nat (q + i)\<rparr>), b_entries = es, is_full_snapshot = True,
      b_transaction = Some \<lparr>tx_id = tid, tx_chunk_index = of_nat i, tx_chunk_count = of_nat n,
                            tx_end = (Suc i = n)\<rparr>\<rparr>"

fun send_chunks ::
  "b64_encoder \<Rightarrow> (nat \<Rightarrow> clock) \<Rightarrow> 'p commit \<Rightarrow> ServiceIdentity option \<Rightarrow> (nat \<Rightarrow> FrameHeader) \<Rightarrow> rust_str \<Rightarrow> nat \<Rightarrow> nat \<Rightarrow> nat \<Rightarrow>
   'p SnapshotEntry list list \<Rightarrow> 'p IngestHandler \<Rightarrow>
   ServerPayload option list \<times> 'p IngestHandler \<times> ('p SnapshotEntry list \<times> bool) list" where
  "send_chunks enc clk commit sid hdr tid n q i [] h = ([], h, [])"
| "send_chunks enc clk commit sid hdr tid n q i (es # ess) h =
     (case handle_snapshot_batch enc (clk i) commit (chunk_batch (hdr i) tid n q i es) sid h of
        (r, h1, calls) \<Rightarrow>
          (case send_chunks enc clk commit sid hdr tid n q (Suc i) ess h1 of
             (rs, h2, calls') \<Rightarrow> (r # rs, h2, calls @ calls')))"

lemma validate_chunk_batch:
  assumes "str_trim tid \<noteq> []" "i < n" "n < 4294967296"
  shows "validate_snapshot_transaction (chunk_batch hdr tid n q i es) =
    Ok (b_transaction (chunk_batch hdr tid n q i es))"
proof -
  have "(of_nat i :: u32) + 1 = of_nat (Suc i)"
    by (simp add: add.commute)
  moreover have "(of_nat (Suc i) :: u32) = of_nat n \<longleftrightarrow> Suc i = n"
    using assms by (intro of_nat_u32_eq_iff) auto
  ultimately have last: "(of_nat i :: u32) + 1 = of_nat n \<longleftrightarrow> Suc i = n"
    by (simp del: of_nat_Suc)
  have top: "(of_nat i :: u32) \<noteq> - 1"
    using assms by (simp only: u32_max) (subst of_nat_u32_eq_iff; simp)
  have "(of_nat n :: u32) \<noteq> 0"
    using assms unat_of_nat_u32 [of n] by auto
  moreover have "\<not> (of_nat i :: u32) \<ge> of_nat n"
    using assms by (simp add: not_le of_nat_u32_less_iff)
  ultimately show ?thesis
    using assms(1) last top
    by (simp add: validate_snapshot_transaction_def chunk_batch_def Let_def)
qed

text \<open>The state of the stream between two chunks: the next one is expected, and everything sent so
  far is staged.\<close>

definition staged_before ::
  "rust_str \<Rightarrow> nat \<Rightarrow> nat \<Rightarrow> nat \<Rightarrow> 'p SnapshotEntry list \<Rightarrow> 'p StreamState \<Rightarrow> bool" where
  "staged_before tid n q i acc s \<longleftrightarrow> expected_seq s = of_nat (q + i) \<and>
     (if i = 0 then acc = []
      else snapshot_transaction s =
        Some \<lparr>transaction_id = tid, next_chunk_index = of_nat i, chunk_count = of_nat n, entries = acc\<rparr>)"

lemma map_of_filter_Some: "map_of m k = Some v \<Longrightarrow> P (k, v) \<Longrightarrow> map_of (filter P m) k = Some v"
  by (induction m) (auto split: if_splits)

lemma lookup_pruned:
  "map_of (streams h) k = Some s \<Longrightarrow> now - last_seen s < stream_ttl h \<Longrightarrow>
     map_of (streams (prune_expired_streams now h)) k = Some s"
  by (simp add: prune_expired_streams_def map_of_filter_Some)

lemma handle_chunk_batch:
  assumes key: "stream_key enc hdr sid = Ok k"
    and s: "map_of (streams (prune_expired_streams (prune_at clk) h)) k = Some s"
    and seq: "expected_seq s = of_nat (q + i)"
    and n: "str_trim tid \<noteq> []" "i < n" "n < 4294967296"
    and q: "0 < q" "Suc (q + i) < 18446744073709551616"
  shows "handle_snapshot_batch enc clk commit (chunk_batch hdr tid n q i es) sid h =
    ingest_chunk clk commit (hdr\<lparr>h_sequence := of_nat (q + i)\<rparr>) (of_nat (q + Suc i))
      \<lparr>tx_id = tid, tx_chunk_index = of_nat i, tx_chunk_count = of_nat n, tx_end = (Suc i = n)\<rparr> es k
      (s\<lparr>last_seen := seen_at clk\<rparr>)
      (put_stream k (s\<lparr>last_seen := seen_at clk\<rparr>) (prune_expired_streams (prune_at clk) h))"
proof -
  have "(of_nat (q + i) :: u64) \<noteq> 0" "(of_nat (q + i) :: u64) \<noteq> - 1"
    using of_nat_u64_bounds [of "q + i"] q by simp_all
  moreover have "stream_key enc (hdr\<lparr>h_sequence := x\<rparr>) sid = Ok k" for x
    using key by (cases sid) (simp_all add: stream_key_def split: result.splits if_splits)
  moreover have "(of_nat (q + i) :: u64) + 1 = of_nat (q + Suc i)"
    by simp
  ultimately show ?thesis
    using validate_chunk_batch [OF n, of hdr q es] s seq
    by (simp add: handle_snapshot_batch_def chunk_batch_def stream_or_new_def Let_def
        del: of_nat_add of_nat_Suc)
qed

lemma ingest_chunk_accepted:
  fixes k :: StreamKey
  assumes st: "staged_before tid n q i acc s"
    and n: "i < n" "n < 4294967296" "n \<le> max_snapshot_entries h"
    and len: "length (acc @ es) \<le> max_snapshot_entries h"
    and commit: "Suc i = n \<longrightarrow> commit (acc @ es) True"
  defines "st \<equiv> \<lparr>transaction_id = tid, next_chunk_index = of_nat i, chunk_count = of_nat n, entries = acc\<rparr>"
  defines "h1 \<equiv> (put_stream k (s\<lparr>snapshot_transaction := Some st\<rparr>) h)\<lparr>ingest_count := ingest_count h + 1\<rparr>"
  shows "ingest_chunk clk commit hdr nxt
      \<lparr>tx_id = tid, tx_chunk_index = of_nat i, tx_chunk_count = of_nat n, tx_end = (Suc i = n)\<rparr> es k s h =
      (Some (make_batch_ack clk hdr (h_sequence hdr)),
       put_stream k
         (if Suc i = n then s\<lparr>snapshots := collect_by_id (acc @ es), snapshot_transaction := None,
                              initialized := True, expected_seq := nxt\<rparr>
          else s\<lparr>snapshot_transaction := Some (st\<lparr>next_chunk_index := of_nat (Suc i), entries := acc @ es\<rparr>),
                 expected_seq := nxt\<rparr>) h1,
       if Suc i = n then [(acc @ es, True)] else [])"
proof -
  let ?s = "s\<lparr>snapshot_transaction := Some st\<rparr>"
  have zero: "(of_nat i :: u32) = 0 \<longleftrightarrow> i = 0"
    using of_nat_u32_eq_iff [of i 0] n by simp
  have s2: "(if (of_nat i :: u32) = 0
      then s\<lparr>snapshot_transaction := Some (SnapshotTransactionState_new tid (of_nat n))\<rparr> else s) = ?s"
    using st zero by (cases s) (auto simp: st_def staged_before_def SnapshotTransactionState_new_def split: if_splits)
  have cnt: "\<not> unat (of_nat n :: u32) > max_snapshot_entries h"
    using n by (simp add: unat_of_nat_u32)
  have acc: "SnapshotTransactionState_accepts st tid (of_nat i) (of_nat n)"
    by (simp add: SnapshotTransactionState_accepts_def st_def)
  have cap: "\<not> SnapshotTransactionState_entry_count st + length es > max_snapshot_entries h"
    using len by (simp add: SnapshotTransactionState_entry_count_def st_def)
  have cand: "SnapshotTransactionState_complete_candidate st es = acc @ es"
    by (simp add: SnapshotTransactionState_complete_candidate_def st_def)
  have "u32_saturating_succ (of_nat i) = of_nat (Suc i)"
    using n by (intro u32_succ) auto
  then have stage: "SnapshotTransactionState_stage st es = st\<lparr>next_chunk_index := of_nat (Suc i), entries := acc @ es\<rparr>"
    by (simp only: SnapshotTransactionState_stage_def st_def SnapshotTransactionState.simps)
  show ?thesis
    unfolding ingest_chunk_def h1_def SnapshotTransaction.simps s2 Let_def
    using cnt acc cap cand stage commit
    by (cases "Suc i = n") (simp_all del: of_nat_Suc)
qed

text \<open>One step: a chunk that follows what is staged is acknowledged, and either stays invisible or, as
  the last one, publishes the whole transaction with one commit.\<close>

lemma accepted_chunk:
  assumes key: "stream_key enc hdr sid = Ok k"
    and s: "map_of (streams h) k = Some s" "prune_at clk - last_seen s < stream_ttl h"
    and st: "staged_before tid n q i acc s"
    and n: "str_trim tid \<noteq> []" "i < n" "n < 4294967296" "n \<le> max_snapshot_entries h"
    and q: "0 < q" "Suc (q + i) < 18446744073709551616"
    and len: "length (acc @ es) \<le> max_snapshot_entries h"
    and commit: "Suc i = n \<longrightarrow> commit (acc @ es) True"
  obtains h' s' where
    "handle_snapshot_batch enc clk commit (chunk_batch hdr tid n q i es) sid h =
      (Some (make_batch_ack clk (hdr\<lparr>h_sequence := of_nat (q + i)\<rparr>) (of_nat (q + i))), h',
       if Suc i = n then [(acc @ es, True)] else [])"
    "map_of (streams h') k = Some s'" "last_seen s' = seen_at clk"
    "expected_seq s' = of_nat (q + Suc i)"
    "stream_ttl h' = stream_ttl h" "max_snapshot_entries h' = max_snapshot_entries h"
    "Suc i < n \<Longrightarrow> staged_before tid n q (Suc i) (acc @ es) s' \<and> snapshots s' = snapshots s"
    "Suc i = n \<Longrightarrow> snapshot_transaction s' = None \<and> initialized s' \<and> snapshots s' = collect_by_id (acc @ es)"
proof -
  let ?hp = "prune_expired_streams (prune_at clk) h"
  let ?s = "s\<lparr>last_seen := seen_at clk\<rparr>"
  have sp: "map_of (streams ?hp) k = Some s"
    using lookup_pruned s by blast
  have st': "staged_before tid n q i acc ?s"
    using st by (simp add: staged_before_def)
  have hp: "max_snapshot_entries ?hp = max_snapshot_entries h" "stream_ttl ?hp = stream_ttl h"
    by (simp_all add: prune_expired_streams_def)
  have seq: "expected_seq s = of_nat (q + i)"
    using st by (simp add: staged_before_def)
  let ?h0 = "put_stream k ?s ?hp"
  have cap: "n \<le> max_snapshot_entries ?h0" "length (acc @ es) \<le> max_snapshot_entries ?h0"
    using n(4) len by (simp_all add: hp)
  have sent: "h_sequence (hdr\<lparr>h_sequence := of_nat (q + i)\<rparr>) = of_nat (q + i)"
    by simp
  note chunk = ingest_chunk_accepted [where clk = clk and k = k and nxt = "of_nat (q + Suc i)"
      and hdr = "hdr\<lparr>h_sequence := of_nat (q + i)\<rparr>" and commit = commit, OF st' n(2,3) cap commit]
  note run = handle_chunk_batch [OF key sp seq n(1-3) q, of commit es, unfolded chunk,
      unfolded sent]
  show thesis
    by (rule that [OF run]) (use n in \<open>auto simp: staged_before_def hp simp del: of_nat_Suc of_nat_add\<close>)
qed

lemma send_chunks_from:
  assumes key: "\<And>j. stream_key enc (hdr j) sid = Ok k"
    and s: "map_of (streams h) k = Some s" "prune_at (clk i) - last_seen s < stream_ttl h"
    and clk: "\<And>j. prune_at (clk (Suc j)) - seen_at (clk j) < stream_ttl h"
    and st: "staged_before tid n q i acc s"
    and n: "str_trim tid \<noteq> []" "i + length ess = n" "ess \<noteq> []" "n < 4294967296" "n \<le> max_snapshot_entries h"
    and q: "0 < q" "q + n < 18446744073709551616"
    and len: "length (acc @ concat ess) \<le> max_snapshot_entries h"
    and commit: "commit (acc @ concat ess) True"
  shows "\<exists>h' s'. send_chunks enc clk commit sid hdr tid n q i ess h =
      (map (\<lambda>j. Some (make_batch_ack (clk j) (hdr j\<lparr>h_sequence := of_nat (q + j)\<rparr>) (of_nat (q + j)))) [i..<n],
       h', [(acc @ concat ess, True)]) \<and>
     map_of (streams h') k = Some s' \<and> expected_seq s' = of_nat (q + n) \<and>
     snapshot_transaction s' = None \<and> initialized s' \<and> snapshots s' = collect_by_id (acc @ concat ess)"
  using s clk st n len commit
proof (induction ess arbitrary: i acc h s)
  case (Cons es ess)
  note prems = Cons.prems
  have "i < n" "Suc (q + i) < 18446744073709551616" "length (acc @ es) \<le> max_snapshot_entries h"
    "Suc i = n \<longrightarrow> commit (acc @ es) True"
    using prems q by auto
  then obtain h' s' where step:
    "handle_snapshot_batch enc (clk i) commit (chunk_batch (hdr i) tid n q i es) sid h =
      (Some (make_batch_ack (clk i) (hdr i\<lparr>h_sequence := of_nat (q + i)\<rparr>) (of_nat (q + i))), h',
       if Suc i = n then [(acc @ es, True)] else [])"
    and s': "map_of (streams h') k = Some s'" "last_seen s' = seen_at (clk i)"
    "expected_seq s' = of_nat (q + Suc i)"
    and h': "stream_ttl h' = stream_ttl h" "max_snapshot_entries h' = max_snapshot_entries h"
    and more: "Suc i < n \<Longrightarrow> staged_before tid n q (Suc i) (acc @ es) s' \<and> snapshots s' = snapshots s"
    and last: "Suc i = n \<Longrightarrow> snapshot_transaction s' = None \<and> initialized s' \<and> snapshots s' = collect_by_id (acc @ es)"
    using accepted_chunk [OF key prems(1,2,4,5) _ prems(8,9) q(1)] by metis
  have upt: "[i..<n] = i # [Suc i..<n]"
    using \<open>i < n\<close> by (rule upt_conv_Cons)
  show ?case
  proof (cases "ess = []")
    case True
    then show ?thesis
      using prems step s' last upt by (simp del: of_nat_Suc of_nat_add)
  next
    case False
    then have "Suc i < n"
      using prems(6) by (cases ess) auto
    moreover have "Suc i + length ess = n" "length ((acc @ es) @ concat ess) \<le> max_snapshot_entries h'"
      "commit ((acc @ es) @ concat ess) True" "n \<le> max_snapshot_entries h'"
      using prems h' by auto
    ultimately show ?thesis
      using Cons.IH [of h' s' "Suc i" "acc @ es"] prems False step s' h' more upt
      by (auto simp del: of_nat_Suc of_nat_add)
  qed
qed simp


section \<open>A concrete stream\<close>

definition sample_identity :: ServiceIdentity where
  "sample_identity = \<lparr>service_name = lit ''a'', instance_id = lit ''b'', boot_id = lit ''c'',
     service_id = lit ''v1''\<rparr>"

definition sample_header :: "u64 \<Rightarrow> FrameHeader" where
  "sample_header q = \<lparr>protocol_version = 1, h_service_name = lit ''a'', h_instance_id = lit ''b'',
     h_boot_id = lit ''c'', h_stream_epoch = 7, h_sequence = q, emitted_at_unix_ms = 0\<rparr>"

definition sample_key :: StreamKey where
  "sample_key = \<lparr>k_identity = sample_identity, k_epoch = 7\<rparr>"

definition sample_stream :: "nat StreamState" where
  "sample_stream = \<lparr>last_seen = 5, expected_seq = 3, initialized = True, snapshots = [],
     snapshot_transaction = None\<rparr>"

definition sample_handler :: "nat IngestHandler" where
  "sample_handler = \<lparr>streams = [(sample_key, sample_stream)], pending_commands = {}, ingest_count = 0,
     command_counter = 0, max_streams = 4, max_snapshot_entries = 8, stream_ttl = 100\<rparr>"

definition sample_clock :: clock where
  "sample_clock = \<lparr>prune_at = 10, seen_at = 10, unix_ms = 0\<rparr>"

definition sample_batch :: "u64 \<Rightarrow> nat SnapshotBatch" where
  "sample_batch q = \<lparr>b_header = Some (sample_header q), b_entries = [\<lparr>datasource_id = 1, contents = 0\<rparr>],
     is_full_snapshot = False, b_transaction = None\<rparr>"

lemmas sample_defs = sample_identity_def sample_header_def sample_key_def sample_stream_def
  sample_handler_def sample_clock_def sample_batch_def

lemma sample_reached:
  "reached_stream b64_url_encode sample_clock (sample_header q) (Some sample_identity) sample_handler
     sample_key sample_stream"
  by (simp add: reached_stream_def stream_key_def prune_expired_streams_def sample_defs)

theorem duplicate_batch_has_no_effect_witness:
  "handle_snapshot_batch b64_url_encode sample_clock (\<lambda>_ _. True) (sample_batch 2) (Some sample_identity) sample_handler =
    (Some (make_batch_ack sample_clock (sample_header 2) (h_sequence (sample_header 2))),
     put_stream sample_key (sample_stream\<lparr>last_seen := seen_at sample_clock\<rparr>)
       (prune_expired_streams (prune_at sample_clock) sample_handler), [])"
  by (rule duplicate_batch_has_no_effect [where tx = None, OF _ _ sample_reached])
    (simp_all add: sample_defs validate_snapshot_transaction_def)

lemma sample_rejected:
  "handle_snapshot_batch b64_url_encode sample_clock (\<lambda>_ _. False) (sample_batch 3) (Some sample_identity) sample_handler =
    (Some (make_repository_rejected sample_clock (sample_header 3) 3),
     put_stream sample_key (sample_stream\<lparr>last_seen := 10\<rparr>) sample_handler, [(b_entries (sample_batch 3), False)])"
  by (simp add: handle_snapshot_batch_def ingest_incremental_def validate_snapshot_transaction_def
      stream_key_def prune_expired_streams_def stream_or_new_def sample_defs)

theorem rejected_commit_keeps_stream_witness:
  "ingest_count (put_stream sample_key (sample_stream\<lparr>last_seen := 10\<rparr>) sample_handler) = ingest_count sample_handler"
proof -
  have "b_header (sample_batch 3) = Some (sample_header 3)"
    by (simp add: sample_batch_def)
  from rejected_commit_keeps_stream [OF this sample_reached _ sample_rejected] show ?thesis
    by simp
qed

definition sample_chunks :: "nat SnapshotEntry list list" where
  "sample_chunks = [[\<lparr>datasource_id = 1, contents = 0\<rparr>], [\<lparr>datasource_id = 2, contents = 1\<rparr>]]"


end
