(* ===== verification/Ordered_Map.thy ===== *)
theory Ordered_Map
  imports Prelude
begin

text \<open>
  The ordered map of the Rust standard library (\<open>BTreeMap\<close>) as the sources use it: a list of
  entries in ascending key order. The locale \<open>ordered_map\<close> states what the clients (the sequence
  window, the metrics aggregator, the repository) rely on; its lemmas are proved once from these
  laws and reach the clients through the interpretation \<open>bt\<close>.
\<close>

section \<open>Definitions\<close>

type_synonym ('k, 'v) btree = "('k \<times> 'v) list"

fun bt_insert :: "'k::linorder \<Rightarrow> 'v \<Rightarrow> ('k, 'v) btree \<Rightarrow> ('k, 'v) btree" where
  "bt_insert k v [] = [(k, v)]"
| "bt_insert k v ((k', v') # m) =
     (if k < k' then (k, v) # (k', v') # m
      else if k = k' then (k, v) # m
      else (k', v') # bt_insert k v m)"

definition bt_remove :: "'k \<Rightarrow> ('k, 'v) btree \<Rightarrow> ('k, 'v) btree" where
  "bt_remove k m = filter (\<lambda>e. fst e \<noteq> k) m"

definition bt_invar :: "('k::linorder, 'v) btree \<Rightarrow> bool" where
  "bt_invar m \<longleftrightarrow> sorted_wrt (<) (map fst m)"

section \<open>The interface\<close>

locale ordered_map =
  fixes invar :: "'m \<Rightarrow> bool"
    and empty :: 'm
    and look :: "'m \<Rightarrow> 'k::linorder \<Rightarrow> 'v option"
    and ins :: "'k \<Rightarrow> 'v \<Rightarrow> 'm \<Rightarrow> 'm"
    and rem :: "'k \<Rightarrow> 'm \<Rightarrow> 'm"
    and entries :: "'m \<Rightarrow> ('k \<times> 'v) list"
  assumes invar_empty: "invar empty"
    and invar_ins: "invar m \<Longrightarrow> invar (ins k v m)"
    and invar_rem: "invar m \<Longrightarrow> invar (rem k m)"
    and entries_empty: "entries empty = []"
    and look_ins: "invar m \<Longrightarrow> look (ins k v m) = (look m)(k \<mapsto> v)"
    and look_rem: "invar m \<Longrightarrow> look (rem k m) = (look m)(k := None)"
    and entries_sorted: "invar m \<Longrightarrow> sorted_wrt (<) (map fst (entries m))"
    and look_entries: "invar m \<Longrightarrow> look m = map_of (entries m)"
begin

lemma entries_distinct: "invar m \<Longrightarrow> distinct (map fst (entries m))"
  using entries_sorted [of m] by (simp add: strict_sorted_iff)

lemma dom_look: "invar m \<Longrightarrow> dom (look m) = fst ` set (entries m)"
  by (simp add: look_entries dom_map_of_conv_image_fst)

lemma look_Some_iff: "invar m \<Longrightarrow> look m k = Some v \<longleftrightarrow> (k, v) \<in> set (entries m)"
  by (simp add: look_entries entries_distinct)

lemma look_None_iff: "invar m \<Longrightarrow> look m k = None \<longleftrightarrow> k \<notin> fst ` set (entries m)"
  by (simp add: look_entries map_of_eq_None_iff)

lemma entries_of_keys: "invar m \<Longrightarrow> entries m = map (\<lambda>k. (k, the (look m k))) (map fst (entries m))"
  by (rule sym, simp, rule map_idI) (auto simp: look_entries entries_distinct)

lemma entries_ext:
  assumes m: "invar m" and n: "invar n" and eq: "look m = look n"
  shows "entries m = entries n"
proof -
  have "set (map fst (entries m)) = set (map fst (entries n))"
    using assms by (metis dom_look set_map)
  then have "map fst (entries m) = map fst (entries n)"
    using entries_sorted [OF m] entries_sorted [OF n] by (simp add: strict_sorted_equal)
  then show ?thesis
    using entries_of_keys [OF m] entries_of_keys [OF n] eq by simp
qed

lemma len_card: "invar m \<Longrightarrow> length (entries m) = card (dom (look m))"
  using entries_distinct [of m] by (metis dom_look distinct_card length_map set_map)

lemma len_ins_fresh:
  "invar m \<Longrightarrow> look m k = None \<Longrightarrow> length (entries (ins k v m)) = Suc (length (entries m))"
proof -
  assume m: "invar m" and fresh: "look m k = None"
  have "finite (dom (look m))"
    using m by (simp add: dom_look)
  moreover have "k \<notin> dom (look m)"
    using fresh by auto
  ultimately show ?thesis
    using m by (simp add: len_card invar_ins look_ins)
qed

lemma len_rem:
  assumes m: "invar m" and k: "look m k = Some v"
  shows "length (entries (rem k m)) = length (entries m) - 1"
proof -
  have "dom (look (rem k m)) = dom (look m) - {k}"
    using m by (simp add: look_rem)
  moreover have "k \<in> dom (look m)"
    using k by blast
  ultimately show ?thesis
    using m by (simp add: len_card invar_rem)
qed

lemma first_least:
  assumes "invar m" and "entries m = (k, v) # r" and "look m k' = Some v'"
  shows "k \<le> k'"
proof -
  have "(k', v') \<in> set ((k, v) # r)"
    using assms by (simp add: look_Some_iff flip: assms(2))
  moreover have "sorted_wrt (<) (k # map fst r)"
    using entries_sorted [OF assms(1)] assms(2) by simp
  ultimately show ?thesis
    by (force simp: less_imp_le)
qed

end

section \<open>The entry list implements it\<close>

lemma set_bt_insert_keys: "fst ` set (bt_insert k v m) = insert k (fst ` set m)"
  by (induction m rule: bt_insert.induct) auto

lemma set_bt_insert_subset: "set (bt_insert k v m) \<subseteq> insert (k, v) (set m)"
  by (induction k v m rule: bt_insert.induct) auto

lemma bt_invar_insert: "bt_invar m \<Longrightarrow> bt_invar (bt_insert k v m)"
proof (induction k v m rule: bt_insert.induct)
  case (2 k v k' v' m)
  have keys: "set (map fst (bt_insert k v m)) = insert k (fst ` set m)"
    by (simp add: set_bt_insert_keys)
  show ?case
    using "2" keys by (auto simp: bt_invar_def)
qed (simp add: bt_invar_def)

lemma map_of_bt_insert: "bt_invar m \<Longrightarrow> map_of (bt_insert k v m) = (map_of m)(k \<mapsto> v)"
  by (induction k v m rule: bt_insert.induct) (auto simp: bt_invar_def fun_eq_iff)

lemma bt_invar_remove: "bt_invar m \<Longrightarrow> bt_invar (bt_remove k m)"
  by (induction m) (auto simp: bt_invar_def bt_remove_def)

lemma map_of_bt_remove: "map_of (bt_remove k m) = (map_of m)(k := None)"
  by (induction m) (auto simp: bt_remove_def fun_eq_iff)

interpretation bt: ordered_map bt_invar "[]" map_of bt_insert bt_remove "\<lambda>m. m"
  by unfold_locales
    (simp_all add: bt_invar_insert bt_invar_remove map_of_bt_insert map_of_bt_remove,
     simp_all add: bt_invar_def)

text \<open>Appending in key order and popping the first entry, the two ends the clients work at.\<close>

lemma bt_insert_greatest:
  "\<forall>k'\<in>fst ` set m. k' < k \<Longrightarrow> bt_insert k v m = m @ [(k, v)]"
  by (induction k v m rule: bt_insert.induct) auto

lemma bt_remove_first: "bt_invar ((k, v) # m) \<Longrightarrow> bt_remove k ((k, v) # m) = m"
proof -
  assume "bt_invar ((k, v) # m)"
  then have "\<forall>e\<in>set m. k < fst e"
    by (simp add: bt_invar_def)
  then show ?thesis
    by (auto simp: bt_remove_def intro!: filter_True)
qed

lemma bt_invar_Cons [simp]:
  "bt_invar (e # m) \<longleftrightarrow> (\<forall>k\<in>fst ` set m. fst e < k) \<and> bt_invar m"
  by (auto simp: bt_invar_def)

lemma bt_invar_Nil [simp]: "bt_invar []"
  by (simp add: bt_invar_def)

end
