(* ===== verification/Sequence_Window.thy ===== *)
theory Sequence_Window
  imports Ordered_Map
begin

text \<open>
  The client's sequence/ACK window (\<open>druid-metrics/src/sequence_window.rs\<close>): frames that were sent
  and are not yet acknowledged, keyed by their 64-bit sequence number. The pending map is the
  ordered map of \<open>Ordered_Map\<close>; sequence numbers are \<open>64 word\<close>s, so the end of the sequence space
  is part of the model. \<open>window_run\<close> executes any interleaving of pushes, restores and ACKs and
  records which of them succeeded.
\<close>

section \<open>Definitions\<close>

datatype SequenceWindowError =
    WindowFull nat nat
  | UnknownSequence u64
  | InvalidSequence u64
  | DuplicateSequence u64
  | OutOfOrderAck u64 u64
  | SequenceExhausted

record PendingFrame =
  sequence :: u64
  encoded_frame :: "u8 list"

record SequenceWindow =
  pending :: "(u64, PendingFrame) btree"
  capacity :: nat
  next_sequence :: "u64 option"

definition SequenceWindow_with_next_sequence :: "nat \<Rightarrow> u64 option \<Rightarrow> SequenceWindow" where
  "SequenceWindow_with_next_sequence cap nxt = \<lparr>pending = [], capacity = cap, next_sequence = nxt\<rparr>"

definition SequenceWindow_new :: "nat \<Rightarrow> SequenceWindow" where
  "SequenceWindow_new cap = SequenceWindow_with_next_sequence cap (Some 1)"

definition SequenceWindow_is_full :: "SequenceWindow \<Rightarrow> bool" where
  "SequenceWindow_is_full w \<longleftrightarrow> length (pending w) \<ge> capacity w"

definition SequenceWindow_ensure_capacity :: "SequenceWindow \<Rightarrow> (unit, SequenceWindowError) result" where
  "SequenceWindow_ensure_capacity w =
     (if SequenceWindow_is_full w then Err (WindowFull (capacity w) (length (pending w))) else Ok ())"

definition SequenceWindow_push_with ::
  "SequenceWindow \<Rightarrow> (u64 \<Rightarrow> u8 list) \<Rightarrow> (PendingFrame, SequenceWindowError) result \<times> SequenceWindow" where
  "SequenceWindow_push_with w encode_frame =
     (case SequenceWindow_ensure_capacity w of
        Err e \<Rightarrow> (Err e, w)
      | Ok _ \<Rightarrow>
        (case next_sequence w of
           None \<Rightarrow> (Err SequenceExhausted, w)
         | Some s \<Rightarrow>
             if s = - 1 then (Err SequenceExhausted, w)
             else let f = \<lparr>sequence = s, encoded_frame = encode_frame s\<rparr>
                  in (Ok f, w\<lparr>pending := bt_insert s f (pending w),
                              next_sequence := checked_add_one s\<rparr>)))"

definition SequenceWindow_restore ::
  "SequenceWindow \<Rightarrow> PendingFrame \<Rightarrow> (unit, SequenceWindowError) result \<times> SequenceWindow" where
  "SequenceWindow_restore w f =
     (if sequence f = 0 \<or> sequence f = - 1 then (Err (InvalidSequence (sequence f)), w)
      else if map_of (pending w) (sequence f) \<noteq> None then (Err (DuplicateSequence (sequence f)), w)
      else case SequenceWindow_ensure_capacity w of
             Err e \<Rightarrow> (Err e, w)
           | Ok _ \<Rightarrow>
               let w1 = (case next_sequence w of
                           Some n \<Rightarrow> if sequence f \<ge> n
                                     then w\<lparr>next_sequence := checked_add_one (sequence f)\<rparr> else w
                         | None \<Rightarrow> w)
               in (Ok (), w1\<lparr>pending := bt_insert (sequence f) f (pending w1)\<rparr>))"

definition SequenceWindow_ack ::
  "SequenceWindow \<Rightarrow> u64 \<Rightarrow> (unit, SequenceWindowError) result \<times> SequenceWindow" where
  "SequenceWindow_ack w s =
     (case pending w of
        [] \<Rightarrow> (Err (UnknownSequence s), w)
      | (expected, _) # _ \<Rightarrow>
          if s \<noteq> expected then
            (if map_of (pending w) s \<noteq> None then (Err (OutOfOrderAck expected s), w)
             else (Err (UnknownSequence s), w))
          else (case map_of (pending w) s of
                  None \<Rightarrow> (Err (UnknownSequence s), w)
                | Some _ \<Rightarrow> (Ok (), w\<lparr>pending := bt_remove s (pending w)\<rparr>)))"

definition SequenceWindow_pending_frames :: "SequenceWindow \<Rightarrow> PendingFrame list" where
  "SequenceWindow_pending_frames w = map snd (pending w)"

text \<open>A reconnect restores every saved frame in turn and stops at the first error.\<close>

fun restore_all :: "SequenceWindow \<Rightarrow> PendingFrame list \<Rightarrow> (unit, SequenceWindowError) result \<times> SequenceWindow" where
  "restore_all w [] = (Ok (), w)"
| "restore_all w (f # fs) =
     (case SequenceWindow_restore w f of (Ok _, w') \<Rightarrow> restore_all w' fs | (Err e, w') \<Rightarrow> (Err e, w'))"

text \<open>
  Interleavings of the operations of one stream: the sequence numbers handed out and the ones
  acknowledged are recorded in the order the calls succeed.
\<close>

datatype window_op = Push "u64 \<Rightarrow> u8 list" | Ack u64

record window_trace =
  pushed :: "u64 list"
  acked :: "u64 list"

fun window_step :: "SequenceWindow \<times> window_trace \<Rightarrow> window_op \<Rightarrow> SequenceWindow \<times> window_trace" where
  "window_step (w, t) (Push enc) =
     (case SequenceWindow_push_with w enc of
        (Ok f, w') \<Rightarrow> (w', t\<lparr>pushed := pushed t @ [sequence f]\<rparr>)
      | (Err _, w') \<Rightarrow> (w', t))"
| "window_step (w, t) (Ack s) =
     (case SequenceWindow_ack w s of
        (Ok _, w') \<Rightarrow> (w', t\<lparr>acked := acked t @ [s]\<rparr>)
      | (Err _, w') \<Rightarrow> (w', t))"

definition window_run :: "SequenceWindow \<Rightarrow> window_op list \<Rightarrow> SequenceWindow \<times> window_trace" where
  "window_run w ops = foldl window_step (w, \<lparr>pushed = [], acked = []\<rparr>) ops"

section \<open>The invariant\<close>

definition window_ok :: "SequenceWindow \<Rightarrow> bool" where
  "window_ok w \<longleftrightarrow>
     bt_invar (pending w) \<and> length (pending w) \<le> capacity w \<and> next_sequence w \<noteq> Some 0 \<and>
     (\<forall>(k, f)\<in>set (pending w). sequence f = k \<and> k \<noteq> 0 \<and> k \<noteq> - 1 \<and>
        (\<forall>n. next_sequence w = Some n \<longrightarrow> k < n))"

lemmas [window_simps] = SequenceWindow_with_next_sequence_def SequenceWindow_new_def
  SequenceWindow_is_full_def SequenceWindow_ensure_capacity_def SequenceWindow_push_with_def
  SequenceWindow_restore_def SequenceWindow_ack_def SequenceWindow_pending_frames_def

lemma window_okD:
  assumes "window_ok w"
  shows "bt_invar (pending w)" and "length (pending w) \<le> capacity w" and "next_sequence w \<noteq> Some 0"
    and "\<And>k f. (k, f) \<in> set (pending w) \<Longrightarrow> sequence f = k \<and> k \<noteq> 0 \<and> k \<noteq> - 1"
    and "\<And>k f n. (k, f) \<in> set (pending w) \<Longrightarrow> next_sequence w = Some n \<Longrightarrow> k < n"
  using assms by (auto simp: window_ok_def)

lemma window_okI:
  assumes "bt_invar (pending w)" and "length (pending w) \<le> capacity w" and "next_sequence w \<noteq> Some 0"
    and "\<And>k f. (k, f) \<in> set (pending w) \<Longrightarrow> sequence f = k \<and> k \<noteq> 0 \<and> k \<noteq> - 1"
    and "\<And>k f n. (k, f) \<in> set (pending w) \<Longrightarrow> next_sequence w = Some n \<Longrightarrow> k < n"
  shows "window_ok w"
  using assms unfolding window_ok_def by fast

lemma window_ok_new: "nxt \<noteq> Some 0 \<Longrightarrow> window_ok (SequenceWindow_with_next_sequence cap nxt)"
  by (simp add: window_ok_def window_simps)

text \<open>What a successful push, restore and ACK do to the window.\<close>

lemma push_with_Ok:
  assumes "window_ok w" and "SequenceWindow_push_with w enc = (Ok f, w')"
  shows "next_sequence w = Some (sequence f)" and "sequence f \<noteq> - 1"
    and "encoded_frame f = enc (sequence f)" and "length (pending w) < capacity w"
    and "w' = w\<lparr>pending := pending w @ [(sequence f, f)], next_sequence := Some (sequence f + 1)\<rparr>"
proof -
  from assms(2) obtain s where s: "next_sequence w = Some s" "s \<noteq> - 1"
    and cap: "length (pending w) < capacity w"
    and f: "f = \<lparr>sequence = s, encoded_frame = enc s\<rparr>"
    and w': "w' = w\<lparr>pending := bt_insert s f (pending w), next_sequence := checked_add_one s\<rparr>"
    by (auto simp: window_simps Let_def split: option.splits if_splits)
  have "\<forall>k\<in>fst ` set (pending w). k < s"
    using window_okD(5) [OF assms(1) _ s(1)] by auto
  then have "bt_insert s f (pending w) = pending w @ [(s, f)]"
    by (rule bt_insert_greatest)
  with s cap f w' show "next_sequence w = Some (sequence f)" "sequence f \<noteq> - 1"
    "encoded_frame f = enc (sequence f)" "length (pending w) < capacity w"
    "w' = w\<lparr>pending := pending w @ [(sequence f, f)], next_sequence := Some (sequence f + 1)\<rparr>"
    by simp_all
qed

lemma push_with_Err: "SequenceWindow_push_with w enc = (Err e, w') \<Longrightarrow> w' = w"
  by (auto simp: window_simps Let_def split: option.splits if_splits)

lemma ack_Ok:
  assumes "window_ok w" and "SequenceWindow_ack w s = (Ok u, w')"
  shows "\<exists>f r. pending w = (s, f) # r \<and> w' = w\<lparr>pending := r\<rparr>"
proof -
  from assms(2) obtain f r where p: "pending w = (s, f) # r"
    and w': "w' = w\<lparr>pending := bt_remove s (pending w)\<rparr>"
    by (auto simp: window_simps split: list.splits if_splits option.splits)
  have "bt_remove s (pending w) = r"
    using window_okD(1) [OF assms(1)] p bt_remove_first by metis
  with p w' show ?thesis by simp
qed

lemma ack_Err: "SequenceWindow_ack w s = (Err e, w') \<Longrightarrow> w' = w"
  by (auto simp: window_simps split: list.splits if_splits option.splits)

lemma bt_invar_append_last:
  "bt_invar m \<Longrightarrow> \<forall>k'\<in>fst ` set m. k' < k \<Longrightarrow> bt_invar (m @ [(k, v)])"
  by (simp add: bt_invar_def sorted_wrt_append)

lemma window_ok_push: "window_ok w \<Longrightarrow> window_ok (snd (SequenceWindow_push_with w enc))"
proof (cases "SequenceWindow_push_with w enc")
  case (Pair r w')
  assume ok: "window_ok w"
  show ?thesis
  proof (cases r)
    case (Ok f)
    note push = push_with_Ok [OF ok Pair [unfolded Ok]]
    have lt: "\<forall>k\<in>fst ` set (pending w). k < sequence f"
      using window_okD(5) [OF ok _ push(1)] by auto
    have "sequence f \<noteq> 0"
      using window_okD(3) [OF ok] push(1) by auto
    moreover have "sequence f + 1 \<noteq> 0"
      using u64_less_Suc [OF push(2)] by (metis not_less_iff_gr_or_eq word_gt_0 word_zero_le)
    moreover have "k < sequence f + 1" if "(k, g) \<in> set (pending w)" for k g
      using lt that u64_less_Suc_trans [OF _ push(2)] by (metis fst_conv image_eqI less_imp_le)
    ultimately have "window_ok w'"
      using push(2,4) lt u64_less_Suc [OF push(2)]
      by (intro window_okI)
        (auto simp: push(5) dest: window_okD(4) [OF ok] intro!: bt_invar_append_last window_okD(1) [OF ok])
    then show ?thesis
      by (simp add: Pair)
  next
    case (Err e)
    with ok Pair push_with_Err show ?thesis by fastforce
  qed
qed

lemma window_ok_ack: "window_ok w \<Longrightarrow> window_ok (snd (SequenceWindow_ack w s))"
proof (cases "SequenceWindow_ack w s")
  case (Pair r w')
  assume ok: "window_ok w"
  show ?thesis
  proof (cases r)
    case (Ok u)
    then obtain f rest where "pending w = (s, f) # rest" "w' = w\<lparr>pending := rest\<rparr>"
      using ack_Ok [OF ok] Pair by blast
    with ok Pair show ?thesis by (auto simp: window_ok_def)
  next
    case (Err e)
    with ok Pair ack_Err show ?thesis by fastforce
  qed
qed

lemma window_ok_restore: "window_ok w \<Longrightarrow> window_ok (snd (SequenceWindow_restore w f))"
proof -
  assume ok: "window_ok w"
  let ?s = "sequence f"
  show ?thesis
  proof (cases "?s = 0 \<or> ?s = - 1 \<or> map_of (pending w) ?s \<noteq> None \<or> length (pending w) \<ge> capacity w")
    case True
    with ok show ?thesis by (auto simp: window_simps)
  next
    case False
    define n' where "n' = (case next_sequence w of
        Some n \<Rightarrow> if ?s \<ge> n then Some (?s + 1) else Some n | None \<Rightarrow> None)"
    have w': "snd (SequenceWindow_restore w f) =
        w\<lparr>pending := bt_insert ?s f (pending w), next_sequence := n'\<rparr>"
      using False by (auto simp: window_simps Let_def n'_def split: option.splits)
    have "?s + 1 \<noteq> 0"
      using u64_less_Suc [of ?s] False by (metis not_less_iff_gr_or_eq word_gt_0 word_zero_le)
    then have n0: "n' \<noteq> Some 0"
      using window_okD(3) [OF ok] by (auto simp: n'_def split: option.splits)
    have entries: "set (bt_insert ?s f (pending w)) \<subseteq> insert (?s, f) (set (pending w))"
      by (rule set_bt_insert_subset)
    have below: "k < n" if "(k, g) \<in> insert (?s, f) (set (pending w))" "n' = Some n" for k g n
      using that window_okD(5) [OF ok] u64_less_Suc [of ?s] False
      by (auto simp: n'_def split: option.splits if_splits)
         (meson order.strict_trans2 order.strict_trans)+
    have "length (bt_insert ?s f (pending w)) \<le> capacity w"
      using False bt.len_ins_fresh [OF window_okD(1) [OF ok]] by auto
    then show ?thesis
      unfolding w' using entries below n0 False
      by (intro window_okI)
        (auto intro!: bt_invar_insert window_okD(1) [OF ok] dest: window_okD(4) [OF ok])
  qed
qed

section \<open>In-order delivery\<close>

text \<open>What an interleaving keeps true: the sequence numbers handed out are the acknowledged ones
  followed by the pending ones, and they are numbered from 1 without a gap.\<close>

definition trace_ok :: "nat \<Rightarrow> SequenceWindow \<times> window_trace \<Rightarrow> bool" where
  "trace_ok cap = (\<lambda>(w, t). window_ok w \<and> capacity w = cap \<and>
     next_sequence w = Some (of_nat (Suc (length (pushed t)))) \<and>
     pushed t = acked t @ map fst (pending w) \<and>
     pushed t = map (\<lambda>i. of_nat (Suc i)) [0..<length (pushed t)] \<and>
     sorted_wrt (<) (pushed t) \<and> (\<forall>s\<in>set (pushed t). s < of_nat (Suc (length (pushed t)))))"

lemma trace_okI:
  assumes "window_ok w" "capacity w = cap" "next_sequence w = Some (of_nat (Suc (length (pushed t))))"
    and "pushed t = acked t @ map fst (pending w)"
    and "pushed t = map (\<lambda>i. of_nat (Suc i)) [0..<length (pushed t)]"
    and "sorted_wrt (<) (pushed t)" "\<forall>s\<in>set (pushed t). s < of_nat (Suc (length (pushed t)))"
  shows "trace_ok cap (w, t)"
  unfolding trace_ok_def using assms by blast

lemma trace_okD:
  assumes "trace_ok cap (w, t)"
  shows "window_ok w" "capacity w = cap" "next_sequence w = Some (of_nat (Suc (length (pushed t))))"
    and "pushed t = acked t @ map fst (pending w)"
    and "pushed t = map (\<lambda>i. of_nat (Suc i)) [0..<length (pushed t)]"
    and "sorted_wrt (<) (pushed t)" "\<forall>s\<in>set (pushed t). s < of_nat (Suc (length (pushed t)))"
  using assms unfolding trace_ok_def by blast+

lemma trace_ok_push:
  assumes "trace_ok cap (w, t)"
  shows "trace_ok cap (window_step (w, t) (Push enc))"
proof (cases "SequenceWindow_push_with w enc")
  case (Pair r w')
  from assms have ok: "window_ok w" by (simp add: trace_ok_def)
  have ok': "window_ok w'"
    using window_ok_push [OF ok, of enc] by (simp add: Pair)
  show ?thesis
  proof (cases r)
    case (Ok f)
    note push = push_with_Ok [OF ok Pair [unfolded Ok]]
    have s: "sequence f = of_nat (Suc (length (pushed t)))"
      using push(1) trace_okD(3) [OF assms] by simp
    have lt: "\<forall>x\<in>set (pushed t). x < sequence f"
      using trace_okD(7) [OF assms] unfolding s .
    have nxt: "next_sequence w' = Some (of_nat (Suc (Suc (length (pushed t)))))"
      by (simp add: push(5) s)
    have below: "\<forall>x\<in>set (pushed t @ [sequence f]). x < of_nat (Suc (Suc (length (pushed t))))"
      using lt u64_less_Suc [OF push(2)] u64_less_Suc_trans [OF _ push(2)]
      by (auto simp: s add.commute less_imp_le)
    have sorted: "sorted_wrt (<) (pushed t @ [sequence f])"
      using lt trace_okD(6) [OF assms] by (simp add: sorted_wrt_append)
    have consecutive: "pushed t @ [sequence f] =
        map (\<lambda>i. of_nat (Suc i)) [0..<length (pushed t @ [sequence f])]"
      using trace_okD(5) [OF assms] s by simp
    have split: "pushed t @ [sequence f] = acked t @ map fst (pending w')"
      using trace_okD(4) [OF assms] by (simp add: push(5))
    have cap: "capacity w' = cap"
      using trace_okD(2) [OF assms] by (simp add: push(5))
    have "trace_ok cap (w', t\<lparr>pushed := pushed t @ [sequence f]\<rparr>)"
      by (rule trace_okI) (use ok' in simp, use cap in simp, use nxt in simp, use split in simp,
          use consecutive in simp, use sorted in simp, use below in simp)
    then show ?thesis
      by (simp add: Pair Ok)
  next
    case (Err e)
    with assms Pair push_with_Err show ?thesis by fastforce
  qed
qed

lemma trace_ok_ack:
  assumes "trace_ok cap (w, t)"
  shows "trace_ok cap (window_step (w, t) (Ack s))"
proof (cases "SequenceWindow_ack w s")
  case (Pair r w')
  from assms have ok: "window_ok w" by (simp add: trace_ok_def)
  have ok': "window_ok w'"
    using window_ok_ack [OF ok, of s] by (simp add: Pair)
  show ?thesis
  proof (cases r)
    case (Ok u)
    then obtain f rest where p: "pending w = (s, f) # rest" and w': "w' = w\<lparr>pending := rest\<rparr>"
      using ack_Ok [OF ok] Pair by blast
    have "pushed t = (acked t @ [s]) @ map fst rest"
      using trace_okD(4) [OF assms] p by simp
    then have "trace_ok cap (w', t\<lparr>acked := acked t @ [s]\<rparr>)"
      using ok' trace_okD [OF assms] by (intro trace_okI) (simp_all only: w', simp_all)
    then show ?thesis
      by (simp add: Pair Ok)
  next
    case (Err e)
    with assms Pair ack_Err show ?thesis by fastforce
  qed
qed

lemma trace_ok_run: "trace_ok cap x \<Longrightarrow> trace_ok cap (foldl window_step x ops)"
proof (induction ops arbitrary: x)
  case (Cons op ops)
  obtain w t where x: "x = (w, t)" by (cases x)
  have "trace_ok cap (window_step (w, t) op)"
    using Cons.prems trace_ok_push trace_ok_ack by (cases op) (auto simp: x)
  with Cons.IH show ?case by (simp add: x)
qed simp

lemma trace_ok_start: "trace_ok cap (SequenceWindow_new cap, \<lparr>pushed = [], acked = []\<rparr>)"
  using window_ok_new [of "Some 1" cap] by (simp add: trace_ok_def window_simps)

text \<open>C13. Whatever the interleaving of pushes and ACKs on a new window (including ACKs that are
  refused), the frames leave the window in the order they were numbered: the sequence numbers
  handed out are exactly the acknowledged ones followed by the pending ones, they are the
  consecutive numbers from 1, strictly increasing as 64-bit values (the counter never wraps), and
  the window never holds more frames than its capacity.\<close>

theorem window_run_in_order:
  "case window_run (SequenceWindow_new cap) ops of (w, t) \<Rightarrow>
     pushed t = acked t @ map fst (pending w) \<and>
     pushed t = map (\<lambda>i. of_nat (Suc i)) [0..<length (pushed t)] \<and>
     sorted_wrt (<) (pushed t) \<and> length (pending w) \<le> cap"
proof -
  have "trace_ok cap (window_run (SequenceWindow_new cap) ops)"
    unfolding window_run_def by (rule trace_ok_run [OF trace_ok_start])
  then show ?thesis
    by (auto simp: trace_ok_def dest: window_okD(2))
qed

section \<open>Answers to an ACK\<close>

text \<open>The answer to an ACK classifies it completely: it succeeds exactly for the oldest pending
  sequence and then removes that frame and nothing else; a pending sequence that is not the oldest
  is out of order; any other is unknown; a refused ACK changes nothing.\<close>

theorem ack_classification:
  assumes "window_ok w"
  shows "SequenceWindow_ack w s =
    (if map_of (pending w) s = None then (Err (UnknownSequence s), w)
     else if s = fst (hd (pending w)) then (Ok (), w\<lparr>pending := tl (pending w)\<rparr>)
     else (Err (OutOfOrderAck (fst (hd (pending w))) s), w))"
proof (cases "pending w")
  case Nil
  then show ?thesis by (simp add: window_simps)
next
  case (Cons e r)
  obtain k f where e: "e = (k, f)" by (cases e)
  have "bt_remove k (pending w) = r"
    using window_okD(1) [OF assms] Cons e bt_remove_first by metis
  then show ?thesis
    by (auto simp: window_simps Cons e)
qed

section \<open>Reconnecting\<close>

lemma restore_fresh_last:
  assumes "\<forall>k\<in>fst ` set (pending w). k < sequence f"
    and "sequence f \<noteq> 0" "sequence f \<noteq> - 1" and "length (pending w) < capacity w"
  shows "\<exists>nxt. SequenceWindow_restore w f =
      (Ok (), w\<lparr>pending := pending w @ [(sequence f, f)], next_sequence := nxt\<rparr>)
    \<and> (\<forall>n. next_sequence w = Some n \<longrightarrow> (\<exists>m. nxt = Some m \<and> n \<le> m))"
proof -
  have ins: "bt_insert (sequence f) f (pending w) = pending w @ [(sequence f, f)]"
    using assms(1) by (rule bt_insert_greatest)
  have fresh: "map_of (pending w) (sequence f) = None"
    using assms(1) by (auto simp: map_of_eq_None_iff)
  have "n \<le> sequence f + 1" if "n \<le> sequence f" for n
    using that u64_less_Suc [OF assms(3)] by (meson order.strict_implies_order order_trans)
  with ins fresh assms(2-) show ?thesis
    by (cases w; cases "next_sequence w") (auto simp: window_simps Let_def)
qed

lemma restore_all_append:
  assumes "window_ok w" and "sorted_wrt (<) (map fst (pending w) @ map sequence fs)"
    and "\<forall>f\<in>set fs. sequence f \<noteq> 0 \<and> sequence f \<noteq> - 1"
    and "length (pending w) + length fs \<le> capacity w"
  shows "\<exists>w'. restore_all w fs = (Ok (), w') \<and> window_ok w' \<and>
      pending w' = pending w @ map (\<lambda>f. (sequence f, f)) fs \<and> capacity w' = capacity w \<and>
      (\<forall>n. next_sequence w = Some n \<longrightarrow> (\<exists>m. next_sequence w' = Some m \<and> n \<le> m))"
  using assms
proof (induction fs arbitrary: w)
  case (Cons f fs)
  have "\<forall>k\<in>fst ` set (pending w). k < sequence f"
    using Cons.prems(2) by (auto simp: sorted_wrt_append)
  then obtain nxt where step: "SequenceWindow_restore w f =
      (Ok (), w\<lparr>pending := pending w @ [(sequence f, f)], next_sequence := nxt\<rparr>)" (is "_ = (_, ?w1)")
    and mono: "\<forall>n. next_sequence w = Some n \<longrightarrow> (\<exists>m. nxt = Some m \<and> n \<le> m)"
    using restore_fresh_last [of w f] Cons.prems(3,4) by auto
  have "window_ok ?w1"
    using window_ok_restore [OF Cons.prems(1), of f] by (simp add: step)
  then obtain w' where "restore_all ?w1 fs = (Ok (), w')" "window_ok w'"
      "pending w' = pending ?w1 @ map (\<lambda>f. (sequence f, f)) fs" "capacity w' = capacity w"
      "\<forall>n. nxt = Some n \<longrightarrow> (\<exists>m. next_sequence w' = Some m \<and> n \<le> m)"
    using Cons.IH [of ?w1] Cons.prems(2-4) by auto
  with step mono show ?case
    by (auto) (erule (1) order_trans)
qed auto

text \<open>Reconnecting loses nothing: restoring the frames saved from a well-formed window into a
  fresh window of sufficient capacity succeeds, gives back exactly the same pending frames with
  their bytes, and leaves a next sequence that is not below the supervisor's and above every
  restored frame, so no restored number is handed out again.\<close>

theorem reconnect_restores_pending:
  assumes "window_ok w" and "length (pending w) \<le> cap" and "n \<noteq> 0"
  shows "\<exists>w' m. restore_all (SequenceWindow_with_next_sequence cap (Some n))
        (SequenceWindow_pending_frames w) = (Ok (), w') \<and>
      pending w' = pending w \<and> next_sequence w' = Some m \<and> n \<le> m \<and>
      (\<forall>k\<in>fst ` set (pending w'). k < m)"
proof -
  let ?w0 = "SequenceWindow_with_next_sequence cap (Some n)"
  let ?fs = "SequenceWindow_pending_frames w"
  have seqs: "map sequence ?fs = map fst (pending w)"
    using window_okD(4) [OF assms(1)] by (auto simp: window_simps)
  have entries: "map (\<lambda>f. (sequence f, f)) ?fs = pending w"
    using window_okD(4) [OF assms(1)] by (auto simp: window_simps intro!: map_idI)
  have w0: "window_ok ?w0" "pending ?w0 = []" "capacity ?w0 = cap" "next_sequence ?w0 = Some n"
    using window_ok_new [of "Some n" cap] assms(3) by (simp_all add: window_simps)
  have "sorted_wrt (<) (map sequence ?fs)"
    using window_okD(1) [OF assms(1)] by (simp add: seqs bt_invar_def)
  moreover have "\<forall>f\<in>set ?fs. sequence f \<noteq> 0 \<and> sequence f \<noteq> - 1"
    using window_okD(4) [OF assms(1)] by (auto simp: window_simps)
  moreover have "length ?fs \<le> cap"
    using assms(2) by (simp add: window_simps)
  ultimately obtain w' where w': "restore_all ?w0 ?fs = (Ok (), w')" "window_ok w'"
      "pending w' = pending w" "\<exists>m. next_sequence w' = Some m \<and> n \<le> m"
    using restore_all_append [OF w0(1), of ?fs] by (auto simp: w0 entries)
  then obtain m where "next_sequence w' = Some m" "n \<le> m" by blast
  with w' show ?thesis
    using window_okD(5) [OF w'(2)] by fastforce
qed

theorem reconnect_restores_pending_witness:
  "let f = \<lparr>sequence = 3, encoded_frame = [1, 2]\<rparr>;
       w = \<lparr>pending = [(3, f)], capacity = 4, next_sequence = Some 9\<rparr>
   in window_ok w \<and> (\<exists>w' m. restore_all (SequenceWindow_with_next_sequence 2 (Some 5))
        (SequenceWindow_pending_frames w) = (Ok (), w') \<and> pending w' = [(3, f)] \<and>
        next_sequence w' = Some m \<and> 5 \<le> m)"
proof -
  let ?f = "\<lparr>sequence = 3, encoded_frame = [1, 2]\<rparr>"
  let ?w = "\<lparr>pending = [(3, ?f)], capacity = 4, next_sequence = Some 9\<rparr>"
  have "window_ok ?w"
    by (simp add: window_ok_def)
  then show ?thesis
    using reconnect_restores_pending [of ?w 2 5] by (auto simp: Let_def)
qed

theorem ack_classification_witness:
  "let f = \<lparr>sequence = 3, encoded_frame = []\<rparr>; g = \<lparr>sequence = 4, encoded_frame = [7]\<rparr>;
       w = \<lparr>pending = [(3, f), (4, g)], capacity = 4, next_sequence = Some 5\<rparr>
   in window_ok w \<and> SequenceWindow_ack w 4 = (Err (OutOfOrderAck 3 4), w) \<and>
      SequenceWindow_ack w 3 = (Ok (), w\<lparr>pending := [(4, g)]\<rparr>) \<and>
      SequenceWindow_ack w 9 = (Err (UnknownSequence 9), w)"
proof -
  let ?f = "\<lparr>sequence = 3, encoded_frame = []\<rparr>" and ?g = "\<lparr>sequence = 4, encoded_frame = [7]\<rparr>"
  let ?w = "\<lparr>pending = [(3, ?f), (4, ?g)], capacity = 4, next_sequence = Some 5\<rparr>"
  have "window_ok ?w"
    by (simp add: window_ok_def)
  then show ?thesis
    using ack_classification [of ?w] by (simp add: Let_def)
qed

end
