(* ===== verification/Exception_Sorters.thy ===== *)
theory Exception_Sorters
  imports Prelude "HOL-Library.Sublist"
begin

text \<open>
  Classification of database errors: the SQL exception value (\<open>druid-rdbc/src/error/sql_exception.rs\<close>)
  and the vendor sorters (\<open>druid/src/core/*_exception_sorter.rs\<close>) that decide whether a physical
  connection must be discarded. Error codes are 32-bit words, as \<open>i32\<close>. \<open>str::to_uppercase\<close> maps
  ASCII letters here; its Unicode table for other characters is an argument.
\<close>

section \<open>SQL exceptions\<close>

type_synonym i32 = "32 word"

datatype SqlExceptionCause = SocketTimeout | ClassName rust_str

datatype SqlException = SqlException
  (error_code: i32) (sql_state: "rust_str option") (message: "rust_str option") (class_name: rust_str)
  (assignable_types: "rust_str list") (recoverable: bool) (causes: "SqlExceptionCause list")
  (next_exceptions: "SqlException list")

datatype SqlExceptionKind =
    General | Transient | TransientConnection | NonTransient | NonTransientConnection | Recoverable
  | Data | IntegrityConstraintViolation | InvalidAuthorization | Syntax | TransactionRollback
  | FeatureNotSupported | Timeout

definition SqlException_new :: "i32 \<Rightarrow> rust_str option \<Rightarrow> rust_str option \<Rightarrow> SqlException" where
  "SqlException_new code st msg =
     SqlException code st msg (lit ''java.sql.SQLException'') [lit ''java.sql.SQLException''] False [] []"

definition SqlException_driver :: "i32 \<Rightarrow> rust_str \<Rightarrow> SqlException" where
  "SqlException_driver code msg = SqlException_new code None (Some msg)"

definition with_sql_state :: "rust_str \<Rightarrow> SqlException \<Rightarrow> SqlException" where
  "with_sql_state s e =
     SqlException (error_code e) (Some s) (message e) (class_name e) (assignable_types e)
       (recoverable e) (causes e) (next_exceptions e)"

definition mark_recoverable :: "SqlException \<Rightarrow> SqlException" where
  "mark_recoverable e =
     SqlException (error_code e) (sql_state e) (message e) (class_name e) (assignable_types e)
       True (causes e) (next_exceptions e)"

definition with_cause :: "SqlExceptionCause \<Rightarrow> SqlException \<Rightarrow> SqlException" where
  "with_cause c e =
     SqlException (error_code e) (sql_state e) (message e) (class_name e) (assignable_types e)
       (recoverable e) (causes e @ [c]) (next_exceptions e)"

definition with_class_name :: "rust_str \<Rightarrow> SqlException \<Rightarrow> SqlException" where
  "with_class_name c e =
     SqlException (error_code e) (sql_state e) (message e) c
       (if c \<in> set (assignable_types e) then assignable_types e else c # assignable_types e)
       (recoverable e) (causes e) (next_exceptions e)"

definition with_assignable_type :: "rust_str \<Rightarrow> SqlException \<Rightarrow> SqlException" where
  "with_assignable_type c e =
     SqlException (error_code e) (sql_state e) (message e) (class_name e)
       (if c \<in> set (assignable_types e) then assignable_types e else assignable_types e @ [c])
       (recoverable e) (causes e) (next_exceptions e)"

definition is_instance_of :: "rust_str \<Rightarrow> SqlException \<Rightarrow> bool" where
  "is_instance_of c e \<longleftrightarrow> c \<in> set (assignable_types e)"

definition set_next_exception :: "SqlException \<Rightarrow> SqlException \<Rightarrow> SqlException" where
  "set_next_exception n e =
     SqlException (error_code e) (sql_state e) (message e) (class_name e) (assignable_types e)
       (recoverable e) (causes e) (next_exceptions e @ [n])"

definition next_exception :: "SqlException \<Rightarrow> SqlException option" where
  "next_exception e = (case next_exceptions e of [] \<Rightarrow> None | n # _ \<Rightarrow> Some n)"

definition standard_kinds :: "(rust_str \<times> SqlExceptionKind) list" where
  "standard_kinds =
     [(lit ''java.sql.SQLTransientException'', Transient),
      (lit ''java.sql.SQLTransientConnectionException'', TransientConnection),
      (lit ''java.sql.SQLNonTransientException'', NonTransient),
      (lit ''java.sql.SQLNonTransientConnectionException'', NonTransientConnection),
      (lit ''java.sql.SQLRecoverableException'', Recoverable),
      (lit ''java.sql.SQLDataException'', Data),
      (lit ''java.sql.SQLIntegrityConstraintViolationException'', IntegrityConstraintViolation),
      (lit ''java.sql.SQLInvalidAuthorizationSpecException'', InvalidAuthorization),
      (lit ''java.sql.SQLSyntaxErrorException'', Syntax),
      (lit ''java.sql.SQLTransactionRollbackException'', TransactionRollback),
      (lit ''java.sql.SQLFeatureNotSupportedException'', FeatureNotSupported),
      (lit ''java.sql.SQLTimeoutException'', Timeout)]"

text \<open>The two leading characters of the \<open>SQLState\<close> decide when neither the class nor the flag does.\<close>

definition state_kind :: "rust_str \<Rightarrow> SqlExceptionKind" where
  "state_kind s =
     (let c = take 2 s in
      if c = lit ''08'' then NonTransientConnection
      else if c = lit ''22'' then Data
      else if c = lit ''23'' then IntegrityConstraintViolation
      else if c = lit ''28'' then InvalidAuthorization
      else if c = lit ''40'' then TransactionRollback
      else if c = lit ''42'' then Syntax
      else if c = lit ''0A'' then FeatureNotSupported
      else if c = lit ''HY'' \<and> s = lit ''HYT00'' then Timeout
      else General)"

definition kind :: "SqlException \<Rightarrow> SqlExceptionKind" where
  "kind e =
     (case map_of standard_kinds (class_name e) of
        Some k \<Rightarrow> k
      | None \<Rightarrow>
          if recoverable e then Recoverable
          else (case sql_state e of None \<Rightarrow> General | Some s \<Rightarrow> state_kind s))"

section \<open>Text\<close>

definition to_uppercase :: "(nat \<Rightarrow> rust_str) \<Rightarrow> rust_str \<Rightarrow> rust_str" where
  "to_uppercase table s =
     concat (map (\<lambda>c. if 97 \<le> c \<and> c \<le> 122 then [c - 32] else if c < 128 then [c] else table c) s)"

definition str_contains :: "rust_str \<Rightarrow> rust_str \<Rightarrow> bool" where
  "str_contains s fragment \<longleftrightarrow> sublist fragment s"

definition wrapping_abs :: "i32 \<Rightarrow> i32" where
  "wrapping_abs w = (if sint w < 0 then - w else w)"

definition connection_state :: "SqlException \<Rightarrow> bool" where
  "connection_state e \<longleftrightarrow> (case sql_state e of None \<Rightarrow> False | Some s \<Rightarrow> prefix (lit ''08'') s)"

section \<open>Sorters without configuration\<close>

definition null_is_exception_fatal :: "SqlException \<Rightarrow> bool" where
  "null_is_exception_fatal e = False"

definition mock_is_exception_fatal :: "SqlException \<Rightarrow> bool" where
  "mock_is_exception_fatal e = is_instance_of (lit ''com.alibaba.druid.mock.MockConnectionClosedException'') e"

definition phoenix_is_exception_fatal :: "SqlException \<Rightarrow> bool" where
  "phoenix_is_exception_fatal e =
     (case message e of None \<Rightarrow> False | Some m \<Rightarrow> str_contains m (lit ''Connection is null or closed''))"

definition pg_is_exception_fatal :: "SqlException \<Rightarrow> bool" where
  "pg_is_exception_fatal e \<longleftrightarrow> recoverable e \<or> connection_state e"

definition db2_is_exception_fatal :: "SqlException \<Rightarrow> bool" where
  "db2_is_exception_fatal e \<longleftrightarrow> recoverable e \<or> connection_state e
     \<or> sint (error_code e) \<in> set [-512, -514, -516, -518, -525, -909, -918, -924]"

definition informix_is_exception_fatal :: "SqlException \<Rightarrow> bool" where
  "informix_is_exception_fatal e \<longleftrightarrow> recoverable e
     \<or> sint (error_code e) \<in> set [-710, -79716, -79730, -79734, -79735, -79736, -79756, -79757, -79758,
         -79759, -79760, -79788, -79811, -79812, -79836, -79837, -79879]"

definition sybase_is_exception_fatal :: "(nat \<Rightarrow> rust_str) \<Rightarrow> SqlException \<Rightarrow> bool" where
  "sybase_is_exception_fatal table e \<longleftrightarrow> recoverable e
     \<or> (case message e of None \<Rightarrow> False
         | Some m \<Rightarrow> (let t = to_uppercase table m in str_contains t (lit ''JZ0C0'') \<or> str_contains t (lit ''JZ0C1'')))"

definition STREAMING_PREFIX :: rust_str where
  "STREAMING_PREFIX = lit ''Streaming result set com.mysql.jdbc.RowDataDynamic''"

definition STREAMING_SUFFIX :: rust_str where
  "STREAMING_SUFFIX = lit ''is still active. No statements may be issued when any streaming result sets are open and in use on a given connection. Ensure that you have called .close() on any active streaming result sets before attempting more queries.''"

definition mysql_cause_fatal :: "SqlExceptionCause \<Rightarrow> bool" where
  "mysql_cause_fatal c =
     (case c of SocketTimeout \<Rightarrow> True | ClassName n \<Rightarrow> suffix (lit ''.CommunicationsException'') n)"

definition mysql_is_exception_fatal :: "(nat \<Rightarrow> rust_str) \<Rightarrow> SqlException \<Rightarrow> bool" where
  "mysql_is_exception_fatal table e =
     (let code = sint (error_code e) in
      if recoverable e \<or> connection_state e then True
      else if code \<in> set [1004, 1005, 1015, 1021, 1023, 1037, 1038, 1040, 1041, 1042, 1043, 1045, 1047,
                          1081, 1129, 1130, 1142, 1227, 1290]
              \<or> (-9000 \<le> code \<and> code \<le> -8000) \<or> suffix (lit ''.CommunicationsException'') (class_name e)
      then True
      else if (case message e of None \<Rightarrow> False | Some m \<Rightarrow>
                 (prefix STREAMING_PREFIX m \<and> suffix STREAMING_SUFFIX m)
                 \<or> (let t = to_uppercase table m in
                      (code = 0 \<and> str_contains t (lit ''COMMUNICATIONS LINK FAILURE''))
                      \<or> str_contains t (lit ''COULD NOT CREATE CONNECTION'')
                      \<or> str_contains t (lit ''NO DATASOURCE'') \<or> str_contains t (lit ''NO ALIVE DATASOURCE'')))
      then True
      else list_ex mysql_cause_fatal (take 5 (causes e)))"

section \<open>Oracle sorters\<close>

text \<open>The first UTF-16 units of the 37 runs of decimal digits that Java accepts.\<close>

definition ZEROES :: "nat list" where
  "ZEROES =
    [0x0030, 0x0660, 0x06f0, 0x07c0, 0x0966, 0x09e6, 0x0a66, 0x0ae6, 0x0b66, 0x0be6, 0x0c66,
     0x0ce6, 0x0d66, 0x0de6, 0x0e50, 0x0ed0, 0x0f20, 0x1040, 0x1090, 0x17e0, 0x1810, 0x1946,
     0x19d0, 0x1a80, 0x1a90, 0x1b50, 0x1bb0, 0x1c40, 0x1c50, 0xa620, 0xa8d0, 0xa900, 0xa9d0,
     0xa9f0, 0xaa50, 0xabf0, 0xff10]"

definition java_digit :: "u16 \<Rightarrow> nat option" where
  "java_digit u =
     (case filter (\<lambda>z. z \<le> unat u \<and> unat u - z < 10) ZEROES of [] \<Rightarrow> None | z # _ \<Rightarrow> Some (unat u - z))"

definition i32_min :: int where "i32_min = - (2 ^ 31)"
definition i32_max :: int where "i32_max = 2 ^ 31 - 1"

text \<open>The accumulating loop: \<open>checked_mul\<close> and \<open>checked_sub\<close> fail below the least \<open>i32\<close>; the accumulator
  is never positive.\<close>

fun parse_digits :: "int \<Rightarrow> int \<Rightarrow> u16 list \<Rightarrow> int option" where
  "parse_digits limit acc [] = Some acc"
| "parse_digits limit acc (u # us) =
     (case java_digit u of
        None \<Rightarrow> None
      | Some d \<Rightarrow>
          if acc * 10 < i32_min then None
          else if acc * 10 - int d < i32_min then None
          else if acc * 10 - int d < limit then None
          else parse_digits limit (acc * 10 - int d) us)"

definition split_sign :: "rust_str \<Rightarrow> bool \<times> rust_str" where
  "split_sign s =
     (case s of
        c # cs \<Rightarrow> if c = 45 then (True, cs) else if c = 43 then (False, cs) else (False, s)
      | [] \<Rightarrow> (False, []))"

definition parse_java_integer :: "rust_str \<Rightarrow> int option" where
  "parse_java_integer s =
     (case split_sign s of (negative, digits) \<Rightarrow>
        if digits = [] then None
        else case parse_digits (if negative then i32_min else - i32_max) 0 (encode_utf16 digits) of
          None \<Rightarrow> None
        | Some r \<Rightarrow> Some (if negative then r else - r))"

text \<open>\<open>str::split(',')\<close>.\<close>

fun split_comma :: "rust_str \<Rightarrow> rust_str list" where
  "split_comma [] = [[]]"
| "split_comma (c # cs) =
     (if c = 44 then [] # split_comma cs
      else case split_comma cs of (x # xs) \<Rightarrow> (c # x) # xs | [] \<Rightarrow> [[c]])"

definition ORACLE_FATAL_ERROR_CODES_PROPERTY :: rust_str where
  "ORACLE_FATAL_ERROR_CODES_PROPERTY = lit ''druid.oracle.fatalErrorCodes''"

definition config_from_properties ::
  "(rust_str \<rightharpoonup> rust_str) option \<Rightarrow> int set \<Rightarrow> int set" where
  "config_from_properties properties codes =
     (case Option.bind properties (\<lambda>m. m ORACLE_FATAL_ERROR_CODES_PROPERTY) of
        None \<Rightarrow> codes
      | Some property \<Rightarrow>
          fold (\<lambda>item codes. case parse_java_integer item of Some c \<Rightarrow> insert c codes | None \<Rightarrow> codes)
            (filter (\<lambda>item. item \<noteq> []) (split_comma property)) codes)"

text \<open>The constructor reads the environment variable of the same name.\<close>

definition oracle_sorter_new :: "rust_str option \<Rightarrow> int set" where
  "oracle_sorter_new env =
     (case env of
        None \<Rightarrow> {}
      | Some property \<Rightarrow> config_from_properties (Some [ORACLE_FATAL_ERROR_CODES_PROPERTY \<mapsto> property]) {})"

definition oracle_fatal_codes :: "int list" where
  "oracle_fatal_codes =
    [28, 600, 1012, 1014, 1033, 1034, 1035, 1089, 1090, 1092, 1094, 2396, 3106, 3111, 3113, 3114,
     3134, 3135, 3136, 3138, 3142, 3143, 3144, 3145, 3149, 6801, 6802, 6805, 9918, 9920, 9921,
     17001, 17002, 17008, 17009, 17024, 17089, 17401, 17409, 17410, 17416, 17438, 17442,
     25407, 25408, 25409, 25425, 29276, 30676]"

definition oracle_fragments :: "rust_str list" where
  "oracle_fragments =
    [lit ''SOCKET'', [22871, 25509, 23383], lit ''CONNECTION HAS ALREADY BEEN CLOSED'',
     lit ''BROKEN PIPE'', [31649, 36947, 24050, 32467, 26463]]"

definition oracle_code_fatal :: "int \<Rightarrow> bool" where
  "oracle_code_fatal code \<longleftrightarrow> code \<in> set oracle_fatal_codes \<or> (12100 \<le> code \<and> code \<le> 12299)"

definition oracle_text_fatal :: "int \<Rightarrow> rust_str \<Rightarrow> bool" where
  "oracle_text_fatal code t \<longleftrightarrow> \<not> (20000 \<le> code \<and> code < 21000) \<and> list_ex (str_contains t) oracle_fragments"

definition oracle_is_exception_fatal :: "(nat \<Rightarrow> rust_str) \<Rightarrow> int set \<Rightarrow> SqlException \<Rightarrow> bool" where
  "oracle_is_exception_fatal table codes e =
     (let code = sint (wrapping_abs (error_code e)) in
      if recoverable e then True
      else if oracle_code_fatal code then True
      else if (case message e of None \<Rightarrow> False | Some m \<Rightarrow> oracle_text_fatal code (to_uppercase table m)) then True
      else code \<in> codes)"

definition oceanbase_fragments :: "rust_str list" where
  "oceanbase_fragments =
    [lit ''COMMUNICATIONS LINK FAILURE'', lit ''COULD NOT CREATE CONNECTION'', lit ''ACCESS DENIED FOR USER'',
     lit ''NO DATASOURCE'', lit ''NO ALIVE DATASOURCE'']"

definition oceanbase_is_exception_fatal :: "(nat \<Rightarrow> rust_str) \<Rightarrow> int set \<Rightarrow> SqlException \<Rightarrow> bool" where
  "oceanbase_is_exception_fatal table codes e =
     (let code = sint (wrapping_abs (error_code e)) in
      if recoverable e \<or> connection_state e then True
      else if oracle_code_fatal code then True
      else if (case message e of None \<Rightarrow> False | Some m \<Rightarrow>
                 (let t = to_uppercase table m in
                  oracle_text_fatal code t \<or> list_ex (str_contains t) oceanbase_fragments)) then True
      else code \<in> codes)"

section \<open>The contract of a sorter\<close>

text \<open>What the pool relies on: an exception that the driver marks as recoverable ends the physical
  connection; for most vendors so does every \<open>SQLState\<close> of class 08.\<close>

locale exception_sorter =
  fixes is_exception_fatal :: "SqlException \<Rightarrow> bool"
  assumes recoverable_fatal: "recoverable e \<Longrightarrow> is_exception_fatal e"
begin

lemma harmless_not_recoverable: "\<not> is_exception_fatal e \<Longrightarrow> \<not> recoverable e"
  using recoverable_fatal by blast

lemma recoverable_kind_fatal:
  assumes "kind e = Recoverable" and "map_of standard_kinds (class_name e) = None"
  shows "is_exception_fatal e"
proof -
  have "recoverable e"
    using assms by (auto simp: kind_def state_kind_def Let_def split: if_splits option.splits)
  then show ?thesis
    by (rule recoverable_fatal)
qed

end

locale connection_state_sorter = exception_sorter +
  assumes connection_state_fatal: "connection_state e \<Longrightarrow> is_exception_fatal e"
begin

lemma connection_kind_fatal:
  assumes "kind e \<in> {Recoverable, NonTransientConnection}"
    and "map_of standard_kinds (class_name e) = None"
  shows "is_exception_fatal e"
proof (cases "recoverable e")
  case True
  then show ?thesis
    by (rule recoverable_fatal)
next
  case False
  then obtain s where s: "sql_state e = Some s" "state_kind s \<in> {Recoverable, NonTransientConnection}"
    using assms by (auto simp: kind_def split: option.splits)
  then have "take 2 s = lit ''08''"
    by (auto simp: state_kind_def Let_def split: if_splits)
  then have "prefix (lit ''08'') s"
    by (metis append_take_drop_id prefixI)
  with s show ?thesis
    by (intro connection_state_fatal) (simp add: connection_state_def)
qed

end

interpretation pg: connection_state_sorter pg_is_exception_fatal
  by unfold_locales (simp_all add: pg_is_exception_fatal_def)

interpretation db2: connection_state_sorter db2_is_exception_fatal
  by unfold_locales (simp_all add: db2_is_exception_fatal_def)

interpretation mysql: connection_state_sorter "mysql_is_exception_fatal table" for table
  by unfold_locales (simp_all add: mysql_is_exception_fatal_def)

interpretation oceanbase: connection_state_sorter "oceanbase_is_exception_fatal table codes" for table codes
  by unfold_locales (simp_all add: oceanbase_is_exception_fatal_def)

interpretation informix: exception_sorter informix_is_exception_fatal
  by unfold_locales (simp add: informix_is_exception_fatal_def)

interpretation sybase: exception_sorter "sybase_is_exception_fatal table" for table
  by unfold_locales (simp add: sybase_is_exception_fatal_def)

interpretation ora: exception_sorter "oracle_is_exception_fatal table codes" for table codes
  by unfold_locales (simp add: oracle_is_exception_fatal_def)

text \<open>The exception hierarchy and the sorters agree on lost connections: an exception of a
  driver-specific class that \<open>kind\<close> classifies as recoverable or as a connection failure is fatal for
  the MySQL, PostgreSQL, DB2 and OceanBase sorters, whatever its code, message and causes are.\<close>

theorem lost_connections_are_fatal:
  assumes "kind e \<in> {Recoverable, NonTransientConnection}" and "map_of standard_kinds (class_name e) = None"
  shows "mysql_is_exception_fatal table e \<and> pg_is_exception_fatal e \<and> db2_is_exception_fatal e \<and>
    oceanbase_is_exception_fatal table codes e"
  using assms by (simp add: mysql.connection_kind_fatal pg.connection_kind_fatal db2.connection_kind_fatal
      oceanbase.connection_kind_fatal)

theorem lost_connections_are_fatal_witness:
  "pg_is_exception_fatal (SqlException_new 0 (Some (lit ''08006'')) None)"
  using lost_connections_are_fatal [of "SqlException_new 0 (Some (lit ''08006'')) None"]
  by (simp add: SqlException_new_def kind_def standard_kinds_def state_kind_def lit_def)

section \<open>Configured error codes\<close>

text \<open>The reference: the mathematical value of the digits with its sign, if it is an \<open>i32\<close>.\<close>

definition java_integer :: "rust_str \<Rightarrow> int option" where
  "java_integer s =
     (case split_sign s of (negative, digits) \<Rightarrow>
        if digits = [] \<or> (\<exists>u \<in> set (encode_utf16 digits). java_digit u = None) then None
        else let n = foldl (\<lambda>a u. a * 10 + int (the (java_digit u))) 0 (encode_utf16 digits);
                 v = (if negative then - n else n)
             in if i32_min \<le> v \<and> v \<le> i32_max then Some v else None)"

abbreviation down :: "int \<Rightarrow> u16 list \<Rightarrow> int" where
  "down acc us \<equiv> foldl (\<lambda>a u. a * 10 - int (the (java_digit u))) acc us"

lemma down_le: "acc \<le> 0 \<Longrightarrow> down acc us \<le> acc"
proof (induction us arbitrary: acc)
  case (Cons u us)
  let ?a = "acc * 10 - int (the (java_digit u))"
  have "?a \<le> acc" "?a \<le> 0"
    using Cons.prems by simp_all
  then show ?case
    using Cons.IH [of ?a] by simp
qed simp

lemma down_up: "down (- acc) us = - foldl (\<lambda>a u. a * 10 + int (the (java_digit u))) acc us"
proof (induction us arbitrary: acc)
  case (Cons u us)
  have "- acc * 10 - int (the (java_digit u)) = - (acc * 10 + int (the (java_digit u)))"
    by simp
  then show ?case
    using Cons.IH [of "acc * 10 + int (the (java_digit u))"] by (simp only: foldl_Cons)
qed simp

lemma parse_digits_value:
  assumes "acc \<le> 0" and "i32_min \<le> limit" and "limit \<le> acc"
  shows "parse_digits limit acc us =
    (if (\<exists>u \<in> set us. java_digit u = None) \<or> down acc us < limit then None else Some (down acc us))"
  using assms
proof (induction us arbitrary: acc)
  case (Cons u us)
  show ?case
  proof (cases "java_digit u")
    case (Some d)
    let ?a = "acc * 10 - int d"
    have a: "?a \<le> 0"
      using Cons.prems by simp
    show ?thesis
    proof (cases "?a < limit")
      case True
      then have "down ?a us < limit"
        using down_le [OF a, of us] by simp
      with True Some show ?thesis
        by simp
    next
      case False
      then show ?thesis
        using Cons.IH [of ?a] a Some Cons.prems by (auto simp: i32_min_def)
    qed
  qed simp
qed (simp add: not_less)

lemma parse_java_integer_eq: "parse_java_integer s = java_integer s"
proof -
  obtain neg ds where split: "split_sign s = (neg, ds)"
    by fastforce
  let ?limit = "if neg then i32_min else - i32_max"
  let ?n = "foldl (\<lambda>a u. a * 10 + int (the (java_digit u))) 0 (encode_utf16 ds)"
  have down: "down 0 (encode_utf16 ds) = - ?n"
    using down_up [of 0 "encode_utf16 ds"] by simp
  have "- ?n \<le> 0"
    using down_le [of 0 "encode_utf16 ds"] down by simp
  moreover have "parse_digits ?limit 0 (encode_utf16 ds) =
    (if (\<exists>u \<in> set (encode_utf16 ds). java_digit u = None) \<or> - ?n < ?limit then None else Some (- ?n))"
    using parse_digits_value [of 0 ?limit "encode_utf16 ds"] down by (simp add: i32_min_def i32_max_def)
  ultimately show ?thesis
    by (auto simp: parse_java_integer_def java_integer_def split Let_def i32_min_def i32_max_def)
qed

text \<open>Reading configured Oracle error codes never overflows and never misreads: the checked
  accumulation of \<open>parse_java_integer\<close> returns exactly the mathematical value of the digits with
  their sign when it is an \<open>i32\<close>, both bounds included, and nothing otherwise.\<close>

theorem parse_java_integer_exact: "parse_java_integer s = java_integer s"
  by (rule parse_java_integer_eq)

lemma fold_insert_parsed:
  "fold (\<lambda>item codes. case f item of Some c \<Rightarrow> insert c codes | None \<Rightarrow> codes) items codes =
     codes \<union> {c. \<exists>item \<in> set items. f item = Some c}"
  by (induction items arbitrary: codes) (auto split: option.splits)

text \<open>Configuration only ever adds codes: \<open>config_from_properties\<close> keeps the codes already known and
  adds exactly the integers among the comma-separated items; without the property it does nothing.\<close>

theorem config_adds_codes:
  "config_from_properties properties codes =
     codes \<union> {c. \<exists>m property item. properties = Some m \<and> m ORACLE_FATAL_ERROR_CODES_PROPERTY = Some property \<and>
                 item \<in> set (split_comma property) \<and> item \<noteq> [] \<and> java_integer item = Some c}"
  by (auto simp: config_from_properties_def fold_insert_parsed parse_java_integer_eq split: option.splits Option.bind_splits)

text \<open>The sign of an Oracle error code does not matter, and no code escapes the rule by overflow: the
  sorter's decision is the same for a code and for its negation, the least \<open>i32\<close> included.\<close>

theorem oracle_ignores_sign:
  "oracle_is_exception_fatal table codes (SqlException c st msg cls ts rc cs ns) =
   oracle_is_exception_fatal table codes (SqlException (- c) st msg cls ts rc cs ns)"
proof -
  have "wrapping_abs (- c) = wrapping_abs c"
  proof (cases "sint c = - (2 ^ 31)")
    case True
    then have "c = word_of_int (- (2 ^ 31))"
      by (metis scast_eq scast_id)
    then show ?thesis
      by (simp add: wrapping_abs_def)
  next
    case False
    then have "sint (- c) = - sint c"
      using sint_ge [of c] sint_lt [of c]
      by (simp add: sint_word_ariths(4) signed_take_bit_int_eq_self_iff)
    moreover have "c = 0" if "sint c = 0"
      using that by (metis scast_eq scast_id of_int_0)
    ultimately show ?thesis
      by (cases "sint c = 0") (auto simp: wrapping_abs_def)
  qed
  then show ?thesis
    by (simp add: oracle_is_exception_fatal_def)
qed

end
