(* ===== verification/Xa_Branch.thy ===== *)
theory Xa_Branch
  imports Prelude
begin

text \<open>
  XA transaction branches: the identifier \<open>Xid\<close> (\<open>druid-rdbc/src/data_source/xid.rs\<close>) and the state
  machine of one branch (\<open>druid/src/core/xa.rs\<close> with \<open>xa/state_a.rs\<close> and \<open>xa/state_b.rs\<close>). Each
  method is a function on the state that returns its result and the new state. The state diagram in
  the documentation of \<open>XaState\<close>, completed by the documentation of \<open>join\<close>, \<open>suspend\<close>, \<open>resume\<close>,
  \<open>forget\<close> and one-phase \<open>commit\<close>, is the relation \<open>xa_edge\<close>; the methods are shown to follow it.
\<close>

section \<open>Identifiers\<close>

record Xid =
  format_id :: "32 word"
  global_transaction_id :: "u8 list"
  branch_qualifier :: "u8 list"

datatype XaError = GtridTooLong nat | BqualTooLong nat

definition XID_MAX_GTRID_LENGTH :: nat where "XID_MAX_GTRID_LENGTH = 64"
definition XID_MAX_BQUAL_LENGTH :: nat where "XID_MAX_BQUAL_LENGTH = 64"

definition Xid_new :: "32 word \<Rightarrow> u8 list \<Rightarrow> u8 list \<Rightarrow> (Xid, XaError) result" where
  "Xid_new f gtrid bqual =
     (if length gtrid > XID_MAX_GTRID_LENGTH then Err (GtridTooLong (length gtrid))
      else if length bqual > XID_MAX_BQUAL_LENGTH then Err (BqualTooLong (length bqual))
      else Ok \<lparr>format_id = f, global_transaction_id = gtrid, branch_qualifier = bqual\<rparr>)"

section \<open>The state of a branch\<close>

datatype XaState =
    Idle | Active | Preparing | Prepared | Committing | Committed | RollingBack | RolledBack | Failed
  | Suspended

datatype XaOperation = Start | End | Prepare | Commit | Rollback | Forget | Join | Resume | Suspend

record XaStateTransitionError =
  err_current :: XaState
  err_operation :: XaOperation

record XaStateTransitionRecord =
  rec_from :: XaState
  rec_to :: XaState
  rec_operation :: XaOperation

record XaTransactionState =
  xid :: Xid
  xa_state :: XaState
  xa_created_at :: instant
  xa_timeout :: "duration option"
  history :: "XaStateTransitionRecord list"

type_synonym xa_outcome = "(unit, XaStateTransitionError) result \<times> XaTransactionState"

definition XaTransactionState_new :: "instant \<Rightarrow> Xid \<Rightarrow> XaTransactionState" where
  "XaTransactionState_new now x =
     \<lparr>xid = x, xa_state = Idle, xa_created_at = now, xa_timeout = None, history = []\<rparr>"

definition with_timeout :: "instant \<Rightarrow> Xid \<Rightarrow> duration \<Rightarrow> XaTransactionState" where
  "with_timeout now x d =
     \<lparr>xid = x, xa_state = Idle, xa_created_at = now, xa_timeout = Some d, history = []\<rparr>"

definition is_timed_out :: "instant \<Rightarrow> XaTransactionState \<Rightarrow> bool" where
  "is_timed_out now t =
     (case xa_timeout t of Some d \<Rightarrow> elapsed now (xa_created_at t) > d | None \<Rightarrow> False)"

definition is_terminal :: "XaTransactionState \<Rightarrow> bool" where
  "is_terminal t \<longleftrightarrow> xa_state t \<in> set [Committed, RolledBack, Failed]"

definition push_record :: "XaState \<Rightarrow> XaState \<Rightarrow> XaOperation \<Rightarrow> XaTransactionState \<Rightarrow> XaTransactionState" where
  "push_record from to operation t =
     t\<lparr>xa_state := to, history := history t @ [\<lparr>rec_from = from, rec_to = to, rec_operation = operation\<rparr>]\<rparr>"

definition transition :: "XaOperation \<Rightarrow> XaState \<Rightarrow> XaState list \<Rightarrow> XaTransactionState \<Rightarrow> xa_outcome" where
  "transition operation target allowed_sources t =
     (if xa_state t \<notin> set allowed_sources
      then (Err \<lparr>err_current = xa_state t, err_operation = operation\<rparr>, t)
      else (Ok (), push_record (xa_state t) target operation t))"

definition xa_start :: "XaTransactionState \<Rightarrow> xa_outcome" where
  "xa_start = transition Start Active [Idle]"

definition xa_end :: "XaTransactionState \<Rightarrow> xa_outcome" where
  "xa_end = transition End Preparing [Active]"

definition xa_join :: "XaTransactionState \<Rightarrow> xa_outcome" where
  "xa_join = transition Join Active [Preparing]"

definition xa_resume :: "XaTransactionState \<Rightarrow> xa_outcome" where
  "xa_resume = transition Resume Active [Suspended]"

definition xa_suspend :: "XaTransactionState \<Rightarrow> xa_outcome" where
  "xa_suspend = transition Suspend Suspended [Active]"

definition xa_prepare :: "XaTransactionState \<Rightarrow> xa_outcome" where
  "xa_prepare = transition Prepare Prepared [Preparing]"

definition xa_commit :: "bool \<Rightarrow> XaTransactionState \<Rightarrow> xa_outcome" where
  "xa_commit one_phase t =
     (let allowed = (if one_phase then [Preparing] else [Prepared]) in
      case transition Commit Committing allowed t of
        (Err e, t) \<Rightarrow> (Err e, t)
      | (Ok _, t) \<Rightarrow> (Ok (), push_record Committing Committed Commit t))"

definition xa_rollback :: "XaTransactionState \<Rightarrow> xa_outcome" where
  "xa_rollback t =
     (case transition Rollback RollingBack [Idle, Active, Suspended, Preparing, Prepared] t of
        (Err e, t) \<Rightarrow> (Err e, t)
      | (Ok _, t) \<Rightarrow> (Ok (), push_record RollingBack RolledBack Rollback t))"

definition xa_forget :: "XaTransactionState \<Rightarrow> xa_outcome" where
  "xa_forget = transition Forget Idle [Failed]"

definition mark_failed :: "XaTransactionState \<Rightarrow> xa_outcome" where
  "mark_failed t =
     (if is_terminal t then (Err \<lparr>err_current = xa_state t, err_operation = Forget\<rparr>, t)
      else (Ok (), push_record (xa_state t) Failed Forget t))"

text \<open>Calls on one branch, in the order a transaction manager makes them.\<close>

datatype xa_request =
    C_start | C_end | C_join | C_resume | C_suspend | C_prepare | C_commit bool | C_rollback | C_forget
  | C_mark_failed

fun xa_call :: "xa_request \<Rightarrow> XaTransactionState \<Rightarrow> xa_outcome" where
  "xa_call C_start t = xa_start t"
| "xa_call C_end t = xa_end t"
| "xa_call C_join t = xa_join t"
| "xa_call C_resume t = xa_resume t"
| "xa_call C_suspend t = xa_suspend t"
| "xa_call C_prepare t = xa_prepare t"
| "xa_call (C_commit one_phase) t = xa_commit one_phase t"
| "xa_call C_rollback t = xa_rollback t"
| "xa_call C_forget t = xa_forget t"
| "xa_call C_mark_failed t = mark_failed t"

primrec xa_run :: "xa_request list \<Rightarrow> XaTransactionState \<Rightarrow> XaTransactionState" where
  "xa_run [] t = t"
| "xa_run (c # cs) t = xa_run cs (snd (xa_call c t))"

lemmas xa_defs = xa_start_def xa_end_def xa_join_def xa_resume_def xa_suspend_def xa_prepare_def
  xa_commit_def xa_rollback_def xa_forget_def mark_failed_def transition_def

section \<open>The state diagram\<close>

inductive xa_edge :: "XaState \<Rightarrow> XaOperation \<Rightarrow> XaState \<Rightarrow> bool" where
  start: "xa_edge Idle Start Active"
| end_branch: "xa_edge Active End Preparing"
| join: "xa_edge Preparing Join Active"
| suspend: "xa_edge Active Suspend Suspended"
| resume: "xa_edge Suspended Resume Active"
| prepare: "xa_edge Preparing Prepare Prepared"
| commit_one_phase: "xa_edge Preparing Commit Committing"
| commit_prepared: "xa_edge Prepared Commit Committing"
| committed: "xa_edge Committing Commit Committed"
| rollback: "s \<in> {Idle, Active, Suspended, Preparing, Prepared} \<Longrightarrow> xa_edge s Rollback RollingBack"
| rolled_back: "xa_edge RollingBack Rollback RolledBack"
| failed: "s \<notin> {Committed, RolledBack, Failed} \<Longrightarrow> xa_edge s Forget Failed"
| forget: "xa_edge Failed Forget Idle"

inductive_simps xa_edge_to_Committed: "xa_edge s oper Committed"
inductive_simps xa_edge_to_Committing: "xa_edge s oper Committing"
inductive_simps xa_edge_to_Prepared: "xa_edge s oper Prepared"
inductive_simps xa_edge_to_Preparing: "xa_edge s oper Preparing"

inductive xa_path :: "XaState \<Rightarrow> XaStateTransitionRecord list \<Rightarrow> XaState \<Rightarrow> bool" where
  stay: "xa_path s [] s"
| move: "xa_path s rs u \<Longrightarrow> xa_edge u oper v \<Longrightarrow>
    xa_path s (rs @ [\<lparr>rec_from = u, rec_to = v, rec_operation = oper\<rparr>]) v"

lemma push_record_path:
  assumes "xa_path s (history t) from" and "xa_edge from oper to"
  shows "xa_path s (history (push_record from to oper t)) (xa_state (push_record from to oper t))"
  using assms by (simp add: push_record_def xa_path.move)

lemma transition_path:
  assumes "xa_path s (history t) (xa_state t)" and "\<And>u. u \<in> set allowed \<Longrightarrow> xa_edge u oper target"
  shows "xa_path s (history (snd (transition oper target allowed t)))
    (xa_state (snd (transition oper target allowed t)))"
  using assms by (auto simp: transition_def intro!: push_record_path)

lemma transition_then_path:
  assumes "xa_path s (history t) (xa_state t)" and "\<And>u. u \<in> set allowed \<Longrightarrow> xa_edge u oper mid"
    and "xa_edge mid oper target" and "transition oper mid allowed t = (Ok v, t1)"
  shows "xa_path s (history (push_record mid target oper t1)) (xa_state (push_record mid target oper t1))"
proof (rule push_record_path)
  have "xa_state t1 = mid"
    using assms(4) by (auto simp: transition_def push_record_def split: if_splits)
  then show "xa_path s (history t1) mid"
    using transition_path [where s = s and t = t and allowed = allowed and oper = oper and target = mid] assms by simp
qed (rule assms(3))

lemma transition_refused: "transition oper target allowed t = (Err e, t1) \<Longrightarrow> t1 = t"
  by (auto simp: transition_def split: if_splits)

lemma xa_call_path:
  assumes "xa_path s (history t) (xa_state t)"
  shows "xa_path s (history (snd (xa_call c t))) (xa_state (snd (xa_call c t)))"
proof (cases c)
  case (C_commit one_phase)
  with assms show ?thesis
    by (auto simp: xa_commit_def Let_def split: result.split prod.split dest: transition_refused
        intro!: transition_then_path [where t = t and allowed = "if one_phase then [Preparing] else [Prepared]"]
        intro: xa_edge.intros)
next
  case C_rollback
  with assms show ?thesis
    by (auto simp: xa_rollback_def split: result.split prod.split dest: transition_refused
        intro!: transition_then_path [where t = t and allowed = "[Idle, Active, Suspended, Preparing, Prepared]"]
        intro: xa_edge.intros)
next
  case C_mark_failed
  with assms show ?thesis
    by (auto simp: mark_failed_def is_terminal_def intro!: push_record_path xa_edge.failed)
qed (use assms in \<open>auto simp: xa_start_def xa_end_def xa_join_def xa_resume_def xa_suspend_def
    xa_prepare_def xa_forget_def intro!: transition_path intro: xa_edge.intros\<close>)

lemma xa_run_path:
  "xa_path s (history t) (xa_state t) \<Longrightarrow> xa_path s (history (xa_run cs t)) (xa_state (xa_run cs t))"
  by (induction cs arbitrary: t) (simp_all add: xa_call_path)

lemma xa_run_from_new:
  "xa_path Idle (history (xa_run cs (XaTransactionState_new now x))) (xa_state (xa_run cs (XaTransactionState_new now x)))"
  by (rule xa_run_path) (simp add: XaTransactionState_new_def xa_path.stay)

section \<open>Properties\<close>

text \<open>C22. The audit trail of a branch is complete and legal: after any sequence of calls, refused ones
  included, the recorded history is a gapless path of the state diagram from \<open>Idle\<close> to the current
  state.\<close>

theorem xa_history_is_path:
  "xa_path Idle (history (xa_run cs (XaTransactionState_new now x)))
     (xa_state (xa_run cs (XaTransactionState_new now x)))"
  by (rule xa_run_from_new)

lemma path_to_Committed:
  assumes "xa_path Idle rs Committed"
  shows "\<exists>pre. rs = pre @ [\<lparr>rec_from = Active, rec_to = Preparing, rec_operation = End\<rparr>,
        \<lparr>rec_from = Preparing, rec_to = Prepared, rec_operation = Prepare\<rparr>,
        \<lparr>rec_from = Prepared, rec_to = Committing, rec_operation = Commit\<rparr>,
        \<lparr>rec_from = Committing, rec_to = Committed, rec_operation = Commit\<rparr>] \<or>
      rs = pre @ [\<lparr>rec_from = Active, rec_to = Preparing, rec_operation = End\<rparr>,
        \<lparr>rec_from = Preparing, rec_to = Committing, rec_operation = Commit\<rparr>,
        \<lparr>rec_from = Committing, rec_to = Committed, rec_operation = Commit\<rparr>]"
proof -
  have into: "\<exists>pre. rs = pre @ [\<lparr>rec_from = Active, rec_to = Preparing, rec_operation = End\<rparr>]"
    if "xa_path Idle rs Preparing" for rs
    using that by (cases rule: xa_path.cases) (auto simp: xa_edge_to_Preparing)
  from assms obtain rs1 where rs1: "xa_path Idle rs1 Committing"
      "rs = rs1 @ [\<lparr>rec_from = Committing, rec_to = Committed, rec_operation = Commit\<rparr>]"
    by (cases rule: xa_path.cases) (auto simp: xa_edge_to_Committed)
  from this(1) consider (one_phase) rs2 where "xa_path Idle rs2 Preparing"
      "rs1 = rs2 @ [\<lparr>rec_from = Preparing, rec_to = Committing, rec_operation = Commit\<rparr>]"
    | (two_phase) rs2 where "xa_path Idle rs2 Prepared"
      "rs1 = rs2 @ [\<lparr>rec_from = Prepared, rec_to = Committing, rec_operation = Commit\<rparr>]"
    by (cases rule: xa_path.cases) (auto simp: xa_edge_to_Committing)
  then show ?thesis
  proof cases
    case one_phase
    with rs1 into show ?thesis
      by fastforce
  next
    case two_phase
    from this(1) obtain rs3 where "xa_path Idle rs3 Preparing"
        "rs2 = rs3 @ [\<lparr>rec_from = Preparing, rec_to = Prepared, rec_operation = Prepare\<rparr>]"
      by (cases rule: xa_path.cases) (auto simp: xa_edge_to_Prepared)
    with two_phase rs1 into show ?thesis
      by fastforce
  qed
qed

text \<open>C23. Commitment follows the protocol: whatever calls were made, a committed branch was ended and
  then either prepared and committed or committed in one phase, with nothing in between.\<close>

theorem xa_commit_protocol:
  assumes "xa_state (xa_run cs (XaTransactionState_new now x)) = Committed"
  shows "\<exists>pre. history (xa_run cs (XaTransactionState_new now x)) \<in>
    {pre @ [\<lparr>rec_from = Active, rec_to = Preparing, rec_operation = End\<rparr>,
        \<lparr>rec_from = Preparing, rec_to = Prepared, rec_operation = Prepare\<rparr>,
        \<lparr>rec_from = Prepared, rec_to = Committing, rec_operation = Commit\<rparr>,
        \<lparr>rec_from = Committing, rec_to = Committed, rec_operation = Commit\<rparr>],
     pre @ [\<lparr>rec_from = Active, rec_to = Preparing, rec_operation = End\<rparr>,
        \<lparr>rec_from = Preparing, rec_to = Committing, rec_operation = Commit\<rparr>,
        \<lparr>rec_from = Committing, rec_to = Committed, rec_operation = Commit\<rparr>]}"
  using path_to_Committed xa_run_from_new [of cs now x] assms by simp

definition sample_xid :: Xid where
  "sample_xid = \<lparr>format_id = 1, global_transaction_id = [1], branch_qualifier = [2]\<rparr>"

definition sample_calls :: "xa_request list" where
  "sample_calls = [C_prepare, C_start, C_suspend, C_resume, C_end, C_commit False, C_prepare, C_commit False]"

theorem xa_commit_protocol_witness:
  "history (xa_run sample_calls (XaTransactionState_new 0 sample_xid)) \<noteq> []"
proof -
  have "xa_state (xa_run sample_calls (XaTransactionState_new 0 sample_xid)) = Committed"
    by (simp add: sample_calls_def XaTransactionState_new_def xa_defs push_record_def)
  from xa_commit_protocol [OF this] show ?thesis
    by auto
qed

lemma decided_call_refused:
  assumes "xa_state t \<in> {Committed, RolledBack}"
  shows "\<exists>oper. xa_call c t = (Err \<lparr>err_current = xa_state t, err_operation = oper\<rparr>, t)"
  using assms by (cases c) (auto simp: xa_defs is_terminal_def)

lemma decided_run_unchanged:
  "xa_state t \<in> {Committed, RolledBack} \<Longrightarrow> xa_run cs t = t"
proof (induction cs)
  case (Cons c cs)
  then show ?case
    using decided_call_refused [of t c] by auto
qed simp

text \<open>A decision is final: once a branch is committed or rolled back, every further call is refused
  with the current state in the error, and no sequence of calls changes the state or the history.\<close>

theorem xa_decision_is_final:
  assumes "xa_state t \<in> {Committed, RolledBack}"
  shows "xa_run cs t = t \<and> (\<exists>oper. xa_call c t = (Err \<lparr>err_current = xa_state t, err_operation = oper\<rparr>, t))"
  using decided_run_unchanged [OF assms] decided_call_refused [OF assms] by blast

theorem xa_decision_is_final_witness:
  "xa_run [C_commit False, C_forget, C_start] (snd (xa_rollback (XaTransactionState_new 0 sample_xid))) =
     snd (xa_rollback (XaTransactionState_new 0 sample_xid))"
proof -
  have "xa_state (snd (xa_rollback (XaTransactionState_new 0 sample_xid))) \<in> {Committed, RolledBack}"
    by (simp add: XaTransactionState_new_def xa_defs push_record_def)
  from xa_decision_is_final [OF this] show ?thesis
    by blast
qed

end
