(* ===== verification/Two_Phase.thy ===== *)
theory Two_Phase
  imports Prelude
begin

text \<open>
  The coordination log of durable two-phase commit and its recovery planner
  (\<open>druid-rdbc/src/governance/two_phase\<close>). The planner reads one log and names the only action that
  recovery may take. The replay of a decision, which the log's owner performs, is stated on the log:
  every participant reaches the decided state.
\<close>

datatype ParticipantState = Unprepared | Prepared | Committed | Aborted | Unknown | Mixed

datatype GlobalDecision = Undecided | Commit | Rollback

datatype TransactionState =
    TActive | TPreparing | TPrepared | TCommitting | TCommitted | TAborting | TAborted | TMixed | TUnknown

datatype RecoveryAction = Complete | Wait | ReplayCommit | ReplayRollback | VerifyOnly | ManualAdjudication

record ParticipantRecord =
  pname :: rust_str
  pstate :: ParticipantState

record TwoPhaseLog =
  schema_version :: u16
  transaction_id :: rust_str
  tstate :: TransactionState
  decision :: GlobalDecision
  participants :: "ParticipantRecord list"

definition ParticipantRecord_new :: "rust_str \<Rightarrow> ParticipantState \<Rightarrow> ParticipantRecord" where
  "ParticipantRecord_new n s = \<lparr>pname = n, pstate = s\<rparr>"

definition TWO_PHASE_LOG_SCHEMA_VERSION :: u16 where "TWO_PHASE_LOG_SCHEMA_VERSION = 1"

definition TwoPhaseLog_new :: "rust_str \<Rightarrow> ParticipantRecord list \<Rightarrow> TwoPhaseLog" where
  "TwoPhaseLog_new i ps =
     \<lparr>schema_version = TWO_PHASE_LOG_SCHEMA_VERSION, transaction_id = i, tstate = TActive,
      decision = Undecided, participants = ps\<rparr>"

definition log_key :: "TwoPhaseLog \<Rightarrow> rust_str" where
  "log_key l = lit ''2pc:tx:'' @ transaction_id l"

definition allows_commit_retry :: "RecoveryAction \<Rightarrow> bool" where
  "allows_commit_retry a \<longleftrightarrow> a = ReplayCommit"

definition any_in :: "TwoPhaseLog \<Rightarrow> ParticipantState \<Rightarrow> bool" where
  "any_in l s \<longleftrightarrow> list_ex (\<lambda>p. pstate p = s) (participants l)"

definition all_in :: "TwoPhaseLog \<Rightarrow> ParticipantState \<Rightarrow> bool" where
  "all_in l s \<longleftrightarrow> list_all (\<lambda>p. pstate p = s) (participants l)"

definition plan_recovery :: "TwoPhaseLog \<Rightarrow> RecoveryAction" where
  "plan_recovery l =
     (if tstate l = TMixed \<or> any_in l Mixed then ManualAdjudication
      else if tstate l = TUnknown then VerifyOnly
      else case decision l of
        Commit \<Rightarrow>
          if any_in l Unprepared then ManualAdjudication
          else if all_in l Committed then Complete
          else ReplayCommit
      | Rollback \<Rightarrow> if all_in l Aborted then Complete else ReplayRollback
      | Undecided \<Rightarrow>
          (case tstate l of
             TCommitted \<Rightarrow> if all_in l Committed then Complete else ManualAdjudication
           | TAborted \<Rightarrow> if all_in l Aborted then Complete else ManualAdjudication
           | TPrepared \<Rightarrow> ManualAdjudication
           | TCommitting \<Rightarrow> ManualAdjudication
           | TAborting \<Rightarrow> ManualAdjudication
           | TActive \<Rightarrow> Wait
           | TPreparing \<Rightarrow> Wait
           | TMixed \<Rightarrow> ManualAdjudication
           | TUnknown \<Rightarrow> ManualAdjudication))"

section \<open>Properties\<close>

lemma any_in_iff: "any_in l s \<longleftrightarrow> (\<exists>p \<in> set (participants l). pstate p = s)"
  by (auto simp: any_in_def list_ex_iff)

lemma all_in_iff: "all_in l s \<longleftrightarrow> (\<forall>p \<in> set (participants l). pstate p = s)"
  by (auto simp: all_in_def list_all_iff)


text \<open>The log after the decision has been replayed on every participant.\<close>

definition replayed :: "ParticipantState \<Rightarrow> TwoPhaseLog \<Rightarrow> TwoPhaseLog" where
  "replayed s l = l\<lparr>participants := map (\<lambda>p. p\<lparr>pstate := s\<rparr>) (participants l)\<rparr>"

lemma all_in_replayed [simp]: "all_in (replayed s l) s"
  by (simp add: all_in_iff replayed_def)

lemma any_in_replayed [simp]: "s \<noteq> u \<Longrightarrow> \<not> any_in (replayed s l) u"
  by (simp add: any_in_iff replayed_def)

lemma replayed_fields [simp]: "tstate (replayed s l) = tstate l" "decision (replayed s l) = decision l"
  by (simp_all add: replayed_def)

text \<open>Recovery makes progress: when the planner asks for a replay, the log in which every participant
  has confirmed the decision is planned as complete, so one round of replay ends recovery.\<close>

theorem recovery_replay_completes:
  "(plan_recovery l = ReplayCommit \<longrightarrow> plan_recovery (replayed Committed l) = Complete) \<and>
   (plan_recovery l = ReplayRollback \<longrightarrow> plan_recovery (replayed Aborted l) = Complete)"
  by (auto simp: plan_recovery_def split: if_splits GlobalDecision.splits TransactionState.splits)

definition sample_log :: TwoPhaseLog where
  "sample_log = (TwoPhaseLog_new (lit ''t1'') [ParticipantRecord_new (lit ''a'') Committed,
     ParticipantRecord_new (lit ''b'') Prepared])\<lparr>tstate := TCommitting, decision := Commit\<rparr>"

theorem recovery_replay_completes_witness:
  "plan_recovery sample_log = ReplayCommit \<and> plan_recovery (replayed Committed sample_log) = Complete"
proof -
  have "plan_recovery sample_log = ReplayCommit"
    by (simp add: sample_log_def TwoPhaseLog_new_def ParticipantRecord_new_def plan_recovery_def any_in_def all_in_def)
  with recovery_replay_completes [of sample_log] show ?thesis
    by simp
qed

text \<open>An unknown or contradicting participant does not stop a replay: with a commit decision in the log,
  the planner asks for \<open>ReplayCommit\<close> although one participant's outcome is unknown and another one has
  already confirmed a rollback.\<close>

theorem recovery_replays_over_unknown_participants:
  "\<exists>l. Unknown \<in> pstate ` set (participants l) \<and> Aborted \<in> pstate ` set (participants l) \<and>
     plan_recovery l = ReplayCommit"
proof -
  define l where "l = sample_log\<lparr>participants :=
    [ParticipantRecord_new (lit ''a'') Unknown, ParticipantRecord_new (lit ''b'') Aborted]\<rparr>"
  have "plan_recovery l = ReplayCommit"
    by (simp add: l_def sample_log_def TwoPhaseLog_new_def ParticipantRecord_new_def plan_recovery_def any_in_def all_in_def)
  moreover have "Unknown \<in> pstate ` set (participants l)" "Aborted \<in> pstate ` set (participants l)"
    by (simp_all add: l_def ParticipantRecord_new_def)
  ultimately show ?thesis
    by blast
qed

end
