(* ===== verification/Statement_Cache.thy ===== *)
theory Statement_Cache
  imports Prelude "HOL-Library.AList" "HOL-Library.Multiset"
begin

text \<open>
  The cache of prepared statements that every physical connection has
  (\<open>druid/src/core/standard_prepared_statement_cache.rs\<close>) and its key
  (\<open>prepared_statement_key.rs\<close>). The hash map is an association list, statements are values of two
  type parameters, one for each kind of handle. The reference is a list of key-statement pairs, the
  least recently used first; the locale \<open>lru_store\<close> states it as the contract of the cache.
\<close>

section \<open>Keys\<close>

datatype PreparedStatementMethodType = M1 | M2 | M3 | M4 | M5 | M6 | Precall1 | Precall2 | Precall3

datatype ResultSetType = ForwardOnly | ScrollInsensitive | ScrollSensitive | TypeDriverValue int
datatype ResultSetConcurrency = ReadOnly | Updatable | ConcurrencyDriverValue int
datatype ResultSetHoldability = CloseAtCommit | HoldOverCommit | HoldabilityDriverValue int

fun ResultSetType_rdbc_code :: "ResultSetType \<Rightarrow> int" where
  "ResultSetType_rdbc_code ForwardOnly = 1003"
| "ResultSetType_rdbc_code ScrollInsensitive = 1004"
| "ResultSetType_rdbc_code ScrollSensitive = 1005"
| "ResultSetType_rdbc_code (TypeDriverValue code) = code"

fun ResultSetConcurrency_rdbc_code :: "ResultSetConcurrency \<Rightarrow> int" where
  "ResultSetConcurrency_rdbc_code ReadOnly = 1007"
| "ResultSetConcurrency_rdbc_code Updatable = 1008"
| "ResultSetConcurrency_rdbc_code (ConcurrencyDriverValue code) = code"

fun ResultSetHoldability_rdbc_code :: "ResultSetHoldability \<Rightarrow> int" where
  "ResultSetHoldability_rdbc_code HoldOverCommit = 1"
| "ResultSetHoldability_rdbc_code CloseAtCommit = 2"
| "ResultSetHoldability_rdbc_code (HoldabilityDriverValue code) = code"

record StatementOptions =
  opt_type :: ResultSetType
  opt_concurrency :: ResultSetConcurrency
  opt_holdability :: ResultSetHoldability

text \<open>A \<open>ColumnIndex\<close> is a positive \<open>usize\<close>.\<close>

datatype GeneratedKeys = NoKeys | ReturnGeneratedKeys | ColumnIndexes "nat list" | ColumnNames "rust_str list"

datatype KeyError = SqlEmpty | SqlNull | IndexExceedsI32

record PreparedStatementKey =
  key_sql :: rust_str
  key_catalog :: "rust_str option"
  method_type :: PreparedStatementMethodType
  result_set_type :: int
  result_set_concurrency :: int
  result_set_holdability :: int
  auto_generated_keys :: int
  column_indexes :: "int list option"
  column_names :: "rust_str list option"

definition ColumnIndex_new :: "nat \<Rightarrow> nat option" where
  "ColumnIndex_new i = (if i = 0 then None else Some i)"

text \<open>\<open>i32::try_from\<close> of every index, collected: the first failure is the failure of all.\<close>

definition i32_indexes :: "nat list \<Rightarrow> int list option" where
  "i32_indexes is = (if list_all (\<lambda>i. i < 2 ^ 31) is then Some (map int is) else None)"

definition key_full ::
  "rust_str option \<Rightarrow> rust_str option \<Rightarrow> PreparedStatementMethodType \<Rightarrow> int \<Rightarrow> int \<Rightarrow> int \<Rightarrow> int \<Rightarrow>
   int list option \<Rightarrow> rust_str list option \<Rightarrow> (PreparedStatementKey, KeyError) result" where
  "key_full sql catalog m t c h auto indexes names =
     (case sql of
        None \<Rightarrow> Err SqlNull
      | Some s \<Rightarrow> Ok \<lparr>key_sql = s, key_catalog = catalog, method_type = m, result_set_type = t,
          result_set_concurrency = c, result_set_holdability = h, auto_generated_keys = auto,
          column_indexes = indexes, column_names = names\<rparr>)"

definition key_standard ::
  "rust_str \<Rightarrow> rust_str option \<Rightarrow> PreparedStatementMethodType \<Rightarrow> StatementOptions \<Rightarrow> GeneratedKeys \<Rightarrow>
   (PreparedStatementKey, KeyError) result" where
  "key_standard sql catalog m options generated_keys =
     (if sql = [] then Err SqlEmpty
      else
        let make = key_full (Some sql) catalog m (ResultSetType_rdbc_code (opt_type options))
              (ResultSetConcurrency_rdbc_code (opt_concurrency options))
              (ResultSetHoldability_rdbc_code (opt_holdability options))
        in case generated_keys of
             NoKeys \<Rightarrow> make 0 None None
           | ReturnGeneratedKeys \<Rightarrow> make 1 None None
           | ColumnIndexes is \<Rightarrow>
               (case i32_indexes is of None \<Rightarrow> Err IndexExceedsI32 | Some js \<Rightarrow> make 0 (Some js) None)
           | ColumnNames ns \<Rightarrow> make 0 None (Some ns))"

definition statement_generated_keys :: "PreparedStatementKey \<Rightarrow> GeneratedKeys" where
  "statement_generated_keys key =
     (case column_indexes key of
        Some js \<Rightarrow> ColumnIndexes
          (List.map_filter ColumnIndex_new (List.map_filter (\<lambda>j. if j < 0 then None else Some (nat j)) js))
      | None \<Rightarrow>
          (case column_names key of
             Some ns \<Rightarrow> ColumnNames ns
           | None \<Rightarrow> if auto_generated_keys key \<noteq> 0 then ReturnGeneratedKeys else NoKeys))"

section \<open>The cache\<close>

datatype ('p, 'c) CachedPreparedStatement = Prepared 'p | Callable 'c

record ('k, 'p, 'c) StandardPreparedStatementCache =
  entries :: "('k \<times> ('p, 'c) CachedPreparedStatement) list"
  access_order :: "'k list"
  pending_close :: "('p, 'c) CachedPreparedStatement list"
  max_size :: nat

definition cache_new :: "nat \<Rightarrow> ('k, 'p, 'c) StandardPreparedStatementCache" where
  "cache_new n = \<lparr>entries = [], access_order = [], pending_close = [], max_size = n\<rparr>"

definition cache_is_enabled :: "('k, 'p, 'c) StandardPreparedStatementCache \<Rightarrow> bool" where
  "cache_is_enabled c \<longleftrightarrow> max_size c > 0"

definition remove_order ::
  "'k \<Rightarrow> ('k, 'p, 'c) StandardPreparedStatementCache \<Rightarrow> ('k, 'p, 'c) StandardPreparedStatementCache" where
  "remove_order key c =
     (case position (\<lambda>candidate. candidate = key) (access_order c) of
        Some index \<Rightarrow> c\<lparr>access_order := remove_at index (access_order c)\<rparr>
      | None \<Rightarrow> c)"

definition cache_take ::
  "'k \<Rightarrow> ('k, 'p, 'c) StandardPreparedStatementCache \<Rightarrow> 'p option \<times> ('k, 'p, 'c) StandardPreparedStatementCache" where
  "cache_take key c =
     (case map_of (entries c) key of
        Some (Prepared s) \<Rightarrow> (Some s, remove_order key (c\<lparr>entries := AList.delete key (entries c)\<rparr>))
      | _ \<Rightarrow> (None, c))"

definition cache_take_callable ::
  "'k \<Rightarrow> ('k, 'p, 'c) StandardPreparedStatementCache \<Rightarrow> 'c option \<times> ('k, 'p, 'c) StandardPreparedStatementCache" where
  "cache_take_callable key c =
     (case map_of (entries c) key of
        Some (Callable s) \<Rightarrow> (Some s, remove_order key (c\<lparr>entries := AList.delete key (entries c)\<rparr>))
      | _ \<Rightarrow> (None, c))"

text \<open>The \<open>while\<close> loop of \<open>put_entry\<close>: it ends when the map is small enough or the order is empty.\<close>

fun evict_eldest ::
  "nat \<Rightarrow> 'k list \<Rightarrow> ('k \<times> 'v) list \<Rightarrow> 'v list \<Rightarrow> ('k \<times> 'v) list \<times> 'k list \<times> 'v list" where
  "evict_eldest n order es removed =
     (if length es > n then
        (case order of
           [] \<Rightarrow> (es, [], removed)
         | eldest # order \<Rightarrow>
             (case map_of es eldest of
                Some s \<Rightarrow> evict_eldest n order (AList.delete eldest es) (removed @ [s])
              | None \<Rightarrow> evict_eldest n order es removed))
      else (es, order, removed))"

declare evict_eldest.simps [simp del]

definition put_entry ::
  "'k \<Rightarrow> ('p, 'c) CachedPreparedStatement \<Rightarrow> ('k, 'p, 'c) StandardPreparedStatementCache \<Rightarrow>
   ('p, 'c) CachedPreparedStatement list \<times> ('k, 'p, 'c) StandardPreparedStatementCache" where
  "put_entry key s c =
     (let removed = (case map_of (entries c) key of Some previous \<Rightarrow> [previous] | None \<Rightarrow> []);
          c = remove_order key (c\<lparr>entries := AList.update key s (entries c)\<rparr>);
          (es, order, removed) = evict_eldest (max_size c) (access_order c @ [key]) (entries c) removed
      in (removed, c\<lparr>entries := es, access_order := order\<rparr>))"

definition cache_put ::
  "'k \<Rightarrow> 'p \<Rightarrow> ('k, 'p, 'c) StandardPreparedStatementCache \<Rightarrow>
   ('p, 'c) CachedPreparedStatement list \<times> ('k, 'p, 'c) StandardPreparedStatementCache" where
  "cache_put key s c = put_entry key (Prepared s) c"

definition cache_put_callable ::
  "'k \<Rightarrow> 'c \<Rightarrow> ('k, 'p, 'c) StandardPreparedStatementCache \<Rightarrow>
   ('p, 'c) CachedPreparedStatement list \<times> ('k, 'p, 'c) StandardPreparedStatementCache" where
  "cache_put_callable key s c = put_entry key (Callable s) c"

text \<open>\<open>HashMap::drain\<close> yields the statements in no particular order; claims use them as a multiset.\<close>

definition cache_clear ::
  "('k, 'p, 'c) StandardPreparedStatementCache \<Rightarrow>
   (('p, 'c) CachedPreparedStatement list \<times> ('p, 'c) CachedPreparedStatement list)
   \<times> ('k, 'p, 'c) StandardPreparedStatementCache" where
  "cache_clear c =
     ((map snd (entries c), pending_close c), c\<lparr>access_order := [], entries := [], pending_close := []\<rparr>)"

definition retain_failed_close ::
  "('p, 'c) CachedPreparedStatement list \<Rightarrow> ('k, 'p, 'c) StandardPreparedStatementCache \<Rightarrow>
   ('k, 'p, 'c) StandardPreparedStatementCache" where
  "retain_failed_close ss c = c\<lparr>pending_close := pending_close c @ ss\<rparr>"

section \<open>The reference: a list in access order\<close>

definition lru_keep :: "nat \<Rightarrow> ('k \<times> 'v) list \<Rightarrow> ('k \<times> 'v) list" where
  "lru_keep n xs = drop (length xs - n) xs"

definition lru_lose :: "nat \<Rightarrow> ('k \<times> 'v) list \<Rightarrow> ('k \<times> 'v) list" where
  "lru_lose n xs = take (length xs - n) xs"

definition without :: "'k \<Rightarrow> ('k \<times> 'v) list \<Rightarrow> ('k \<times> 'v) list" where
  "without k xs = filter (\<lambda>x. fst x \<noteq> k) xs"

definition cache_abs ::
  "('k, 'p, 'c) StandardPreparedStatementCache \<Rightarrow> ('k \<times> ('p, 'c) CachedPreparedStatement) list" where
  "cache_abs c = map (\<lambda>k. (k, the (map_of (entries c) k))) (access_order c)"

definition cache_inv :: "('k, 'p, 'c) StandardPreparedStatementCache \<Rightarrow> bool" where
  "cache_inv c \<longleftrightarrow> distinct (map fst (entries c)) \<and> distinct (access_order c)
     \<and> set (access_order c) = fst ` set (entries c) \<and> length (access_order c) \<le> max_size c"

lemma remove_order_distinct:
  assumes "distinct (access_order c)"
  shows "remove_order k c = c\<lparr>access_order := filter (\<lambda>x. x \<noteq> k) (access_order c)\<rparr>"
proof (cases "position (\<lambda>candidate. candidate = k) (access_order c)")
  case None
  then have "filter (\<lambda>x. x \<noteq> k) (access_order c) = access_order c"
    by (auto simp: position_None_iff intro: filter_True)
  with None show ?thesis
    by (simp add: remove_order_def)
next
  case (Some i)
  then show ?thesis
    using filter_neq_nth [OF assms, of i] by (auto simp: remove_order_def dest: position_Some)
qed

lemma length_entries:
  assumes "distinct (map fst es)" and "distinct order" and "set order = fst ` set es"
  shows "length es = length order"
  using assms by (metis distinct_card length_map list.set_map)

lemma cached_keys_delete: "fst ` set (AList.delete k es) = fst ` set es - {k}"
  by (metis delete_keys list.set_map set_removeAll)

lemma filter_key_map_of:
  "distinct (map fst xs) \<Longrightarrow>
   map snd (filter (\<lambda>x. fst x = k) xs) = (case map_of xs k of Some v \<Rightarrow> [v] | None \<Rightarrow> [])"
proof (induction xs)
  case (Cons x xs)
  moreover have "filter (\<lambda>x. fst x = k) xs = []" if "fst x = k"
    using Cons.prems that by (simp add: filter_empty_conv) (metis image_eqI)
  ultimately show ?case
    by (cases x) auto
qed simp

lemma map_of_Some_iff_key: "(\<exists>v. map_of es k = Some v) \<longleftrightarrow> k \<in> fst ` set es"
  by (metis map_of_eq_None_iff not_None_eq)

lemma evict_eldest_spec:
  assumes "distinct (map fst es)" and "distinct order" and "set order = fst ` set es"
  shows "\<exists>es'. evict_eldest n order es removed =
      (es', drop (length order - n) order,
       removed @ map (\<lambda>k. the (map_of es k)) (take (length order - n) order)) \<and>
    distinct (map fst es') \<and> fst ` set es' = set (drop (length order - n) order) \<and>
    (\<forall>k \<in> set (drop (length order - n) order). map_of es' k = map_of es k)"
  using assms
proof (induction order arbitrary: es removed)
  case Nil
  then show ?case
    by (simp add: evict_eldest.simps)
next
  case (Cons k order)
  have len: "length es = Suc (length order)"
    using length_entries [OF Cons.prems] by simp
  show ?case
  proof (cases "length es > n")
    case True
    then have n: "length (k # order) - n = Suc (length order - n)"
      using len by simp
    obtain v where v: "map_of es k = Some v"
      using Cons.prems(3) by (metis list.set_intros(1) map_of_Some_iff_key)
    have "distinct (map fst (AList.delete k es))" "set order = fst ` set (AList.delete k es)" "distinct order"
      using Cons.prems by (auto simp: distinct_delete cached_keys_delete)
    from Cons.IH [OF this(1,3,2), of "removed @ [v]"] obtain es' where
      es': "evict_eldest n order (AList.delete k es) (removed @ [v]) =
          (es', drop (length order - n) order,
           (removed @ [v]) @ map (\<lambda>x. the (map_of (AList.delete k es) x)) (take (length order - n) order))"
        "distinct (map fst es')" "fst ` set es' = set (drop (length order - n) order)"
        "\<forall>x \<in> set (drop (length order - n) order). map_of es' x = map_of (AList.delete k es) x"
      by blast
    have other: "map_of (AList.delete k es) x = map_of es x" if "x \<in> set order" for x
      using that Cons.prems(2) by (intro map_of_delete) auto
    have "evict_eldest n (k # order) es removed = evict_eldest n order (AList.delete k es) (removed @ [v])"
      using True v by (subst evict_eldest.simps) simp
    moreover have "map (\<lambda>x. the (map_of (AList.delete k es) x)) (take (length order - n) order) =
      map (\<lambda>x. the (map_of es x)) (take (length order - n) order)"
      by (rule map_cong) (auto dest: in_set_takeD simp: other)
    ultimately show ?thesis
      using es' other v unfolding n by (intro exI [of _ es']) (auto dest: in_set_dropD)
  next
    case False
    then have "length (k # order) - n = 0"
      using len by simp
    with False Cons.prems show ?thesis
      by (simp add: evict_eldest.simps)
  qed
qed

lemma put_entry_parts:
  fixes k :: 'k and s :: "('p, 'c) CachedPreparedStatement"
  assumes "cache_inv c"
  defines "es \<equiv> AList.update k s (entries c)" and "order \<equiv> filter (\<lambda>x. x \<noteq> k) (access_order c) @ [k]"
  shows "put_entry k s c =
      (let (es', order', removed) = evict_eldest (max_size c) order es
             (case map_of (entries c) k of Some previous \<Rightarrow> [previous] | None \<Rightarrow> [])
       in (removed, c\<lparr>entries := es', access_order := order'\<rparr>)) \<and>
    distinct (map fst es) \<and> distinct order \<and> set order = fst ` set es \<and>
    map (\<lambda>x. (x, the (map_of es x))) order = without k (cache_abs c) @ [(k, s)]"
proof -
  have inv: "distinct (map fst (entries c))" "distinct (access_order c)"
    "set (access_order c) = fst ` set (entries c)"
    using assms(1) by (simp_all add: cache_inv_def)
  have "remove_order k (c\<lparr>entries := es\<rparr>) =
      c\<lparr>entries := es, access_order := filter (\<lambda>x. x \<noteq> k) (access_order c)\<rparr>"
    using remove_order_distinct [of "c\<lparr>entries := es\<rparr>" k] inv(2) by simp
  then have "put_entry k s c =
      (let (es', order', removed) = evict_eldest (max_size c) order es
             (case map_of (entries c) k of Some previous \<Rightarrow> [previous] | None \<Rightarrow> [])
       in (removed, c\<lparr>entries := es', access_order := order'\<rparr>))"
    unfolding put_entry_def es_def order_def by (simp add: Let_def split: prod.split)
  moreover have "map (\<lambda>x. (x, the (map_of es x))) order = without k (cache_abs c) @ [(k, s)]"
    by (simp add: es_def order_def update_conv' without_def cache_abs_def filter_map comp_def cong: filter_cong)
  moreover have "distinct (map fst es)" "set order = fst ` set es"
    using inv by (auto simp: es_def order_def dom_update distinct_update)
  ultimately show ?thesis
    using inv(2) by (simp add: order_def)
qed

lemma abs_mset:
  assumes "cache_inv c"
  shows "mset (cache_abs c) = mset (entries c)"
proof -
  have inv: "distinct (map fst (entries c))" "distinct (access_order c)"
    "set (access_order c) = fst ` set (entries c)"
    using assms by (simp_all add: cache_inv_def)
  have "x \<in> set (cache_abs c) \<longleftrightarrow> x \<in> set (entries c)" for x
    using inv by (cases x) (force simp: cache_abs_def)
  moreover have "distinct (cache_abs c)" "distinct (entries c)"
    using inv by (auto simp: cache_abs_def distinct_map inj_on_def)
  ultimately show ?thesis
    using set_eq_iff_mset_eq_distinct [of "cache_abs c" "entries c"] by blast
qed

lemma abs_keys: "map fst (cache_abs c) = access_order c"
  by (simp add: cache_abs_def comp_def)

lemma abs_lookup:
  assumes "cache_inv c"
  shows "map_of (cache_abs c) = map_of (entries c)"
  using assms abs_keys [of c] mset_eq_setD [OF abs_mset [OF assms]]
  by (subst map_of_inject_set) (simp_all add: cache_inv_def)

section \<open>The contract\<close>

locale lru_store =
  fixes inv :: "'s \<Rightarrow> bool" and abs :: "'s \<Rightarrow> ('k \<times> 'v) list" and cap :: "'s \<Rightarrow> nat"
    and put :: "'k \<Rightarrow> 'v \<Rightarrow> 's \<Rightarrow> 'v list \<times> 's"
  assumes keys_distinct: "inv s \<Longrightarrow> distinct (map fst (abs s))"
    and put_inv: "inv s \<Longrightarrow> inv (snd (put k v s))"
    and put_abs: "inv s \<Longrightarrow> abs (snd (put k v s)) = lru_keep (cap s) (without k (abs s) @ [(k, v)])"
    and put_out: "inv s \<Longrightarrow> fst (put k v s) =
      map snd (filter (\<lambda>x. fst x = k) (abs s)) @ map snd (lru_lose (cap s) (without k (abs s) @ [(k, v)]))"
begin

lemma put_conserves:
  assumes "inv s"
  shows "mset (map snd (abs (snd (put k v s)))) + mset (fst (put k v s)) = mset (map snd (abs s)) + {#v#}"
proof -
  have split: "mset (map snd (lru_keep n xs)) + mset (map snd (lru_lose n xs)) = mset (map snd xs)"
    for n and xs :: "('k \<times> 'v) list"
    unfolding lru_keep_def lru_lose_def
    by (metis append_take_drop_id map_append mset_append union_commute)
  have "mset (map snd (without k xs)) + mset (map snd (filter (\<lambda>x. fst x = k) xs)) = mset (map snd xs)"
    for xs :: "('k \<times> 'v) list"
    by (induction xs) (auto simp: without_def)
  with split [of "cap s" "without k (abs s) @ [(k, v)]"] show ?thesis
    unfolding put_abs [OF assms] put_out [OF assms] by (simp add: ac_simps)
qed

lemma put_most_recent: "inv s \<Longrightarrow> cap s > 0 \<Longrightarrow> last (abs (snd (put k v s))) = (k, v)"
  by (simp add: put_abs lru_keep_def)

lemma put_evicts_eldest:
  assumes "inv s" and "k \<notin> fst ` set (abs s)" and "length (abs s) = cap s" and "cap s > 0"
  shows "fst (put k v s) = [snd (hd (abs s))] \<and> abs (snd (put k v s)) = tl (abs s) @ [(k, v)]"
proof -
  have "without k (abs s) = abs s" and "filter (\<lambda>x. fst x = k) (abs s) = []"
    using assms(2) by (force simp: without_def intro!: filter_True filter_False)+
  with assms show ?thesis
    by (cases "abs s") (auto simp: put_abs put_out lru_keep_def lru_lose_def)
qed

end

lemma put_entry_refines:
  assumes "cache_inv c"
  shows "cache_inv (snd (put_entry k s c)) \<and>
    cache_abs (snd (put_entry k s c)) = lru_keep (max_size c) (without k (cache_abs c) @ [(k, s)]) \<and>
    fst (put_entry k s c) = map snd (filter (\<lambda>x. fst x = k) (cache_abs c)) @
      map snd (lru_lose (max_size c) (without k (cache_abs c) @ [(k, s)]))"
proof -
  define es where "es = AList.update k s (entries c)"
  define order where "order = filter (\<lambda>x. x \<noteq> k) (access_order c) @ [k]"
  define prev where "prev = (case map_of (entries c) k of Some previous \<Rightarrow> [previous] | None \<Rightarrow> [])"
  note parts = put_entry_parts [OF assms, of k s, folded es_def order_def prev_def]
  define n where "n = length order - max_size c"
  obtain es' where es': "evict_eldest (max_size c) order es prev =
      (es', drop n order, prev @ map (\<lambda>x. the (map_of es x)) (take n order))"
    "distinct (map fst es')" "fst ` set es' = set (drop n order)"
    "\<forall>x \<in> set (drop n order). map_of es' x = map_of es x"
    using evict_eldest_spec [of es order "max_size c" prev] parts unfolding n_def by blast
  let ?ys = "without k (cache_abs c) @ [(k, s)]"
  have ys: "map (\<lambda>x. (x, the (map_of es x))) order = ?ys" and d: "distinct order"
    using parts by blast+
  have len: "length ?ys = length order"
    using ys by (metis length_map)
  have put: "put_entry k s c =
      (prev @ map (\<lambda>x. the (map_of es x)) (take n order), c\<lparr>entries := es', access_order := drop n order\<rparr>)"
    using parts es'(1) by simp
  have "cache_abs (snd (put_entry k s c)) = map (\<lambda>x. (x, the (map_of es x))) (drop n order)"
    using es'(4) by (auto simp: put cache_abs_def)
  also have "\<dots> = lru_keep (max_size c) ?ys"
    unfolding lru_keep_def len n_def by (simp add: drop_map flip: ys)
  finally have abs: "cache_abs (snd (put_entry k s c)) = lru_keep (max_size c) ?ys" .
  have "map (\<lambda>x. the (map_of es x)) (take n order) = map snd (lru_lose (max_size c) ?ys)"
    unfolding lru_lose_def len n_def by (simp add: take_map comp_def flip: ys)
  moreover have "prev = map snd (filter (\<lambda>x. fst x = k) (cache_abs c))"
    using filter_key_map_of [of "cache_abs c" k] abs_lookup [OF assms] abs_keys [of c] assms
    by (simp add: prev_def cache_inv_def)
  moreover have "cache_inv (snd (put_entry k s c))"
    using es'(2,3) d by (simp add: put cache_inv_def n_def)
  ultimately show ?thesis
    using abs put by simp
qed

interpretation cache: lru_store cache_inv cache_abs max_size put_entry
proof
  show "distinct (map fst (cache_abs c))" if "cache_inv c" for c :: "('a, 'b, 'c) StandardPreparedStatementCache"
    using that by (simp add: abs_keys cache_inv_def)
qed (simp_all add: put_entry_refines)

text \<open>Taking a statement out removes exactly its pair.\<close>

lemma drop_entry_refines:
  fixes k :: 'k
  assumes "cache_inv c"
  defines "c' \<equiv> remove_order k (c\<lparr>entries := AList.delete k (entries c)\<rparr>)"
  shows "cache_inv c' \<and> cache_abs c' = without k (cache_abs c) \<and> pending_close c' = pending_close c"
proof -
  have inv: "distinct (map fst (entries c))" "distinct (access_order c)"
    "set (access_order c) = fst ` set (entries c)" "length (access_order c) \<le> max_size c"
    using assms(1) by (simp_all add: cache_inv_def)
  have c': "c' = c\<lparr>entries := AList.delete k (entries c), access_order := filter (\<lambda>x. x \<noteq> k) (access_order c)\<rparr>"
    using remove_order_distinct [of "c\<lparr>entries := AList.delete k (entries c)\<rparr>" k] inv(2) by (simp add: c'_def)
  have "length (filter (\<lambda>x. x \<noteq> k) (access_order c)) \<le> max_size c"
    using inv(4) le_trans length_filter_le by blast
  then have "cache_inv c'"
    using inv by (auto simp: c' cache_inv_def distinct_delete cached_keys_delete)
  moreover have "cache_abs c' = without k (cache_abs c)"
    by (auto simp: c' cache_abs_def without_def filter_map comp_def)
  ultimately show ?thesis
    by (simp add: c')
qed

lemma take_refines:
  assumes "cache_inv c"
  shows "fst (cache_take k c) = (case map_of (cache_abs c) k of Some (Prepared s) \<Rightarrow> Some s | _ \<Rightarrow> None) \<and>
      cache_abs (snd (cache_take k c)) =
        (if fst (cache_take k c) = None then cache_abs c else without k (cache_abs c)) \<and>
      cache_inv (snd (cache_take k c)) \<and> pending_close (snd (cache_take k c)) = pending_close c"
  using assms drop_entry_refines [OF assms, of k]
  by (auto simp: cache_take_def abs_lookup split: option.split CachedPreparedStatement.split)

lemma take_callable_refines:
  assumes "cache_inv c"
  shows "fst (cache_take_callable k c) = (case map_of (cache_abs c) k of Some (Callable s) \<Rightarrow> Some s | _ \<Rightarrow> None) \<and>
      cache_abs (snd (cache_take_callable k c)) =
        (if fst (cache_take_callable k c) = None then cache_abs c else without k (cache_abs c)) \<and>
      cache_inv (snd (cache_take_callable k c)) \<and> pending_close (snd (cache_take_callable k c)) = pending_close c"
  using assms drop_entry_refines [OF assms, of k]
  by (auto simp: cache_take_callable_def abs_lookup split: option.split CachedPreparedStatement.split)

section \<open>Properties\<close>

text \<open>C21. The statement cache is a least-recently-used list: storing a statement puts its key at the recent
  end, hands back the statement it replaces and then the eldest ones beyond the capacity, and keeps the
  rest in order; lending takes out exactly the pair of the key and only if its handle has the kind asked
  for.\<close>

theorem cache_refines_lru:
  assumes "cache_inv c"
  shows "cache_abs (snd (put_entry k s c)) = lru_keep (max_size c) (without k (cache_abs c) @ [(k, s)]) \<and>
    fst (put_entry k s c) = map snd (filter (\<lambda>x. fst x = k) (cache_abs c)) @
      map snd (lru_lose (max_size c) (without k (cache_abs c) @ [(k, s)])) \<and>
    fst (cache_take k c) = (case map_of (cache_abs c) k of Some (Prepared p) \<Rightarrow> Some p | _ \<Rightarrow> None) \<and>
    cache_abs (snd (cache_take k c)) =
      (if fst (cache_take k c) = None then cache_abs c else without k (cache_abs c)) \<and>
    fst (cache_take_callable k c) = (case map_of (cache_abs c) k of Some (Callable p) \<Rightarrow> Some p | _ \<Rightarrow> None) \<and>
    cache_abs (snd (cache_take_callable k c)) =
      (if fst (cache_take_callable k c) = None then cache_abs c else without k (cache_abs c))"
  using put_entry_refines [OF assms] take_refines [OF assms] take_callable_refines [OF assms] by blast

text \<open>A full cache: the eldest of two statements goes when a third one comes.\<close>

definition sample_cache :: "(nat, nat, nat) StandardPreparedStatementCache" where
  "sample_cache = \<lparr>entries = [(2, Callable 20), (1, Prepared 10)], access_order = [1, 2], pending_close = [],
     max_size = 2\<rparr>"

theorem cache_refines_lru_witness:
  "fst (put_entry 3 (Prepared 30) sample_cache) = [Prepared 10]"
proof -
  have "cache_inv sample_cache"
    by (simp add: sample_cache_def cache_inv_def insert_commute)
  from cache_refines_lru [OF this, of 3 "Prepared 30"] show ?thesis
    by (simp add: sample_cache_def cache_abs_def without_def lru_lose_def)
qed

text \<open>Operations on one cache: each yields the statements it hands to its caller.\<close>

datatype ('k, 'p, 'c) cache_op =
    Put 'k 'p | PutCallable 'k 'c | Take 'k | TakeCallable 'k | Clear
  | Retain "('p, 'c) CachedPreparedStatement list"

fun cache_step ::
  "('k, 'p, 'c) cache_op \<Rightarrow> ('k, 'p, 'c) StandardPreparedStatementCache \<Rightarrow>
   ('p, 'c) CachedPreparedStatement list \<times> ('k, 'p, 'c) StandardPreparedStatementCache" where
  "cache_step (Put k p) c = cache_put k p c"
| "cache_step (PutCallable k p) c = cache_put_callable k p c"
| "cache_step (Take k) c = apfst (\<lambda>r. case r of Some p \<Rightarrow> [Prepared p] | None \<Rightarrow> []) (cache_take k c)"
| "cache_step (TakeCallable k) c =
     apfst (\<lambda>r. case r of Some p \<Rightarrow> [Callable p] | None \<Rightarrow> []) (cache_take_callable k c)"
| "cache_step Clear c = apfst (\<lambda>(statements, pending). statements @ pending) (cache_clear c)"
| "cache_step (Retain ss) c = ([], retain_failed_close ss c)"

fun cache_given :: "('k, 'p, 'c) cache_op \<Rightarrow> ('p, 'c) CachedPreparedStatement multiset" where
  "cache_given (Put k p) = {#Prepared p#}"
| "cache_given (PutCallable k p) = {#Callable p#}"
| "cache_given (Retain ss) = mset ss"
| "cache_given _ = {#}"

primrec cache_run ::
  "('k, 'p, 'c) cache_op list \<Rightarrow> ('k, 'p, 'c) StandardPreparedStatementCache \<Rightarrow>
   ('p, 'c) CachedPreparedStatement list \<times> ('k, 'p, 'c) StandardPreparedStatementCache" where
  "cache_run [] c = ([], c)"
| "cache_run (a # as) c =
     (case cache_step a c of (out, c) \<Rightarrow> case cache_run as c of (out', c) \<Rightarrow> (out @ out', c))"

definition cache_held :: "('k, 'p, 'c) StandardPreparedStatementCache \<Rightarrow> ('p, 'c) CachedPreparedStatement multiset" where
  "cache_held c = mset (map snd (entries c)) + mset (pending_close c)"

lemma held_abs: "cache_inv c \<Longrightarrow> cache_held c = mset (map snd (cache_abs c)) + mset (pending_close c)"
  by (simp add: cache_held_def abs_mset)

lemma put_entry_pending [simp]: "pending_close (snd (put_entry k s c)) = pending_close c"
  by (auto simp: put_entry_def remove_order_def Let_def split: prod.split option.split)

lemma put_conserves_held:
  "cache_inv c \<Longrightarrow> cache_held (snd (put_entry k s c)) + mset (fst (put_entry k s c)) = cache_held c + {#s#}"
  using cache.put_conserves [of c k s] put_entry_refines [of c k s] by (simp add: held_abs ac_simps)

lemma without_conserves:
  "distinct (map fst xs) \<Longrightarrow> map_of xs k = Some v \<Longrightarrow> mset (map snd (without k xs)) + {#v#} = mset (map snd xs)"
proof (induction xs)
  case (Cons x xs)
  show ?case
  proof (cases "fst x = k")
    case True
    with Cons.prems(1) have "without k xs = xs"
      by (simp add: without_def filter_id_conv) (metis image_eqI)
    with True Cons.prems show ?thesis
      by (cases x) (simp add: without_def)
  next
    case False
    with Cons show ?thesis
      by (cases x) (simp add: without_def)
  qed
qed simp

lemma cache_step_conserves:
  assumes "cache_inv c"
  shows "cache_inv (snd (cache_step a c)) \<and>
    cache_held (snd (cache_step a c)) + mset (fst (cache_step a c)) = cache_held c + cache_given a"
proof (cases a)
  case (Put k p)
  then show ?thesis
    using put_conserves_held [OF assms] cache.put_inv [OF assms] by (simp add: cache_put_def)
next
  case (PutCallable k p)
  then show ?thesis
    using put_conserves_held [OF assms] cache.put_inv [OF assms] by (simp add: cache_put_callable_def)
next
  case (Take k)
  then show ?thesis
    using take_refines [OF assms, of k] cache.keys_distinct [OF assms]
      without_conserves [of "cache_abs c" k]
    by (auto simp: held_abs assms add_ac split: option.splits CachedPreparedStatement.splits)
next
  case (TakeCallable k)
  then show ?thesis
    using take_callable_refines [OF assms, of k] cache.keys_distinct [OF assms]
      without_conserves [of "cache_abs c" k]
    by (auto simp: held_abs assms add_ac split: option.splits CachedPreparedStatement.splits)
next
  case Clear
  then show ?thesis
    by (simp add: cache_clear_def cache_held_def cache_inv_def)
next
  case (Retain ss)
  with assms show ?thesis
    by (simp add: retain_failed_close_def cache_held_def cache_inv_def)
qed

lemma cache_run_conserves_from:
  assumes "cache_inv c"
  shows "cache_inv (snd (cache_run as c)) \<and>
    cache_held (snd (cache_run as c)) + mset (fst (cache_run as c)) = cache_held c + sum_list (map cache_given as)"
  using assms
proof (induction as arbitrary: c)
  case (Cons a as)
  obtain out c1 where step: "cache_step a c = (out, c1)"
    by fastforce
  have "cache_inv c1" "cache_held c1 + mset out = cache_held c + cache_given a"
    using cache_step_conserves [OF Cons.prems, of a] by (simp_all add: step)
  moreover obtain out' c2 where run: "cache_run as c1 = (out', c2)"
    by fastforce
  ultimately show ?case
    using Cons.IH [of c1] by (simp add: step run ac_simps) (metis union_assoc union_commute)
qed simp

text \<open>The statement cache loses no handle and duplicates none: after any sequence of operations on a new
  cache, the statements given to it are exactly those handed back to callers (to be used or closed)
  together with those it still holds, and it holds at most its capacity, in a consistent order.\<close>

theorem cache_run_conserves:
  "cache_inv (snd (cache_run as (cache_new n))) \<and>
   sum_list (map cache_given as) = mset (fst (cache_run as (cache_new n))) + cache_held (snd (cache_run as (cache_new n)))"
  using cache_run_conserves_from [of "cache_new n" as]
  by (simp add: cache_new_def cache_inv_def cache_held_def ac_simps)

text \<open>A cache key describes the statement it was built for: from the key of a successful \<open>standard\<close> call
  the generated-keys request is read back unchanged, so two requests that differ never share a key.\<close>

theorem key_generated_keys_round_trip:
  assumes "key_standard sql catalog m options g = Ok key" and "\<And>is. g = ColumnIndexes is \<Longrightarrow> 0 \<notin> set is"
  shows "statement_generated_keys key = g \<and> key_sql key = sql \<and> key_catalog key = catalog \<and> method_type key = m"
proof -
  have pos: "List.map_filter ColumnIndex_new (List.map_filter (\<lambda>j. if j < 0 then None else Some (nat j)) (map int is)) = is"
    if "0 \<notin> set is" for "is"
    using that by (induction "is") (auto simp: List.map_filter_def ColumnIndex_new_def)
  show ?thesis
    using assms pos
    by (auto simp: key_standard_def key_full_def statement_generated_keys_def i32_indexes_def Let_def
        split: if_splits GeneratedKeys.splits option.splits)
qed

definition sample_options :: StatementOptions where
  "sample_options = \<lparr>opt_type = ForwardOnly, opt_concurrency = ReadOnly, opt_holdability = CloseAtCommit\<rparr>"

theorem key_generated_keys_round_trip_witness:
  "\<exists>key. key_standard (lit ''insert'') None M4 sample_options (ColumnIndexes [2, 1]) = Ok key \<and>
     statement_generated_keys key = ColumnIndexes [2, 1]"
proof -
  obtain key where key: "key_standard (lit ''insert'') None M4 sample_options (ColumnIndexes [2, 1]) = Ok key"
    by (simp add: key_standard_def key_full_def i32_indexes_def lit_def)
  with key_generated_keys_round_trip [OF key] show ?thesis
    by simp
qed

end
