(* ===== verification/Sql_Keywords.thy ===== *)
theory Sql_Keywords
  imports Prelude "HOL-Library.AList"
begin

unbundle bit_operations_syntax

text \<open>
  The keyword tables of the SQL lexer (\<open>druid/src/sql/keywords.rs\<close>) and its character classes
  (\<open>char_types.rs\<close>, \<open>layout_characters.rs\<close>). A token is the name of its constant in \<open>token.rs\<close>. Texts
  are lists of UTF-16 units; a keyword is found by its 64-bit FNV-1a hash alone.
\<close>

datatype Token = Tok (token_name: string)

section \<open>Hashes\<close>

type_synonym i64 = "64 word"

definition FNV_BASIC :: i64 where "FNV_BASIC = 0xcbf29ce484222325"
definition FNV_PRIME :: i64 where "FNV_PRIME = 0x00000100000001b3"

definition ascii_lower :: "u16 \<Rightarrow> u16" where
  "ascii_lower unit = (if 65 \<le> unit \<and> unit \<le> 90 then unit + 32 else unit)"

definition fnv1a_64_lower_units :: "u16 list \<Rightarrow> i64" where
  "fnv1a_64_lower_units units =
     foldl (\<lambda>hash unit. (hash XOR ucast (ascii_lower unit)) * FNV_PRIME) FNV_BASIC units"

definition fnv1a_64_lower :: "rust_str \<Rightarrow> i64" where
  "fnv1a_64_lower key = fnv1a_64_lower_units (encode_utf16 key)"

section \<open>Tables\<close>

text \<open>\<open>binary_search\<close> of a sorted slice finds an element exactly when there is one; when the elements
  differ its index is unique.\<close>

definition binary_search :: "'a list \<Rightarrow> 'a \<Rightarrow> nat option" where
  "binary_search xs x = position (\<lambda>y. y = x) xs"

record Keywords =
  kw_map :: "(rust_str \<times> Token) list"
  hash_array :: "i64 list"
  kw_tokens :: "Token list"

definition Keywords_new :: "(rust_str \<times> Token) list \<Rightarrow> Keywords" where
  "Keywords_new keywords =
     (let hashes = sort_key sint (map (\<lambda>kt. fnv1a_64_lower (fst kt)) keywords);
          tokens = foldl (\<lambda>ts (key, token).
              case binary_search hashes (fnv1a_64_lower key) of Some i \<Rightarrow> ts[i := token] | None \<Rightarrow> ts)
            (replicate (length hashes) (Tok ''ERROR'')) keywords
      in \<lparr>kw_map = keywords, hash_array = hashes, kw_tokens = tokens\<rparr>)"

definition contains_value :: "Token \<Rightarrow> Keywords \<Rightarrow> bool" where
  "contains_value token k \<longleftrightarrow> list_ex (\<lambda>(_, candidate). candidate = token) (kw_map k)"

definition get_keyword_by_hash :: "Keywords \<Rightarrow> i64 \<Rightarrow> Token option" where
  "get_keyword_by_hash k hash = map_option (\<lambda>i. kw_tokens k ! i) (binary_search (hash_array k) hash)"

definition get_keyword :: "Keywords \<Rightarrow> rust_str \<Rightarrow> Token option" where
  "get_keyword k key = get_keyword_by_hash k (fnv1a_64_lower key)"

definition get_keyword_rdbc_string :: "Keywords \<Rightarrow> u16 list \<Rightarrow> Token option" where
  "get_keyword_rdbc_string k units = get_keyword_by_hash k (fnv1a_64_lower_units units)"

definition default_map :: "(rust_str \<times> Token) list" where
  "default_map = map (\<lambda>(key, token). (lit key, Tok token))
     [(''ALL'', ''ALL''), (''ALTER'', ''ALTER''), (''AND'', ''AND''), (''ANY'', ''ANY''),
      (''AS'', ''AS''), (''ENABLE'', ''ENABLE''), (''DISABLE'', ''DISABLE''), (''ASC'', ''ASC''),
      (''BETWEEN'', ''BETWEEN''), (''BY'', ''BY''), (''CASE'', ''CASE''), (''CAST'', ''CAST''),
      (''CHECK'', ''CHECK''), (''CONSTRAINT'', ''CONSTRAINT''), (''CREATE'', ''CREATE''),
      (''DATABASE'', ''DATABASE''), (''DEFAULT'', ''DEFAULT''), (''DIAGNOSTICS'', ''DIAGNOSTICS''),
      (''COLUMN'', ''COLUMN''), (''TABLESPACE'', ''TABLESPACE''), (''PROCEDURE'', ''PROCEDURE''),
      (''FUNCTION'', ''FUNCTION''), (''DELETE'', ''DELETE''), (''DESC'', ''DESC''),
      (''DISTINCT'', ''DISTINCT''), (''DROP'', ''DROP''), (''ELSE'', ''ELSE''),
      (''EXPLAIN'', ''EXPLAIN''), (''EXCEPT'', ''EXCEPT''), (''END'', ''END''),
      (''ESCAPE'', ''ESCAPE''), (''EXISTS'', ''EXISTS''), (''FOR'', ''FOR''),
      (''FOREIGN'', ''FOREIGN''), (''FROM'', ''FROM''), (''FULL'', ''FULL''), (''GET'', ''GET''),
      (''GROUP'', ''GROUP''), (''HAVING'', ''HAVING''), (''IN'', ''IN''), (''INDEX'', ''INDEX''),
      (''INNER'', ''INNER''), (''INSERT'', ''INSERT''), (''INTERSECT'', ''INTERSECT''),
      (''INTERVAL'', ''INTERVAL''), (''INTO'', ''INTO''), (''IS'', ''IS''), (''JOIN'', ''JOIN''),
      (''KEY'', ''KEY''), (''LEFT'', ''LEFT''), (''LIKE'', ''LIKE''), (''LOCK'', ''LOCK''),
      (''MINUS'', ''MINUS''), (''NOT'', ''NOT''), (''NULL'', ''NULL''), (''ON'', ''ON''),
      (''OR'', ''OR''), (''ORDER'', ''ORDER''), (''OUTER'', ''OUTER''), (''PRIMARY'', ''PRIMARY''),
      (''REFERENCES'', ''REFERENCES''), (''RIGHT'', ''RIGHT''), (''SCHEMA'', ''SCHEMA''),
      (''SELECT'', ''SELECT''), (''SET'', ''SET''), (''SOME'', ''SOME''), (''TABLE'', ''TABLE''),
      (''THEN'', ''THEN''), (''TRUNCATE'', ''TRUNCATE''), (''UNION'', ''UNION''),
      (''UNIQUE'', ''UNIQUE''), (''UPDATE'', ''UPDATE''), (''VALUES'', ''VALUES''),
      (''VIEW'', ''VIEW''), (''SEQUENCE'', ''SEQUENCE''), (''TRIGGER'', ''TRIGGER''),
      (''USER'', ''USER''), (''WHEN'', ''WHEN''), (''WHERE'', ''WHERE''), (''XOR'', ''XOR''),
      (''OVER'', ''OVER''), (''TO'', ''TO''), (''USE'', ''USE''), (''REPLACE'', ''REPLACE''),
      (''COMMENT'', ''COMMENT''), (''COMPUTE'', ''COMPUTE''), (''WITH'', ''WITH''),
      (''GRANT'', ''GRANT''), (''REVOKE'', ''REVOKE''), (''WHILE'', ''WHILE''), (''DO'', ''DO''),
      (''DECLARE'', ''DECLARE''), (''LOOP'', ''LOOP''), (''LEAVE'', ''LEAVE''),
      (''ITERATE'', ''ITERATE''), (''REPEAT'', ''REPEAT''), (''UNTIL'', ''UNTIL''),
      (''OPEN'', ''OPEN''), (''CLOSE'', ''CLOSE''), (''CURSOR'', ''CURSOR''),
      (''FETCH'', ''FETCH''), (''OUT'', ''OUT''), (''INOUT'', ''INOUT''), (''LIMIT'', ''LIMIT'')]"

definition DEFAULT_KEYWORDS :: Keywords where
  "DEFAULT_KEYWORDS = Keywords_new default_map"

definition SQLITE_KEYWORDS :: Keywords where
  "SQLITE_KEYWORDS = Keywords_new (AList.update (lit ''LIMIT'') (Tok ''LIMIT'') default_map)"

definition DM_KEYWORDS :: Keywords where
  "DM_KEYWORDS = Keywords_new (fold (\<lambda>w. AList.update (lit w) (Tok w)) [''MERGE'', ''MATCHED'', ''USING''] default_map)"

section \<open>Character classes\<close>

text \<open>The three classes that mirror a Java array lookup panic at unit 256; \<open>None\<close> stands for the panic.\<close>

definition EOI :: u16 where "EOI = 0x1A"

definition is_hex :: "u16 \<Rightarrow> bool" where
  "is_hex c \<longleftrightarrow> 48 \<le> c \<and> c \<le> 57 \<or> 65 \<le> c \<and> c \<le> 70 \<or> 97 \<le> c \<and> c \<le> 102"

definition is_digit :: "u16 \<Rightarrow> bool" where
  "is_digit c \<longleftrightarrow> 48 \<le> c \<and> c \<le> 57"

definition letter_or_under_score :: "u16 \<Rightarrow> bool" where
  "letter_or_under_score c \<longleftrightarrow> 65 \<le> c \<and> c \<le> 90 \<or> 97 \<le> c \<and> c \<le> 122 \<or> c = 95"

definition is_first_identifier_char :: "u16 \<Rightarrow> bool option" where
  "is_first_identifier_char c =
     (if c < 256 then
        Some (65 \<le> c \<and> c \<le> 90 \<or> 97 \<le> c \<and> c \<le> 122
              \<or> 0xC0 \<le> c \<and> c \<le> 0xFF \<and> c \<noteq> 0xD7 \<and> c \<noteq> 0xF7 \<or> c = 96 \<or> c = 95 \<or> c = 36)
      else if c = 256 then None
      else Some (c \<noteq> 0x3000 \<and> c \<noteq> 0xFF0C))"

definition is_identifier_char :: "u16 \<Rightarrow> bool option" where
  "is_identifier_char c =
     (if c < 256 then
        Some (65 \<le> c \<and> c \<le> 90 \<or> 97 \<le> c \<and> c \<le> 122 \<or> 48 \<le> c \<and> c \<le> 57
              \<or> c = 95 \<or> c = 36 \<or> c = 35)
      else if c = 256 then None
      else Some (c \<noteq> 0x3000 \<and> c \<noteq> 0xFF0C \<and> c \<noteq> 0xFF09 \<and> c \<noteq> 0xFF08))"

definition is_whitespace :: "u16 \<Rightarrow> bool option" where
  "is_whitespace c =
     (if c < 256 then Some (c \<le> 32 \<and> c \<noteq> EOI \<or> 0x7F \<le> c \<and> c \<le> 0xA0 \<or> c = 0x3000)
      else if c = 256 then None
      else Some (c = 0x3000))"

text \<open>\<open>CharTypes::trim\<close> drops white space from the front and then from the back; it panics when it meets
  unit 256 at either end.\<close>

fun trim_front :: "u16 list \<Rightarrow> u16 list option" where
  "trim_front [] = Some []"
| "trim_front (c # cs) =
     (case is_whitespace c of None \<Rightarrow> None | Some w \<Rightarrow> if w then trim_front cs else Some (c # cs))"

definition char_trim :: "u16 list \<Rightarrow> u16 list option" where
  "char_trim cs = Option.bind (trim_front cs) (\<lambda>ds. map_option rev (trim_front (rev ds)))"

section \<open>Lookup\<close>

lemma position_eq_distinct:
  "distinct xs \<Longrightarrow> position (\<lambda>y. y = x) xs = Some i \<longleftrightarrow> i < length xs \<and> xs ! i = x"
proof (induction xs arbitrary: i)
  case (Cons y ys)
  then show ?case
    by (cases i) (auto simp: nth_eq_iff_index_eq dest: nth_mem)
qed simp

abbreviation store_token :: "i64 list \<Rightarrow> Token list \<Rightarrow> rust_str \<times> Token \<Rightarrow> Token list" where
  "store_token hs \<equiv> (\<lambda>ts (key, token).
     case binary_search hs (fnv1a_64_lower key) of Some i \<Rightarrow> ts[i := token] | None \<Rightarrow> ts)"

lemma fold_store_token:
  assumes "distinct hs" and "i < length hs" and "length ts = length hs"
    and "distinct (map (\<lambda>kt. fnv1a_64_lower (fst kt)) m)"
  shows "foldl (store_token hs) ts m ! i =
    (case map_of (map (\<lambda>kt. (fnv1a_64_lower (fst kt), snd kt)) m) (hs ! i) of Some t \<Rightarrow> t | None \<Rightarrow> ts ! i)"
  using assms(3,4)
proof (induction m arbitrary: ts)
  case (Cons kt m)
  obtain key token where kt: "kt = (key, token)"
    by fastforce
  let ?h = "fnv1a_64_lower key"
  have other: "map_of (map (\<lambda>kt. (fnv1a_64_lower (fst kt), snd kt)) m) ?h = None"
    using Cons.prems(2) by (auto simp: kt map_of_eq_None_iff image_iff)
  have len: "length (store_token hs ts kt) = length hs"
    using Cons.prems(1) by (simp add: kt split: option.split)
  have at: "store_token hs ts kt ! i = (if hs ! i = ?h then token else ts ! i)"
  proof (cases "position (\<lambda>y. y = ?h) hs")
    case None
    then have "hs ! i \<noteq> ?h"
      using assms(2) nth_mem by (fastforce simp: position_None_iff)
    with None show ?thesis
      by (simp add: kt binary_search_def)
  next
    case (Some j)
    then have j: "j < length hs" "hs ! j = ?h"
      using position_eq_distinct [OF assms(1)] by blast+
    then have "hs ! i = ?h \<longleftrightarrow> i = j"
      using assms(1,2) nth_eq_iff_index_eq by metis
    with Some j Cons.prems(1) show ?thesis
      by (simp add: kt binary_search_def nth_list_update)
  qed
  show ?case
    using Cons.IH [OF len] Cons.prems(2) at other by (auto simp: kt split: option.split)
qed simp

lemma get_keyword_by_hash_new:
  assumes "distinct (map (\<lambda>kt. fnv1a_64_lower (fst kt)) m)"
  shows "get_keyword_by_hash (Keywords_new m) h =
    map_of (map (\<lambda>kt. (fnv1a_64_lower (fst kt), snd kt)) m) h"
proof -
  define hs where "hs = sort_key sint (map (\<lambda>kt. fnv1a_64_lower (fst kt)) m)"
  have hs: "distinct hs" "set hs = (\<lambda>kt. fnv1a_64_lower (fst kt)) ` set m"
    using assms by (simp_all add: hs_def)
  have eq: "get_keyword_by_hash (Keywords_new m) h =
    map_option (\<lambda>i. foldl (store_token hs) (replicate (length hs) (Tok ''ERROR'')) m ! i) (position (\<lambda>y. y = h) hs)"
    by (simp add: get_keyword_by_hash_def Keywords_new_def binary_search_def hs_def Let_def)
  show ?thesis
  proof (cases "position (\<lambda>y. y = h) hs")
    case None
    then have "h \<notin> set hs"
      by (auto simp: position_None_iff)
    then have "map_of (map (\<lambda>kt. (fnv1a_64_lower (fst kt), snd kt)) m) h = None"
      by (force simp: hs(2) map_of_eq_None_iff)
    with None eq show ?thesis
      by simp
  next
    case (Some i)
    then have i: "i < length hs" "hs ! i = h"
      using position_eq_distinct [OF hs(1)] by blast+
    then have "h \<in> set hs"
      by auto
    then have "map_of (map (\<lambda>kt. (fnv1a_64_lower (fst kt), snd kt)) m) h \<noteq> None"
      by (auto simp: hs(2) map_of_eq_None_iff image_iff)
    then show ?thesis
      using eq Some fold_store_token [OF hs(1) i(1) _ assms] i(2) by auto
  qed
qed

section \<open>The built-in table\<close>

lemma lower_ascii_units:
  assumes "\<forall>c \<in> set cs. c < 128"
  shows "map (\<lambda>u. uint (ascii_lower u)) (encode_utf16 cs) = map (\<lambda>c. if 65 \<le> c \<and> c \<le> 90 then int c + 32 else int c) cs"
  using assms
proof (induction cs)
  case (Cons c cs)
  have "uint (of_nat c :: u16) = int c"
    using Cons.prems by (simp add: uint_nat unat_of_nat)
  then have "uint (ascii_lower (of_nat c)) = (if 65 \<le> c \<and> c \<le> 90 then int c + 32 else int c)"
    using Cons.prems by (auto simp: ascii_lower_def word_le_def uint_word_ariths)
  with Cons show ?case
    by (simp add: encode_utf16_def)
qed (simp add: encode_utf16_def)

text \<open>The low 14 bits of the hashes already differ, and they are computed without 64-bit arithmetic.\<close>

definition fnv_step14 :: "int \<Rightarrow> int \<Rightarrow> int" where
  "fnv_step14 h c = ((h XOR c) * 435) mod 16384"

lemma fnv_fold14:
  "uint (foldl (\<lambda>hash unit. (hash XOR ucast (ascii_lower unit)) * FNV_PRIME) h us) mod 16384 =
   foldl fnv_step14 (uint h mod 16384) (map (\<lambda>u. uint (ascii_lower u)) us)"
proof (induction us arbitrary: h)
  case (Cons u us)
  let ?x = "uint h XOR uint (ascii_lower u)"
  have ucast: "uint (ucast (ascii_lower u) :: 64 word) = uint (ascii_lower u)"
    by (simp add: uint_up_ucast is_up)
  have "uint ((h XOR ucast (ascii_lower u)) * FNV_PRIME) mod 16384 = take_bit 14 (?x * uint FNV_PRIME)"
    by (simp add: uint_word_ariths take_bit_eq_mod mod_mod_cancel unsigned_xor_eq ucast)
  also have "\<dots> = take_bit 14 (take_bit 14 ?x * take_bit 14 (uint FNV_PRIME))"
    by (simp only: take_bit_mult)
  also have "take_bit 14 (uint FNV_PRIME) = 435"
    by (simp add: FNV_PRIME_def)
  also have "take_bit 14 (take_bit 14 ?x * 435) = fnv_step14 (uint h mod 16384) (uint (ascii_lower u))"
  proof -
    have "uint (ascii_lower u) < 2 ^ 16"
      using uint_lt2p [of "ascii_lower u"] by simp
    have "take_bit 14 (take_bit 14 ?x * 435) = take_bit 14 (take_bit 14 (take_bit 14 (uint h) XOR uint (ascii_lower u)) * 435)"
      by simp
    also have "\<dots> = take_bit 14 ((take_bit 14 (uint h) XOR uint (ascii_lower u)) * 435)"
      by (simp add: take_bit_eq_mod mod_mult_left_eq)
    finally show ?thesis
      by (simp add: fnv_step14_def take_bit_eq_mod)
  qed
  finally show ?case
    using Cons.IH by simp
qed simp

lemma default_hashes14:
  "map (\<lambda>kt. uint (fnv1a_64_lower (fst kt)) mod 16384) default_map =
     [6820, 14603, 12934, 9165, 13645, 14734, 1699, 7466, 6735, 14548, 12241, 2382, 2663, 14682,
      13309, 9304, 1534, 13175, 12935, 6731, 14542, 3977, 5386, 10112, 15501, 7084, 7472, 10652,
      6448, 4106, 6470, 1309, 6800, 12819, 181, 9852, 14839, 8332, 9692, 3006, 1675, 4743, 8744,
      5926, 10360, 8611, 8661, 4409, 4332, 7344, 14294, 11490, 15535, 8010, 2276, 9072, 7332,
      10743, 7124, 10553, 7499, 6149, 10166, 7181, 3619, 5329, 10303, 3478, 9623, 4148, 902, 1108,
      10235, 9816, 10408, 1475, 2290, 13881, 15480, 5694, 8303, 164, 9780, 12099, 11326, 12666,
      745, 8493, 755, 10606, 13460, 357, 15851, 15680, 3765, 10250, 11311, 12521, 14787, 4847,
      8355, 4095, 7202, 5972]"
proof -
  have "map (\<lambda>kt. uint (fnv1a_64_lower (fst kt)) mod 16384) default_map =
    map (\<lambda>kt. foldl fnv_step14 8997 (map (\<lambda>c. if 65 \<le> c \<and> c \<le> 90 then int c + 32 else int c) (fst kt))) default_map"
  proof (rule map_cong [OF refl])
    fix kt
    assume "kt \<in> set default_map"
    then have "\<forall>c \<in> set (fst kt). c < 128"
      by (auto simp: default_map_def lit_def)
    then have "map (\<lambda>u. uint (ascii_lower u)) (encode_utf16 (fst kt)) =
      map (\<lambda>c. if 65 \<le> c \<and> c \<le> 90 then int c + 32 else int c) (fst kt)"
      by (rule lower_ascii_units)
    then show "uint (fnv1a_64_lower (fst kt)) mod 16384 =
        foldl fnv_step14 8997 (map (\<lambda>c. if 65 \<le> c \<and> c \<le> 90 then int c + 32 else int c) (fst kt))"
      using fnv_fold14 [of FNV_BASIC "encode_utf16 (fst kt)"]
      by (simp add: fnv1a_64_lower_def fnv1a_64_lower_units_def FNV_BASIC_def)
  qed
  then show ?thesis
    by (simp add: default_map_def lit_def fnv_step14_def)
qed

lemma default_hashes_distinct: "distinct (map (\<lambda>kt. fnv1a_64_lower (fst kt)) default_map)"
proof -
  have "distinct (map (\<lambda>kt. uint (fnv1a_64_lower (fst kt)) mod 16384) default_map)"
    unfolding default_hashes14 by code_simp
  then have "distinct (map (\<lambda>h. uint h mod 16384) (map (\<lambda>kt. fnv1a_64_lower (fst kt)) default_map))"
    by (simp add: comp_def)
  then show ?thesis
    using distinct_map by blast
qed

lemma fnv_lower_cong:
  assumes "map ascii_lower us = map ascii_lower vs"
  shows "fnv1a_64_lower_units us = fnv1a_64_lower_units vs"
proof -
  have "fnv1a_64_lower_units us = foldl (\<lambda>hash unit. (hash XOR ucast unit) * FNV_PRIME) FNV_BASIC (map ascii_lower us)" for us
    by (simp add: fnv1a_64_lower_units_def foldl_map)
  with assms show ?thesis
    by simp
qed

text \<open>The built-in keyword table finds every keyword in every letter case: no two of its hashes collide,
  so a text that agrees with a keyword up to ASCII case yields the token of exactly that keyword.\<close>

theorem default_keywords_found:
  assumes "(key, token) \<in> set default_map" and "map ascii_lower units = map ascii_lower (encode_utf16 key)"
  shows "get_keyword_rdbc_string DEFAULT_KEYWORDS units = Some token"
proof -
  have "fnv1a_64_lower_units units = fnv1a_64_lower key"
    using fnv_lower_cong [OF assms(2)] by (simp add: fnv1a_64_lower_def)
  moreover have "map_of (map (\<lambda>kt. (fnv1a_64_lower (fst kt), snd kt)) default_map) (fnv1a_64_lower key) = Some token"
    using assms(1) default_hashes_distinct by (intro map_of_is_SomeI) (force simp: comp_def)+
  ultimately show ?thesis
    by (simp add: get_keyword_rdbc_string_def DEFAULT_KEYWORDS_def get_keyword_by_hash_new [OF default_hashes_distinct])
qed

theorem default_keywords_found_witness:
  "get_keyword_rdbc_string DEFAULT_KEYWORDS (encode_utf16 (lit ''sElEcT'')) = Some (Tok ''SELECT'')"
proof -
  have "(lit ''SELECT'', Tok ''SELECT'') \<in> set default_map"
    by (simp add: default_map_def)
  moreover have "map ascii_lower (encode_utf16 (lit ''sElEcT'')) = map ascii_lower (encode_utf16 (lit ''SELECT''))"
    by (simp add: encode_utf16_def lit_def ascii_lower_def)
  ultimately show ?thesis
    by (rule default_keywords_found)
qed

end
