(* ===== verification/Sql_Features.thy ===== *)
theory Sql_Features
  imports Prelude
begin

unbundle bit_operations_syntax

text \<open>
  Feature switches of the SQL lexer and parser as bit masks (\<open>druid/src/sql/dialect_feature.rs\<close> and
  \<open>sql_parser_feature.rs\<close>). The first two enumerations are 64-bit masks, the third one a 32-bit mask.
  The locale \<open>bit_features\<close> is the contract the three share.
\<close>

section \<open>Lexer features\<close>

datatype LexerFeature =
    ScanSqlTypeBlockComment | ScanSqlTypeWithSemi | ScanSqlTypeWithFrom | ScanSqlTypeWithFunction |
    ScanSqlTypeWithBegin | ScanSqlTypeWithAt | NextTokenColon | NextTokenPrefixN |
    ScanString2PutDoubleBackslash | ScanStringDoubleBackslash | ScanAliasU | ScanNumberPrefixB |
    ScanNumberCommonProcess | ScanVariableAt | ScanVariableGreaterThan |
    ScanVariableSkipIdentifiers | ScanVariableMoveToSemi | ScanHiveCommentDoubleSpace |
    ScanSubAsIdentifier

definition LexerFeature_ALL :: "LexerFeature list" where
  "LexerFeature_ALL =
    [ScanSqlTypeBlockComment, ScanSqlTypeWithSemi, ScanSqlTypeWithFrom, ScanSqlTypeWithFunction,
     ScanSqlTypeWithBegin, ScanSqlTypeWithAt, NextTokenColon, NextTokenPrefixN,
     ScanString2PutDoubleBackslash, ScanStringDoubleBackslash, ScanAliasU, ScanNumberPrefixB,
     ScanNumberCommonProcess, ScanVariableAt, ScanVariableGreaterThan, ScanVariableSkipIdentifiers,
     ScanVariableMoveToSemi, ScanHiveCommentDoubleSpace, ScanSubAsIdentifier]"

fun LexerFeature_shift :: "LexerFeature \<Rightarrow> nat" where
  "LexerFeature_shift ScanSqlTypeBlockComment = 0"
| "LexerFeature_shift ScanSqlTypeWithSemi = 1"
| "LexerFeature_shift ScanSqlTypeWithFrom = 2"
| "LexerFeature_shift ScanSqlTypeWithFunction = 3"
| "LexerFeature_shift ScanSqlTypeWithBegin = 4"
| "LexerFeature_shift ScanSqlTypeWithAt = 5"
| "LexerFeature_shift NextTokenColon = 6"
| "LexerFeature_shift NextTokenPrefixN = 7"
| "LexerFeature_shift ScanString2PutDoubleBackslash = 8"
| "LexerFeature_shift ScanStringDoubleBackslash = 8"
| "LexerFeature_shift ScanAliasU = 9"
| "LexerFeature_shift ScanNumberPrefixB = 10"
| "LexerFeature_shift ScanNumberCommonProcess = 11"
| "LexerFeature_shift ScanVariableAt = 12"
| "LexerFeature_shift ScanVariableGreaterThan = 13"
| "LexerFeature_shift ScanVariableSkipIdentifiers = 14"
| "LexerFeature_shift ScanVariableMoveToSemi = 15"
| "LexerFeature_shift ScanHiveCommentDoubleSpace = 16"
| "LexerFeature_shift ScanSubAsIdentifier = 17"

fun LexerFeature_java_name :: "LexerFeature \<Rightarrow> rust_str" where
  "LexerFeature_java_name ScanSqlTypeBlockComment = lit ''ScanSQLTypeBlockComment''"
| "LexerFeature_java_name ScanSqlTypeWithSemi = lit ''ScanSQLTypeWithSemi''"
| "LexerFeature_java_name ScanSqlTypeWithFrom = lit ''ScanSQLTypeWithFrom''"
| "LexerFeature_java_name ScanSqlTypeWithFunction = lit ''ScanSQLTypeWithFunction''"
| "LexerFeature_java_name ScanSqlTypeWithBegin = lit ''ScanSQLTypeWithBegin''"
| "LexerFeature_java_name ScanSqlTypeWithAt = lit ''ScanSQLTypeWithAt''"
| "LexerFeature_java_name NextTokenColon = lit ''NextTokenColon''"
| "LexerFeature_java_name NextTokenPrefixN = lit ''NextTokenPrefixN''"
| "LexerFeature_java_name ScanString2PutDoubleBackslash = lit ''ScanString2PutDoubleBackslash''"
| "LexerFeature_java_name ScanStringDoubleBackslash = lit ''ScanStringDoubleBackslash''"
| "LexerFeature_java_name ScanAliasU = lit ''ScanAliasU''"
| "LexerFeature_java_name ScanNumberPrefixB = lit ''ScanNumberPrefixB''"
| "LexerFeature_java_name ScanNumberCommonProcess = lit ''ScanNumberCommonProcess''"
| "LexerFeature_java_name ScanVariableAt = lit ''ScanVariableAt''"
| "LexerFeature_java_name ScanVariableGreaterThan = lit ''ScanVariableGreaterThan''"
| "LexerFeature_java_name ScanVariableSkipIdentifiers = lit ''ScanVariableSkipIdentifiers''"
| "LexerFeature_java_name ScanVariableMoveToSemi = lit ''ScanVariableMoveToSemi''"
| "LexerFeature_java_name ScanHiveCommentDoubleSpace = lit ''ScanHiveCommentDoubleSpace''"
| "LexerFeature_java_name ScanSubAsIdentifier = lit ''ScanSubAsIdentifier''"


definition LexerFeature_mask :: "LexerFeature \<Rightarrow> 64 word" where
  "LexerFeature_mask f = push_bit (LexerFeature_shift f) 1"

definition LexerFeature_ordinal :: "LexerFeature \<Rightarrow> nat option" where
  "LexerFeature_ordinal f = position (\<lambda>candidate. candidate = f) LexerFeature_ALL"

definition LexerFeature_value_of :: "rust_str \<Rightarrow> LexerFeature option" where
  "LexerFeature_value_of name = find (\<lambda>f. LexerFeature_java_name f = name) LexerFeature_ALL"

definition LexerFeature_is_enabled :: "LexerFeature \<Rightarrow> 64 word \<Rightarrow> bool" where
  "LexerFeature_is_enabled f features \<longleftrightarrow> features AND LexerFeature_mask f \<noteq> 0"

definition LexerFeature_config :: "LexerFeature \<Rightarrow> 64 word \<Rightarrow> bool \<Rightarrow> 64 word" where
  "LexerFeature_config f features enable =
     (if enable then features OR LexerFeature_mask f else features AND NOT (LexerFeature_mask f))"

section \<open>Parser features\<close>

datatype ParserFeature =
    AcceptUnion | QueryRestSemi | AsofJoin | GlobalJoin | JoinAt | JoinRightTableWith |
    JoinRightTableFrom | JoinRightTableAlias | PostNaturalJoin | MultipleJoinOn | Udj |
    UserDefinedJoin | TwoConsecutiveUnion | QueryTable | GroupByAll |
    RewriteGroupByCubeRollupToFunction | GroupByPostDesc | GroupByItemOrder | SqlDateExpr |
    SqlTimestampExpr | PrimaryVariantColon | PrimaryBangBangSupport | PrimaryTwoConsecutiveSet |
    PrimaryLbraceOdbcEscape | ParseAllIdentifier | PrimaryRestCommaAfterLparen |
    InRestSpecificOperation | AdditiveRestPipesAsConcat | ParseAssignItemRparenCommaSetReturn |
    ParseAssignItemEqSemiReturn | ParseAssignItemSkip | ParseAssignItemEqeq |
    ParseSelectItemPrefixX | ParseLimitBy | ParseStatementListWhen |
    ParseStatementListSelectUnsupportedSyntax | ParseStatementListUpdatePlanCache |
    ParseStatementListRollbackReturn | ParseStatementListCommitReturn |
    ParseStatementListLparenContinue | ParseRevokeFromUser | ParseDropTableTables | ParseCreateSql |
    CreateTableBodySupplemental | TableAliasConnectWhere | TableAliasAsof | TableAliasLock |
    TableAliasPartition | TableAliasTable | TableAliasBetween | TableAliasRest | AsCommaFrom |
    AsSkip | AsSequence | AsDatabase | AsDefault | AliasLiteralFloat

definition ParserFeature_ALL :: "ParserFeature list" where
  "ParserFeature_ALL =
    [AcceptUnion, QueryRestSemi, AsofJoin, GlobalJoin, JoinAt, JoinRightTableWith,
     JoinRightTableFrom, JoinRightTableAlias, PostNaturalJoin, MultipleJoinOn, Udj, UserDefinedJoin,
     TwoConsecutiveUnion, QueryTable, GroupByAll, RewriteGroupByCubeRollupToFunction,
     GroupByPostDesc, GroupByItemOrder, SqlDateExpr, SqlTimestampExpr, PrimaryVariantColon,
     PrimaryBangBangSupport, PrimaryTwoConsecutiveSet, PrimaryLbraceOdbcEscape, ParseAllIdentifier,
     PrimaryRestCommaAfterLparen, InRestSpecificOperation, AdditiveRestPipesAsConcat,
     ParseAssignItemRparenCommaSetReturn, ParseAssignItemEqSemiReturn, ParseAssignItemSkip,
     ParseAssignItemEqeq, ParseSelectItemPrefixX, ParseLimitBy, ParseStatementListWhen,
     ParseStatementListSelectUnsupportedSyntax, ParseStatementListUpdatePlanCache,
     ParseStatementListRollbackReturn, ParseStatementListCommitReturn,
     ParseStatementListLparenContinue, ParseRevokeFromUser, ParseDropTableTables, ParseCreateSql,
     CreateTableBodySupplemental, TableAliasConnectWhere, TableAliasAsof, TableAliasLock,
     TableAliasPartition, TableAliasTable, TableAliasBetween, TableAliasRest, AsCommaFrom, AsSkip,
     AsSequence, AsDatabase, AsDefault, AliasLiteralFloat]"

fun ParserFeature_shift :: "ParserFeature \<Rightarrow> nat" where
  "ParserFeature_shift AcceptUnion = 0"
| "ParserFeature_shift QueryRestSemi = 1"
| "ParserFeature_shift AsofJoin = 2"
| "ParserFeature_shift GlobalJoin = 3"
| "ParserFeature_shift JoinAt = 4"
| "ParserFeature_shift JoinRightTableWith = 5"
| "ParserFeature_shift JoinRightTableFrom = 6"
| "ParserFeature_shift JoinRightTableAlias = 7"
| "ParserFeature_shift PostNaturalJoin = 8"
| "ParserFeature_shift MultipleJoinOn = 9"
| "ParserFeature_shift Udj = 10"
| "ParserFeature_shift UserDefinedJoin = 10"
| "ParserFeature_shift TwoConsecutiveUnion = 11"
| "ParserFeature_shift QueryTable = 12"
| "ParserFeature_shift GroupByAll = 13"
| "ParserFeature_shift RewriteGroupByCubeRollupToFunction = 14"
| "ParserFeature_shift GroupByPostDesc = 15"
| "ParserFeature_shift GroupByItemOrder = 16"
| "ParserFeature_shift SqlDateExpr = 17"
| "ParserFeature_shift SqlTimestampExpr = 18"
| "ParserFeature_shift PrimaryVariantColon = 19"
| "ParserFeature_shift PrimaryBangBangSupport = 20"
| "ParserFeature_shift PrimaryTwoConsecutiveSet = 21"
| "ParserFeature_shift PrimaryLbraceOdbcEscape = 22"
| "ParserFeature_shift ParseAllIdentifier = 23"
| "ParserFeature_shift PrimaryRestCommaAfterLparen = 24"
| "ParserFeature_shift InRestSpecificOperation = 25"
| "ParserFeature_shift AdditiveRestPipesAsConcat = 26"
| "ParserFeature_shift ParseAssignItemRparenCommaSetReturn = 27"
| "ParserFeature_shift ParseAssignItemEqSemiReturn = 28"
| "ParserFeature_shift ParseAssignItemSkip = 29"
| "ParserFeature_shift ParseAssignItemEqeq = 30"
| "ParserFeature_shift ParseSelectItemPrefixX = 31"
| "ParserFeature_shift ParseLimitBy = 32"
| "ParserFeature_shift ParseStatementListWhen = 33"
| "ParserFeature_shift ParseStatementListSelectUnsupportedSyntax = 34"
| "ParserFeature_shift ParseStatementListUpdatePlanCache = 35"
| "ParserFeature_shift ParseStatementListRollbackReturn = 36"
| "ParserFeature_shift ParseStatementListCommitReturn = 37"
| "ParserFeature_shift ParseStatementListLparenContinue = 38"
| "ParserFeature_shift ParseRevokeFromUser = 39"
| "ParserFeature_shift ParseDropTableTables = 40"
| "ParserFeature_shift ParseCreateSql = 41"
| "ParserFeature_shift CreateTableBodySupplemental = 42"
| "ParserFeature_shift TableAliasConnectWhere = 43"
| "ParserFeature_shift TableAliasAsof = 44"
| "ParserFeature_shift TableAliasLock = 45"
| "ParserFeature_shift TableAliasPartition = 46"
| "ParserFeature_shift TableAliasTable = 47"
| "ParserFeature_shift TableAliasBetween = 48"
| "ParserFeature_shift TableAliasRest = 49"
| "ParserFeature_shift AsCommaFrom = 50"
| "ParserFeature_shift AsSkip = 51"
| "ParserFeature_shift AsSequence = 52"
| "ParserFeature_shift AsDatabase = 53"
| "ParserFeature_shift AsDefault = 54"
| "ParserFeature_shift AliasLiteralFloat = 55"

fun ParserFeature_java_name :: "ParserFeature \<Rightarrow> rust_str" where
  "ParserFeature_java_name AcceptUnion = lit ''AcceptUnion''"
| "ParserFeature_java_name QueryRestSemi = lit ''QueryRestSemi''"
| "ParserFeature_java_name AsofJoin = lit ''AsofJoin''"
| "ParserFeature_java_name GlobalJoin = lit ''GlobalJoin''"
| "ParserFeature_java_name JoinAt = lit ''JoinAt''"
| "ParserFeature_java_name JoinRightTableWith = lit ''JoinRightTableWith''"
| "ParserFeature_java_name JoinRightTableFrom = lit ''JoinRightTableFrom''"
| "ParserFeature_java_name JoinRightTableAlias = lit ''JoinRightTableAlias''"
| "ParserFeature_java_name PostNaturalJoin = lit ''PostNaturalJoin''"
| "ParserFeature_java_name MultipleJoinOn = lit ''MultipleJoinOn''"
| "ParserFeature_java_name Udj = lit ''UDJ''"
| "ParserFeature_java_name UserDefinedJoin = lit ''UserDefinedJoin''"
| "ParserFeature_java_name TwoConsecutiveUnion = lit ''TwoConsecutiveUnion''"
| "ParserFeature_java_name QueryTable = lit ''QueryTable''"
| "ParserFeature_java_name GroupByAll = lit ''GroupByAll''"
| "ParserFeature_java_name RewriteGroupByCubeRollupToFunction = lit ''RewriteGroupByCubeRollupToFunction''"
| "ParserFeature_java_name GroupByPostDesc = lit ''GroupByPostDesc''"
| "ParserFeature_java_name GroupByItemOrder = lit ''GroupByItemOrder''"
| "ParserFeature_java_name SqlDateExpr = lit ''SQLDateExpr''"
| "ParserFeature_java_name SqlTimestampExpr = lit ''SQLTimestampExpr''"
| "ParserFeature_java_name PrimaryVariantColon = lit ''PrimaryVariantColon''"
| "ParserFeature_java_name PrimaryBangBangSupport = lit ''PrimaryBangBangSupport''"
| "ParserFeature_java_name PrimaryTwoConsecutiveSet = lit ''PrimaryTwoConsecutiveSet''"
| "ParserFeature_java_name PrimaryLbraceOdbcEscape = lit ''PrimaryLbraceOdbcEscape''"
| "ParserFeature_java_name ParseAllIdentifier = lit ''ParseAllIdentifier''"
| "ParserFeature_java_name PrimaryRestCommaAfterLparen = lit ''PrimaryRestCommaAfterLparen''"
| "ParserFeature_java_name InRestSpecificOperation = lit ''InRestSpecificOperation''"
| "ParserFeature_java_name AdditiveRestPipesAsConcat = lit ''AdditiveRestPipesAsConcat''"
| "ParserFeature_java_name ParseAssignItemRparenCommaSetReturn = lit ''ParseAssignItemRparenCommaSetReturn''"
| "ParserFeature_java_name ParseAssignItemEqSemiReturn = lit ''ParseAssignItemEqSemiReturn''"
| "ParserFeature_java_name ParseAssignItemSkip = lit ''ParseAssignItemSkip''"
| "ParserFeature_java_name ParseAssignItemEqeq = lit ''ParseAssignItemEqeq''"
| "ParserFeature_java_name ParseSelectItemPrefixX = lit ''ParseSelectItemPrefixX''"
| "ParserFeature_java_name ParseLimitBy = lit ''ParseLimitBy''"
| "ParserFeature_java_name ParseStatementListWhen = lit ''ParseStatementListWhen''"
| "ParserFeature_java_name ParseStatementListSelectUnsupportedSyntax = lit ''ParseStatementListSelectUnsupportedSyntax''"
| "ParserFeature_java_name ParseStatementListUpdatePlanCache = lit ''ParseStatementListUpdatePlanCache''"
| "ParserFeature_java_name ParseStatementListRollbackReturn = lit ''ParseStatementListRollbackReturn''"
| "ParserFeature_java_name ParseStatementListCommitReturn = lit ''ParseStatementListCommitReturn''"
| "ParserFeature_java_name ParseStatementListLparenContinue = lit ''ParseStatementListLparenContinue''"
| "ParserFeature_java_name ParseRevokeFromUser = lit ''ParseRevokeFromUser''"
| "ParserFeature_java_name ParseDropTableTables = lit ''ParseDropTableTables''"
| "ParserFeature_java_name ParseCreateSql = lit ''ParseCreateSql''"
| "ParserFeature_java_name CreateTableBodySupplemental = lit ''CreateTableBodySupplemental''"
| "ParserFeature_java_name TableAliasConnectWhere = lit ''TableAliasConnectWhere''"
| "ParserFeature_java_name TableAliasAsof = lit ''TableAliasAsof''"
| "ParserFeature_java_name TableAliasLock = lit ''TableAliasLock''"
| "ParserFeature_java_name TableAliasPartition = lit ''TableAliasPartition''"
| "ParserFeature_java_name TableAliasTable = lit ''TableAliasTable''"
| "ParserFeature_java_name TableAliasBetween = lit ''TableAliasBetween''"
| "ParserFeature_java_name TableAliasRest = lit ''TableAliasRest''"
| "ParserFeature_java_name AsCommaFrom = lit ''AsCommaFrom''"
| "ParserFeature_java_name AsSkip = lit ''AsSkip''"
| "ParserFeature_java_name AsSequence = lit ''AsSequence''"
| "ParserFeature_java_name AsDatabase = lit ''AsDatabase''"
| "ParserFeature_java_name AsDefault = lit ''AsDefault''"
| "ParserFeature_java_name AliasLiteralFloat = lit ''AliasLiteralFloat''"


definition ParserFeature_mask :: "ParserFeature \<Rightarrow> 64 word" where
  "ParserFeature_mask f = push_bit (ParserFeature_shift f) 1"

definition ParserFeature_ordinal :: "ParserFeature \<Rightarrow> nat option" where
  "ParserFeature_ordinal f = position (\<lambda>candidate. candidate = f) ParserFeature_ALL"

definition ParserFeature_value_of :: "rust_str \<Rightarrow> ParserFeature option" where
  "ParserFeature_value_of name = find (\<lambda>f. ParserFeature_java_name f = name) ParserFeature_ALL"

definition ParserFeature_is_enabled :: "ParserFeature \<Rightarrow> 64 word \<Rightarrow> bool" where
  "ParserFeature_is_enabled f features \<longleftrightarrow> features AND ParserFeature_mask f \<noteq> 0"

definition ParserFeature_config :: "ParserFeature \<Rightarrow> 64 word \<Rightarrow> bool \<Rightarrow> 64 word" where
  "ParserFeature_config f features enable =
     (if enable then features OR ParserFeature_mask f else features AND NOT (ParserFeature_mask f))"

section \<open>Dialects\<close>

datatype DialectFeatureValue = Lexer LexerFeature | Parser ParserFeature

record DialectFeature =
  lexer_feature :: "64 word"
  parser_feature :: "64 word"

definition config_feature :: "DialectFeatureValue \<Rightarrow> bool \<Rightarrow> DialectFeature \<Rightarrow> DialectFeature" where
  "config_feature feature enable d =
     (case feature of
        Lexer f \<Rightarrow> d\<lparr>lexer_feature := LexerFeature_config f (lexer_feature d) enable\<rparr>
      | Parser f \<Rightarrow> d\<lparr>parser_feature := ParserFeature_config f (parser_feature d) enable\<rparr>)"

definition config_features :: "DialectFeatureValue list \<Rightarrow> DialectFeature \<Rightarrow> DialectFeature" where
  "config_features fs d = foldl (\<lambda>d f. config_feature f True d) d fs"

definition unconfig_features :: "DialectFeatureValue list \<Rightarrow> DialectFeature \<Rightarrow> DialectFeature" where
  "unconfig_features fs d = foldl (\<lambda>d f. config_feature f False d) d fs"

definition DialectFeature_new :: DialectFeature where
  "DialectFeature_new = config_features
     [Lexer ScanNumberPrefixB, Lexer ScanNumberCommonProcess, Parser AcceptUnion, Parser SqlTimestampExpr,
      Parser PrimaryBangBangSupport, Parser AdditiveRestPipesAsConcat,
      Parser ParseStatementListSelectUnsupportedSyntax]
     \<lparr>lexer_feature = 0, parser_feature = 0\<rparr>"

definition with_lists :: "DialectFeatureValue list option \<Rightarrow> DialectFeatureValue list option \<Rightarrow> DialectFeature" where
  "with_lists on off =
     (let d = (case on of Some fs \<Rightarrow> config_features fs DialectFeature_new | None \<Rightarrow> DialectFeature_new)
      in case off of Some fs \<Rightarrow> unconfig_features fs d | None \<Rightarrow> d)"

definition from_features :: "DialectFeatureValue list option \<Rightarrow> DialectFeature" where
  "from_features fs =
     (let d = \<lparr>lexer_feature = 0, parser_feature = 0\<rparr>
      in case fs of Some fs \<Rightarrow> config_features fs d | None \<Rightarrow> d)"

definition with_enabled :: "bool \<Rightarrow> DialectFeatureValue list option \<Rightarrow> DialectFeature" where
  "with_enabled enable fs =
     (case fs of
        Some fs \<Rightarrow> foldl (\<lambda>d f. config_feature f enable d) DialectFeature_new fs
      | None \<Rightarrow> DialectFeature_new)"

definition DialectFeature_is_enabled :: "DialectFeatureValue \<Rightarrow> DialectFeature \<Rightarrow> bool" where
  "DialectFeature_is_enabled feature d =
     (case feature of
        Lexer f \<Rightarrow> LexerFeature_is_enabled f (lexer_feature d)
      | Parser f \<Rightarrow> ParserFeature_is_enabled f (parser_feature d))"

section \<open>Parser switches\<close>

datatype SqlParserFeature =
    KeepInsertValueClauseOriginalString | KeepSelectListOriginalString | UseInsertColumnsCache |
    EnableSqlBinaryOpExprGroup | OptimizedForParameterized | OptimizedForForParameterizedSkipValue |
    KeepComments | SkipComments | StrictForWall | TddlHint | DrdsAsyncDdl | DrdsBaseline |
    InsertReader | IgnoreNameQuotes | KeepNameQuotes | SelectItemGenerateAlias | PipesAsConcat |
    InsertValueCheckType | InsertValueNative | EnableCurrentTimeExpr | EnableCurrentUserExpr |
    KeepSourceLocation | SupportUnicodeCodePoint | PrintSqlWhileParsingFailed | EnableMultiUnion |
    Spark | Presto | MySqlSupportStandardComment | Template

definition SqlParserFeature_ALL :: "SqlParserFeature list" where
  "SqlParserFeature_ALL =
    [KeepInsertValueClauseOriginalString, KeepSelectListOriginalString, UseInsertColumnsCache,
     EnableSqlBinaryOpExprGroup, OptimizedForParameterized, OptimizedForForParameterizedSkipValue,
     KeepComments, SkipComments, StrictForWall, TddlHint, DrdsAsyncDdl, DrdsBaseline, InsertReader,
     IgnoreNameQuotes, KeepNameQuotes, SelectItemGenerateAlias, PipesAsConcat, InsertValueCheckType,
     InsertValueNative, EnableCurrentTimeExpr, EnableCurrentUserExpr, KeepSourceLocation,
     SupportUnicodeCodePoint, PrintSqlWhileParsingFailed, EnableMultiUnion, Spark, Presto,
     MySqlSupportStandardComment, Template]"

fun SqlParserFeature_ordinal :: "SqlParserFeature \<Rightarrow> nat" where
  "SqlParserFeature_ordinal KeepInsertValueClauseOriginalString = 0"
| "SqlParserFeature_ordinal KeepSelectListOriginalString = 1"
| "SqlParserFeature_ordinal UseInsertColumnsCache = 2"
| "SqlParserFeature_ordinal EnableSqlBinaryOpExprGroup = 3"
| "SqlParserFeature_ordinal OptimizedForParameterized = 4"
| "SqlParserFeature_ordinal OptimizedForForParameterizedSkipValue = 5"
| "SqlParserFeature_ordinal KeepComments = 6"
| "SqlParserFeature_ordinal SkipComments = 7"
| "SqlParserFeature_ordinal StrictForWall = 8"
| "SqlParserFeature_ordinal TddlHint = 9"
| "SqlParserFeature_ordinal DrdsAsyncDdl = 10"
| "SqlParserFeature_ordinal DrdsBaseline = 11"
| "SqlParserFeature_ordinal InsertReader = 12"
| "SqlParserFeature_ordinal IgnoreNameQuotes = 13"
| "SqlParserFeature_ordinal KeepNameQuotes = 14"
| "SqlParserFeature_ordinal SelectItemGenerateAlias = 15"
| "SqlParserFeature_ordinal PipesAsConcat = 16"
| "SqlParserFeature_ordinal InsertValueCheckType = 17"
| "SqlParserFeature_ordinal InsertValueNative = 18"
| "SqlParserFeature_ordinal EnableCurrentTimeExpr = 19"
| "SqlParserFeature_ordinal EnableCurrentUserExpr = 20"
| "SqlParserFeature_ordinal KeepSourceLocation = 21"
| "SqlParserFeature_ordinal SupportUnicodeCodePoint = 22"
| "SqlParserFeature_ordinal PrintSqlWhileParsingFailed = 23"
| "SqlParserFeature_ordinal EnableMultiUnion = 24"
| "SqlParserFeature_ordinal Spark = 25"
| "SqlParserFeature_ordinal Presto = 26"
| "SqlParserFeature_ordinal MySqlSupportStandardComment = 27"
| "SqlParserFeature_ordinal Template = 28"

fun SqlParserFeature_java_name :: "SqlParserFeature \<Rightarrow> rust_str" where
  "SqlParserFeature_java_name KeepInsertValueClauseOriginalString = lit ''KeepInsertValueClauseOriginalString''"
| "SqlParserFeature_java_name KeepSelectListOriginalString = lit ''KeepSelectListOriginalString''"
| "SqlParserFeature_java_name UseInsertColumnsCache = lit ''UseInsertColumnsCache''"
| "SqlParserFeature_java_name EnableSqlBinaryOpExprGroup = lit ''EnableSQLBinaryOpExprGroup''"
| "SqlParserFeature_java_name OptimizedForParameterized = lit ''OptimizedForParameterized''"
| "SqlParserFeature_java_name OptimizedForForParameterizedSkipValue = lit ''OptimizedForForParameterizedSkipValue''"
| "SqlParserFeature_java_name KeepComments = lit ''KeepComments''"
| "SqlParserFeature_java_name SkipComments = lit ''SkipComments''"
| "SqlParserFeature_java_name StrictForWall = lit ''StrictForWall''"
| "SqlParserFeature_java_name TddlHint = lit ''TDDLHint''"
| "SqlParserFeature_java_name DrdsAsyncDdl = lit ''DRDSAsyncDDL''"
| "SqlParserFeature_java_name DrdsBaseline = lit ''DRDSBaseline''"
| "SqlParserFeature_java_name InsertReader = lit ''InsertReader''"
| "SqlParserFeature_java_name IgnoreNameQuotes = lit ''IgnoreNameQuotes''"
| "SqlParserFeature_java_name KeepNameQuotes = lit ''KeepNameQuotes''"
| "SqlParserFeature_java_name SelectItemGenerateAlias = lit ''SelectItemGenerateAlias''"
| "SqlParserFeature_java_name PipesAsConcat = lit ''PipesAsConcat''"
| "SqlParserFeature_java_name InsertValueCheckType = lit ''InsertValueCheckType''"
| "SqlParserFeature_java_name InsertValueNative = lit ''InsertValueNative''"
| "SqlParserFeature_java_name EnableCurrentTimeExpr = lit ''EnableCurrentTimeExpr''"
| "SqlParserFeature_java_name EnableCurrentUserExpr = lit ''EnableCurrentUserExpr''"
| "SqlParserFeature_java_name KeepSourceLocation = lit ''KeepSourceLocation''"
| "SqlParserFeature_java_name SupportUnicodeCodePoint = lit ''SupportUnicodeCodePoint''"
| "SqlParserFeature_java_name PrintSqlWhileParsingFailed = lit ''PrintSQLWhileParsingFailed''"
| "SqlParserFeature_java_name EnableMultiUnion = lit ''EnableMultiUnion''"
| "SqlParserFeature_java_name Spark = lit ''Spark''"
| "SqlParserFeature_java_name Presto = lit ''Presto''"
| "SqlParserFeature_java_name MySqlSupportStandardComment = lit ''MySQLSupportStandardComment''"
| "SqlParserFeature_java_name Template = lit ''Template''"

definition SqlParserFeature_mask :: "SqlParserFeature \<Rightarrow> 32 word" where
  "SqlParserFeature_mask f = push_bit (SqlParserFeature_ordinal f) 1"

definition SqlParserFeature_value_of :: "rust_str \<Rightarrow> SqlParserFeature option" where
  "SqlParserFeature_value_of name = find (\<lambda>f. SqlParserFeature_java_name f = name) SqlParserFeature_ALL"

definition SqlParserFeature_is_enabled :: "32 word \<Rightarrow> SqlParserFeature \<Rightarrow> bool" where
  "SqlParserFeature_is_enabled features f \<longleftrightarrow> features AND SqlParserFeature_mask f \<noteq> 0"

definition SqlParserFeature_config :: "32 word \<Rightarrow> SqlParserFeature \<Rightarrow> bool \<Rightarrow> 32 word" where
  "SqlParserFeature_config features f enable =
     (if enable then features OR SqlParserFeature_mask f else features AND NOT (SqlParserFeature_mask f))"

definition SqlParserFeature_of :: "SqlParserFeature list \<Rightarrow> 32 word" where
  "SqlParserFeature_of fs = foldl (\<lambda>v f. v OR SqlParserFeature_mask f) 0 fs"

definition SqlParserFeature_of_nullable :: "SqlParserFeature list option \<Rightarrow> 32 word" where
  "SqlParserFeature_of_nullable fs = (case fs of None \<Rightarrow> 0 | Some fs \<Rightarrow> SqlParserFeature_of fs)"

section \<open>The contract of a mask\<close>

locale bit_features =
  fixes position_of :: "'f \<Rightarrow> nat" and enabled :: "'f \<Rightarrow> 'w::len word \<Rightarrow> bool"
    and config :: "'f \<Rightarrow> 'w word \<Rightarrow> bool \<Rightarrow> 'w word"
  assumes position_less: "position_of f < LENGTH('w)"
    and enabled_mask: "enabled f w \<longleftrightarrow> w AND push_bit (position_of f) 1 \<noteq> 0"
    and config_mask: "config f w b = (if b then w OR push_bit (position_of f) 1 else w AND NOT (push_bit (position_of f) 1))"
begin

lemma enabled_bit: "enabled f w \<longleftrightarrow> bit w (position_of f)"
proof -
  have "bit (w AND push_bit (position_of f) 1) n \<longleftrightarrow> n = position_of f \<and> bit w n" for n
    using position_less [of f] by (auto simp: bit_simps)
  then show ?thesis
    unfolding enabled_mask by (metis bit_0_eq bot_apply bot_bool_def bit_eq_iff)
qed

lemma config_enabled:
  "enabled g (config f w b) \<longleftrightarrow> (if position_of g = position_of f then b else enabled g w)"
  using position_less [of f] position_less [of g]
  by (auto simp: enabled_bit config_mask bit_simps)

lemma fold_config_enabled:
  "enabled g (foldl (\<lambda>w f. config f w b) w fs) \<longleftrightarrow>
     (if position_of g \<in> position_of ` set fs then b else enabled g w)"
  by (induction fs arbitrary: w) (auto simp: config_enabled)

end

lemma LexerFeature_shift_less: "LexerFeature_shift f < 64"
  by (cases f) simp_all

lemma ParserFeature_shift_less: "ParserFeature_shift f < 64"
  by (cases f) simp_all

lemma SqlParserFeature_ordinal_less: "SqlParserFeature_ordinal f < 32"
  by (cases f) simp_all

interpretation lexer_bits: bit_features LexerFeature_shift LexerFeature_is_enabled LexerFeature_config
  by unfold_locales (simp_all add: LexerFeature_shift_less LexerFeature_is_enabled_def LexerFeature_config_def
      LexerFeature_mask_def)

interpretation parser_bits: bit_features ParserFeature_shift ParserFeature_is_enabled ParserFeature_config
  by unfold_locales (simp_all add: ParserFeature_shift_less ParserFeature_is_enabled_def ParserFeature_config_def
      ParserFeature_mask_def)

interpretation switch_bits: bit_features SqlParserFeature_ordinal "\<lambda>f w. SqlParserFeature_is_enabled w f"
    "\<lambda>f w b. SqlParserFeature_config w f b"
  by unfold_locales (simp_all add: SqlParserFeature_ordinal_less SqlParserFeature_is_enabled_def
      SqlParserFeature_config_def SqlParserFeature_mask_def)

section \<open>Properties\<close>

text \<open>Two features that are the same bit of the same mask.\<close>

definition same_bit :: "DialectFeatureValue \<Rightarrow> DialectFeatureValue \<Rightarrow> bool" where
  "same_bit f g =
     (case (f, g) of
        (Lexer a, Lexer b) \<Rightarrow> LexerFeature_shift a = LexerFeature_shift b
      | (Parser a, Parser b) \<Rightarrow> ParserFeature_shift a = ParserFeature_shift b
      | _ \<Rightarrow> False)"

lemma config_feature_enabled:
  "DialectFeature_is_enabled g (config_feature f b d) \<longleftrightarrow> (if same_bit f g then b else DialectFeature_is_enabled g d)"
  by (auto simp: DialectFeature_is_enabled_def config_feature_def same_bit_def lexer_bits.config_enabled
      parser_bits.config_enabled split: DialectFeatureValue.splits)

lemma fold_config_feature_enabled:
  "DialectFeature_is_enabled g (foldl (\<lambda>d f. config_feature f b d) d fs) \<longleftrightarrow>
     (if \<exists>f \<in> set fs. same_bit f g then b else DialectFeature_is_enabled g d)"
  by (induction fs arbitrary: d) (auto simp: config_feature_enabled)

text \<open>C0. Configuring a dialect switches exactly the features named: starting from the defaults, \<open>with_lists\<close>
  leaves a feature on if and only if it is not switched off and is switched on or on by default, where
  features that are the same bit of the same mask are switched together.\<close>

theorem with_lists_exact:
  "DialectFeature_is_enabled g (with_lists (Some on) (Some off)) \<longleftrightarrow>
     \<not> (\<exists>f \<in> set off. same_bit f g) \<and>
     ((\<exists>f \<in> set on. same_bit f g) \<or> (\<exists>f \<in> set [Lexer ScanNumberPrefixB, Lexer ScanNumberCommonProcess,
        Parser AcceptUnion, Parser SqlTimestampExpr, Parser PrimaryBangBangSupport,
        Parser AdditiveRestPipesAsConcat, Parser ParseStatementListSelectUnsupportedSyntax]. same_bit f g))"
proof -
  have "\<not> DialectFeature_is_enabled g \<lparr>lexer_feature = 0, parser_feature = 0\<rparr>"
    by (simp add: DialectFeature_is_enabled_def LexerFeature_is_enabled_def ParserFeature_is_enabled_def
        split: DialectFeatureValue.split)
  then show ?thesis
    unfolding with_lists_def unconfig_features_def config_features_def DialectFeature_new_def
    by (simp add: fold_config_feature_enabled del: foldl_Cons)
qed

end
