(* ===== verification/Sql_Lexer.thy ===== *)
theory Sql_Lexer
  imports Sql_Keywords Sql_Features
begin

text \<open>
  The SQL lexer (\<open>druid/src/sql/lexer.rs\<close>, \<open>lexer/scan_a.rs\<close>, \<open>lexer/scan_b.rs\<close>). The state is the record
  \<open>Lexer\<close> with the fields of the struct; every scanner is a function from the state to a result and the
  next state. Slices out of range and the character classes at unit 256 panic in the code; they yield the
  error \<open>Panicked\<close>. The comment callback cannot change the lexer and is left out; of the database types
  only the two with keyword tables of their own are told apart. The loops end because they stop at the end
  of the text: the classes they test are false for the sentinel \<open>EOI\<close>.
\<close>

section \<open>State\<close>

datatype DbType = SQLite | Dm | OtherDb rust_str

datatype KeywordSet = DefaultSet | SQLiteSet | DmSet

datatype LexerError =
    IllegalIdentifier nat nat | UnclosedString nat nat | IllegalChar u16 nat nat
  | UnterminatedComment nat nat nat "Token option" | NotAllowComment | Panicked

record LexerSavePoint =
  sp_pos :: nat
  sp_start_pos :: nat
  sp_buf_pos :: nat
  sp_mark :: nat
  sp_ch :: u16
  sp_hash :: i64
  sp_hash_l_case :: i64
  sp_token :: "Token option"
  sp_string_val :: "u16 list option"
  sp_line :: nat

record Lexer =
  lx_text :: "u16 list"
  lx_features :: "32 word"
  lx_pos :: nat
  lx_mark :: nat
  number_scale :: nat
  number_exp :: bool
  lx_ch :: u16
  buf_pos :: nat
  lx_token :: "Token option"
  keyword_set :: KeywordSet
  string_val :: "u16 list option"
  hash_l_case :: i64
  lx_hash :: i64
  comment_count :: nat
  comments :: "u16 list list option"
  skip_comment :: bool
  save_point :: "LexerSavePoint option"
  allow_comment :: bool
  var_index :: "32 word"
  end_of_comment :: bool
  keep_comments :: bool
  lx_line :: nat
  lx_lines :: nat
  db_type :: "DbType option"
  optimized_for_parameterized :: bool
  keep_source_location :: bool
  start_pos :: nat
  pos_line :: nat
  pos_column :: nat
  dialect_feature :: DialectFeature

type_synonym 'a scan = "('a, LexerError) result \<times> Lexer"

section \<open>Reading the text\<close>

definition char_at :: "Lexer \<Rightarrow> nat \<Rightarrow> u16" where
  "char_at l i = (if i < length (lx_text l) then lx_text l ! i else EOI)"

definition scan_char :: "Lexer \<Rightarrow> Lexer" where
  "scan_char l = l\<lparr>lx_pos := lx_pos l + 1, lx_ch := char_at l (lx_pos l + 1)\<rparr>"

definition is_eof :: "Lexer \<Rightarrow> bool" where
  "is_eof l \<longleftrightarrow> lx_pos l \<ge> length (lx_text l)"

definition lx_slice :: "Lexer \<Rightarrow> nat \<Rightarrow> nat \<Rightarrow> u16 list option" where
  "lx_slice l offset count =
     (if offset + count \<le> length (lx_text l) then Some (take count (drop offset (lx_text l))) else None)"

definition token_slice :: "Lexer \<Rightarrow> u16 list option" where
  "token_slice l = lx_slice l (lx_mark l) (buf_pos l)"

definition starts_with :: "Lexer \<Rightarrow> rust_str \<Rightarrow> bool" where
  "starts_with l value =
     (let candidate = encode_utf16 value in
      lx_pos l + length candidate \<le> length (lx_text l) \<and>
      take (length candidate) (drop (lx_pos l) (lx_text l)) = candidate)"

definition finish_simple :: "Token \<Rightarrow> nat \<Rightarrow> nat \<Rightarrow> Lexer \<Rightarrow> Token \<times> Lexer" where
  "finish_simple token mark len l = (token, l\<lparr>lx_mark := mark, buf_pos := len, lx_token := Some token\<rparr>)"

text \<open>\<open>compute_row_and_column\<close>: a fold over the units before the position.\<close>

definition compute_row_and_column :: "Lexer \<Rightarrow> Lexer" where
  "compute_row_and_column l =
     (let (line, column) = foldl (\<lambda>(line, column) unit. if unit = 10 then (line + 1, 1) else (line, column + 1))
            (1, 1) (take (min (lx_pos l) (length (lx_text l))) (lx_text l))
      in l\<lparr>pos_line := line, pos_column := column\<rparr>)"

definition fnv_add :: "i64 \<Rightarrow> u16 \<Rightarrow> bool \<Rightarrow> i64" where
  "fnv_add hash unit lower = (hash XOR ucast (if lower then ascii_lower unit else unit)) * FNV_PRIME"

definition fnv_units :: "u16 list \<Rightarrow> bool \<Rightarrow> i64" where
  "fnv_units units lower = foldl (\<lambda>hash unit. fnv_add hash unit lower) FNV_BASIC units"

lemma scan_char_simps [simp]:
  "lx_text (scan_char l) = lx_text l" "lx_pos (scan_char l) = Suc (lx_pos l)"
  by (simp_all add: scan_char_def)

text \<open>\<open>while class(self.ch) { self.scan_char(); }\<close>; \<open>None\<close> is the panic of the class.\<close>

function scan_while :: "(u16 \<Rightarrow> bool option) \<Rightarrow> Lexer \<Rightarrow> Lexer option" where
  "scan_while P l =
     (case P (lx_ch l) of
        None \<Rightarrow> None
      | Some b \<Rightarrow> if b \<and> \<not> is_eof l then scan_while P (scan_char l) else Some l)"
  by pat_completeness auto
termination
  by (relation "measure (\<lambda>(P, l). length (lx_text l) - lx_pos l)") (auto simp: is_eof_def)

declare scan_while.simps [simp del]

definition total :: "(u16 \<Rightarrow> bool) \<Rightarrow> u16 \<Rightarrow> bool option" where
  "total P c = Some (P c)"

definition lx_keywords :: "Lexer \<Rightarrow> Keywords" where
  "lx_keywords l = (case keyword_set l of DefaultSet \<Rightarrow> DEFAULT_KEYWORDS | SQLiteSet \<Rightarrow> SQLITE_KEYWORDS | DmSet \<Rightarrow> DM_KEYWORDS)"

section \<open>Scanners\<close>

text \<open>The identifier loop also accumulates the two hashes.\<close>

function identifier_loop :: "Lexer \<Rightarrow> Lexer option" where
  "identifier_loop l =
     (case is_identifier_char (lx_ch l) of
        None \<Rightarrow> None
      | Some b \<Rightarrow>
          if b \<and> \<not> is_eof l
          then identifier_loop (scan_char (l\<lparr>lx_hash := fnv_add (lx_hash l) (lx_ch l) False,
                                            hash_l_case := fnv_add (hash_l_case l) (lx_ch l) True\<rparr>))
          else Some l)"
  by pat_completeness auto
termination
  by (relation "measure (\<lambda>l. length (lx_text l) - lx_pos l)") (auto simp: is_eof_def)

declare identifier_loop.simps [simp del]

definition scan_identifier :: "Lexer \<Rightarrow> unit scan" where
  "scan_identifier l =
     (case identifier_loop (l\<lparr>lx_mark := lx_pos l, lx_hash := FNV_BASIC, hash_l_case := FNV_BASIC\<rparr>) of
        None \<Rightarrow> (Err Panicked, l)
      | Some l1 \<Rightarrow>
          let l1 = l1\<lparr>buf_pos := lx_pos l1 - lx_mark l1\<rparr> in
          (case lx_slice l1 (lx_mark l1) (buf_pos l1) of
             None \<Rightarrow> (Err Panicked, l1)
           | Some value \<Rightarrow>
               let t = (case get_keyword_rdbc_string (lx_keywords l1) value of Some t \<Rightarrow> t | None \<Rightarrow> Tok ''IDENTIFIER'');
                   l1 = l1\<lparr>lx_token := Some t\<rparr>
               in (Ok (), if t = Tok ''IDENTIFIER'' then l1\<lparr>string_val := Some value\<rparr> else l1)))"

function quoted_loop :: "u16 \<Rightarrow> u16 list \<Rightarrow> Lexer \<Rightarrow> u16 list scan" where
  "quoted_loop quote value l =
     (if is_eof l then (Err (IllegalIdentifier (lx_line l) (pos_column l)), l)
      else if lx_ch l = quote then
        (if char_at l (lx_pos l + 1) = quote
         then quoted_loop quote (value @ [quote]) (scan_char (scan_char l))
         else (Ok value, scan_char l))
      else quoted_loop quote (value @ [lx_ch l]) (scan_char l))"
  by pat_completeness auto
termination
  by (relation "measure (\<lambda>(q, v, l). length (lx_text l) - lx_pos l)") (auto simp: is_eof_def)

declare quoted_loop.simps [simp del]

definition scan_quoted_identifier :: "u16 \<Rightarrow> Token \<Rightarrow> Lexer \<Rightarrow> unit scan" where
  "scan_quoted_identifier quote token l =
     (let l0 = scan_char (l\<lparr>lx_mark := lx_pos l\<rparr>); value_start = lx_pos l0 in
      case quoted_loop quote [] l0 of
        (Err e, l1) \<Rightarrow> (Err e, l1)
      | (Ok value, l1) \<Rightarrow>
          let l1 = l1\<lparr>buf_pos := lx_pos l1 - lx_mark l1, lx_hash := fnv_units value False,
                      hash_l_case := fnv_units value True\<rparr> in
          (case (if value = [] \<and> buf_pos l1 > 2 then lx_slice l1 value_start (buf_pos l1 - 2) else Some value) of
             None \<Rightarrow> (Err Panicked, l1)
           | Some v \<Rightarrow> (Ok (), l1\<lparr>string_val := Some v, lx_token := Some token\<rparr>)))"

definition unescape :: "u16 \<Rightarrow> u16" where
  "unescape c = (if c = 110 then 10 else if c = 114 then 13 else if c = 116 then 9 else if c = 98 then 8
     else if c = 48 then 0 else c)"

function string_loop :: "u16 list \<Rightarrow> Lexer \<Rightarrow> u16 list scan" where
  "string_loop value l =
     (if is_eof l then (Err (UnclosedString (lx_line l) (pos_column l)), l)
      else if lx_ch l = 39 then
        (if char_at l (lx_pos l + 1) = 39 then string_loop (value @ [39]) (scan_char (scan_char l))
         else (Ok value, scan_char l))
      else if lx_ch l = 92 \<and> char_at l (lx_pos l + 1) \<noteq> EOI then
        string_loop (value @ [unescape (lx_ch (scan_char l))]) (scan_char (scan_char l))
      else
        string_loop (value @ [lx_ch l]) (scan_char (if lx_ch l = 10 then l\<lparr>lx_line := lx_line l + 1\<rparr> else l)))"
  by pat_completeness auto
termination
  by (relation "measure (\<lambda>(v, l). length (lx_text l) - lx_pos l)") (auto simp: is_eof_def)

declare string_loop.simps [simp del]

definition scan_string :: "Token \<Rightarrow> Lexer \<Rightarrow> unit scan" where
  "scan_string token l =
     (case string_loop [] (scan_char (l\<lparr>lx_mark := lx_pos l\<rparr>)) of
        (Err e, l1) \<Rightarrow> (Err e, l1)
      | (Ok value, l1) \<Rightarrow>
          (Ok (), l1\<lparr>buf_pos := lx_pos l1 - lx_mark l1, string_val := Some value, lx_token := Some token\<rparr>))"

definition skip_while :: "(u16 \<Rightarrow> bool) \<Rightarrow> Lexer \<Rightarrow> Lexer" where
  "skip_while P l = (case scan_while (total P) l of Some l' \<Rightarrow> l' | None \<Rightarrow> l)"

definition number_exponent :: "Lexer \<Rightarrow> Lexer" where
  "number_exponent l =
     (if lx_ch l = 101 \<or> lx_ch l = 69 then
        (let first = char_at l (lx_pos l + 1); second = char_at l (lx_pos l + 2) in
         if is_digit first \<or> ((first = 43 \<or> first = 45) \<and> is_digit second) then
           (let l = scan_char (l\<lparr>number_exp := True\<rparr>);
                l = (if lx_ch l = 43 \<or> lx_ch l = 45 then scan_char l else l)
            in skip_while is_digit l)
         else l)
      else l)"

definition number_tail :: "Lexer \<Rightarrow> Token \<times> Lexer" where
  "number_tail l =
     (let l = skip_while is_digit l;
          l = (if lx_ch l = 46 \<and> char_at l (lx_pos l + 1) \<noteq> 46 then
                 (let l0 = scan_char (l\<lparr>number_exp := True\<rparr>); l1 = skip_while is_digit l0
                  in l1\<lparr>number_scale := number_scale l1 + (lx_pos l1 - lx_pos l0)\<rparr>)
               else l);
          l = number_exponent l;
          l = l\<lparr>buf_pos := lx_pos l - lx_mark l\<rparr>;
          t = (if number_scale l > 0 \<or> number_exp l then Tok ''LITERAL_FLOAT'' else Tok ''LITERAL_INT'')
      in (t, l\<lparr>lx_token := Some t\<rparr>))"

definition number_rest :: "Lexer \<Rightarrow> Token \<times> Lexer" where
  "number_rest l =
     (if lx_ch l = 48 \<and> (char_at l (lx_pos l + 1) = 120 \<or> char_at l (lx_pos l + 1) = 88) then
        (let l = skip_while is_hex (scan_char (scan_char l)) in
         (Tok ''LITERAL_HEX'', l\<lparr>buf_pos := lx_pos l - lx_mark l, lx_token := Some (Tok ''LITERAL_HEX'')\<rparr>))
      else number_tail l)"

definition scan_number :: "Lexer \<Rightarrow> Token scan" where
  "scan_number l =
     (let l = l\<lparr>lx_mark := lx_pos l, number_scale := 0, number_exp := False\<rparr>;
          l = (if lx_ch l = 45 then scan_char l else l)
      in if lx_ch l = 48 \<and> char_at l (lx_pos l + 1) = 98
            \<and> DialectFeature_is_enabled (Lexer ScanNumberPrefixB) (dialect_feature l) then
           (let l = scan_char (scan_char l); bits_start = lx_pos l; l = skip_while (\<lambda>c. c = 48 \<or> c = 49) l in
            if \<not> is_digit (lx_ch l) then
              (let l = l\<lparr>buf_pos := lx_pos l - lx_mark l\<rparr> in
               case lx_slice l bits_start (lx_pos l - bits_start) of
                 None \<Rightarrow> (Err Panicked, l)
               | Some bits \<Rightarrow> (Ok (Tok ''BITS''), l\<lparr>string_val := Some bits, lx_token := Some (Tok ''BITS'')\<rparr>))
            else apfst Ok (number_rest l))
         else apfst Ok (number_rest l))"

text \<open>The class of the variable loop; its first operand may panic.\<close>

definition variable_char :: "u16 \<Rightarrow> bool option" where
  "variable_char c = (case is_identifier_char c of None \<Rightarrow> None | Some b \<Rightarrow> Some (b \<or> is_digit c))"

definition variable_body :: "Lexer \<Rightarrow> Lexer option" where
  "variable_body l =
     (if lx_ch l = 123 then
        (let l = skip_while (\<lambda>c. c \<noteq> 125) (scan_char l)
         in Some (if lx_ch l = 125 then scan_char l else l))
      else scan_while variable_char l)"

definition scan_variable :: "Lexer \<Rightarrow> unit scan" where
  "scan_variable l =
     (let prefix = lx_ch l;
          l = scan_char (l\<lparr>lx_mark := lx_pos l\<rparr>);
          l = (if lx_ch l = prefix \<and> (prefix = 64 \<or> prefix = 36) then scan_char l else l)
      in case variable_body l of
           None \<Rightarrow> (Err Panicked, l)
         | Some l \<Rightarrow>
             let l = l\<lparr>buf_pos := lx_pos l - lx_mark l\<rparr> in
             (case token_slice l of
                None \<Rightarrow> (Err Panicked, l)
              | Some v \<Rightarrow>
                  (Ok (), l\<lparr>string_val := Some v, lx_hash := fnv_units v False, hash_l_case := fnv_units v True,
                            lx_token := Some (Tok ''VARIANT'')\<rparr>)))"

function comment_loop :: "nat \<Rightarrow> Lexer \<Rightarrow> unit scan" where
  "comment_loop depth l =
     (if depth = 0 then (Ok (), l)
      else if is_eof l then
        (let l = compute_row_and_column l in
         (Err (UnterminatedComment (lx_pos l) (pos_line l) (pos_column l) (lx_token l)), l))
      else if lx_ch l = 47 \<and> char_at l (lx_pos l + 1) = 42 then
        comment_loop (depth + 1) (scan_char (scan_char l))
      else if lx_ch l = 42 \<and> char_at l (lx_pos l + 1) = 47 then
        comment_loop (depth - 1) (scan_char (scan_char l))
      else comment_loop depth (scan_char (if lx_ch l = 10 then l\<lparr>lx_line := lx_line l + 1\<rparr> else l)))"
  by pat_completeness auto
termination
  by (relation "measure (\<lambda>(d, l). length (lx_text l) - lx_pos l)") (auto simp: is_eof_def)

declare comment_loop.simps [simp del]

definition finish_comment :: "Token \<Rightarrow> Lexer \<Rightarrow> Token scan" where
  "finish_comment token l =
     (let l = l\<lparr>buf_pos := lx_pos l - lx_mark l\<rparr> in
      case lx_slice l (lx_mark l) (buf_pos l) of
        None \<Rightarrow> (Err Panicked, l)
      | Some comment \<Rightarrow>
          let l = l\<lparr>string_val := Some comment, lx_token := Some token, comment_count := comment_count l + 1\<rparr> in
          (Ok token,
           if keep_comments l
           then l\<lparr>comments := Some ((case comments l of None \<Rightarrow> [] | Some cs \<Rightarrow> cs) @ [comment])\<rparr>
           else l))"

definition line_end :: "Lexer \<Rightarrow> Lexer" where
  "line_end l =
     (if lx_ch l = 13 then
        (let l = scan_char l; l = (if lx_ch l = 10 then scan_char l else l) in l\<lparr>lx_line := lx_line l + 1\<rparr>)
      else if lx_ch l = 10 then (let l = scan_char l in l\<lparr>lx_line := lx_line l + 1\<rparr>)
      else l)"

definition scan_comment :: "Lexer \<Rightarrow> Token scan" where
  "scan_comment l =
     (if \<not> allow_comment l then (Err NotAllowComment, l)
      else
        let l = l\<lparr>lx_mark := lx_pos l, end_of_comment := False\<rparr> in
        if lx_ch l = 47 \<and> char_at l (lx_pos l + 1) = 42 then
          (case comment_loop 1 (scan_char (scan_char l)) of
             (Err e, l) \<Rightarrow> (Err e, l)
           | (Ok _, l) \<Rightarrow> finish_comment (Tok ''MULTI_LINE_COMMENT'') (l\<lparr>end_of_comment := True\<rparr>))
        else
          (let l = line_end (skip_while (\<lambda>c. c \<noteq> 13 \<and> c \<noteq> 10) (scan_char (scan_char l)))
           in finish_comment (Tok ''LINE_COMMENT'') (l\<lparr>end_of_comment := True\<rparr>)))"

definition OPERATORS :: "(rust_str \<times> Token) list" where
  "OPERATORS =
     [(lit ''!~*'', Tok ''BANG_TILDE_STAR''), (lit ''??|'', Tok ''QUESQUESBAR''),
      (lit ''||/'', Tok ''BARBARSLASH''), (lit ''<=>'', Tok ''LTEQGT''),
      (lit ''<->'', Tok ''LT_SUB_GT''), (lit ''<<<'', Tok ''LTLTLT''),
      (lit ''>>>'', Tok ''GTGTGT''), (lit ''->>'', Tok ''SUBGTGT''),
      (lit ''#>>'', Tok ''POUNDGTGT''), (lit ''...'', Tok ''DOTDOTDOT''),
      (lit ''!!'', Tok ''BANGBANG''), (lit ''!~'', Tok ''BANG_TILDE''),
      (lit ''~*'', Tok ''TILDE_STAR''), (lit ''~='', Tok ''TILDE_EQ''),
      (lit ''??'', Tok ''QUESQUES''), (lit ''?|'', Tok ''QUESBAR''), (lit ''?&'', Tok ''QUESAMP''),
      (lit ''::'', Tok ''COLONCOLON''), (lit '':='', Tok ''COLONEQ''), (lit ''=='', Tok ''EQEQ''),
      (lit ''=>'', Tok ''EQGT''), (lit ''<='', Tok ''LTEQ''), (lit ''<>'', Tok ''LTGT''),
      (lit ''>='', Tok ''GTEQ''), (lit ''!='', Tok ''BANGEQ''), (lit ''!>'', Tok ''BANGGT''),
      (lit ''!<'', Tok ''BANGLT''), (lit ''&&'', Tok ''AMPAMP''), (lit ''||'', Tok ''BARBAR''),
      (lit ''|/'', Tok ''BARSLASH''), (lit ''^='', Tok ''CARETEQ''), (lit ''->'', Tok ''SUBGT''),
      (lit ''<<'', Tok ''LTLT''), (lit ''>>'', Tok ''GTGT''), (lit ''@@'', Tok ''MONKEYS_AT_AT''),
      (lit ''#>'', Tok ''POUNDGT''), (lit ''@>'', Tok ''MONKEYS_AT_GT''),
      (lit ''<@'', Tok ''LT_MONKEYS_AT''), (lit ''..'', Tok ''DOTDOT''),
      (lit ''('', Tok ''LPAREN''), ([65288], Tok ''LPAREN''), (lit '')'', Tok ''RPAREN''),
      ([65289], Tok ''RPAREN''), (lit ''{'', Tok ''LBRACE''), (lit ''}'', Tok ''RBRACE''),
      (lit ''['', Tok ''LBRACKET''), (lit '']'', Tok ''RBRACKET''), (lit '';'', Tok ''SEMI''),
      (lit '','', Tok ''COMMA''), ([65292], Tok ''COMMA''), (lit ''.'', Tok ''DOT''),
      (lit ''='', Tok ''EQ''), (lit ''>'', Tok ''GT''), (lit ''<'', Tok ''LT''),
      (lit ''!'', Tok ''BANG''), (lit ''~'', Tok ''TILDE''), (lit ''?'', Tok ''QUES''),
      (lit '':'', Tok ''COLON''), (lit ''+'', Tok ''PLUS''), (lit ''-'', Tok ''SUB''),
      (lit ''*'', Tok ''STAR''), (lit ''/'', Tok ''SLASH''), (lit ''&'', Tok ''AMP''),
      (lit ''|'', Tok ''BAR''), (lit ''^'', Tok ''CARET''), (lit ''%'', Tok ''PERCENT''),
      (lit ''@'', Tok ''MONKEYS_AT''), (lit ''#'', Tok ''POUND'')]"

definition scan_operator :: "Lexer \<Rightarrow> Token option \<times> Lexer" where
  "scan_operator l =
     (case find (\<lambda>(value, _). starts_with l value) OPERATORS of
        None \<Rightarrow> (None, l)
      | Some (value, token) \<Rightarrow>
          let start = lx_pos l; len = length (encode_utf16 value);
              l = l\<lparr>lx_pos := start + len\<rparr>;
              l = l\<lparr>lx_ch := char_at l (lx_pos l)\<rparr>
          in apfst Some (finish_simple token start len l))"

section \<open>The next token\<close>

text \<open>Positions only grow; this is what the recursion of \<open>next_token\<close> needs.\<close>

definition lx_mono :: "Lexer \<Rightarrow> Lexer \<Rightarrow> bool" where
  "lx_mono l l' \<longleftrightarrow> lx_text l' = lx_text l \<and> lx_pos l \<le> lx_pos l'"

lemma lx_mono_refl [simp]: "lx_mono l l"
  by (simp add: lx_mono_def)

lemma lx_mono_trans: "lx_mono l l1 \<Longrightarrow> lx_mono l1 l2 \<Longrightarrow> lx_mono l l2"
  by (simp add: lx_mono_def)

lemma lx_mono_scan_char [simp]: "lx_mono l (scan_char l)"
  by (simp add: lx_mono_def)

lemma scan_while_mono: "scan_while P l = Some l' \<Longrightarrow> lx_mono l l'"
proof (induction P l rule: scan_while.induct)
  case (1 P l)
  from "1.prems" show ?case
    by (subst (asm) scan_while.simps)
      (auto split: option.splits if_splits dest: "1.IH" intro: lx_mono_trans [OF lx_mono_scan_char])
qed

lemma skip_while_mono [simp]: "lx_mono l (skip_while P l)"
  by (auto simp: skip_while_def split: option.split dest: scan_while_mono)

lemma comment_loop_mono: "comment_loop depth l = (r, l') \<Longrightarrow> lx_mono l l'"
proof (induction depth l rule: comment_loop.induct)
  case (1 depth l)
  note eq = "1.prems" [unfolded comment_loop.simps [of depth l]]
  let ?l = "if lx_ch l = 10 then l\<lparr>lx_line := lx_line l + 1\<rparr> else l"
  have line: "lx_mono l (scan_char ?l)" and two: "lx_mono l (scan_char (scan_char l))"
    by (simp_all add: lx_mono_def)
  have row: "lx_mono l (compute_row_and_column l)"
    by (simp add: lx_mono_def compute_row_and_column_def split: prod.split)
  consider (stop) "depth = 0 \<or> is_eof l"
    | (enter) "depth \<noteq> 0" "\<not> is_eof l" "lx_ch l = 47 \<and> char_at l (lx_pos l + 1) = 42"
    | (leave) "depth \<noteq> 0" "\<not> is_eof l" "\<not> (lx_ch l = 47 \<and> char_at l (lx_pos l + 1) = 42)"
        "lx_ch l = 42 \<and> char_at l (lx_pos l + 1) = 47"
    | (other) "depth \<noteq> 0" "\<not> is_eof l" "\<not> (lx_ch l = 47 \<and> char_at l (lx_pos l + 1) = 42)"
        "\<not> (lx_ch l = 42 \<and> char_at l (lx_pos l + 1) = 47)"
    by blast
  then show ?case
  proof cases
    case stop
    then show ?thesis
      using eq row by (auto simp: Let_def split: if_splits)
  next
    case enter
    then show ?thesis
      using eq "1.IH"(1) [OF enter] lx_mono_trans [OF two] by auto
  next
    case leave
    then show ?thesis
      using eq "1.IH"(2) [OF leave] lx_mono_trans [OF two] by auto
  next
    case other
    have "comment_loop depth (scan_char ?l) = (r, l')"
      using eq unfolding if_not_P [OF other(1)] if_not_P [OF other(2)] if_not_P [OF other(3)] if_not_P [OF other(4)] .
    from lx_mono_trans [OF line "1.IH"(3) [OF other this]] show ?thesis .
  qed
qed

lemma finish_comment_mono: "finish_comment token l = (r, l') \<Longrightarrow> lx_mono l l'"
  by (auto simp: finish_comment_def lx_mono_def Let_def split: option.splits if_splits)

lemma line_end_mono [simp]: "lx_mono l (line_end l)"
  by (simp add: line_end_def lx_mono_def Let_def)

lemma scan_comment_mono:
  assumes "scan_comment l = (Ok t, l')"
  shows "lx_text l' = lx_text l \<and> lx_pos l < lx_pos l'"
proof -
  let ?l = "scan_char (scan_char (l\<lparr>lx_mark := lx_pos l, end_of_comment := False\<rparr>))"
  have "lx_mono ?l l'"
  proof (cases "lx_ch l = 47 \<and> char_at l (lx_pos l + 1) = 42")
    case True
    then obtain l1 where "comment_loop 1 ?l = (Ok (), l1)" "finish_comment (Tok ''MULTI_LINE_COMMENT'') (l1\<lparr>end_of_comment := True\<rparr>) = (Ok t, l')"
      using assms by (auto simp: scan_comment_def char_at_def Let_def split: if_splits prod.splits result.splits)
    then show ?thesis
      using comment_loop_mono finish_comment_mono by (fastforce simp: lx_mono_def)
  next
    case False
    let ?l1 = "line_end (skip_while (\<lambda>c. c \<noteq> 13 \<and> c \<noteq> 10) ?l)"
    have "finish_comment (Tok ''LINE_COMMENT'') (?l1\<lparr>end_of_comment := True\<rparr>) = (Ok t, l')"
      using assms False by (auto simp: scan_comment_def char_at_def Let_def split: if_splits)
    moreover have "lx_mono ?l ?l1"
      using lx_mono_trans [OF skip_while_mono line_end_mono] .
    ultimately show ?thesis
      using finish_comment_mono by (fastforce simp: lx_mono_def)
  qed
  then show ?thesis
    by (simp add: lx_mono_def)
qed

text \<open>White space; \<open>start_line\<close> is the line at which the call began.\<close>

function skip_ws :: "nat \<Rightarrow> Lexer \<Rightarrow> Lexer option" where
  "skip_ws start_line l =
     (case is_whitespace (lx_ch l) of
        None \<Rightarrow> None
      | Some b \<Rightarrow>
          if b \<and> \<not> is_eof l then
            (let l1 = (if lx_ch l = 10 then l\<lparr>lx_line := lx_line l + 1, lx_lines := lx_line l + 1 - start_line\<rparr> else l);
                 l1 = scan_char l1
             in skip_ws start_line (l1\<lparr>start_pos := lx_pos l1\<rparr>))
          else Some l)"
  by pat_completeness auto
termination
  by (relation "measure (\<lambda>(s, l). length (lx_text l) - lx_pos l)") (auto simp: is_eof_def)

declare skip_ws.simps [simp del]

lemma skip_ws_mono: "skip_ws s l = Some l' \<Longrightarrow> lx_mono l l'"
proof (induction s l rule: skip_ws.induct)
  case (1 s l)
  let ?l = "if lx_ch l = 10 then l\<lparr>lx_line := lx_line l + 1, lx_lines := lx_line l + 1 - s\<rparr> else l"
  obtain b where b: "is_whitespace (lx_ch l) = Some b"
    using "1.prems" by (subst (asm) skip_ws.simps) (auto split: option.splits)
  show ?case
  proof (cases "b \<and> \<not> is_eof l")
    case True
    have "skip_ws s ((scan_char ?l)\<lparr>start_pos := lx_pos (scan_char ?l)\<rparr>) = Some l'"
      using "1.prems" unfolding skip_ws.simps [of s l] b option.case if_P [OF True] Let_def .
    moreover have "lx_mono l ((scan_char ?l)\<lparr>start_pos := lx_pos (scan_char ?l)\<rparr>)"
      by (simp add: lx_mono_def)
    ultimately show ?thesis
      using "1.IH" [OF b True refl refl] lx_mono_trans by blast
  next
    case False
    then show ?thesis
      using "1.prems" b by (subst (asm) skip_ws.simps) auto
  qed
qed

text \<open>The dispatch on the first unit of a token, without the cases that continue the loop.\<close>

definition lone :: "nat \<Rightarrow> Token \<Rightarrow> Lexer \<Rightarrow> Token scan" where
  "lone start token l = apfst Ok (finish_simple token start 1 (scan_char l))"

definition with_token :: "Token \<Rightarrow> unit scan \<Rightarrow> Token scan" where
  "with_token token r = (case r of (Ok _, l) \<Rightarrow> (Ok token, l) | (Err e, l) \<Rightarrow> (Err e, l))"

definition starts_number :: "Lexer \<Rightarrow> bool" where
  "starts_number l \<longleftrightarrow>
     is_digit (lx_ch l) \<or> (lx_ch l = 46 \<and> is_digit (char_at l (lx_pos l + 1)))
     \<or> (lx_ch l = 45 \<and> is_digit (char_at l (lx_pos l + 1))
        \<and> lx_token l \<in> set [None, Some (Tok ''COMMA''), Some (Tok ''LPAREN''), Some (Tok ''WITH''), Some (Tok ''BY'')])"

definition starts_comment :: "Lexer \<Rightarrow> bool" where
  "starts_comment l \<longleftrightarrow>
     (lx_ch l = 45 \<and> char_at l (lx_pos l + 1) = 45)
     \<or> (lx_ch l = 47 \<and> (char_at l (lx_pos l + 1) = 47 \<or> char_at l (lx_pos l + 1) = 42))"

definition starts_variable :: "Lexer \<Rightarrow> bool" where
  "starts_variable l \<longleftrightarrow>
     lx_ch l = 36 \<or> lx_ch l = 64 \<or> lx_ch l = 35
     \<or> (lx_ch l = 58 \<and> char_at l (lx_pos l + 1) \<noteq> 58 \<and> char_at l (lx_pos l + 1) \<noteq> 61)"

text \<open>The cases after the comment test.\<close>

definition scan_word :: "Lexer \<Rightarrow> Token scan" where
  "scan_word l =
     (if starts_variable l then with_token (Tok ''VARIANT'') (scan_variable l)
      else case is_first_identifier_char (lx_ch l) of
        None \<Rightarrow> (Err Panicked, l)
      | Some True \<Rightarrow>
          (case scan_identifier l of
             (Err e, l) \<Rightarrow> (Err e, l)
           | (Ok _, l) \<Rightarrow> (Ok (case lx_token l of Some t \<Rightarrow> t | None \<Rightarrow> Tok ''IDENTIFIER''), l))
      | Some False \<Rightarrow>
          (case scan_operator l of
             (Some t, l) \<Rightarrow> (Ok t, l)
           | (None, l) \<Rightarrow>
               (Err (IllegalChar (lx_ch l) (lx_line l) (pos_column l)),
                (scan_char l)\<lparr>lx_token := Some (Tok ''ERROR'')\<rparr>)))"

function next_token_loop :: "nat \<Rightarrow> Lexer \<Rightarrow> Token scan" where
  "next_token_loop start_line l =
     (case skip_ws start_line l of
        None \<Rightarrow> (Err Panicked, l)
      | Some l \<Rightarrow>
          if lx_ch l = EOI \<and> lx_pos l < length (lx_text l) then next_token_loop start_line (scan_char l)
          else if is_eof l then apfst Ok (finish_simple (Tok ''EOF'') (lx_pos l) 0 l)
          else if (lx_ch l = 78 \<or> lx_ch l = 110) \<and> char_at l (lx_pos l + 1) = 39 then
            with_token (Tok ''LITERAL_NCHARS'')
              (scan_string (Tok ''LITERAL_NCHARS'') (l\<lparr>lx_pos := lx_pos l + 1, lx_ch := 39\<rparr>))
          else if lx_ch l = 0xFF08 then lone (lx_pos l) (Tok ''LPAREN'') l
          else if lx_ch l = 0xFF09 then lone (lx_pos l) (Tok ''RPAREN'') l
          else if lx_ch l = 0x2014 \<and> char_at l (lx_pos l + 1) = 0x2014 \<and> char_at l (lx_pos l + 2) = 10 then
            next_token_loop start_line
              (l\<lparr>lx_pos := lx_pos l + 3, lx_ch := char_at l (lx_pos l + 3), lx_line := lx_line l + 1\<rparr>)
          else if lx_ch l = 39 then with_token (Tok ''LITERAL_CHARS'') (scan_string (Tok ''LITERAL_CHARS'') l)
          else if lx_ch l = 34 then with_token (Tok ''LITERAL_ALIAS'') (scan_quoted_identifier 34 (Tok ''LITERAL_ALIAS'') l)
          else if lx_ch l = 96 then with_token (Tok ''IDENTIFIER'') (scan_quoted_identifier 96 (Tok ''IDENTIFIER'') l)
          else if starts_number l then scan_number l
          else if starts_comment l then
            (case scan_comment l of
               (Err e, l1) \<Rightarrow> (Err e, l1)
             | (Ok token, l1) \<Rightarrow> if skip_comment l1 then next_token_loop start_line l1 else (Ok token, l1))
          else scan_word l)"
  by pat_completeness auto
termination
  by (relation "measure (\<lambda>(s, l). length (lx_text l) - lx_pos l)")
    (auto simp: is_eof_def lx_mono_def dest!: skip_ws_mono scan_comment_mono [OF sym])

declare next_token_loop.simps [simp del]

definition next_token :: "Lexer \<Rightarrow> Token scan" where
  "next_token l =
     next_token_loop (lx_line l)
       (l\<lparr>start_pos := lx_pos l, buf_pos := 0, string_val := None,
          comments := (case comments l of Some (c # cs) \<Rightarrow> None | x \<Rightarrow> x), lx_lines := 0\<rparr>)"

section \<open>Construction and control\<close>

function skip_leading :: "Lexer \<Rightarrow> Lexer" where
  "skip_leading l =
     (if (lx_ch l = 0x200B \<or> lx_ch l = 10) \<and> \<not> is_eof l
      then skip_leading (scan_char (if lx_ch l = 10 then l\<lparr>lx_line := lx_line l + 1\<rparr> else l))
      else l)"
  by pat_completeness auto
termination
  by (relation "measure (\<lambda>l. length (lx_text l) - lx_pos l)") (auto simp: is_eof_def)

declare skip_leading.simps [simp del]

definition from_rdbc_string :: "u16 list \<Rightarrow> DbType option \<Rightarrow> bool \<Rightarrow> Lexer" where
  "from_rdbc_string units db skip =
     (let l = \<lparr>lx_text = units, lx_features = 0, lx_pos = 0, lx_mark = 0, number_scale = 0, number_exp = False,
                lx_ch = EOI, buf_pos = 0, lx_token = None,
                keyword_set = (case db of Some SQLite \<Rightarrow> SQLiteSet | Some Dm \<Rightarrow> DmSet | _ \<Rightarrow> DefaultSet),
                string_val = None, hash_l_case = 0, lx_hash = 0, comment_count = 0, comments = None,
                skip_comment = skip, save_point = None, allow_comment = True, var_index = - 1,
                end_of_comment = False, keep_comments = False, lx_line = 0, lx_lines = 0, db_type = db,
                optimized_for_parameterized = False, keep_source_location = False, start_pos = 0,
                pos_line = 0, pos_column = 0, dialect_feature = DialectFeature_new\<rparr>
      in skip_leading (l\<lparr>lx_ch := char_at l 0\<rparr>))"

definition Lexer_new :: "rust_str \<Rightarrow> Lexer" where
  "Lexer_new input = from_rdbc_string (encode_utf16 input) None True"

definition with_db_type :: "rust_str \<Rightarrow> DbType \<Rightarrow> Lexer" where
  "with_db_type input db = from_rdbc_string (encode_utf16 input) (Some db) True"

definition next_var_index :: "Lexer \<Rightarrow> 32 word \<times> Lexer" where
  "next_var_index l = (var_index l + 1, l\<lparr>var_index := var_index l + 1\<rparr>)"

definition lexer_config :: "SqlParserFeature \<Rightarrow> bool \<Rightarrow> Lexer \<Rightarrow> Lexer" where
  "lexer_config feature enable l =
     (let l = l\<lparr>lx_features := SqlParserFeature_config (lx_features l) feature enable\<rparr> in
      case feature of
        OptimizedForParameterized \<Rightarrow> l\<lparr>optimized_for_parameterized := enable\<rparr>
      | KeepComments \<Rightarrow> l\<lparr>keep_comments := enable\<rparr>
      | KeepSourceLocation \<Rightarrow> l\<lparr>keep_source_location := enable\<rparr>
      | SkipComments \<Rightarrow> l\<lparr>skip_comment := enable\<rparr>
      | _ \<Rightarrow> l)"

definition config_lexer_feature :: "LexerFeature \<Rightarrow> bool \<Rightarrow> Lexer \<Rightarrow> Lexer" where
  "config_lexer_feature feature enable l = l\<lparr>dialect_feature := config_feature (Lexer feature) enable (dialect_feature l)\<rparr>"

definition mark_out :: "Lexer \<Rightarrow> LexerSavePoint" where
  "mark_out l =
     \<lparr>sp_pos = lx_pos l, sp_start_pos = start_pos l, sp_buf_pos = buf_pos l, sp_mark = lx_mark l, sp_ch = lx_ch l,
      sp_hash = lx_hash l, sp_hash_l_case = hash_l_case l, sp_token = lx_token l, sp_string_val = string_val l,
      sp_line = lx_line l\<rparr>"

definition lexer_mark :: "Lexer \<Rightarrow> LexerSavePoint \<times> Lexer" where
  "lexer_mark l = (mark_out l, l\<lparr>save_point := Some (mark_out l)\<rparr>)"

definition lexer_reset :: "LexerSavePoint \<Rightarrow> Lexer \<Rightarrow> Lexer" where
  "lexer_reset s l =
     l\<lparr>lx_pos := sp_pos s, start_pos := sp_start_pos s, buf_pos := sp_buf_pos s, lx_mark := sp_mark s,
       lx_ch := sp_ch s, lx_hash := sp_hash s, hash_l_case := sp_hash_l_case s, lx_token := sp_token s,
       string_val := sp_string_val s, lx_line := sp_line s\<rparr>"

definition reset_saved :: "Lexer \<Rightarrow> Lexer" where
  "reset_saved l = (case save_point l of Some s \<Rightarrow> lexer_reset s l | None \<Rightarrow> l)"

definition reset_pos :: "nat \<Rightarrow> Lexer \<Rightarrow> Lexer" where
  "reset_pos p l = l\<lparr>lx_pos := p, lx_ch := char_at l p\<rparr>"

definition next_if :: "Token \<Rightarrow> Lexer \<Rightarrow> bool scan" where
  "next_if token l =
     (if lx_token l = Some token
      then (case next_token l of (Ok _, l) \<Rightarrow> (Ok True, l) | (Err e, l) \<Rightarrow> (Err e, l))
      else (Ok False, l))"

definition skip_to_eof :: "Lexer \<Rightarrow> Lexer" where
  "skip_to_eof l = l\<lparr>lx_pos := length (lx_text l), lx_ch := EOI, lx_token := Some (Tok ''EOF'')\<rparr>"

section \<open>Progress of the scanners\<close>

text \<open>The invariant of the state, and what a scanner does to it: the text stays, the position moves by at
  least \<open>n\<close> units and does not leave the text.\<close>

definition lx_inv :: "Lexer \<Rightarrow> bool" where
  "lx_inv l \<longleftrightarrow> lx_pos l \<le> length (lx_text l) \<and> lx_ch l = char_at l (lx_pos l)"

definition scans :: "nat \<Rightarrow> Lexer \<Rightarrow> Lexer \<Rightarrow> bool" where
  "scans n l l' \<longleftrightarrow> lx_text l' = lx_text l \<and> lx_pos l + n \<le> lx_pos l' \<and> lx_inv l'"

definition loops :: "nat \<Rightarrow> Lexer \<Rightarrow> Lexer \<Rightarrow> bool" where
  "loops n l l' \<longleftrightarrow> scans n l l' \<and> lx_mark l' = lx_mark l"

lemma char_at_cong: "lx_text l = lx_text l' \<Longrightarrow> char_at l i = char_at l' i"
  by (simp add: char_at_def)

lemma loops_refl: "lx_inv l \<Longrightarrow> loops 0 l l"
  by (simp add: loops_def scans_def)

lemma loops_trans: "loops m l l' \<Longrightarrow> loops n l' l'' \<Longrightarrow> loops (m + n) l l''"
  by (simp add: loops_def scans_def)

lemma loops_weaken: "loops n l l' \<Longrightarrow> m \<le> n \<Longrightarrow> loops m l l'"
  by (simp add: loops_def scans_def)

lemma loops_scan_char: "lx_inv l \<Longrightarrow> \<not> is_eof l \<Longrightarrow> loops 1 l (scan_char l)"
  by (simp add: loops_def scans_def lx_inv_def is_eof_def scan_char_def char_at_def)

lemma loops_inv: "loops n l l' \<Longrightarrow> lx_inv l'"
  by (simp add: loops_def scans_def)

lemma loops_step: "loops m l l1 \<Longrightarrow> (lx_inv l1 \<Longrightarrow> loops n l1 l2) \<Longrightarrow> loops m l l2"
  using loops_inv loops_trans [of m l l1 n l2] loops_weaken [of "m + n" l l2 m] by auto

text \<open>Fields that the invariant does not mention may change.\<close>

lemma loops_cong:
  assumes "loops n l l'" and "lx_text l1 = lx_text l" "lx_pos l1 = lx_pos l" "lx_mark l1 = lx_mark l"
  shows "loops n l1 l'"
  using assms by (simp add: loops_def scans_def)

lemma lx_inv_cong:
  "lx_text l1 = lx_text l \<Longrightarrow> lx_pos l1 = lx_pos l \<Longrightarrow> lx_ch l1 = lx_ch l \<Longrightarrow> lx_inv l1 = lx_inv l"
  using char_at_cong [of l1 l] by (simp add: lx_inv_def)

lemma loops_scan_two:
  assumes "lx_inv l" and "\<not> is_eof l" and "char_at l (lx_pos l + 1) \<noteq> EOI"
  shows "loops 2 l (scan_char (scan_char l))"
proof -
  have "\<not> is_eof (scan_char l)"
    using assms(3) by (auto simp: is_eof_def char_at_def split: if_splits)
  then have "loops 1 (scan_char l) (scan_char (scan_char l))"
    by (rule loops_scan_char [OF loops_inv [OF loops_scan_char [OF assms(1,2)]]])
  from loops_trans [OF loops_scan_char [OF assms(1,2)] this] show ?thesis
    by (simp add: numeral_2_eq_2)
qed

lemma scan_while_loops: "lx_inv l \<Longrightarrow> scan_while P l = Some l' \<Longrightarrow> loops 0 l l'"
proof (induction P l rule: scan_while.induct)
  case (1 P l)
  obtain b where b: "P (lx_ch l) = Some b"
    using "1.prems"(2) by (subst (asm) scan_while.simps) (auto split: option.splits)
  show ?case
  proof (cases "b \<and> \<not> is_eof l")
    case True
    then have "scan_while P (scan_char l) = Some l'"
      using "1.prems"(2) b by (subst (asm) scan_while.simps) simp
    moreover have step: "loops 0 l (scan_char l)"
      using loops_scan_char [OF "1.prems"(1)] True loops_weaken [of 1 l "scan_char l" 0] by simp
    ultimately show ?thesis
      using "1.IH" [OF b True] loops_step [OF step] by blast
  next
    case False
    then have "l' = l"
      using "1.prems"(2) b by (subst (asm) scan_while.simps) auto
    then show ?thesis
      using loops_refl "1.prems"(1) by blast
  qed
qed

lemma scan_while_total: "\<exists>l'. scan_while (total P) l = Some l'"
proof (induction "total P" l rule: scan_while.induct)
  case (1 l)
  then show ?case
    by (subst scan_while.simps) (auto simp: total_def)
qed

lemma skip_while_loops: "lx_inv l \<Longrightarrow> loops 0 l (skip_while P l)"
  using scan_while_total [of P l] scan_while_loops [of l "total P"] by (auto simp: skip_while_def)

lemma identifier_loop_loops: "lx_inv l \<Longrightarrow> identifier_loop l = Some l' \<Longrightarrow> loops 0 l l'"
proof (induction l rule: identifier_loop.induct)
  case (1 l)
  let ?l = "l\<lparr>lx_hash := fnv_add (lx_hash l) (lx_ch l) False, hash_l_case := fnv_add (hash_l_case l) (lx_ch l) True\<rparr>"
  obtain b where b: "is_identifier_char (lx_ch l) = Some b"
    using "1.prems"(2) by (subst (asm) identifier_loop.simps) (auto split: option.splits)
  show ?case
  proof (cases "b \<and> \<not> is_eof l")
    case True
    then have run: "identifier_loop (scan_char ?l) = Some l'"
      using "1.prems"(2) b by (subst (asm) identifier_loop.simps) simp
    have "lx_inv ?l" "\<not> is_eof ?l"
      using "1.prems"(1) True lx_inv_cong [of ?l l] by (simp_all add: is_eof_def)
    from loops_scan_char [OF this] have step: "loops 0 l (scan_char ?l)"
      using loops_cong [of 0 ?l "scan_char ?l" l] loops_weaken by simp
    from loops_step [OF this] show ?thesis
      using "1.IH" [OF b True] run by blast
  next
    case False
    then have "l' = l"
      using "1.prems"(2) b by (subst (asm) identifier_loop.simps) auto
    then show ?thesis
      using loops_refl "1.prems"(1) by blast
  qed
qed

lemma quoted_loop_loops:
  "lx_inv l \<Longrightarrow> quote \<noteq> EOI \<Longrightarrow> quoted_loop quote value l = (Ok v, l') \<Longrightarrow> loops 1 l l'"
proof (induction quote "value" l rule: quoted_loop.induct)
  case (1 quote "value" l)
  note eq = "1.prems"(3) [unfolded quoted_loop.simps [of quote "value" l]]
  have eof: "\<not> is_eof l"
    using eq by (auto split: if_splits)
  note one = loops_scan_char [OF "1.prems"(1) eof]
  consider (twice) "lx_ch l = quote" "char_at l (lx_pos l + 1) = quote"
    | (close) "l' = scan_char l"
    | (other) "lx_ch l \<noteq> quote"
    using eq eof by (auto split: if_splits)
  then show ?case
  proof cases
    case twice
    then have step: "loops 1 l (scan_char (scan_char l))"
      using loops_scan_two [OF "1.prems"(1) eof] "1.prems"(2) loops_weaken by auto
    then show ?thesis
      using "1.IH"(1) [OF eof twice loops_inv [OF step] "1.prems"(2)] eq eof twice loops_step [OF step] by simp
  next
    case close
    with one show ?thesis
      by simp
  next
    case other
    then show ?thesis
      using "1.IH"(2) [OF eof other loops_inv [OF one] "1.prems"(2)] eq eof loops_step [OF one] by simp
  qed
qed

lemma string_loop_loops: "lx_inv l \<Longrightarrow> string_loop value l = (Ok v, l') \<Longrightarrow> loops 1 l l'"
proof (induction "value" l rule: string_loop.induct)
  case (1 "value" l)
  note eq = "1.prems"(2) [unfolded string_loop.simps [of "value" l]]
  have eof: "\<not> is_eof l"
    using eq by (auto split: if_splits)
  note one = loops_scan_char [OF "1.prems"(1) eof]
  let ?l = "if lx_ch l = 10 then l\<lparr>lx_line := lx_line l + 1\<rparr> else l"
  consider (twice) "lx_ch l = 39" "char_at l (lx_pos l + 1) = 39"
    | (close) "l' = scan_char l"
    | (escape) "lx_ch l \<noteq> 39" "lx_ch l = 92 \<and> char_at l (lx_pos l + 1) \<noteq> EOI"
    | (other) "lx_ch l \<noteq> 39" "\<not> (lx_ch l = 92 \<and> char_at l (lx_pos l + 1) \<noteq> EOI)"
    using eq eof by (auto split: if_splits)
  then show ?case
  proof cases
    case twice
    then have step: "loops 1 l (scan_char (scan_char l))"
      using loops_scan_two [OF "1.prems"(1) eof] loops_weaken by (auto simp: EOI_def)
    then show ?thesis
      using "1.IH"(1) [OF eof twice loops_inv [OF step]] eq eof twice loops_step [OF step] by simp
  next
    case close
    with one show ?thesis
      by simp
  next
    case escape
    then have step: "loops 1 l (scan_char (scan_char l))"
      using loops_scan_two [OF "1.prems"(1) eof] loops_weaken by auto
    then show ?thesis
      using "1.IH"(2) [OF eof escape loops_inv [OF step]] eq eof escape loops_step [OF step] by simp
  next
    case other
    have "lx_inv ?l" "\<not> is_eof ?l"
      using "1.prems"(1) eof lx_inv_cong [of "l\<lparr>lx_line := lx_line l + 1\<rparr>" l] by (auto simp: is_eof_def)
    from loops_scan_char [OF this] have step: "loops 1 l (scan_char ?l)"
      by (rule loops_cong) auto
    have "string_loop (value @ [lx_ch l]) (scan_char ?l) = (Ok v, l')"
      using eq unfolding if_not_P [OF eof] if_not_P [OF other(1)] if_not_P [OF other(2)] .
    from loops_step [OF step "1.IH"(3) [OF eof other _ this]] show ?thesis .
  qed
qed

lemma comment_loop_loops: "lx_inv l \<Longrightarrow> comment_loop depth l = (Ok v, l') \<Longrightarrow> loops 0 l l'"
proof (induction depth l rule: comment_loop.induct)
  case (1 depth l)
  note eq = "1.prems"(2) [unfolded comment_loop.simps [of depth l]]
  let ?l = "if lx_ch l = 10 then l\<lparr>lx_line := lx_line l + 1\<rparr> else l"
  show ?case
  proof (cases "depth = 0")
    case True
    then show ?thesis
      using eq loops_refl "1.prems"(1) by auto
  next
    case False
    then have eof: "\<not> is_eof l"
      using eq by (auto split: if_splits simp: Let_def)
    have two: "loops 0 l (scan_char (scan_char l))" if "char_at l (lx_pos l + 1) \<in> {42, 47}"
      using loops_scan_two [OF "1.prems"(1) eof] that loops_weaken [of 2 l "scan_char (scan_char l)" 0]
      by (auto simp: EOI_def)
    consider (enter) "lx_ch l = 47 \<and> char_at l (lx_pos l + 1) = 42"
      | (leave) "\<not> (lx_ch l = 47 \<and> char_at l (lx_pos l + 1) = 42)" "lx_ch l = 42 \<and> char_at l (lx_pos l + 1) = 47"
      | (other) "\<not> (lx_ch l = 47 \<and> char_at l (lx_pos l + 1) = 42)" "\<not> (lx_ch l = 42 \<and> char_at l (lx_pos l + 1) = 47)"
      by blast
    then show ?thesis
    proof cases
      case enter
      then show ?thesis
        using "1.IH"(1) [OF False eof enter loops_inv [OF two]] eq False eof loops_step [OF two] by simp
    next
      case leave
      then show ?thesis
        using "1.IH"(2) [OF False eof leave loops_inv [OF two]] eq False eof loops_step [OF two] by auto
    next
      case other
      have "lx_inv ?l" "\<not> is_eof ?l"
        using "1.prems"(1) eof lx_inv_cong [of "l\<lparr>lx_line := lx_line l + 1\<rparr>" l] by (auto simp: is_eof_def)
      from loops_scan_char [OF this] have "loops 1 l (scan_char ?l)"
        by (rule loops_cong) auto
      then have step: "loops 0 l (scan_char ?l)"
        by (rule loops_weaken) simp
      then show ?thesis
        using "1.IH"(3) [OF False eof other loops_inv [OF step]] eq False eof other loops_step [OF step] by auto
    qed
  qed
qed

text \<open>The text has no unit 256, the one unit at which a character class panics.\<close>

definition lx_clean :: "Lexer \<Rightarrow> bool" where
  "lx_clean l \<longleftrightarrow> lx_inv l \<and> 256 \<notin> set (lx_text l)"

lemma loops_clean: "lx_clean l \<Longrightarrow> loops n l l' \<Longrightarrow> lx_clean l'"
  by (simp add: lx_clean_def loops_def scans_def)

lemma clean_ch: "lx_clean l \<Longrightarrow> lx_ch l \<noteq> 256"
  by (auto simp: lx_clean_def lx_inv_def char_at_def EOI_def split: if_splits) (metis nth_mem)

lemma class_defined:
  assumes "c \<noteq> 256"
  shows "is_whitespace c \<noteq> None" and "is_identifier_char c \<noteq> None" and "is_first_identifier_char c \<noteq> None"
    and "variable_char c \<noteq> None"
  using assms
  by (auto simp: is_whitespace_def is_identifier_char_def is_first_identifier_char_def variable_char_def)

lemma scan_while_defined:
  assumes "\<And>c. c \<noteq> 256 \<Longrightarrow> P c \<noteq> None" and "lx_clean l"
  shows "\<exists>l'. scan_while P l = Some l'"
  using assms
proof (induction P l rule: scan_while.induct)
  case (1 P l)
  obtain b where b: "P (lx_ch l) = Some b"
    using "1.prems" clean_ch by blast
  show ?case
  proof (cases "b \<and> \<not> is_eof l")
    case True
    then have "lx_clean (scan_char l)"
      using "1.prems"(2) loops_clean [OF _ loops_scan_char] by (simp add: lx_clean_def)
    then show ?thesis
      using "1.IH" [OF b True "1.prems"(1)] True b by (subst scan_while.simps) simp
  next
    case False
    then show ?thesis
      using b by (subst scan_while.simps) auto
  qed
qed

lemma identifier_loop_defined: "lx_clean l \<Longrightarrow> \<exists>l'. identifier_loop l = Some l'"
proof (induction l rule: identifier_loop.induct)
  case (1 l)
  let ?l = "l\<lparr>lx_hash := fnv_add (lx_hash l) (lx_ch l) False, hash_l_case := fnv_add (hash_l_case l) (lx_ch l) True\<rparr>"
  obtain b where b: "is_identifier_char (lx_ch l) = Some b"
    using "1.prems" clean_ch class_defined(2) by blast
  show ?case
  proof (cases "b \<and> \<not> is_eof l")
    case True
    have "lx_clean ?l" "\<not> is_eof ?l"
      using "1.prems" True lx_inv_cong [of ?l l] by (simp_all add: lx_clean_def is_eof_def)
    then have "lx_clean (scan_char ?l)"
      using loops_clean [OF _ loops_scan_char] by (simp add: lx_clean_def)
    then show ?thesis
      using "1.IH" [OF b True] True b by (subst identifier_loop.simps) simp
  next
    case False
    then show ?thesis
      using b by (subst identifier_loop.simps) auto
  qed
qed

lemma scan_while_progress:
  assumes "lx_inv l" and "\<not> is_eof l" and "P (lx_ch l) = Some True" and "scan_while P l = Some l'"
  shows "loops 1 l l'"
proof -
  have "scan_while P (scan_char l) = Some l'"
    using assms(2-4) by (subst (asm) scan_while.simps) simp
  with loops_step [OF loops_scan_char [OF assms(1,2)] scan_while_loops] show ?thesis
    by blast
qed

lemma skip_while_progress: "lx_inv l \<Longrightarrow> \<not> is_eof l \<Longrightarrow> P (lx_ch l) \<Longrightarrow> loops 1 l (skip_while P l)"
  using scan_while_total [of P l] scan_while_progress [of l "total P"] by (auto simp: skip_while_def total_def)

text \<open>What a scanner may do: it does not panic, and when it returns a value it has moved by at least \<open>n\<close>.\<close>

definition safe_scan :: "nat \<Rightarrow> Lexer \<Rightarrow> 'a scan \<Rightarrow> bool" where
  "safe_scan n l r \<longleftrightarrow> fst r \<noteq> Err Panicked \<and> (\<forall>v. fst r = Ok v \<longrightarrow> scans n l (snd r))"

lemma slice_defined: "lx_inv l \<Longrightarrow> m \<le> lx_pos l \<Longrightarrow> \<exists>v. lx_slice l m (lx_pos l - m) = Some v"
  by (simp add: lx_slice_def lx_inv_def)

lemma string_loop_no_panic: "fst (string_loop value l) \<noteq> Err Panicked"
proof (induction "value" l rule: string_loop.induct)
  case (1 "value" l)
  then show ?case
    by (subst string_loop.simps) simp
qed

lemma quoted_loop_no_panic: "fst (quoted_loop quote value l) \<noteq> Err Panicked"
proof (induction quote "value" l rule: quoted_loop.induct)
  case (1 quote "value" l)
  then show ?case
    by (subst quoted_loop.simps) simp
qed

lemma comment_loop_no_panic: "fst (comment_loop depth l) \<noteq> Err Panicked"
proof (induction depth l rule: comment_loop.induct)
  case (1 depth l)
  then show ?case
    by (subst comment_loop.simps) (simp add: Let_def)
qed

text \<open>A scanner starts by setting the mark; the loops that follow keep it.\<close>

lemma loops_from_mark:
  assumes "loops n (l\<lparr>lx_mark := lx_pos l\<rparr>) l'"
  shows "scans n l l' \<and> lx_mark l' = lx_pos l \<and> lx_mark l' \<le> lx_pos l'"
  using assms by (simp add: loops_def scans_def)

text \<open>The invariant reads the text, the position and the current unit only.\<close>

lemma lx_inv_update [simp]:
  "lx_inv (l\<lparr>lx_mark := x0\<rparr>) = lx_inv l"
  "lx_inv (l\<lparr>buf_pos := x1\<rparr>) = lx_inv l"
  "lx_inv (l\<lparr>lx_token := x2\<rparr>) = lx_inv l"
  "lx_inv (l\<lparr>string_val := x3\<rparr>) = lx_inv l"
  "lx_inv (l\<lparr>lx_hash := x4\<rparr>) = lx_inv l"
  "lx_inv (l\<lparr>hash_l_case := x5\<rparr>) = lx_inv l"
  "lx_inv (l\<lparr>lx_line := x6\<rparr>) = lx_inv l"
  "lx_inv (l\<lparr>lx_lines := x7\<rparr>) = lx_inv l"
  "lx_inv (l\<lparr>start_pos := x8\<rparr>) = lx_inv l"
  "lx_inv (l\<lparr>number_scale := x9\<rparr>) = lx_inv l"
  "lx_inv (l\<lparr>number_exp := x10\<rparr>) = lx_inv l"
  "lx_inv (l\<lparr>comments := x11\<rparr>) = lx_inv l"
  "lx_inv (l\<lparr>comment_count := x12\<rparr>) = lx_inv l"
  "lx_inv (l\<lparr>end_of_comment := x13\<rparr>) = lx_inv l"
  by (simp_all add: lx_inv_def char_at_def)

lemma is_eof_update [simp]:
  "is_eof (l\<lparr>lx_mark := x0\<rparr>) = is_eof l"
  "is_eof (l\<lparr>buf_pos := x1\<rparr>) = is_eof l"
  "is_eof (l\<lparr>lx_token := x2\<rparr>) = is_eof l"
  "is_eof (l\<lparr>string_val := x3\<rparr>) = is_eof l"
  "is_eof (l\<lparr>lx_hash := x4\<rparr>) = is_eof l"
  "is_eof (l\<lparr>hash_l_case := x5\<rparr>) = is_eof l"
  "is_eof (l\<lparr>lx_line := x6\<rparr>) = is_eof l"
  "is_eof (l\<lparr>lx_lines := x7\<rparr>) = is_eof l"
  "is_eof (l\<lparr>start_pos := x8\<rparr>) = is_eof l"
  "is_eof (l\<lparr>number_scale := x9\<rparr>) = is_eof l"
  "is_eof (l\<lparr>number_exp := x10\<rparr>) = is_eof l"
  "is_eof (l\<lparr>comments := x11\<rparr>) = is_eof l"
  "is_eof (l\<lparr>comment_count := x12\<rparr>) = is_eof l"
  "is_eof (l\<lparr>end_of_comment := x13\<rparr>) = is_eof l"
  by (simp_all add: is_eof_def)

lemma scan_string_safe:
  assumes "lx_inv l" and "\<not> is_eof l"
  shows "safe_scan 1 l (scan_string token l)"
proof -
  let ?l = "l\<lparr>lx_mark := lx_pos l\<rparr>"
  have start: "loops 1 ?l (scan_char ?l)"
    using loops_scan_char [of ?l] assms by simp
  obtain r l1 where run: "string_loop [] (scan_char ?l) = (r, l1)"
    by fastforce
  have "r \<noteq> Err Panicked"
    using string_loop_no_panic [of "[]" "scan_char ?l"] run by simp
  moreover have "scans 1 l l1" if "r = Ok v" for v
    using loops_from_mark [OF loops_step [OF start string_loop_loops]] run that by simp
  ultimately show ?thesis
    using run by (cases r) (simp_all add: safe_scan_def scan_string_def scans_def)
qed

lemma scan_quoted_identifier_safe:
  assumes "lx_inv l" and "\<not> is_eof l" and "quote \<noteq> EOI"
  shows "safe_scan 1 l (scan_quoted_identifier quote token l)"
proof -
  let ?l = "l\<lparr>lx_mark := lx_pos l\<rparr>"
  have start: "loops 1 ?l (scan_char ?l)"
    using loops_scan_char [of ?l] assms by simp
  have no: "fst (quoted_loop quote [] (scan_char ?l)) \<noteq> Err Panicked"
    by (rule quoted_loop_no_panic)
  have ok: "scans 1 l l1 \<and> lx_mark l1 = lx_pos l \<and> (\<exists>w. lx_slice l1 (Suc (lx_pos l)) (lx_pos l1 - lx_pos l - 2) = Some w)"
    if "quoted_loop quote [] (scan_char ?l) = (Ok v, l1)" for v l1
  proof -
    have "scans 1 l l1 \<and> lx_mark l1 = lx_pos l"
      using loops_from_mark [OF loops_step [OF start quoted_loop_loops [OF _ assms(3) that]]] by simp
    moreover from this have "Suc (lx_pos l) + (lx_pos l1 - lx_pos l - 2) \<le> length (lx_text l1)"
      by (auto simp: scans_def lx_inv_def)
    ultimately show ?thesis
      by (simp add: lx_slice_def)
  qed
  show ?thesis
  proof (cases "quoted_loop quote [] (scan_char ?l)")
    case (Pair r l1)
    show ?thesis
    proof (cases r)
      case (Ok v)
      with ok Pair obtain w where "scans 1 l l1" "lx_mark l1 = lx_pos l"
        "lx_slice l1 (Suc (lx_pos l)) (lx_pos l1 - lx_pos l - 2) = Some w"
        by blast
      with Ok Pair show ?thesis
        by (auto simp: safe_scan_def scan_quoted_identifier_def Let_def scans_def lx_inv_def char_at_def lx_slice_def)
    next
      case (Err e)
      with Pair no show ?thesis
        by (simp add: safe_scan_def scan_quoted_identifier_def Let_def)
    qed
  qed
qed

lemma scan_identifier_safe:
  assumes "lx_clean l"
  shows "safe_scan 0 l (scan_identifier l)"
    and "is_identifier_char (lx_ch l) = Some True \<Longrightarrow> \<not> is_eof l \<Longrightarrow> safe_scan 1 l (scan_identifier l)"
proof -
  let ?l = "l\<lparr>lx_mark := lx_pos l, lx_hash := FNV_BASIC, hash_l_case := FNV_BASIC\<rparr>"
  have clean: "lx_clean ?l"
    using assms lx_inv_cong [of ?l l] by (simp add: lx_clean_def)
  obtain l1 where l1: "identifier_loop ?l = Some l1"
    using identifier_loop_defined [OF clean] by blast
  have result: "safe_scan n l (scan_identifier l)" if "loops n ?l l1" for n
  proof -
    have s: "scans n l l1" "lx_mark l1 = lx_pos l" "lx_mark l1 \<le> lx_pos l1"
      using that by (simp_all add: loops_def scans_def)
    then obtain v where "lx_slice l1 (lx_mark l1) (lx_pos l1 - lx_mark l1) = Some v"
      using slice_defined [of l1 "lx_mark l1"] by (auto simp: scans_def)
    then have "lx_slice (l1\<lparr>buf_pos := lx_pos l1 - lx_mark l1\<rparr>) (lx_mark l1) (lx_pos l1 - lx_mark l1) = Some v"
      by (auto simp: lx_slice_def split: if_splits)
    with l1 s(1) show ?thesis
      by (simp add: safe_scan_def scan_identifier_def Let_def scans_def)
  qed
  show "safe_scan 0 l (scan_identifier l)"
    using identifier_loop_loops [OF _ l1] clean by (intro result) (simp add: lx_clean_def)
  show "safe_scan 1 l (scan_identifier l)" if "is_identifier_char (lx_ch l) = Some True" "\<not> is_eof l"
  proof (rule result)
    let ?m = "?l\<lparr>lx_hash := fnv_add FNV_BASIC (lx_ch l) False, hash_l_case := fnv_add FNV_BASIC (lx_ch l) True\<rparr>"
    have m: "lx_inv ?m" "\<not> is_eof ?m"
      using clean that lx_inv_cong [of ?m l] lx_inv_cong [of ?l l] by (simp_all add: lx_clean_def is_eof_def)
    have "identifier_loop (scan_char ?m) = Some l1"
      using l1 that by (subst (asm) identifier_loop.simps) (simp add: is_eof_def)
    with loops_step [OF loops_scan_char [OF m] identifier_loop_loops] have "loops 1 ?m l1"
      by blast
    then show "loops 1 ?l l1"
      by (rule loops_cong) simp_all
  qed
qed

lemma scan_variable_safe:
  assumes "lx_clean l" and "\<not> is_eof l"
  shows "safe_scan 1 l (scan_variable l)"
proof -
  let ?l = "l\<lparr>lx_mark := lx_pos l\<rparr>"
  define l1 where "l1 = (if lx_ch (scan_char ?l) = lx_ch l \<and> (lx_ch l = 64 \<or> lx_ch l = 36)
    then scan_char (scan_char ?l) else scan_char ?l)"
  have start: "loops 1 ?l (scan_char ?l)"
    using loops_scan_char [of ?l] assms by (simp add: lx_clean_def)
  have "\<not> is_eof (scan_char ?l)" if "lx_ch (scan_char ?l) = lx_ch l" "lx_ch l = 64 \<or> lx_ch l = 36"
    using that loops_inv [OF start] by (auto simp: lx_inv_def char_at_def is_eof_def EOI_def split: if_splits)
  then have l1: "loops 1 ?l l1"
    using start loops_step [OF start loops_scan_char] by (simp add: l1_def)
  then have clean: "lx_clean l1"
    using loops_clean [OF _ l1] assms(1) by (simp add: lx_clean_def)
  have "\<exists>l2. variable_body l1 = Some l2 \<and> loops 0 l1 l2"
  proof (cases "lx_ch l1 = 123")
    case True
    let ?m = "skip_while (\<lambda>c. c \<noteq> 125) (scan_char l1)"
    have "\<not> is_eof l1"
      using True clean by (auto simp: lx_clean_def lx_inv_def char_at_def is_eof_def EOI_def split: if_splits)
    then have "loops 1 l1 (scan_char l1)"
      using clean loops_scan_char [of l1] by (simp add: lx_clean_def)
    then have m: "loops 1 l1 ?m"
      by (rule loops_step [OF _ skip_while_loops])
    have "\<not> is_eof ?m" if "lx_ch ?m = 125"
      using that loops_inv [OF m] by (auto simp: lx_inv_def char_at_def is_eof_def EOI_def split: if_splits)
    then have "loops 0 l1 (if lx_ch ?m = 125 then scan_char ?m else ?m)"
      using m loops_step [OF m loops_scan_char] loops_weaken by auto
    with True show ?thesis
      by (simp add: variable_body_def Let_def)
  next
    case False
    moreover obtain l2 where "scan_while variable_char l1 = Some l2"
      using scan_while_defined [where P = variable_char, OF class_defined(4) clean] by blast
    ultimately show ?thesis
      using scan_while_loops clean by (auto simp: variable_body_def lx_clean_def)
  qed
  then obtain l2 where l2: "variable_body l1 = Some l2" "loops 0 l1 l2"
    by blast
  have s: "scans 1 l l2" "lx_mark l2 = lx_pos l" "lx_mark l2 \<le> lx_pos l2"
    using loops_from_mark [OF loops_step [OF l1 l2(2)]] by simp_all
  then obtain v where "lx_slice l2 (lx_mark l2) (lx_pos l2 - lx_mark l2) = Some v"
    using slice_defined [of l2 "lx_mark l2"] by (auto simp: scans_def)
  then have v: "token_slice (l2\<lparr>buf_pos := lx_pos l2 - lx_mark l2\<rparr>) = Some v"
    by (auto simp: token_slice_def lx_slice_def split: if_splits)
  have "scan_variable l = (Ok (), l2\<lparr>buf_pos := lx_pos l2 - lx_mark l2, string_val := Some v,
      lx_hash := fnv_units v False, hash_l_case := fnv_units v True, lx_token := Some (Tok ''VARIANT'')\<rparr>)"
    unfolding scan_variable_def Let_def l1_def [symmetric] using l2(1) v by simp
  with s(1) show ?thesis
    by (simp add: safe_scan_def scans_def)
qed

lemma finish_comment_safe:
  assumes "scans n l l1" and "lx_mark l1 \<le> lx_pos l1"
  shows "safe_scan n l (finish_comment token l1)"
proof -
  obtain v where "lx_slice l1 (lx_mark l1) (lx_pos l1 - lx_mark l1) = Some v"
    using slice_defined [of l1 "lx_mark l1"] assms by (auto simp: scans_def)
  then have "lx_slice (l1\<lparr>buf_pos := lx_pos l1 - lx_mark l1\<rparr>) (lx_mark l1) (lx_pos l1 - lx_mark l1) = Some v"
    by (auto simp: lx_slice_def split: if_splits)
  with assms show ?thesis
    by (simp add: safe_scan_def finish_comment_def Let_def scans_def)
qed

lemma line_end_loops: "lx_inv l \<Longrightarrow> loops 0 l (line_end l)"
proof -
  assume inv: "lx_inv l"
  have step: "loops 0 m (scan_char m)" if "lx_inv m" "lx_ch m = 13 \<or> lx_ch m = 10" for m
  proof -
    have "\<not> is_eof m"
      using that by (auto simp: lx_inv_def char_at_def is_eof_def EOI_def split: if_splits)
    with that(1) show ?thesis
      using loops_scan_char loops_weaken by blast
  qed
  have upd: "loops 0 l (m\<lparr>lx_line := k\<rparr>)" if "loops 0 l m" for m k
    using that by (simp add: loops_def scans_def)
  show ?thesis
  proof (cases "lx_ch l = 13")
    case True
    then have cr: "loops 0 l (scan_char l)"
      using step inv by simp
    then have "loops 0 l (if lx_ch (scan_char l) = 10 then scan_char (scan_char l) else scan_char l)"
      using loops_step [OF cr step] by simp
    then show ?thesis
      using True upd by (auto simp: line_end_def Let_def)
  next
    case False
    then show ?thesis
      using inv loops_refl step upd by (simp add: line_end_def Let_def)
  qed
qed

lemma scan_comment_safe:
  assumes "lx_inv l" and "\<not> is_eof l" and "starts_comment l"
  shows "safe_scan 1 l (scan_comment l)"
proof -
  let ?l = "l\<lparr>lx_mark := lx_pos l, end_of_comment := False\<rparr>"
  have "char_at ?l (lx_pos ?l + 1) \<noteq> EOI"
    using assms(3) by (auto simp: starts_comment_def EOI_def char_at_def split: if_splits)
  then have "loops 2 ?l (scan_char (scan_char ?l))"
    by (intro loops_scan_two) (use assms in simp_all)
  then have two: "loops 1 ?l (scan_char (scan_char ?l))"
    by (rule loops_weaken) simp
  have fin: "safe_scan 1 l (finish_comment token (l1\<lparr>end_of_comment := True\<rparr>))" if "loops 1 ?l l1" for token l1
    using that by (intro finish_comment_safe) (simp_all add: loops_def scans_def)
  have line: "loops 1 ?l (line_end (skip_while (\<lambda>c. c \<noteq> 13 \<and> c \<noteq> 10) (scan_char (scan_char ?l))))"
    by (rule loops_step [OF loops_step [OF two skip_while_loops] line_end_loops])
  obtain r l1 where run: "comment_loop 1 (scan_char (scan_char ?l)) = (r, l1)"
    by fastforce
  have block: "loops 1 ?l l1" if "r = Ok v" for v
    using loops_step [OF two comment_loop_loops] run that by blast
  have "r \<noteq> Err Panicked"
    using comment_loop_no_panic [of 1 "scan_char (scan_char ?l)"] run by simp
  then show ?thesis
    using run block fin line
    by (cases r) (auto simp: scan_comment_def safe_scan_def Let_def)
qed

lemma loops_update [simp]:
  "loops n l (l'\<lparr>buf_pos := x\<rparr>) = loops n l l'"
  "loops n l (l'\<lparr>lx_token := y\<rparr>) = loops n l l'"
  "loops n l (l'\<lparr>number_scale := z\<rparr>) = loops n l l'"
  "loops n l (l'\<lparr>number_exp := e\<rparr>) = loops n l l'"
  "loops n (l\<lparr>number_exp := e\<rparr>) l' = loops n l l'"
  by (simp_all add: loops_def scans_def)

lemma not_eof_ch: "lx_inv l \<Longrightarrow> lx_ch l \<noteq> EOI \<Longrightarrow> \<not> is_eof l"
  by (auto simp: lx_inv_def char_at_def is_eof_def split: if_splits)

lemma loops_scan_char_ch: "lx_inv l \<Longrightarrow> lx_ch l \<noteq> EOI \<Longrightarrow> loops 1 l (scan_char l)"
  by (rule loops_scan_char [OF _ not_eof_ch])

lemma number_exponent_loops: "lx_inv l \<Longrightarrow> loops 0 l (number_exponent l)"
proof -
  assume inv: "lx_inv l"
  let ?l = "l\<lparr>number_exp := True\<rparr>"
  show ?thesis
  proof (cases "lx_ch l = 101 \<or> lx_ch l = 69")
    case True
    then have "loops 1 ?l (scan_char ?l)"
      using inv by (intro loops_scan_char_ch) (auto simp: EOI_def)
    then have one: "loops 0 l (scan_char ?l)"
      using loops_weaken by simp
    define m where "m = (if lx_ch (scan_char ?l) = 43 \<or> lx_ch (scan_char ?l) = 45 then scan_char (scan_char ?l) else scan_char ?l)"
    have "loops 0 (scan_char ?l) m"
      using loops_inv [OF one] loops_refl loops_scan_char_ch [of "scan_char ?l"] loops_weaken
      by (auto simp: m_def EOI_def)
    then have "loops 0 l m"
      by (intro loops_step [OF one])
    from loops_step [OF this skip_while_loops] show ?thesis
      using inv loops_refl by (simp add: number_exponent_def Let_def m_def)
  next
    case False
    then show ?thesis
      using inv loops_refl by (simp add: number_exponent_def)
  qed
qed

lemma number_tail_loops:
  assumes "lx_inv l"
  shows "loops 0 l (snd (number_tail l))"
    and "is_digit (lx_ch l) \<or> (lx_ch l = 46 \<and> is_digit (char_at l (lx_pos l + 1))) \<Longrightarrow> loops 1 l (snd (number_tail l))"
proof -
  define l1 where "l1 = skip_while is_digit l"
  have l1: "loops 0 l l1"
    unfolding l1_def by (rule skip_while_loops [OF assms])
  let ?p = "l1\<lparr>number_exp := True\<rparr>"
  define l2 where "l2 = (if lx_ch l1 = 46 \<and> char_at l1 (lx_pos l1 + 1) \<noteq> 46 then
      (skip_while is_digit (scan_char ?p))\<lparr>number_scale := number_scale (skip_while is_digit (scan_char ?p))
         + (lx_pos (skip_while is_digit (scan_char ?p)) - lx_pos (scan_char ?p))\<rparr> else l1)"
  have dot: "loops 1 l1 l2" if "lx_ch l1 = 46" "char_at l1 (lx_pos l1 + 1) \<noteq> 46"
  proof -
    have "loops 1 ?p (scan_char ?p)"
      using that loops_inv [OF l1] by (intro loops_scan_char_ch) (simp_all add: EOI_def)
    from loops_step [OF this skip_while_loops] show ?thesis
      using that by (simp add: l2_def)
  qed
  have l2: "loops 0 l1 l2"
    using dot loops_weaken loops_refl loops_inv [OF l1] by (cases "lx_ch l1 = 46 \<and> char_at l1 (lx_pos l1 + 1) \<noteq> 46") (auto simp: l2_def)
  have tail: "snd (number_tail l) = (number_exponent l2)\<lparr>buf_pos := lx_pos (number_exponent l2) - lx_mark (number_exponent l2),
      lx_token := lx_token (snd (number_tail l))\<rparr>"
    by (simp add: number_tail_def Let_def l1_def l2_def)
  have rest: "loops n l (snd (number_tail l))" if "loops n l l2" for n
  proof -
    have "loops n l (number_exponent l2)"
      by (rule loops_step [OF that number_exponent_loops])
    then show ?thesis
      by (subst tail) simp
  qed
  show "loops 0 l (snd (number_tail l))"
    using rest loops_step [OF l1 l2] by blast
  show "loops 1 l (snd (number_tail l))" if "is_digit (lx_ch l) \<or> (lx_ch l = 46 \<and> is_digit (char_at l (lx_pos l + 1)))"
  proof (cases "is_digit (lx_ch l)")
    case True
    then have "lx_ch l \<noteq> EOI"
      by (auto simp: is_digit_def EOI_def)
    then have "loops 1 l l1"
      unfolding l1_def using skip_while_progress [where P = is_digit, OF assms not_eof_ch [OF assms] True] by simp
    then show ?thesis
      by (intro rest loops_step [OF _ l2])
  next
    case False
    then have "l1 = l"
      by (simp add: l1_def skip_while_def total_def scan_while.simps)
    moreover have "char_at l (lx_pos l + 1) \<noteq> 46"
      using that False by (auto simp: is_digit_def)
    ultimately show ?thesis
      using rest dot that False by auto
  qed
qed

lemma number_rest_loops:
  assumes "lx_inv l"
  shows "loops 0 l (snd (number_rest l))"
    and "is_digit (lx_ch l) \<or> (lx_ch l = 46 \<and> is_digit (char_at l (lx_pos l + 1))) \<Longrightarrow> loops 1 l (snd (number_rest l))"
proof -
  have hex: "loops 1 l (snd (number_rest l))" if "lx_ch l = 48" "char_at l (lx_pos l + 1) = 120 \<or> char_at l (lx_pos l + 1) = 88"
  proof -
    have "lx_ch l \<noteq> EOI" "char_at l (lx_pos l + 1) \<noteq> EOI"
      using that by (auto simp: EOI_def)
    then have "loops 1 l (scan_char (scan_char l))"
      using loops_scan_two [OF assms not_eof_ch [OF assms]] loops_weaken [of 2 l "scan_char (scan_char l)" 1] by simp
    from loops_step [OF this skip_while_loops] show ?thesis
      using that by (simp add: number_rest_def Let_def)
  qed
  show "loops 0 l (snd (number_rest l))"
    using number_tail_loops(1) [OF assms] hex loops_weaken by (auto simp: number_rest_def)
  show "loops 1 l (snd (number_rest l))" if "is_digit (lx_ch l) \<or> (lx_ch l = 46 \<and> is_digit (char_at l (lx_pos l + 1)))"
    using number_tail_loops(2) [OF assms that] hex by (auto simp: number_rest_def)
qed

lemma scan_number_safe:
  assumes "lx_inv l" and "starts_number l"
  shows "safe_scan 1 l (scan_number l)"
proof -
  let ?l = "l\<lparr>lx_mark := lx_pos l, number_scale := 0, number_exp := False\<rparr>"
  define m where "m = (if lx_ch l = 45 then scan_char ?l else ?l)"
  have inv: "lx_inv ?l"
    using assms(1) by simp
  have minus: "loops 1 ?l m" if "lx_ch l = 45"
    using loops_scan_char_ch [OF inv] that by (simp add: m_def EOI_def)
  have m: "loops 0 ?l m"
    using minus loops_weaken loops_refl [OF inv] by (cases "lx_ch l = 45") (auto simp: m_def)
  have start: "is_digit (lx_ch m) \<or> (lx_ch m = 46 \<and> is_digit (char_at m (lx_pos m + 1)))" if "lx_ch l \<noteq> 45"
    using assms(2) that by (auto simp: starts_number_def m_def char_at_def)
  have rest: "loops 1 ?l (snd (number_rest m1))" if "loops 0 m m1" "lx_ch l \<noteq> 45 \<Longrightarrow> loops 1 m m1 \<or> m1 = m" for m1
  proof (cases "lx_ch l = 45")
    case True
    from loops_step [OF loops_step [OF minus [OF True] that(1)] number_rest_loops(1)] show ?thesis .
  next
    case False
    then have "loops 1 m (snd (number_rest m1))"
      using that(2) number_rest_loops(2) [OF loops_inv [OF m] start]
        loops_step [OF _ number_rest_loops(1), of 1 m m1] by auto
    with loops_trans [OF m this] show ?thesis
      by simp
  qed
  have plain: "safe_scan 1 l (apfst Ok (number_rest m1))" if "loops 1 ?l (snd (number_rest m1))" for m1
    using that by (simp add: safe_scan_def loops_def scans_def)
  show ?thesis
  proof (cases "lx_ch m = 48 \<and> char_at m (lx_pos m + 1) = 98 \<and>
      DialectFeature_is_enabled (Lexer ScanNumberPrefixB) (dialect_feature m)")
    case True
    define b where "b = scan_char (scan_char m)"
    define m1 where "m1 = skip_while (\<lambda>c. c = 48 \<or> c = 49) b"
    have "lx_ch m \<noteq> EOI" "char_at m (lx_pos m + 1) \<noteq> EOI"
      using True by (auto simp: EOI_def)
    then have b: "loops 2 m b"
      unfolding b_def using loops_scan_two [OF loops_inv [OF m] not_eof_ch [OF loops_inv [OF m]]] by simp
    have bm: "loops 0 b m1"
      unfolding m1_def by (rule skip_while_loops [OF loops_inv [OF b]])
    then have m1: "loops 1 m m1"
      using loops_weaken [OF loops_step [OF b], of 0 m1 1] by simp
    have "lx_slice (m1\<lparr>buf_pos := lx_pos m1 - lx_mark m1\<rparr>) (lx_pos b) (lx_pos m1 - lx_pos b) \<noteq> None"
      using bm by (auto simp: lx_slice_def loops_def scans_def lx_inv_def)
    moreover have "loops 1 ?l m1"
      using loops_trans [OF m m1] by simp
    ultimately have "safe_scan 1 l (scan_number l)" if "\<not> is_digit (lx_ch m1)"
      using True that
      by (auto simp: scan_number_def Let_def m_def [symmetric] b_def [symmetric] m1_def [symmetric] safe_scan_def
          loops_def scans_def)
    moreover have "safe_scan 1 l (scan_number l)" if "is_digit (lx_ch m1)"
      using True that plain [OF rest [of m1]] m1 loops_weaken
      by (auto simp: scan_number_def Let_def m_def [symmetric] b_def [symmetric] m1_def [symmetric])
    ultimately show ?thesis
      by blast
  next
    case False
    then have "scan_number l = apfst Ok (number_rest m)"
      by (auto simp: scan_number_def Let_def m_def [symmetric])
    then show ?thesis
      using plain [OF rest [of m]] loops_refl [OF loops_inv [OF m]] by simp
  qed
qed

lemma operators_nonempty: "\<forall>(value, _) \<in> set OPERATORS. encode_utf16 value \<noteq> []"
  by (simp add: OPERATORS_def encode_utf16_def lit_def)

lemma scan_operator_scans:
  assumes "scan_operator l = (Some token, l')"
  shows "scans 1 l l'"
proof -
  obtain "value" where found: "find (\<lambda>(value, _). starts_with l value) OPERATORS = Some (value, token)"
    and l': "l' = (let l1 = l\<lparr>lx_pos := lx_pos l + length (encode_utf16 value)\<rparr>
      in l1\<lparr>lx_ch := char_at l1 (lx_pos l1), lx_mark := lx_pos l, buf_pos := length (encode_utf16 value), lx_token := Some token\<rparr>)"
    using assms by (auto simp: scan_operator_def finish_simple_def Let_def split: option.splits)
  have "(value, token) \<in> set OPERATORS" "starts_with l value"
    using found unfolding find_Some_iff by (metis nth_mem, auto)
  then have "encode_utf16 value \<noteq> []" "lx_pos l + length (encode_utf16 value) \<le> length (lx_text l)"
    using operators_nonempty by (auto simp: starts_with_def Let_def)
  then show ?thesis
    by (simp add: l' scans_def Let_def lx_inv_def char_at_def Suc_leI)
qed

lemma skip_ws_loops: "lx_clean l \<Longrightarrow> \<exists>l'. skip_ws s l = Some l' \<and> loops 0 l l'"
proof (induction s l rule: skip_ws.induct)
  case (1 s l)
  let ?l = "if lx_ch l = 10 then l\<lparr>lx_line := lx_line l + 1, lx_lines := lx_line l + 1 - s\<rparr> else l"
  let ?m = "(scan_char ?l)\<lparr>start_pos := lx_pos (scan_char ?l)\<rparr>"
  obtain b where b: "is_whitespace (lx_ch l) = Some b"
    using "1.prems" clean_ch class_defined(1) by blast
  show ?case
  proof (cases "b \<and> \<not> is_eof l")
    case True
    have "lx_inv ?l" "\<not> is_eof ?l"
      using "1.prems" True by (simp_all add: lx_clean_def)
    from loops_scan_char [OF this] have "loops 1 l ?m"
      by (simp add: loops_def scans_def)
    then have step: "loops 0 l ?m"
      by (rule loops_weaken) simp
    have "skip_ws s l = skip_ws s ?m"
      unfolding skip_ws.simps [of s l] b option.case if_P [OF True] Let_def ..
    then show ?thesis
      using "1.IH" [OF b True refl refl loops_clean [OF "1.prems" step]] loops_step [OF step] by metis
  next
    case False
    then show ?thesis
      using b loops_refl "1.prems" by (subst skip_ws.simps) (auto simp: lx_clean_def)
  qed
qed

text \<open>The letters of Latin-1 open an identifier but cannot be part of one.\<close>

definition latin1_letter :: "u16 \<Rightarrow> bool" where
  "latin1_letter c \<longleftrightarrow> 0xC0 \<le> c \<and> c \<le> 0xFF \<and> c \<noteq> 0xD7 \<and> c \<noteq> 0xF7"

lemma first_identifier_char_cases:
  assumes "is_first_identifier_char c = Some True"
  shows "is_identifier_char c = Some True \<or> latin1_letter c \<or> c \<in> {96, 0xFF08, 0xFF09}"
  using assms by (auto simp: is_first_identifier_char_def is_identifier_char_def latin1_letter_def split: if_splits)

lemma with_token_safe: "safe_scan n l r \<Longrightarrow> safe_scan n l (with_token token r)"
  by (auto simp: safe_scan_def with_token_def split: prod.splits result.splits)

lemma safe_scan_mono: "safe_scan n l r \<Longrightarrow> m \<le> n \<Longrightarrow> safe_scan m l r"
  by (auto simp: safe_scan_def scans_def)

lemma scan_word_safe:
  assumes "lx_clean l" and "\<not> is_eof l" and "lx_ch l \<notin> {96, 0xFF08, 0xFF09}"
  shows "safe_scan 0 l (scan_word l)" and "\<not> latin1_letter (lx_ch l) \<Longrightarrow> safe_scan 1 l (scan_word l)"
proof -
  have var: "safe_scan 1 l (scan_word l)" if "starts_variable l"
    using with_token_safe [OF scan_variable_safe [OF assms(1,2)]] that by (simp add: scan_word_def)
  obtain b where b: "is_first_identifier_char (lx_ch l) = Some b"
    using clean_ch [OF assms(1)] class_defined(3) by blast
  have op: "safe_scan 1 l (scan_word l)" if "\<not> starts_variable l" "\<not> b"
    using b that scan_operator_scans [of l]
    by (auto simp: scan_word_def safe_scan_def split: prod.splits option.splits)
  have word: "safe_scan n l (scan_word l)" if "\<not> starts_variable l" "b" "safe_scan n l (scan_identifier l)" for n
    using b that by (auto simp: scan_word_def safe_scan_def split: prod.splits result.splits)
  show "safe_scan 0 l (scan_word l)"
    using var op word scan_identifier_safe(1) [OF assms(1)] safe_scan_mono by blast
  show "safe_scan 1 l (scan_word l)" if "\<not> latin1_letter (lx_ch l)"
  proof (cases "b \<and> \<not> starts_variable l")
    case True
    then have "is_identifier_char (lx_ch l) = Some True"
      using first_identifier_char_cases [of "lx_ch l"] b that assms(3) by auto
    then show ?thesis
      using word scan_identifier_safe(2) [OF assms(1) _ assms(2)] True by blast
  next
    case False
    then show ?thesis
      using var op by blast
  qed
qed

text \<open>Either the position has moved, or the end of the text is reported at the end of the text.\<close>

definition token_progress :: "Lexer \<Rightarrow> Token scan \<Rightarrow> bool" where
  "token_progress l r \<longleftrightarrow> fst r \<noteq> Err Panicked \<and>
     (\<forall>t. fst r = Ok t \<longrightarrow> scans 0 l (snd r) \<and>
        (scans 1 l (snd r) \<or> (t = Tok ''EOF'' \<and> is_eof (snd r)) \<or> (\<exists>c \<in> set (lx_text l). latin1_letter c)))"

lemma token_progress_safe: "safe_scan 1 l r \<Longrightarrow> token_progress l r"
  by (auto simp: token_progress_def safe_scan_def scans_def)

lemma token_progress_step: "loops n l l1 \<Longrightarrow> token_progress l1 r \<Longrightarrow> token_progress l r"
  by (auto simp: token_progress_def loops_def scans_def)

lemma token_progress_cong:
  "token_progress l1 r \<Longrightarrow> lx_text l1 = lx_text l \<Longrightarrow> lx_pos l1 = lx_pos l \<Longrightarrow> token_progress l r"
  by (auto simp: token_progress_def scans_def)

text \<open>One round of the loop, after the white space.\<close>

definition token_round :: "nat \<Rightarrow> Lexer \<Rightarrow> Token scan" where
  "token_round s l =
     (if lx_ch l = EOI \<and> lx_pos l < length (lx_text l) then next_token_loop s (scan_char l)
      else if is_eof l then apfst Ok (finish_simple (Tok ''EOF'') (lx_pos l) 0 l)
      else if (lx_ch l = 78 \<or> lx_ch l = 110) \<and> char_at l (lx_pos l + 1) = 39 then
        with_token (Tok ''LITERAL_NCHARS'')
          (scan_string (Tok ''LITERAL_NCHARS'') (l\<lparr>lx_pos := lx_pos l + 1, lx_ch := 39\<rparr>))
      else if lx_ch l = 0xFF08 then lone (lx_pos l) (Tok ''LPAREN'') l
      else if lx_ch l = 0xFF09 then lone (lx_pos l) (Tok ''RPAREN'') l
      else if lx_ch l = 0x2014 \<and> char_at l (lx_pos l + 1) = 0x2014 \<and> char_at l (lx_pos l + 2) = 10 then
        next_token_loop s
          (l\<lparr>lx_pos := lx_pos l + 3, lx_ch := char_at l (lx_pos l + 3), lx_line := lx_line l + 1\<rparr>)
      else if lx_ch l = 39 then with_token (Tok ''LITERAL_CHARS'') (scan_string (Tok ''LITERAL_CHARS'') l)
      else if lx_ch l = 34 then with_token (Tok ''LITERAL_ALIAS'') (scan_quoted_identifier 34 (Tok ''LITERAL_ALIAS'') l)
      else if lx_ch l = 96 then with_token (Tok ''IDENTIFIER'') (scan_quoted_identifier 96 (Tok ''IDENTIFIER'') l)
      else if starts_number l then scan_number l
      else if starts_comment l then
        (case scan_comment l of
           (Err e, l1) \<Rightarrow> (Err e, l1)
         | (Ok token, l1) \<Rightarrow> if skip_comment l1 then next_token_loop s l1 else (Ok token, l1))
      else scan_word l)"

lemma next_token_loop_round:
  "next_token_loop s l = (case skip_ws s l of None \<Rightarrow> (Err Panicked, l) | Some l \<Rightarrow> token_round s l)"
  unfolding next_token_loop.simps [of s l] token_round_def ..

lemma token_round_progress:
  assumes clean: "lx_clean l"
    and continue: "\<And>l'. lx_clean l' \<Longrightarrow> lx_text l' = lx_text l \<Longrightarrow> lx_pos l < lx_pos l' \<Longrightarrow> token_progress l' (next_token_loop s l')"
  shows "token_progress l (token_round s l)"
proof -
  have inv: "lx_inv l"
    using clean by (simp add: lx_clean_def)
  have again: "token_progress l (next_token_loop s l')" if "scans 1 l l'" for l'
  proof -
    have "token_progress l' (next_token_loop s l')"
      using that clean by (intro continue) (simp_all add: scans_def lx_clean_def)
    with that show ?thesis
      by (auto simp: token_progress_def scans_def)
  qed
  have char: "scans 1 l (scan_char l)" if "\<not> is_eof l"
    using loops_scan_char [OF inv that] by (simp add: loops_def)
  have lone: "token_progress l (lone p token l)" if "\<not> is_eof l" for p token
    using char [OF that] by (intro token_progress_safe) (simp add: safe_scan_def lone_def finish_simple_def scans_def)
  have nchars: "safe_scan 1 l (scan_string token (l\<lparr>lx_pos := lx_pos l + 1, lx_ch := 39\<rparr>))"
    if "char_at l (lx_pos l + 1) = 39" for token
  proof -
    let ?m = "l\<lparr>lx_pos := lx_pos l + 1, lx_ch := 39\<rparr>"
    have "lx_inv ?m" "\<not> is_eof ?m"
      using that by (auto simp: lx_inv_def char_at_def is_eof_def EOI_def split: if_splits)
    from scan_string_safe [OF this, of token] show ?thesis
      by (auto simp: safe_scan_def scans_def)
  qed
  have dashes: "scans 1 l (l\<lparr>lx_pos := lx_pos l + 3, lx_ch := char_at l (lx_pos l + 3), lx_line := k\<rparr>)"
    if "char_at l (lx_pos l + 2) = 10" for k
    using that by (auto simp: scans_def lx_inv_def char_at_def EOI_def split: if_splits)
  have comment: "token_progress l (case scan_comment l of (Err e, l1) \<Rightarrow> (Err e, l1)
      | (Ok token, l1) \<Rightarrow> if skip_comment l1 then next_token_loop s l1 else (Ok token, l1))"
    if "\<not> is_eof l" "starts_comment l"
  proof -
    obtain r l1 where run: "scan_comment l = (r, l1)"
      by fastforce
    have safe: "safe_scan 1 l (r, l1)"
      using scan_comment_safe [OF inv that] run by simp
    show ?thesis
    proof (cases r)
      case (Ok token)
      then have "scans 1 l l1"
        using safe by (simp add: safe_scan_def)
      then show ?thesis
        using again [of l1] token_progress_safe [OF safe] by (simp add: run Ok)
    next
      case (Err e)
      then show ?thesis
        using token_progress_safe [OF safe] by (simp add: run token_progress_def)
    qed
  qed
  have word: "token_progress l (scan_word l)" if "\<not> is_eof l" "lx_ch l \<notin> {96, 0xFF08, 0xFF09}"
  proof (cases "latin1_letter (lx_ch l)")
    case True
    then have "\<exists>c \<in> set (lx_text l). latin1_letter c"
      using inv that(1) by (auto simp: lx_inv_def char_at_def is_eof_def)
    then show ?thesis
      using scan_word_safe(1) [OF clean that] by (auto simp: token_progress_def safe_scan_def)
  next
    case False
    then show ?thesis
      using scan_word_safe(2) [OF clean that] token_progress_safe by blast
  qed
  note safe = token_progress_safe [OF with_token_safe]
  have eoi: "scans 1 l (scan_char l)" if "lx_pos l < length (lx_text l)"
    using char that by (simp add: is_eof_def)
  have eof: "token_progress l (apfst Ok (finish_simple (Tok ''EOF'') (lx_pos l) 0 l))" if "is_eof l"
    using inv that by (simp add: token_progress_def finish_simple_def scans_def)
  show ?thesis
    unfolding token_round_def
    using again [OF eoi] eof safe [OF nchars] lone again [OF dashes] safe [OF scan_string_safe [OF inv]]
      safe [OF scan_quoted_identifier_safe [OF inv]] token_progress_safe [OF scan_number_safe [OF inv]] comment word
    by (simp add: EOI_def del: One_nat_def)
qed

lemma next_token_loop_progress: "lx_clean l \<Longrightarrow> token_progress l (next_token_loop s l)"
proof (induction "length (lx_text l) - lx_pos l" arbitrary: l rule: less_induct)
  case less
  obtain l1 where l1: "skip_ws s l = Some l1" "loops 0 l l1"
    using skip_ws_loops [OF less.prems] by blast
  have "token_progress l1 (token_round s l1)"
  proof (rule token_round_progress)
    show "lx_clean l1"
      using loops_clean [OF less.prems l1(2)] .
    fix l' assume "lx_clean l'" "lx_text l' = lx_text l1" "lx_pos l1 < lx_pos l'"
    then show "token_progress l' (next_token_loop s l')"
      using l1(2) by (intro less.hyps) (auto simp: loops_def scans_def lx_clean_def lx_inv_def)
  qed
  then show ?case
    using token_progress_step [OF l1(2)] l1(1) by (simp add: next_token_loop_round)
qed

section \<open>Reading a whole text\<close>

text \<open>Calls of \<open>next_token\<close> until the end or an error; \<open>None\<close> when \<open>n\<close> calls were not enough.\<close>

primrec token_run :: "nat \<Rightarrow> Lexer \<Rightarrow> (Token list, LexerError) result option" where
  "token_run 0 l = None"
| "token_run (Suc n) l =
     (case next_token l of
        (Err e, l') \<Rightarrow> Some (Err e)
      | (Ok t, l') \<Rightarrow>
          if t = Tok ''EOF'' then Some (Ok [])
          else map_option (\<lambda>r. case r of Ok ts \<Rightarrow> Ok (t # ts) | Err e \<Rightarrow> Err e) (token_run n l'))"

lemma next_token_progress:
  assumes "lx_clean l"
  shows "token_progress l (next_token l)"
proof -
  let ?l = "l\<lparr>start_pos := lx_pos l, buf_pos := 0, string_val := None,
    comments := (case comments l of Some (c # cs) \<Rightarrow> None | x \<Rightarrow> x), lx_lines := 0\<rparr>"
  have "lx_clean ?l"
    using assms by (simp add: lx_clean_def)
  from token_progress_cong [OF next_token_loop_progress [OF this, of "lx_line l"], of l] show ?thesis
    by (simp add: next_token_def)
qed

lemma token_run_ends:
  assumes "lx_clean l" and "\<forall>c \<in> set (lx_text l). \<not> latin1_letter c" and "length (lx_text l) - lx_pos l < n"
  shows "\<exists>r. token_run n l = Some r \<and> r \<noteq> Err Panicked"
  using assms
proof (induction n arbitrary: l)
  case (Suc n)
  obtain r l' where step: "next_token l = (r, l')"
    by fastforce
  note progress = next_token_progress [OF Suc.prems(1), unfolded step]
  show ?case
  proof (cases r)
    case (Err e)
    with progress step show ?thesis
      by (simp add: token_progress_def)
  next
    case (Ok t)
    show ?thesis
    proof (cases "t = Tok ''EOF''")
      case False
      then have "scans 1 l l'"
        using progress Ok Suc.prems(2) by (auto simp: token_progress_def)
      then have "length (lx_text l') - lx_pos l' < n" "lx_clean l'" "\<forall>c \<in> set (lx_text l'). \<not> latin1_letter c"
        using Suc.prems by (auto simp: scans_def lx_clean_def lx_inv_def)
      then obtain r' where "token_run n l' = Some r'" "r' \<noteq> Err Panicked"
        using Suc.IH by blast
      then show ?thesis
        using step Ok False by (cases r') simp_all
    qed (simp add: step Ok)
  qed
qed simp

lemma skip_leading_loops: "lx_inv l \<Longrightarrow> loops 0 l (skip_leading l)"
proof (induction l rule: skip_leading.induct)
  case (1 l)
  let ?l = "if lx_ch l = 10 then l\<lparr>lx_line := lx_line l + 1\<rparr> else l"
  show ?case
  proof (cases "(lx_ch l = 0x200B \<or> lx_ch l = 10) \<and> \<not> is_eof l")
    case True
    have "lx_inv ?l" "\<not> is_eof ?l"
      using "1.prems" True by simp_all
    from loops_scan_char [OF this] have step: "loops 1 l (scan_char ?l)"
      by (rule loops_cong) auto
    have "loops 0 l (scan_char ?l)"
      by (rule loops_weaken [OF step]) simp
    from loops_step [OF this "1.IH" [OF True]] show ?thesis
      unfolding skip_leading.simps [of l] if_P [OF True] .
  next
    case False
    then show ?thesis
      unfolding skip_leading.simps [of l] if_not_P [OF False] using loops_refl "1.prems" by blast
  qed
qed

lemma from_rdbc_string_inv:
  "lx_inv (from_rdbc_string units db skip) \<and> lx_text (from_rdbc_string units db skip) = units"
proof -
  obtain l where "from_rdbc_string units db skip = skip_leading l" "lx_inv l" "lx_text l = units"
    by (auto simp: from_rdbc_string_def Let_def lx_inv_def char_at_def)
  then show ?thesis
    using skip_leading_loops [of l] by (simp add: loops_def scans_def)
qed



end
