(* ===== verification/Sql_Lexer_Properties.thy ===== *)
theory Sql_Lexer_Properties
  imports Sql_Lexer
begin

text \<open>
  What the single scanners of the SQL lexer compute: operators, string literals, identifiers with their
  hashes, and the Latin-1 letters at which the lexer stops moving.
\<close>

section \<open>Operators\<close>

lemma operator_lengths:
  "map (\<lambda>op. length (encode_utf16 (fst op))) OPERATORS =
     [3, 3, 3, 3, 3, 3, 3, 3, 3, 3, 2, 2, 2, 2, 2, 2, 2, 2, 2, 2, 2, 2, 2, 2, 2, 2, 2, 2, 2, 2,
      2, 2, 2, 2, 2, 2, 2, 2, 2, 1, 1, 1, 1, 1, 1, 1, 1, 1, 1, 1, 1, 1, 1, 1, 1, 1, 1, 1, 1, 1,
      1, 1, 1, 1, 1, 1, 1, 1]"
  by (simp add: OPERATORS_def encode_utf16_def lit_def)

lemma operators_by_length: "sorted_wrt (\<lambda>a b. length (encode_utf16 (fst b)) \<le> length (encode_utf16 (fst a))) OPERATORS"
proof -
  have "sorted_wrt (\<lambda>a b. b \<le> a) (map (\<lambda>op. length (encode_utf16 (fst op))) OPERATORS)"
    unfolding operator_lengths by code_simp
  then show ?thesis
    by (simp add: sorted_wrt_map)
qed

lemma find_sorted_longest:
  assumes "sorted_wrt (\<lambda>a b. f b \<le> f a) xs" and "find P xs = Some x" and "y \<in> set xs" and "P y"
  shows "f y \<le> (f x :: nat)"
  using assms by (induction xs) (auto split: if_splits)

text \<open>Operators are read by longest match: whenever the text continues with an operator, the scanner
  returns one of the table that the text continues with, no operator of the table that fits is longer, and
  exactly its units are consumed; otherwise it returns nothing and keeps the state.\<close>

theorem operator_longest_match:
  "(\<forall>(value, _) \<in> set OPERATORS. \<not> starts_with l value) \<and> scan_operator l = (None, l) \<or>
   (\<exists>value token. (value, token) \<in> set OPERATORS \<and> starts_with l value \<and>
      (\<forall>(other, _) \<in> set OPERATORS. starts_with l other \<longrightarrow> length (encode_utf16 other) \<le> length (encode_utf16 value)) \<and>
      fst (scan_operator l) = Some token \<and>
      lx_pos (snd (scan_operator l)) = lx_pos l + length (encode_utf16 value))"
proof (cases "find (\<lambda>(value, _). starts_with l value) OPERATORS")
  case None
  then show ?thesis
    by (intro disjI1 conjI) (use None in \<open>auto simp: find_None_iff\<close>, simp add: scan_operator_def None)
next
  case (Some vt)
  obtain "value" token where vt: "vt = (value, token)"
    by fastforce
  have "(value, token) \<in> set OPERATORS" "starts_with l value"
    using Some unfolding find_Some_iff vt by (metis nth_mem, auto)
  moreover have "length (encode_utf16 (fst other)) \<le> length (encode_utf16 value)"
    if "other \<in> set OPERATORS" "starts_with l (fst other)" for other
    using find_sorted_longest [OF operators_by_length Some that(1)] that(2) by (simp add: vt case_prod_beta)
  ultimately show ?thesis
    using Some by (intro disjI2 exI [of _ "value"] exI [of _ token])
      (auto simp: vt scan_operator_def Let_def finish_simple_def)
qed

theorem operator_longest_match_witness:
  "fst (scan_operator (from_rdbc_string [45, 62, 62, 120] None True)) \<noteq> None"
proof -
  define l where "l = from_rdbc_string [45, 62, 62, 120] None True"
  have l: "lx_text l = [45, 62, 62, 120]" "lx_pos l = 0"
    by (simp_all add: l_def from_rdbc_string_def Let_def char_at_def skip_leading.simps)
  have "(lit ''->>'', Tok ''SUBGTGT'') \<in> set OPERATORS"
    by (simp add: OPERATORS_def)
  moreover have "starts_with l (lit ''->>'')"
    by (simp add: starts_with_def Let_def l encode_utf16_def lit_def)
  ultimately show ?thesis
    using operator_longest_match [of l] unfolding l_def [symmetric] by fastforce
qed

section \<open>String literals\<close>

definition escape_unit :: "u16 \<Rightarrow> u16 list" where
  "escape_unit c = (if c = 39 then [39, 39] else if c = 92 then [92, 92] else [c])"

abbreviation escaped :: "u16 list \<Rightarrow> u16 list" where
  "escaped s \<equiv> concat (map escape_unit s)"

lemma char_at_append: "lx_text l = pre @ c # rest \<Longrightarrow> char_at l (length pre) = c"
  by (simp add: char_at_def)

lemma char_at_append2: "lx_text l = pre @ c # d # rest \<Longrightarrow> char_at l (Suc (length pre)) = d"
  by (simp add: char_at_def nth_append)

lemma string_loop_escaped:
  assumes "lx_text l = pre @ escaped s @ 39 # post" and "lx_pos l = length pre" and "lx_inv l"
    and "post = [] \<or> hd post \<noteq> 39"
  shows "\<exists>l'. string_loop v l = (Ok (v @ s), l') \<and> lx_pos l' = length pre + length (escaped s) + 1"
  using assms
proof (induction s arbitrary: v l pre)
  case Nil
  have "lx_ch l = 39" "\<not> is_eof l"
    using Nil char_at_append [of l pre 39 post] by (simp_all add: lx_inv_def is_eof_def)
  moreover have "char_at l (lx_pos l + 1) \<noteq> 39"
    using Nil by (cases post) (auto simp: char_at_def nth_append EOI_def)
  ultimately show ?case
    using Nil by (subst string_loop.simps) simp
next
  case (Cons c s)
  have eof: "\<not> is_eof l"
    using Cons.prems by (auto simp: is_eof_def escape_unit_def)
  show ?case
  proof (cases "c = 39 \<or> c = 92")
    case True
    then have esc: "escape_unit c = [c, c]"
      by (auto simp: escape_unit_def)
    have ch: "lx_ch l = c" "char_at l (lx_pos l + 1) = c" "c \<noteq> EOI"
      using Cons.prems esc True char_at_append [of l pre c] char_at_append2 [of l pre c c]
      by (auto simp: lx_inv_def EOI_def)
    let ?m = "scan_char (scan_char l)"
    have m: "lx_inv ?m" "lx_ch (scan_char l) = c"
      using loops_inv [OF loops_scan_two [OF Cons.prems(3) eof]] ch by (simp_all add: scan_char_def)
    have step: "string_loop v l = string_loop (v @ [c]) ?m"
      using True ch eof m(2) by (subst string_loop.simps) (auto simp: unescape_def)
    have "\<exists>l'. string_loop (v @ [c]) ?m = (Ok ((v @ [c]) @ s), l') \<and> lx_pos l' = length (pre @ [c, c]) + length (escaped s) + 1"
      using Cons.prems esc m(1) by (intro Cons.IH) simp_all
    then show ?thesis
      using step esc by auto
  next
    case False
    then have esc: "escape_unit c = [c]"
      by (simp add: escape_unit_def)
    have ch: "lx_ch l = c"
      using Cons.prems esc char_at_append [of l pre c] by (simp add: lx_inv_def)
    let ?l = "if lx_ch l = 10 then l\<lparr>lx_line := lx_line l + 1\<rparr> else l"
    have m: "lx_inv (scan_char ?l)"
      using loops_inv [OF loops_scan_char, of ?l] Cons.prems(3) eof by simp
    have step: "string_loop v l = string_loop (v @ [c]) (scan_char ?l)"
      using False ch eof by (subst string_loop.simps) simp
    have "\<exists>l'. string_loop (v @ [c]) (scan_char ?l) = (Ok ((v @ [c]) @ s), l') \<and> lx_pos l' = length (pre @ [c]) + length (escaped s) + 1"
      using Cons.prems esc m by (intro Cons.IH) simp_all
    then show ?thesis
      using step esc by auto
  qed
qed

text \<open>C27. A string literal reads back as the string it quotes: between quotes, with quotes and backslashes
  doubled, every sequence of units is scanned to exactly that value, and the position is after the closing
  quote.\<close>

theorem string_literal_round_trip:
  assumes "lx_text l = pre @ 39 # escaped s @ 39 # post" and "lx_pos l = length pre" and "lx_inv l"
    and "post = [] \<or> hd post \<noteq> 39"
  shows "\<exists>l'. scan_string token l = (Ok (), l') \<and> string_val l' = Some s \<and>
    lx_pos l' = length pre + length (escaped s) + 2"
proof -
  let ?l = "l\<lparr>lx_mark := lx_pos l\<rparr>"
  have "lx_inv (scan_char ?l)"
    using loops_inv [OF loops_scan_char, of ?l] assms by (simp add: is_eof_def)
  then have "\<exists>l'. string_loop [] (scan_char ?l) = (Ok ([] @ s), l') \<and> lx_pos l' = length (pre @ [39]) + length (escaped s) + 1"
    using assms by (intro string_loop_escaped [where post = post]) simp_all
  then show ?thesis
    by (auto simp: scan_string_def)
qed

theorem string_literal_round_trip_witness:
  "\<exists>l'. scan_string (Tok ''LITERAL_CHARS'') (from_rdbc_string [39, 105, 39, 39, 115, 39, 59] None True) = (Ok (), l') \<and>
     string_val l' = Some [105, 39, 115] \<and> lx_pos l' = 6"
proof -
  define l where "l = from_rdbc_string [39, 105, 39, 39, 115, 39, 59] None True"
  have "lx_text l = [] @ 39 # escaped [105, 39, 115] @ 39 # [59]" "lx_pos l = length []" "lx_inv l"
    using from_rdbc_string_inv [of "[39, 105, 39, 39, 115, 39, 59]" None True]
    by (simp_all add: l_def escape_unit_def from_rdbc_string_def Let_def char_at_def skip_leading.simps)
  moreover have "length [] + length (escaped [105, 39, 115]) + 2 = 6"
    by (simp add: escape_unit_def)
  ultimately show ?thesis
    using string_literal_round_trip [of l "[]" "[105, 39, 115]" "[59]" "Tok ''LITERAL_CHARS''"]
    unfolding l_def [symmetric] by simp
qed

section \<open>Identifiers\<close>

text \<open>What the loop has read, and its two hashes.\<close>

definition identifier_read :: "Lexer \<Rightarrow> u16 list \<Rightarrow> Lexer \<Rightarrow> bool" where
  "identifier_read l v l' \<longleftrightarrow>
     lx_text l' = lx_text l \<and> lx_pos l' = lx_pos l + length v \<and> lx_mark l' = lx_mark l \<and> keyword_set l' = keyword_set l \<and>
     take (length v) (drop (lx_pos l) (lx_text l)) = v \<and>
     (\<forall>u \<in> set v. is_identifier_char u = Some True) \<and>
     lx_hash l' = foldl (\<lambda>hash unit. fnv_add hash unit False) (lx_hash l) v \<and>
     hash_l_case l' = foldl (\<lambda>hash unit. fnv_add hash unit True) (hash_l_case l) v"

lemma identifier_loop_read:
  "lx_inv l \<Longrightarrow> identifier_loop l = Some l' \<Longrightarrow>
   (\<exists>v. identifier_read l v l') \<and> (is_eof l' \<or> is_identifier_char (lx_ch l') = Some False)"
proof (induction l rule: identifier_loop.induct)
  case (1 l)
  obtain b where b: "is_identifier_char (lx_ch l) = Some b"
    using "1.prems"(2) by (subst (asm) identifier_loop.simps) (auto split: option.splits)
  let ?m = "l\<lparr>lx_hash := fnv_add (lx_hash l) (lx_ch l) False, hash_l_case := fnv_add (hash_l_case l) (lx_ch l) True\<rparr>"
  show ?case
  proof (cases "b \<and> \<not> is_eof l")
    case True
    then have step: "identifier_loop (scan_char ?m) = Some l'"
      using "1.prems"(2) b by (subst (asm) identifier_loop.simps) simp
    have "lx_inv (scan_char ?m)"
      using loops_inv [OF loops_scan_char, of ?m] "1.prems"(1) True by simp
    from "1.IH" [OF b True this step] obtain v where v: "identifier_read (scan_char ?m) v l'"
      and stop: "is_eof l' \<or> is_identifier_char (lx_ch l') = Some False"
      by blast
    have "drop (lx_pos l) (lx_text l) = lx_ch l # drop (Suc (lx_pos l)) (lx_text l)"
      using "1.prems"(1) True by (simp add: lx_inv_def is_eof_def char_at_def Cons_nth_drop_Suc)
    then have "identifier_read l (lx_ch l # v) l'"
      using v b True by (auto simp: identifier_read_def scan_char_def)
    with stop show ?thesis
      by blast
  next
    case False
    then have "l' = l"
      using "1.prems"(2) b by (subst (asm) identifier_loop.simps) auto
    moreover have "identifier_read l [] l"
      by (simp add: identifier_read_def)
    ultimately show ?thesis
      using False b by auto
  qed
qed

text \<open>Identifiers and keywords: a scanned word is a maximal run of identifier units; the two hashes
  accumulated along the way are the hash of the word and the case-insensitive hash that the keyword table
  is keyed by, and the token is what the table holds under it, or an identifier carrying the word.\<close>

theorem identifier_hash_agrees:
  assumes "lx_inv l" and "scan_identifier l = (Ok (), l')"
  shows "\<exists>v. token_slice l' = Some v \<and> (\<forall>u \<in> set v. is_identifier_char u = Some True) \<and>
    (is_eof l' \<or> is_identifier_char (lx_ch l') = Some False) \<and>
    lx_hash l' = fnv_units v False \<and> hash_l_case l' = fnv1a_64_lower_units v \<and>
    (case get_keyword_by_hash (lx_keywords l) (hash_l_case l') of
       Some t \<Rightarrow> lx_token l' = Some t
     | None \<Rightarrow> lx_token l' = Some (Tok ''IDENTIFIER'') \<and> string_val l' = Some v)"
proof -
  let ?l = "l\<lparr>lx_mark := lx_pos l, lx_hash := FNV_BASIC, hash_l_case := FNV_BASIC\<rparr>"
  obtain l1 where loop: "identifier_loop ?l = Some l1"
    using assms(2) by (auto simp: scan_identifier_def split: option.splits)
  obtain v where v: "identifier_read ?l v l1" and stop: "is_eof l1 \<or> is_identifier_char (lx_ch l1) = Some False"
    using identifier_loop_read [OF _ loop] assms(1) by auto
  have len: "lx_pos l + length v \<le> length (lx_text l)"
  proof -
    have "lx_inv l1"
      using loops_inv [OF identifier_loop_loops [OF _ loop]] assms(1) by simp
    then show ?thesis
      using v by (simp add: lx_inv_def identifier_read_def)
  qed
  have hash: "fnv_units v True = fnv1a_64_lower_units v"
    by (simp add: fnv_units_def fnv1a_64_lower_units_def fnv_add_def)
  have slice: "lx_slice (l1\<lparr>buf_pos := length v\<rparr>) (lx_pos l) (length v) = Some v"
    using v len by (simp add: lx_slice_def identifier_read_def)
  have table: "lx_keywords (l1\<lparr>buf_pos := n\<rparr>) = lx_keywords l" for n
    using v by (simp add: lx_keywords_def identifier_read_def)
  define t where "t = (case get_keyword_by_hash (lx_keywords l) (fnv1a_64_lower_units v) of Some t \<Rightarrow> t | None \<Rightarrow> Tok ''IDENTIFIER'')"
  have "l' = (if t = Tok ''IDENTIFIER'' then l1\<lparr>buf_pos := length v, lx_token := Some t, string_val := Some v\<rparr>
      else l1\<lparr>buf_pos := length v, lx_token := Some t\<rparr>)"
    using assms(2) v slice by (auto simp: scan_identifier_def loop Let_def identifier_read_def table
        get_keyword_rdbc_string_def t_def)
  moreover have "hash_l_case l1 = fnv1a_64_lower_units v" "lx_hash l1 = fnv_units v False"
    using v hash by (simp_all add: identifier_read_def fnv_units_def)
  ultimately show ?thesis
    using v stop slice by (intro exI [of _ v])
      (auto simp: token_slice_def lx_slice_def identifier_read_def is_eof_def t_def split: option.splits if_splits)
qed

theorem identifier_hash_agrees_witness:
  "\<exists>l' v. scan_identifier (from_rdbc_string [97, 49, 32] None True) = (Ok (), l') \<and> token_slice l' = Some v \<and>
     hash_l_case l' = fnv1a_64_lower_units v"
proof -
  define l where "l = from_rdbc_string [97, 49, 32] None True"
  have l: "lx_inv l" "lx_text l = [97, 49, 32]"
    using from_rdbc_string_inv [of "[97, 49, 32]" None True] by (simp_all add: l_def)
  then have "safe_scan 0 l (scan_identifier l)"
    by (intro scan_identifier_safe(1)) (simp add: lx_clean_def)
  moreover have "fst (scan_identifier l) \<noteq> Err e" if "e \<noteq> Panicked" for e
    using that by (auto simp: scan_identifier_def Let_def split: option.splits)
  ultimately have "fst (scan_identifier l) = Ok ()"
    by (cases "fst (scan_identifier l)") (auto simp: safe_scan_def)
  then obtain l' where "scan_identifier l = (Ok (), l')"
    by (metis prod.collapse)
  with identifier_hash_agrees [OF l(1) this] show ?thesis
    unfolding l_def [symmetric] by blast
qed

section \<open>Latin-1 letters\<close>

lemma no_empty_keyword: "get_keyword_rdbc_string DEFAULT_KEYWORDS [] = None"
proof -
  have "uint (fnv1a_64_lower_units []) mod 16384 \<notin> set (map (\<lambda>kt. uint (fnv1a_64_lower (fst kt)) mod 16384) default_map)"
    unfolding default_hashes14 by (simp add: fnv1a_64_lower_units_def FNV_BASIC_def)
  then have "map_of (map (\<lambda>kt. (fnv1a_64_lower (fst kt), snd kt)) default_map) (fnv1a_64_lower_units []) = None"
    by (force simp: map_of_eq_None_iff)
  then show ?thesis
    by (simp add: get_keyword_rdbc_string_def DEFAULT_KEYWORDS_def get_keyword_by_hash_new [OF default_hashes_distinct])
qed

lemma latin1_classes:
  assumes "latin1_letter c"
  shows "is_first_identifier_char c = Some True" "is_identifier_char c = Some False" "is_whitespace c = Some False"
    "\<not> is_digit c" "c \<notin> {10, 34, 35, 36, 39, 45, 46, 47, 58, 64, 78, 96, 110, 0x200B, 0x2014, 0xFF08, 0xFF09, EOI}"
  using assms unfolding latin1_letter_def
  by (auto simp: is_first_identifier_char_def is_identifier_char_def is_whitespace_def is_digit_def EOI_def
      word_le_nat_alt word_less_nat_alt)

text \<open>A lexer that stands before such a letter.\<close>

definition stalled :: "Lexer \<Rightarrow> bool" where
  "stalled l \<longleftrightarrow> \<not> is_eof l \<and> latin1_letter (lx_ch l) \<and> keyword_set l = DefaultSet"

lemma scan_identifier_stalled:
  assumes "stalled l"
  shows "scan_identifier l = (Ok (), l\<lparr>lx_mark := lx_pos l, lx_hash := FNV_BASIC, hash_l_case := FNV_BASIC,
    buf_pos := 0, lx_token := Some (Tok ''IDENTIFIER''), string_val := Some []\<rparr>)"
  using assms latin1_classes(2) [of "lx_ch l"] no_empty_keyword
  by (simp add: stalled_def scan_identifier_def identifier_loop.simps Let_def lx_slice_def is_eof_def lx_keywords_def)

lemma next_token_loop_stalled:
  assumes "stalled l"
  shows "\<exists>l'. next_token_loop s l = (Ok (Tok ''IDENTIFIER''), l') \<and> stalled l'"
proof -
  have letter: "latin1_letter (lx_ch l)"
    using assms by (simp add: stalled_def)
  note classes = latin1_classes [OF letter]
  have "skip_ws s l = Some l"
    using classes(3) by (simp add: skip_ws.simps)
  moreover have "token_round s l = scan_word l"
    using classes(4,5) assms by (simp add: token_round_def starts_number_def starts_comment_def stalled_def)
  moreover have "\<exists>l'. scan_word l = (Ok (Tok ''IDENTIFIER''), l') \<and> stalled l'"
    using classes(1,5) scan_identifier_stalled [OF assms] assms
    by (simp add: scan_word_def starts_variable_def) (simp add: stalled_def is_eof_def)
  ultimately show ?thesis
    by (simp add: next_token_loop_round)
qed

lemma token_run_stalled: "stalled l \<Longrightarrow> token_run n l = None"
proof (induction n arbitrary: l)
  case (Suc n)
  have "stalled (l\<lparr>start_pos := lx_pos l, buf_pos := 0, string_val := None,
      comments := (case comments l of Some (c # cs) \<Rightarrow> None | x \<Rightarrow> x), lx_lines := 0\<rparr>)"
    using Suc.prems by (simp add: stalled_def is_eof_def)
  from next_token_loop_stalled [OF this, of "lx_line l"] obtain l' where
    "next_token l = (Ok (Tok ''IDENTIFIER''), l')" "stalled l'"
    by (auto simp: next_token_def)
  then show ?case
    using Suc.IH by simp
qed simp

text \<open>C26. An accented Latin-1 letter stops the lexer for good: \<open>is_first_identifier_char\<close> accepts it and
  \<open>is_identifier_char\<close> does not, so \<open>scan_identifier\<close> reads the empty word in front of it and every further
  call returns an identifier at the same position; no number of calls reaches the end of the text.\<close>

theorem latin1_letter_stalls:
  assumes "latin1_letter c"
  shows "\<forall>n. token_run n (from_rdbc_string (c # units) None skip) = None"
proof -
  have "stalled (from_rdbc_string (c # units) None skip)"
    using assms latin1_classes(5) [OF assms]
    by (simp add: from_rdbc_string_def Let_def skip_leading.simps char_at_def stalled_def is_eof_def)
  then show ?thesis
    using token_run_stalled by blast
qed

theorem latin1_letter_stalls_witness:
  "\<forall>n. token_run n (from_rdbc_string [0xE9, 116, 0xE9] None True) = None"
proof -
  have "latin1_letter 0xE9"
    by (simp add: latin1_letter_def)
  then show ?thesis
    by (rule latin1_letter_stalls)
qed

end
