(* ===== verification/Sql_Numbers.thy ===== *)
theory Sql_Numbers
  imports Sql_Lexer Utf8
begin

text \<open>
  Integer literals: \<open>Lexer::integer_value\<close> of \<open>druid/src/sql/lexer/scan_b.rs\<close>, which reads the slice of the
  last token as an \<open>i32\<close>, else as an \<open>i64\<close>, else as a big integer. \<open>BigInt::parse_bytes\<close> of the crate
  \<open>num-bigint\<close> is the argument \<open>parse_bytes\<close>; the numbers stand as integers.
\<close>

section \<open>Standard library\<close>

text \<open>\<open>String::from_utf16\<close>: surrogates must come in pairs.\<close>

fun from_utf16 :: "u16 list \<Rightarrow> rust_str option" where
  "from_utf16 [] = Some []"
| "from_utf16 [u] = (if u < 0xD800 \<or> 0xDFFF < u then Some [unat u] else None)"
| "from_utf16 (u # v # us) =
     (if u < 0xD800 \<or> 0xDFFF < u then map_option (Cons (unat u)) (from_utf16 (v # us))
      else if u < 0xDC00 \<and> 0xDC00 \<le> v \<and> v \<le> 0xDFFF
      then map_option (Cons (0x10000 + (unat u - 0xD800) * 0x400 + (unat v - 0xDC00))) (from_utf16 us)
      else None)"

definition decimal_digit :: "nat \<Rightarrow> bool" where
  "decimal_digit c \<longleftrightarrow> 48 \<le> c \<and> c \<le> 57"

definition decimal_value :: "nat list \<Rightarrow> int" where
  "decimal_value ds = foldl (\<lambda>n d. n * 10 + (int d - 48)) 0 ds"

text \<open>\<open>str::parse\<close> at a signed type with the given range: an optional sign, then at least one digit.\<close>

definition parse_signed :: "int \<Rightarrow> int \<Rightarrow> rust_str \<Rightarrow> int option" where
  "parse_signed low high s =
     (let negative = (s \<noteq> [] \<and> hd s = 45);
          ds = (if s \<noteq> [] \<and> (hd s = 45 \<or> hd s = 43) then tl s else s);
          n = (if negative then - decimal_value ds else decimal_value ds)
      in if ds = [] \<or> \<not> list_all decimal_digit ds \<or> n < low \<or> high < n then None else Some n)"

definition strip_prefix :: "rust_str \<Rightarrow> rust_str \<Rightarrow> rust_str option" where
  "strip_prefix prefix s = (if take (length prefix) s = prefix then Some (drop (length prefix) s) else None)"

section \<open>The literal\<close>

datatype SqlInsertNumber = Integer int | Long int | BigInteger int

datatype IntegerError = InvalidUtf16 | IllegalInteger rust_str | SliceOutOfRange

definition integer_value :: "(u8 list \<Rightarrow> nat \<Rightarrow> int option) \<Rightarrow> Lexer \<Rightarrow> (SqlInsertNumber, IntegerError) result" where
  "integer_value parse_bytes l =
     (case token_slice l of
        None \<Rightarrow> Err SliceOutOfRange
      | Some units \<Rightarrow>
          (case from_utf16 units of
             None \<Rightarrow> Err InvalidUtf16
           | Some rust_value \<Rightarrow>
               let radix = (if lx_token l = Some (Tok ''LITERAL_HEX'') then 16 else 10);
                   digits = (case strip_prefix (lit ''0x'') rust_value of
                       Some ds \<Rightarrow> ds
                     | None \<Rightarrow> (case strip_prefix (lit ''0X'') rust_value of Some ds \<Rightarrow> ds | None \<Rightarrow> rust_value))
               in (case parse_bytes (utf8_bytes digits) radix of
                     None \<Rightarrow> Err (IllegalInteger rust_value)
                   | Some parsed \<Rightarrow>
                       (case parse_signed (- (2 ^ 31)) (2 ^ 31 - 1) rust_value of
                          Some n \<Rightarrow> Ok (Integer n)
                        | None \<Rightarrow>
                            (case parse_signed (- (2 ^ 63)) (2 ^ 63 - 1) rust_value of
                               Some n \<Rightarrow> Ok (Long n)
                             | None \<Rightarrow> Ok (BigInteger parsed))))))"

section \<open>Reading digits\<close>

lemma skip_while_step:
  assumes "\<not> is_eof l" and "P (lx_ch l)"
  shows "skip_while P l = skip_while P (scan_char l)"
  using assms scan_while_total [of P "scan_char l"]
  by (auto simp: skip_while_def scan_while.simps [of _ l] total_def split: option.split)

lemma skip_while_stop: "is_eof l \<or> \<not> P (lx_ch l) \<Longrightarrow> skip_while P l = l"
  by (auto simp: skip_while_def scan_while.simps [of _ l] total_def)

lemma skip_while_run:
  assumes "lx_text l = pre @ xs @ post" and "lx_pos l = length pre" and "lx_inv l" and "\<forall>x \<in> set xs. P x"
    and "post = [] \<or> \<not> P (hd post)"
  shows "skip_while P l = l\<lparr>lx_pos := length pre + length xs, lx_ch := char_at l (length pre + length xs)\<rparr>"
  using assms
proof (induction xs arbitrary: l pre)
  case Nil
  have "is_eof l \<or> \<not> P (lx_ch l)"
    using Nil by (cases post) (auto simp: is_eof_def lx_inv_def char_at_def)
  then show ?case
    using Nil by (simp add: skip_while_stop lx_inv_def)
next
  case (Cons x xs)
  have "\<not> is_eof l" "lx_ch l = x"
    using Cons.prems by (simp_all add: is_eof_def lx_inv_def char_at_def)
  moreover have "lx_inv (scan_char l)"
    using loops_inv [OF loops_scan_char [OF Cons.prems(3)]] calculation(1) by simp
  ultimately show ?case
    using Cons.prems Cons.IH [of "scan_char l" "pre @ [x]"] skip_while_step [of l P]
    by (simp add: scan_char_def char_at_def)
qed

definition units :: "nat list \<Rightarrow> u16 list" where
  "units ds = map of_nat ds"

text \<open>What may follow an integer literal.\<close>

definition ends_integer :: "u16 list \<Rightarrow> bool" where
  "ends_integer post \<longleftrightarrow> post = [] \<or> \<not> is_digit (hd post) \<and> hd post \<notin> {46, 69, 88, 98, 101, 120}"

definition number_class :: "int \<Rightarrow> SqlInsertNumber" where
  "number_class n =
     (if - (2 ^ 31) \<le> n \<and> n < 2 ^ 31 then Integer n
      else if - (2 ^ 63) \<le> n \<and> n < 2 ^ 63 then Long n
      else BigInteger n)"

lemma is_digit_of_nat: "decimal_digit d \<Longrightarrow> is_digit (of_nat d)"
  by (simp add: decimal_digit_def is_digit_def word_le_nat_alt unat_of_nat)

lemma digit_not: "is_digit c \<Longrightarrow> c \<notin> {43, 45, 46, 69, 88, 98, 101, 120}"
  by (auto simp: is_digit_def)

lemma number_tail_integer:
  assumes "lx_text m = pre @ units ds @ post" and "lx_pos m = length pre" and "lx_inv m" and "list_all decimal_digit ds"
    and "ends_integer post" and "number_scale m = 0" and "\<not> number_exp m"
  shows "number_tail m = (Tok ''LITERAL_INT'', m\<lparr>lx_pos := length pre + length ds,
    lx_ch := char_at m (length pre + length ds), buf_pos := length pre + length ds - lx_mark m,
    lx_token := Some (Tok ''LITERAL_INT'')\<rparr>)"
proof -
  have "\<forall>x \<in> set (units ds). is_digit x"
    using assms(4) is_digit_of_nat by (auto simp: units_def list_all_iff)
  then have run: "skip_while is_digit m = m\<lparr>lx_pos := length pre + length ds, lx_ch := char_at m (length pre + length ds)\<rparr>"
    using skip_while_run [OF assms(1,2,3), of is_digit] assms(5) by (auto simp: ends_integer_def units_def)
  have "char_at m (length pre + length ds) \<notin> {46, 69, 101}"
    using assms(1,5) by (cases post) (auto simp: char_at_def units_def nth_append ends_integer_def EOI_def)
  then show ?thesis
    using assms(6,7) by (simp add: number_tail_def run Let_def number_exponent_def)
qed

lemma scan_number_integer:
  assumes "lx_text l = pre @ sign @ units ds @ post" and "lx_pos l = length pre" and "lx_inv l"
    and "sign = [] \<or> sign = [45]" and "ds \<noteq> []" and "list_all decimal_digit ds" and "ends_integer post"
  shows "\<exists>l'. scan_number l = (Ok (Tok ''LITERAL_INT''), l') \<and> token_slice l' = Some (sign @ units ds) \<and>
    lx_token l' = Some (Tok ''LITERAL_INT'')"
proof -
  let ?l = "l\<lparr>lx_mark := lx_pos l, number_scale := 0, number_exp := False\<rparr>"
  define m where "m = (if lx_ch ?l = 45 then scan_char ?l else ?l)"
  obtain d ds' where ds: "ds = d # ds'"
    using assms(5) by (cases ds) auto
  have digit: "is_digit (of_nat d)"
    using assms(6) is_digit_of_nat ds by simp
  have "lx_ch l = hd (sign @ units ds)" "\<not> is_eof l"
    using assms(1-4) ds by (auto simp: lx_inv_def char_at_def units_def is_eof_def)
  then have minus: "lx_ch l = 45 \<longleftrightarrow> sign = [45]"
    using assms(4) digit_not [OF digit] ds by (auto simp: units_def)
  have m: "lx_text m = (pre @ sign) @ units ds @ post" "lx_pos m = length (pre @ sign)" "lx_inv m"
    "lx_mark m = length pre" "number_scale m = 0" "\<not> number_exp m"
    using assms(1-4) minus loops_inv [OF loops_scan_char, of ?l] \<open>\<not> is_eof l\<close> by (auto simp: m_def scan_char_def)
  have ch: "lx_ch m = of_nat d"
    using m(1-3) ds by (simp add: lx_inv_def char_at_def units_def)
  have next_ch: "char_at m (lx_pos m + 1) \<notin> {88, 98, 120}"
  proof (cases ds')
    case Nil
    then show ?thesis
      using m(1,2) ds assms(7) by (cases post) (auto simp: char_at_def units_def nth_append ends_integer_def EOI_def)
  next
    case (Cons e es)
    then have "char_at m (lx_pos m + 1) = of_nat e" "is_digit (of_nat e)"
      using m(1,2) ds assms(6) is_digit_of_nat by (simp_all add: char_at_def units_def nth_append)
    then show ?thesis
      using digit_not by simp
  qed
  have "scan_number l = apfst Ok (number_tail m)"
    using next_ch by (simp add: scan_number_def number_rest_def m_def Let_def)
  then show ?thesis
    using number_tail_integer [OF m(1-3) assms(6,7) m(5,6)] m(1,4)
    by (simp add: token_slice_def lx_slice_def units_def)
qed

lemma from_utf16_cons: "u < 0xD800 \<Longrightarrow> from_utf16 (u # us) = map_option (Cons (unat u)) (from_utf16 us)"
  by (cases us) simp_all

lemma from_utf16_digits: "list_all decimal_digit ds \<Longrightarrow> from_utf16 (units ds) = Some ds"
proof (induction ds)
  case (Cons d ds)
  then have "(of_nat d :: u16) < 0xD800" "unat (of_nat d :: u16) = d"
    by (simp_all add: decimal_digit_def word_less_nat_alt unat_of_nat)
  with Cons show ?case
    by (simp add: units_def from_utf16_cons)
qed (simp add: units_def)

lemma utf8_bytes_digits: "list_all decimal_digit ds \<Longrightarrow> utf8_bytes ds = map of_nat ds"
  by (induction ds) (auto simp: utf8_bytes_def utf8_char_def byte_def decimal_digit_def)

lemma parse_signed_digits:
  assumes "ds \<noteq> []" and "list_all decimal_digit ds"
  shows "parse_signed low high ds = (if low \<le> decimal_value ds \<and> decimal_value ds \<le> high then Some (decimal_value ds) else None)"
    and "parse_signed low high (45 # ds) = (if low \<le> - decimal_value ds \<and> - decimal_value ds \<le> high then Some (- decimal_value ds) else None)"
proof -
  have "hd ds \<noteq> 43" "hd ds \<noteq> 45"
    using assms by (cases ds; simp add: decimal_digit_def)+
  then show "parse_signed low high ds = (if low \<le> decimal_value ds \<and> decimal_value ds \<le> high then Some (decimal_value ds) else None)"
    using assms by (auto simp: parse_signed_def)
  show "parse_signed low high (45 # ds) = (if low \<le> - decimal_value ds \<and> - decimal_value ds \<le> high then Some (- decimal_value ds) else None)"
    using assms by (auto simp: parse_signed_def)
qed

lemma no_hex_prefix:
  assumes "list_all decimal_digit ds" and "c = 120 \<or> c = 88"
  shows "strip_prefix [48, c] ds = None" and "strip_prefix [48, c] (45 # ds) = None"
  using assms by (cases ds; cases "tl ds"; auto simp: strip_prefix_def decimal_digit_def)+

text \<open>The documented behaviour of \<open>BigInt::parse_bytes\<close> on decimal numerals.\<close>

definition reads_decimals :: "(u8 list \<Rightarrow> nat \<Rightarrow> int option) \<Rightarrow> bool" where
  "reads_decimals parse_bytes \<longleftrightarrow>
     (\<forall>ds. ds \<noteq> [] \<longrightarrow> list_all decimal_digit ds \<longrightarrow>
        parse_bytes (map of_nat ds) 10 = Some (decimal_value ds) \<and>
        parse_bytes (45 # map of_nat ds) 10 = Some (- decimal_value ds))"

text \<open>Decimal integers read exactly: every numeral, signed or not and of any length, is scanned as one
  \<open>LITERAL_INT\<close> token, and \<open>integer_value\<close> returns its value, as an \<open>Integer\<close> exactly when it fits 32 bits,
  otherwise as a \<open>Long\<close> when it fits 64 bits, otherwise as a \<open>BigInteger\<close>.\<close>

theorem integer_literal_value:
  assumes "lx_text l = pre @ sign @ units ds @ post" and "lx_pos l = length pre" and "lx_inv l"
    and "sign = [] \<or> sign = [45]" and "ds \<noteq> []" and "list_all decimal_digit ds" and "ends_integer post"
    and "reads_decimals parse_bytes"
  shows "\<exists>l'. scan_number l = (Ok (Tok ''LITERAL_INT''), l') \<and>
    integer_value parse_bytes l' = Ok (number_class (if sign = [] then decimal_value ds else - decimal_value ds))"
proof -
  obtain l' where run: "scan_number l = (Ok (Tok ''LITERAL_INT''), l')" and slice: "token_slice l' = Some (sign @ units ds)"
    and token: "lx_token l' = Some (Tok ''LITERAL_INT'')"
    using scan_number_integer [OF assms(1-7)] by blast
  have big: "parse_bytes (map of_nat ds) 10 = Some (decimal_value ds)" "parse_bytes (45 # map of_nat ds) 10 = Some (- decimal_value ds)"
    using assms(5,6,8) by (simp_all add: reads_decimals_def)
  have bytes: "utf8_bytes (45 # ds) = 45 # map of_nat ds"
    using utf8_bytes_digits [OF assms(6)] by (simp add: utf8_bytes_def utf8_char_def byte_def)
  have minus: "from_utf16 (45 # units ds) = Some (45 # ds)"
    using from_utf16_digits [OF assms(6)] by (simp add: from_utf16_cons)
  have "integer_value parse_bytes l' = Ok (number_class (if sign = [] then decimal_value ds else - decimal_value ds))"
    using assms(4)
  proof
    assume "sign = []"
    then show ?thesis
      using slice token from_utf16_digits [OF assms(6)] utf8_bytes_digits [OF assms(6)]
      by (simp add: integer_value_def lit_def no_hex_prefix(1) [OF assms(6)] big parse_signed_digits [OF assms(5,6)] number_class_def)
  next
    assume "sign = [45]"
    then show ?thesis
      using slice token minus bytes
      by (simp add: integer_value_def lit_def no_hex_prefix(2) [OF assms(6)] big parse_signed_digits [OF assms(5,6)] number_class_def)
  qed
  with run show ?thesis
    by blast
qed

definition decimal_parse_bytes :: "u8 list \<Rightarrow> nat \<Rightarrow> int option" where
  "decimal_parse_bytes bs radix =
     (if bs \<noteq> [] \<and> hd bs = 45 then Some (- decimal_value (map unat (tl bs))) else Some (decimal_value (map unat bs)))"

lemma decimal_parse_bytes_reads: "reads_decimals decimal_parse_bytes"
proof -
  have "map unat (map of_nat ds :: u8 list) = ds" "ds \<noteq> [] \<longrightarrow> hd (map of_nat ds) \<noteq> (45 :: u8)"
    if "list_all decimal_digit ds" for ds
    using that by (induction ds) (auto simp: decimal_digit_def unat_of_nat word_unat_eq_iff)
  then show ?thesis
    by (simp add: reads_decimals_def decimal_parse_bytes_def del: map_map)
qed

theorem integer_literal_value_witness:
  "\<exists>l'. scan_number (from_rdbc_string [45, 50, 49, 52, 55, 52, 56, 51, 54, 52, 57, 44] None True) = (Ok (Tok ''LITERAL_INT''), l') \<and>
     integer_value decimal_parse_bytes l' = Ok (Long (- 2147483649))"
proof -
  define l where "l = from_rdbc_string [45, 50, 49, 52, 55, 52, 56, 51, 54, 52, 57, 44] None True"
  have "lx_text l = [] @ [45] @ units [50, 49, 52, 55, 52, 56, 51, 54, 52, 57] @ [44]" "lx_pos l = length []" "lx_inv l"
    using from_rdbc_string_inv [of "[45, 50, 49, 52, 55, 52, 56, 51, 54, 52, 57, 44]" None True]
    by (simp_all add: l_def units_def from_rdbc_string_def Let_def char_at_def skip_leading.simps)
  moreover have "list_all decimal_digit [50, 49, 52, 55, 52, 56, 51, 54, 52, 57]" "ends_integer [44]"
    by (simp_all add: decimal_digit_def ends_integer_def is_digit_def)
  moreover have "number_class (- decimal_value [50, 49, 52, 55, 52, 56, 51, 54, 52, 57]) = Long (- 2147483649)"
    by (simp add: number_class_def decimal_value_def)
  ultimately show ?thesis
    using integer_literal_value [of l "[]" "[45]" "[50, 49, 52, 55, 52, 56, 51, 54, 52, 57]" "[44]", OF _ _ _ _ _ _ _ decimal_parse_bytes_reads]
    unfolding l_def [symmetric] by simp
qed

end
