(* ===== verification/Resource_Registry.thy ===== *)
theory Resource_Registry
  imports Ordered_Map
begin

text \<open>
  The registry of the resources (statements, result sets, large objects) that were opened under one lease
  of a connection: \<open>druid/src/core/standard_resource_registry.rs\<close>, \<open>registry_a.rs\<close>, \<open>registry_b.rs\<close> and the
  types of \<open>standard_resource_registry_state.rs\<close>, \<open>standard_resource_admission.rs\<close> and
  \<open>standard_resource_registration.rs\<close>. Every critical section of the code is a function on the registry.
  A \<open>oneshot\<close> channel is the number of its creation; handing a coordinator to the runtime is the
  generation to spawn it for. Resource ids and channels are natural numbers: a run creates fewer than
  \<open>2 ^ 64\<close> of them.
\<close>

section \<open>State\<close>

datatype RegistryError = ConnectionDiscarded | OtherError rust_str | DriverError rust_str

type_synonym close_result = "(unit, RegistryError) result"

datatype CleanupState = CsOpen | CsQueued | CsClosing | CsRetry

record 'r Entry =
  resource :: 'r
  cleanup_state :: CleanupState
  cleanup_waiters :: "nat list"

type_synonym 'r resources = "(nat, 'r Entry) btree"

datatype 'r RegistryState =
    RegOpen (rg_generation: nat) (rg_resources: "'r resources") (rg_pending: nat) (rg_running: bool)
  | RegClosing (rg_generation: nat) (rg_resources: "'r resources") (rg_pending: nat)
      (rg_error: "RegistryError option") (rg_running: bool)
  | RegClosed (rg_generation: nat) (rg_resources: "'r resources") (rg_error: "RegistryError option") (rg_running: bool)

record 'r Registry =
  reg_state :: "'r RegistryState"
  next_id :: nat
  next_waiter :: nat

record Registration =
  rn_own :: bool
  rn_generation :: nat
  rn_id :: nat

definition Registry_default :: "'r Registry" where
  "Registry_default = \<lparr>reg_state = RegOpen 0 [] 0 False, next_id = 1, next_waiter = 0\<rparr>"

definition Entry_new :: "'r \<Rightarrow> CleanupState \<Rightarrow> 'r Entry" where
  "Entry_new r cs = \<lparr>resource = r, cleanup_state = cs, cleanup_waiters = []\<rparr>"

abbreviation u64_max :: nat where "u64_max \<equiv> 2 ^ 64 - 1"

text \<open>The three variants hand out the same mutable references.\<close>

fun set_parts :: "'r resources \<Rightarrow> bool \<Rightarrow> 'r RegistryState \<Rightarrow> 'r RegistryState" where
  "set_parts rs b (RegOpen g _ p _) = RegOpen g rs p b"
| "set_parts rs b (RegClosing g _ p e _) = RegClosing g rs p e b"
| "set_parts rs b (RegClosed g _ e _) = RegClosed g rs e b"

definition update_entry :: "nat \<Rightarrow> ('r Entry \<Rightarrow> 'r Entry) \<Rightarrow> 'r resources \<Rightarrow> 'r resources" where
  "update_entry i f rs = map (\<lambda>(k, e). (k, if k = i then f e else e)) rs"

definition update_states :: "(CleanupState \<Rightarrow> CleanupState) \<Rightarrow> 'r resources \<Rightarrow> 'r resources" where
  "update_states f rs = map (\<lambda>(k, e). (k, e\<lparr>cleanup_state := f (cleanup_state e)\<rparr>)) rs"

definition request :: "CleanupState \<Rightarrow> CleanupState" where
  "request cs = (if cs = CsOpen \<or> cs = CsRetry then CsQueued else cs)"

section \<open>Leases and admissions\<close>

definition current_generation :: "'r Registry \<Rightarrow> nat" where
  "current_generation r = rg_generation (reg_state r)"

definition open_next_generation :: "'r Registry \<Rightarrow> (nat, RegistryError) result \<times> 'r Registry" where
  "open_next_generation r =
     (case reg_state r of
        RegOpen g rs p b \<Rightarrow> if rs = [] \<and> p = 0 \<and> \<not> b then (Ok g, r) else (Err ConnectionDiscarded, r)
      | RegClosed g rs e b \<Rightarrow>
          if rs = [] \<and> e = None \<and> \<not> b
          then (let g' = min (g + 1) u64_max in (Ok g', r\<lparr>reg_state := RegOpen g' [] 0 False\<rparr>))
          else (Err ConnectionDiscarded, r)
      | RegClosing g rs p e b \<Rightarrow> (Err ConnectionDiscarded, r))"

definition begin_admission :: "nat \<Rightarrow> 'r Registry \<Rightarrow> (nat, RegistryError) result \<times> 'r Registry" where
  "begin_admission expected r =
     (case reg_state r of
        RegOpen g rs p b \<Rightarrow>
          if g = expected then
            (if p = u64_max then (Err (OtherError (lit ''standard resource admission overflow'')), r)
             else (Ok expected, r\<lparr>reg_state := RegOpen g rs (p + 1) b\<rparr>))
          else (Err ConnectionDiscarded, r)
      | _ \<Rightarrow> (Err ConnectionDiscarded, r))"

definition finish_admission :: "nat \<Rightarrow> 'r Registry \<Rightarrow> 'r Registry" where
  "finish_admission g r =
     (case reg_state r of
        RegOpen g' rs p b \<Rightarrow> if g' = g \<and> p > 0 then r\<lparr>reg_state := RegOpen g' rs (p - 1) b\<rparr> else r
      | RegClosing g' rs p e b \<Rightarrow> if g' = g \<and> p > 0 then r\<lparr>reg_state := RegClosing g' rs (p - 1) e b\<rparr> else r
      | RegClosed g' rs e b \<Rightarrow> r)"

section \<open>Registration\<close>

text \<open>A handle comes with the answer of \<open>bind_registration\<close>: the slot of the handle takes one registration.\<close>

fun insert_handles :: "CleanupState \<Rightarrow> ('r \<times> bool) list \<Rightarrow> 'r resources \<Rightarrow> nat \<Rightarrow> 'r resources \<times> nat \<times> nat list \<times> bool" where
  "insert_handles cs [] rs n = (rs, n, [], False)"
| "insert_handles cs ((h, bound) # hs) rs n =
     (case insert_handles cs hs (if bound then bt_insert n (Entry_new h cs) rs else rs) (n + 1) of
        (rs', n', ids, failed) \<Rightarrow> (rs', n', if bound then n # ids else ids, failed \<or> \<not> bound))"

text \<open>The entries with the given ids change their state and get a waiter each.\<close>

fun enlist :: "(CleanupState \<Rightarrow> CleanupState) \<Rightarrow> nat list \<Rightarrow> 'r resources \<Rightarrow> nat \<Rightarrow> 'r resources \<times> nat \<times> nat list" where
  "enlist f [] rs w = (rs, w, [])"
| "enlist f (i # ids) rs w =
     (case map_of rs i of
        None \<Rightarrow> enlist f ids rs w
      | Some _ \<Rightarrow>
          (case enlist f ids
                  (update_entry i (\<lambda>e. e\<lparr>cleanup_state := f (cleanup_state e), cleanup_waiters := cleanup_waiters e @ [w]\<rparr>) rs)
                  (w + 1) of
             (rs', w', receivers) \<Rightarrow> (rs', w', w # receivers)))"

record register_outcome =
  ro_accepted :: bool
  ro_registrations :: "Registration list"
  ro_bind_failed :: bool
  ro_receivers :: "nat list"
  ro_spawn :: "nat option"

definition register_section :: "bool \<Rightarrow> nat \<Rightarrow> ('r \<times> bool) list \<Rightarrow> 'r Registry \<Rightarrow> register_outcome \<times> 'r Registry" where
  "register_section belongs expected handles r =
     (let s = reg_state r;
          valid_open = (case s of RegOpen g rs p b \<Rightarrow> belongs \<and> g = expected | _ \<Rightarrow> False);
          (rs, n, ids, bind_failed) = insert_handles (if valid_open then CsOpen else CsQueued) handles (rg_resources s) (next_id r);
          registrations = map (\<lambda>i. \<lparr>rn_own = True, rn_generation = (if valid_open then expected else rg_generation s), rn_id = i\<rparr>) ids
      in if valid_open \<and> \<not> bind_failed then
           (\<lparr>ro_accepted = True, ro_registrations = registrations, ro_bind_failed = False, ro_receivers = [], ro_spawn = None\<rparr>,
            r\<lparr>reg_state := set_parts rs (rg_running s) s, next_id := n\<rparr>)
         else
           (let (rs, w, receivers) = enlist (\<lambda>_. CsQueued) ids rs (next_waiter r);
                spawn = receivers \<noteq> [] \<and> \<not> rg_running s
            in (\<lparr>ro_accepted = False, ro_registrations = registrations, ro_bind_failed = bind_failed, ro_receivers = receivers,
                 ro_spawn = (if spawn then Some (rg_generation s) else None)\<rparr>,
                r\<lparr>reg_state := set_parts rs (rg_running s \<or> spawn) s, next_id := n, next_waiter := w\<rparr>)))"

text \<open>\<open>await_cleanup\<close> on what the channels delivered, in order; \<open>None\<close> is a dropped sender.\<close>

definition await_cleanup :: "close_result option list \<Rightarrow> close_result" where
  "await_cleanup received =
     (case [e. Some (Err e) \<leftarrow> map (\<lambda>a. case a of None \<Rightarrow> Some (Err ConnectionDiscarded) | Some x \<Rightarrow> Some x) received] of
        [] \<Rightarrow> Ok ()
      | e # _ \<Rightarrow> Err e)"

text \<open>The result of \<open>register_batch\<close> for a non-empty batch, once its waiters were answered.\<close>

definition register_result :: "register_outcome \<Rightarrow> close_result option list \<Rightarrow> (Registration list, RegistryError) result" where
  "register_result out received =
     (if ro_accepted out then Ok (ro_registrations out)
      else if ro_bind_failed out then Err (OtherError (lit ''standard resource already has a registry owner''))
      else case await_cleanup received of Err e \<Rightarrow> Err e | Ok _ \<Rightarrow> Err ConnectionDiscarded)"

section \<open>Requests to close\<close>

definition queue_section :: "Registration list \<Rightarrow> 'r Registry \<Rightarrow> nat list \<times> nat option \<times> 'r Registry" where
  "queue_section registrations r =
     (let s = reg_state r;
          ids = [rn_id n. n \<leftarrow> registrations, rn_generation n = rg_generation s];
          (rs, w, receivers) = enlist request ids (rg_resources s) (next_waiter r);
          spawn = receivers \<noteq> [] \<and> \<not> rg_running s
      in (receivers, if spawn then Some (rg_generation s) else None,
          r\<lparr>reg_state := set_parts rs (rg_running s \<or> spawn) s, next_waiter := w\<rparr>))"

definition close_registered :: "Registration list \<Rightarrow> 'r Registry \<Rightarrow> (nat list, RegistryError) result \<times> nat option \<times> 'r Registry" where
  "close_registered registrations r =
     (if list_ex (\<lambda>n. \<not> rn_own n) registrations then (Err ConnectionDiscarded, None, r)
      else case queue_section registrations r of (receivers, spawn, r') \<Rightarrow> (Ok receivers, spawn, r'))"

definition request_registered_cleanup :: "Registration \<Rightarrow> 'r Registry \<Rightarrow> nat option \<times> 'r Registry" where
  "request_registered_cleanup registration r =
     (if \<not> rn_own registration then (None, r) else snd (queue_section [registration] r))"

definition unregister :: "nat \<Rightarrow> nat \<Rightarrow> 'r Registry \<Rightarrow> 'r Registry" where
  "unregister g i r =
     (let s = reg_state r in
      if rg_generation s = g
         \<and> (case map_of (rg_resources s) i of
              Some e \<Rightarrow> cleanup_state e = CsOpen \<or> cleanup_state e = CsRetry
            | None \<Rightarrow> False)
      then r\<lparr>reg_state := set_parts (bt_remove i (rg_resources s)) (rg_running s) s\<rparr> else r)"

definition cleanup_requested :: "nat \<Rightarrow> nat \<Rightarrow> 'r Registry \<Rightarrow> bool" where
  "cleanup_requested g i r =
     (case reg_state r of
        RegOpen g' rs p b \<Rightarrow>
          (if g' = g then (case map_of rs i of None \<Rightarrow> True | Some e \<Rightarrow> cleanup_state e \<noteq> CsOpen) else True)
      | _ \<Rightarrow> True)"

definition has_open_resources :: "('r \<Rightarrow> bool) \<Rightarrow> 'r Registry \<Rightarrow> bool" where
  "has_open_resources is_resource_closed r =
     (case reg_state r of
        RegOpen g rs p b \<Rightarrow>
          p > 0 \<or> b \<or> list_ex (\<lambda>(_, e). \<not> is_resource_closed (resource e) \<or> cleanup_state e \<noteq> CsOpen) rs
      | RegClosing g rs p e b \<Rightarrow> True
      | RegClosed g rs e b \<Rightarrow> rs \<noteq> [] \<or> e \<noteq> None \<or> b)"

text \<open>One turn of the loop of \<open>close_all\<close>: the result, if it returns, the generation it now waits for, and
  the coordinator to spawn.\<close>

definition close_all_turn :: "nat option \<Rightarrow> 'r Registry \<Rightarrow> close_result option \<times> nat option \<times> nat option \<times> 'r Registry" where
  "close_all_turn waited r =
     (let start = (\<lambda>g rs p b. (None, Some g, if b then None else Some g,
            r\<lparr>reg_state := RegClosing g (update_states request rs) p None True\<rparr>))
      in case reg_state r of
        RegClosing g rs p e b \<Rightarrow>
          (None, Some g, if b then None else Some g, r\<lparr>reg_state := RegClosing g rs p e True\<rparr>)
      | RegClosed g rs e b \<Rightarrow>
          if waited = Some g then (Some (case e of None \<Rightarrow> Ok () | Some x \<Rightarrow> Err x), waited, None, r)
          else if rs = [] \<and> e = None \<and> \<not> b then (Some (Ok ()), waited, None, r)
          else start g rs 0 b
      | RegOpen g rs p b \<Rightarrow> start g rs p b)"

section \<open>The coordinator\<close>

datatype 'r CoordinatorStep = Work nat 'r | Wait | Complete

text \<open>The section that decides what to do next; \<open>generation\<close> is the one it was spawned for.\<close>

definition coordinator_turn :: "nat \<Rightarrow> 'r Registry \<Rightarrow> 'r CoordinatorStep \<times> 'r Registry" where
  "coordinator_turn generation r =
     (let s = reg_state r; rs = rg_resources s;
          pending_admissions = (case s of RegClosing g _ p e b \<Rightarrow> p > 0 | _ \<Rightarrow> False)
      in if rg_generation s \<noteq> generation \<or> \<not> rg_running s then (Complete, r)
         else if pending_admissions then (Wait, r)
         else case find (\<lambda>(_, e). cleanup_state e = CsQueued) (rev rs) of
           Some (i, e) \<Rightarrow>
             (Work i (resource e),
              r\<lparr>reg_state := set_parts (update_entry i (\<lambda>e. e\<lparr>cleanup_state := CsClosing\<rparr>) rs) (rg_running s) s\<rparr>)
         | None \<Rightarrow>
             if list_ex (\<lambda>(_, e). cleanup_state e = CsClosing) rs then (Wait, r)
             else (Complete,
               r\<lparr>reg_state := (case s of
                   RegClosing g rs p e b \<Rightarrow> RegClosed g rs e False
                 | _ \<Rightarrow> set_parts rs False s)\<rparr>))"

definition record_error :: "close_result \<Rightarrow> 'r RegistryState \<Rightarrow> 'r RegistryState" where
  "record_error result s =
     (case (result, s) of
        (Err x, RegClosing g rs p None b) \<Rightarrow> RegClosing g rs p (Some x) b
      | _ \<Rightarrow> s)"

text \<open>The section after \<open>close_resource\<close> returned; the waiters are then sent the result.\<close>

definition coordinator_done :: "nat \<Rightarrow> nat \<Rightarrow> close_result \<Rightarrow> 'r Registry \<Rightarrow> nat list \<times> 'r Registry" where
  "coordinator_done generation i result r =
     (let s = reg_state r; rs = rg_resources s in
      if rg_generation s \<noteq> generation then ([], r)
      else
        let waiters = (case map_of rs i of Some e \<Rightarrow> cleanup_waiters e | None \<Rightarrow> []);
            rs' = (case result of
                Ok _ \<Rightarrow> bt_remove i rs
              | Err _ \<Rightarrow> update_entry i (\<lambda>e. e\<lparr>cleanup_state := CsRetry, cleanup_waiters := []\<rparr>) rs)
        in (waiters, r\<lparr>reg_state := record_error result (set_parts rs' (rg_running s) s)\<rparr>))"

text \<open>The guard of a coordinator that ended without completing.\<close>

definition coordinator_stopped :: "nat \<Rightarrow> 'r Registry \<Rightarrow> 'r Registry" where
  "coordinator_stopped generation r =
     (let s = reg_state r in
      if rg_generation s = generation
      then r\<lparr>reg_state := set_parts (update_states (\<lambda>cs. if cs = CsClosing then CsQueued else cs) (rg_resources s)) False s\<rparr>
      else r)"

text \<open>The loop of \<open>run_coordinator\<close> while nobody else takes the lock: one answer of \<open>close_resource\<close> per
  resource; the results sent to waiters, in order. \<open>None\<close> while it still runs.\<close>

fun run_coordinator :: "nat \<Rightarrow> close_result list \<Rightarrow> 'r Registry \<Rightarrow> (nat \<times> close_result) list option \<times> 'r Registry" where
  "run_coordinator generation answers r =
     (case coordinator_turn generation r of
        (Complete, r1) \<Rightarrow> (Some [], r1)
      | (Wait, r1) \<Rightarrow> (None, r1)
      | (Work i h, r1) \<Rightarrow>
          (case answers of
             [] \<Rightarrow> (None, r1)
           | a # answers' \<Rightarrow>
               (case coordinator_done generation i a r1 of
                  (waiters, r2) \<Rightarrow>
                    (case run_coordinator generation answers' r2 of
                       (out, r3) \<Rightarrow> (map_option (\<lambda>sent. map (\<lambda>w. (w, a)) waiters @ sent) out, r3)))))"

declare run_coordinator.simps [simp del]

section \<open>Closing everything\<close>

definition retry_entry :: "'r Entry \<Rightarrow> 'r Entry" where
  "retry_entry e = e\<lparr>cleanup_state := CsRetry, cleanup_waiters := []\<rparr>"

definition failures :: "(nat \<Rightarrow> close_result) \<Rightarrow> 'r resources \<Rightarrow> 'r resources" where
  "failures answer rs = map (\<lambda>(k, e). (k, retry_entry e)) (filter (\<lambda>(k, _). \<not> is_ok (answer k)) rs)"

definition first_failure :: "(nat \<Rightarrow> close_result) \<Rightarrow> RegistryError option \<Rightarrow> nat list \<Rightarrow> RegistryError option" where
  "first_failure answer err ids =
     (case err of Some x \<Rightarrow> Some x | None \<Rightarrow>
        (case find (\<lambda>i. \<not> is_ok (answer i)) ids of
           None \<Rightarrow> None
         | Some i \<Rightarrow> (case answer i of Err x \<Rightarrow> Some x | Ok _ \<Rightarrow> None)))"

definition deliveries :: "(nat \<Rightarrow> close_result) \<Rightarrow> 'r resources \<Rightarrow> (nat \<times> close_result) list" where
  "deliveries answer rs = concat (map (\<lambda>(k, e). map (\<lambda>w. (w, answer k)) (cleanup_waiters e)) (rev rs))"

definition all_in_state :: "CleanupState set \<Rightarrow> 'r resources \<Rightarrow> bool" where
  "all_in_state S rs \<longleftrightarrow> (\<forall>k e. (k, e) \<in> set rs \<longrightarrow> cleanup_state e \<in> S)"

lemma all_in_state_simps [simp]:
  "all_in_state S []" "all_in_state S ((k, e) # rs) \<longleftrightarrow> cleanup_state e \<in> S \<and> all_in_state S rs"
  "all_in_state S (rs @ rs') \<longleftrightarrow> all_in_state S rs \<and> all_in_state S rs'"
  by (auto simp: all_in_state_def)

lemma find_none_in_state: "all_in_state S rs \<Longrightarrow> CsQueued \<notin> S \<Longrightarrow> find (\<lambda>(_, e). cleanup_state e = CsQueued) (rev rs) = None"
  by (force simp: find_None_iff all_in_state_def)

lemma update_entry_other: "k \<notin> fst ` set rs \<Longrightarrow> update_entry k f rs = rs"
  by (force simp: update_entry_def intro!: map_idI)

lemma bt_remove_other: "k \<notin> fst ` set rs \<Longrightarrow> bt_remove k rs = rs"
  by (force simp: bt_remove_def intro!: filter_True)

lemma update_entry_middle:
  assumes "bt_invar (pre @ (k, e) # post)"
  shows "update_entry k f (pre @ (k, e) # post) = pre @ (k, f e) # post"
    and "bt_remove k (pre @ (k, e) # post) = pre @ post"
    and "map_of (pre @ (k, e) # post) k = Some e"
proof -
  have distinct: "distinct (map fst (pre @ (k, e) # post))"
    using bt.entries_distinct [OF assms] .
  then have "k \<notin> fst ` set pre" "k \<notin> fst ` set post"
    by auto
  then show "update_entry k f (pre @ (k, e) # post) = pre @ (k, f e) # post"
    using update_entry_other [of k pre f] update_entry_other [of k post f] by (simp add: update_entry_def)
  show "bt_remove k (pre @ (k, e) # post) = pre @ post"
    using bt_remove_other [OF \<open>k \<notin> fst ` set pre\<close>] bt_remove_other [OF \<open>k \<notin> fst ` set post\<close>]
    by (simp add: bt_remove_def)
  show "map_of (pre @ (k, e) # post) k = Some e"
    using map_of_is_SomeI [OF distinct] by simp
qed

lemma bt_invar_drop: "bt_invar (pre @ e # post) \<Longrightarrow> bt_invar (pre @ post)"
  by (auto simp: bt_invar_def sorted_wrt_append)

lemma bt_invar_retag: "bt_invar (pre @ (k, e) # post) \<Longrightarrow> bt_invar (pre @ (k, e') # post)"
  by (simp add: bt_invar_def)

text \<open>One round of the coordinator on the last queued entry.\<close>

lemma coordinator_round:
  assumes "reg_state r = RegClosing g (pre @ (k, e) # post) 0 err True" and "bt_invar (pre @ (k, e) # post)"
    and "cleanup_state e = CsQueued" and "all_in_state {CsRetry} post"
  shows "\<exists>r1. coordinator_turn g r = (Work k (resource e), r1) \<and>
    coordinator_done g k a r1 = (cleanup_waiters e,
      r\<lparr>reg_state := RegClosing g (if is_ok a then pre @ post else pre @ (k, retry_entry e) # post) 0
          (first_failure (\<lambda>_. a) err [k]) True\<rparr>)"
proof -
  let ?e = "e\<lparr>cleanup_state := CsClosing\<rparr>"
  have "find (\<lambda>(_, e). cleanup_state e = CsQueued) (rev (pre @ (k, e) # post)) = Some (k, e)"
    using find_none_in_state [OF assms(4)] assms(3) by (simp add: find_append)
  then have "coordinator_turn g r = (Work k (resource e), r\<lparr>reg_state := RegClosing g (pre @ (k, ?e) # post) 0 err True\<rparr>)"
    by (simp add: coordinator_turn_def Let_def assms(1) update_entry_middle(1) [OF assms(2)])
  moreover have "bt_invar (pre @ (k, ?e) # post)"
    using bt_invar_retag [OF assms(2)] .
  note middle = update_entry_middle [OF this]
  ultimately show ?thesis
    by (cases a; cases err)
      (auto simp: coordinator_done_def Let_def middle retry_entry_def record_error_def first_failure_def)
qed

lemma first_failure_step: "first_failure answer (first_failure answer err [k]) ids = first_failure answer err (k # ids)"
  by (cases "answer k") (auto simp: first_failure_def split: option.splits)

lemma run_coordinator_drains:
  assumes "reg_state r = RegClosing g (pre @ post) 0 err True" and "bt_invar (pre @ post)"
    and "all_in_state {CsQueued} pre" and "all_in_state {CsRetry} post"
  shows "run_coordinator g (map answer (rev (map fst pre)) @ extra) r =
    (Some (deliveries answer pre),
     r\<lparr>reg_state := RegClosed g (failures answer pre @ post) (first_failure answer err (rev (map fst pre))) False\<rparr>)"
  using assms
proof (induction pre arbitrary: r err post rule: rev_induct)
  case Nil
  have "find (\<lambda>(_, e). cleanup_state e = CsQueued) (rev post) = None"
    using find_none_in_state [OF Nil(4)] by simp
  moreover have "\<not> list_ex (\<lambda>(_, e). cleanup_state e = CsClosing) post"
    using Nil(4) by (fastforce simp: list_ex_iff all_in_state_def)
  ultimately have "coordinator_turn g r = (Complete, r\<lparr>reg_state := RegClosed g post err False\<rparr>)"
    using Nil(1) by (simp add: coordinator_turn_def)
  then show ?case
    by (subst run_coordinator.simps) (simp add: deliveries_def failures_def first_failure_def split: option.splits)
next
  case (snoc x pre)
  obtain k e where x: "x = (k, e)"
    by fastforce
  obtain r1 where turn: "coordinator_turn g r = (Work k (resource e), r1)"
    and finish: "coordinator_done g k (answer k) r1 = (cleanup_waiters e,
      r\<lparr>reg_state := RegClosing g (if is_ok (answer k) then pre @ post else pre @ (k, retry_entry e) # post) 0
          (first_failure (\<lambda>_. answer k) err [k]) True\<rparr>)"
    using coordinator_round [of r g pre k e post err "answer k"] snoc.prems by (auto simp: x)
  let ?post = "if is_ok (answer k) then post else (k, retry_entry e) # post"
  let ?err = "first_failure answer err [k]"
  have "bt_invar (pre @ ?post)"
    using snoc.prems(2) bt_invar_drop [of pre "(k, e)" post] bt_invar_retag [of pre k e post] by (simp add: x)
  moreover have "all_in_state {CsRetry} ?post"
    using snoc.prems(4) by (simp add: retry_entry_def)
  ultimately have "run_coordinator g (map answer (rev (map fst pre)) @ extra) (r\<lparr>reg_state := RegClosing g (pre @ ?post) 0 ?err True\<rparr>) =
    (Some (deliveries answer pre),
     r\<lparr>reg_state := RegClosed g (failures answer pre @ ?post) (first_failure answer ?err (rev (map fst pre))) False\<rparr>)"
    using snoc.IH [of "r\<lparr>reg_state := RegClosing g (pre @ ?post) 0 ?err True\<rparr>" ?post ?err] snoc.prems(3) by simp
  moreover have "first_failure (\<lambda>_. answer k) err [k] = ?err"
    by (cases "answer k") (simp_all add: first_failure_def split: option.split)
  ultimately show ?case
    unfolding first_failure_step
    by (subst run_coordinator.simps)
      (simp add: x turn finish if_distrib [of "\<lambda>z. pre @ z"] deliveries_def failures_def)
qed

text \<open>\<open>close_all\<close> on a quiet registry: the loop returns after one round of the coordinator; every resource
  is closed exactly once, the newest first; the result is the first failure in that order, or success when
  there is none; exactly the resources that failed stay registered, marked for a retry, and a registry
  without failures is empty.\<close>

theorem close_all_drains:
  assumes "reg_state r = RegOpen g rs 0 False" and "bt_invar rs" and "all_in_state {CsOpen, CsRetry} rs"
  shows "\<exists>r1 r2 sent. close_all_turn None r = (None, Some g, Some g, r1) \<and>
    run_coordinator g (map answer (rev (map fst rs))) r1 = (Some sent, r2) \<and>
    close_all_turn (Some g) r2 =
      (Some (case first_failure answer None (rev (map fst rs)) of None \<Rightarrow> Ok () | Some x \<Rightarrow> Err x), Some g, None, r2) \<and>
    rg_resources (reg_state r2) = failures answer rs"
proof -
  let ?rs = "update_states request rs"
  let ?r = "r\<lparr>reg_state := RegClosing g ?rs 0 None True\<rparr>"
  have keys: "map fst ?rs = map fst rs"
    by (simp add: update_states_def case_prod_beta)
  have queued: "all_in_state {CsQueued} ?rs"
    using assms(3) by (fastforce simp: all_in_state_def update_states_def request_def)
  have failed: "failures answer ?rs = failures answer rs"
    by (induction rs) (auto simp: failures_def update_states_def retry_entry_def)
  have "run_coordinator g (map answer (rev (map fst ?rs)) @ []) ?r =
    (Some (deliveries answer ?rs),
     ?r\<lparr>reg_state := RegClosed g (failures answer ?rs @ []) (first_failure answer None (rev (map fst ?rs))) False\<rparr>)"
    using queued assms(2) by (intro run_coordinator_drains) (simp_all add: keys bt_invar_def)
  then show ?thesis
    by (simp add: keys failed close_all_turn_def assms(1))
qed

theorem close_all_drains_witness:
  "\<exists>r1 r2 sent. close_all_turn None (Registry_default\<lparr>reg_state := RegOpen 3 [(1, Entry_new ''s'' CsOpen), (2, Entry_new ''r'' CsOpen)] 0 False\<rparr>)
      = (None, Some 3, Some 3, r1) \<and>
    run_coordinator 3 [Err (DriverError [7]), Ok ()] r1 = (Some sent, r2) \<and>
    close_all_turn (Some 3) r2 = (Some (Err (DriverError [7])), Some 3, None, r2) \<and>
    rg_resources (reg_state r2) = [(2, Entry_new ''r'' CsRetry)]"
proof -
  let ?answer = "\<lambda>i :: nat. if i = 2 then Err (DriverError [7]) else Ok ()"
  let ?rs = "[(1 :: nat, Entry_new ''s'' CsOpen), (2, Entry_new ''r'' CsOpen)]"
  have "failures ?answer ?rs = [(2, Entry_new ''r'' CsRetry)]"
    by (simp add: failures_def retry_entry_def Entry_new_def)
  moreover have "map ?answer (rev (map fst ?rs)) = [Err (DriverError [7]), Ok ()]"
    by simp
  moreover have "first_failure ?answer None (rev (map fst ?rs)) = Some (DriverError [7])"
    by (simp add: first_failure_def)
  moreover have "bt_invar ?rs" "all_in_state {CsOpen, CsRetry} ?rs"
    by (simp_all add: Entry_new_def)
  ultimately show ?thesis
    using close_all_drains [of "Registry_default\<lparr>reg_state := RegOpen 3 ?rs 0 False\<rparr>" 3 ?rs ?answer] by auto
qed

end
