(* ===== verification/Registry_Steps.thy ===== *)
theory Registry_Steps
  imports Resource_Registry "HOL-Library.Multiset"
begin

text \<open>
  The resource registry under concurrency. A world is the shared registry with the admissions that are not
  finished, the coordinators that run, and what happened so far: which registered resources are closed,
  which batches were accepted, which waiters were answered, and how many coordinators died. A step is one
  critical section of \<open>registry_a.rs\<close> or \<open>registry_b.rs\<close>, or an event of a resource; a resource unregisters
  itself only after it is closed, as \<open>close_resource\<close> of every handle does.
\<close>

section \<open>Worlds and steps\<close>

record 'r RWorld =
  registry :: "'r Registry"
  permits :: "nat multiset"
  coordinators :: "(nat \<times> nat option) list"
  closed_ids :: "nat set"
  bound_ids :: "nat set"
  accepted_ids :: "nat set"
  answered :: "nat set"
  stops :: nat

definition RWorld_new :: "'r RWorld" where
  "RWorld_new = \<lparr>registry = Registry_default, permits = {#}, coordinators = [], closed_ids = {}, bound_ids = {},
     accepted_ids = {}, answered = {}, stops = 0\<rparr>"

definition spawned :: "nat option \<Rightarrow> (nat \<times> nat option) list" where
  "spawned spawn = (case spawn of Some g \<Rightarrow> [(g, None)] | None \<Rightarrow> [])"

inductive rstep :: "'r RWorld \<Rightarrow> 'r RWorld \<Rightarrow> bool" where
  rs_begin:
    "begin_admission expected (registry w) = (Ok g, r) \<Longrightarrow>
     rstep w (w\<lparr>registry := r, permits := add_mset g (permits w)\<rparr>)"
| rs_finish:
    "g \<in># permits w \<Longrightarrow>
     rstep w (w\<lparr>registry := finish_admission g (registry w), permits := permits w - {#g#}\<rparr>)"
| rs_register:
    "handles \<noteq> [] \<Longrightarrow> belongs \<longrightarrow> expected \<in># permits w \<Longrightarrow>
     register_section belongs expected handles (registry w) = (out, r) \<Longrightarrow>
     ids = set (map rn_id (ro_registrations out)) \<Longrightarrow>
     rstep w (w\<lparr>registry := r, coordinators := spawned (ro_spawn out) @ coordinators w, bound_ids := bound_ids w \<union> ids,
                accepted_ids := (if ro_accepted out then accepted_ids w \<union> ids else accepted_ids w)\<rparr>)"
| rs_queue:
    "queue_section registrations (registry w) = (receivers, spawn, r) \<Longrightarrow>
     rstep w (w\<lparr>registry := r, coordinators := spawned spawn @ coordinators w\<rparr>)"
| rs_close_all:
    "close_all_turn waited (registry w) = (result, waited', spawn, r) \<Longrightarrow>
     rstep w (w\<lparr>registry := r, coordinators := spawned spawn @ coordinators w\<rparr>)"
| rs_work:
    "coordinators w = cs @ (g, None) # ds \<Longrightarrow> coordinator_turn g (registry w) = (Work i h, r) \<Longrightarrow>
     rstep w (w\<lparr>registry := r, coordinators := cs @ (g, Some i) # ds\<rparr>)"
| rs_wait:
    "coordinators w = cs @ (g, None) # ds \<Longrightarrow> coordinator_turn g (registry w) = (Wait, r) \<Longrightarrow>
     rstep w (w\<lparr>registry := r\<rparr>)"
| rs_complete:
    "coordinators w = cs @ (g, None) # ds \<Longrightarrow> coordinator_turn g (registry w) = (Complete, r) \<Longrightarrow>
     rstep w (w\<lparr>registry := r, coordinators := cs @ ds\<rparr>)"
| rs_done:
    "coordinators w = cs @ (g, Some i) # ds \<Longrightarrow> coordinator_done g i a (registry w) = (sent, r) \<Longrightarrow>
     rstep w (w\<lparr>registry := r, coordinators := cs @ (g, None) # ds,
                closed_ids := (if is_ok a then insert i (closed_ids w) else closed_ids w),
                answered := answered w \<union> set sent\<rparr>)"
| rs_stop:
    "coordinators w = cs @ (g, x) # ds \<Longrightarrow>
     rstep w (w\<lparr>registry := coordinator_stopped g (registry w), coordinators := cs @ ds, stops := stops w + 1\<rparr>)"
| rs_self_close:
    "i \<in> bound_ids w \<Longrightarrow> rstep w (w\<lparr>closed_ids := insert i (closed_ids w)\<rparr>)"
| rs_unregister:
    "i \<in> closed_ids w \<Longrightarrow> rstep w (w\<lparr>registry := unregister g i (registry w)\<rparr>)"
| rs_open:
    "open_next_generation (registry w) = (Ok g, r) \<Longrightarrow> rstep w (w\<lparr>registry := r\<rparr>)"

definition rreachable :: "'r RWorld \<Rightarrow> bool" where
  "rreachable w \<longleftrightarrow> rstep\<^sup>*\<^sup>* RWorld_new w"

section \<open>What the sections do to the entries\<close>

definition waiters_of :: "'r resources \<Rightarrow> nat set" where
  "waiters_of rs = (\<Union>(_, e) \<in> set rs. set (cleanup_waiters e))"

abbreviation keys :: "'r resources \<Rightarrow> nat set" where
  "keys rs \<equiv> fst ` set rs"

lemma set_parts_simps [simp]:
  "rg_generation (set_parts rs b s) = rg_generation s" "rg_resources (set_parts rs b s) = rs" "rg_running (set_parts rs b s) = b"
  by (cases s; simp)+

lemma record_error_parts [simp]:
  "rg_resources (record_error a s) = rg_resources s" "rg_running (record_error a s) = rg_running s"
  "rg_generation (record_error a s) = rg_generation s"
  by (cases s; cases a; auto simp: record_error_def split: option.split)+

lemma keys_update_entry [simp]: "map fst (update_entry i f rs) = map fst rs" "keys (update_entry i f rs) = keys rs"
  by (force simp: update_entry_def)+

lemma keys_update_states [simp]: "map fst (update_states f rs) = map fst rs" "keys (update_states f rs) = keys rs"
  by (force simp: update_states_def)+

lemma keys_bt_remove [simp]: "keys (bt_remove i rs) = keys rs - {i}"
  by (auto simp: bt_remove_def)

lemma bt_invar_same_keys: "map fst rs' = map fst rs \<Longrightarrow> bt_invar rs' = bt_invar rs"
  by (simp add: bt_invar_def)

lemma bt_invar_update [simp]: "bt_invar (update_entry i f rs) = bt_invar rs" "bt_invar (update_states g rs) = bt_invar rs"
  by (rule bt_invar_same_keys, simp)+

lemma in_update_entry: "(k, e) \<in> set (update_entry i f rs) \<longleftrightarrow> (\<exists>e0. (k, e0) \<in> set rs \<and> e = (if k = i then f e0 else e0))"
  by (force simp: update_entry_def)

lemma in_update_states:
  "(k, e) \<in> set (update_states f rs) \<longleftrightarrow> (\<exists>e0. (k, e0) \<in> set rs \<and> e = e0\<lparr>cleanup_state := f (cleanup_state e0)\<rparr>)"
  by (force simp: update_states_def)

lemma waiters_of_update_states [simp]: "waiters_of (update_states f rs) = waiters_of rs"
  by (force simp: waiters_of_def update_states_def)

text \<open>New entries come after the old ones.\<close>

lemma insert_handles_append:
  assumes "insert_handles cs hs rs n = (rs', n', ids, failed)" and "bt_invar rs" and "\<forall>k \<in> keys rs. k < n"
  shows "\<exists>new. rs' = rs @ new \<and> ids = map fst new \<and> n' = n + length hs \<and> bt_invar rs' \<and>
    (\<forall>k \<in> keys new. n \<le> k \<and> k < n') \<and> (\<forall>(k, e) \<in> set new. cleanup_state e = cs \<and> cleanup_waiters e = [])"
  using assms
proof (induction cs hs rs n arbitrary: rs' n' ids failed rule: insert_handles.induct)
  case (2 cs h bound hs rs n)
  let ?rs = "if bound then bt_insert n (Entry_new h cs) rs else rs"
  obtain n1 ids1 failed1 where rec: "insert_handles cs hs ?rs (n + 1) = (rs', n1, ids1, failed1)"
    and res: "n' = n1" "ids = (if bound then n # ids1 else ids1)"
    using "2.prems"(1) by (auto split: prod.splits)
  have rs: "?rs = (if bound then rs @ [(n, Entry_new h cs)] else rs)"
    using bt_insert_greatest [of rs n "Entry_new h cs"] "2.prems"(3) by simp
  have "bt_invar ?rs"
    using "2.prems"(2) bt_invar_insert [of rs n "Entry_new h cs"] by simp
  moreover have "\<forall>k \<in> keys ?rs. k < n + 1"
    using "2.prems"(3) by (auto simp: rs less_Suc_eq)
  ultimately obtain new where new: "rs' = ?rs @ new" "ids1 = map fst new" "n1 = n + 1 + length hs" "bt_invar rs'"
    "\<forall>k \<in> keys new. n + 1 \<le> k \<and> k < n1" "\<forall>(k, e) \<in> set new. cleanup_state e = cs \<and> cleanup_waiters e = []"
    using "2.IH" [OF rec] by blast
  show ?case
    using new res by (intro exI [of _ "(if bound then [(n, Entry_new h cs)] else []) @ new"]) (auto simp: rs Entry_new_def)
qed auto

lemma waiters_of_push:
  assumes "i \<in> keys rs"
  shows "waiters_of (update_entry i (\<lambda>e. e\<lparr>cleanup_state := f (cleanup_state e), cleanup_waiters := cleanup_waiters e @ [w]\<rparr>) rs)
    = insert w (waiters_of rs)"
proof -
  obtain e where "(i, e) \<in> set rs"
    using assms by auto
  then show ?thesis
    by (auto simp: waiters_of_def update_entry_def split: if_splits prod.splits)
qed

definition enlisted :: "(CleanupState \<Rightarrow> CleanupState) \<Rightarrow> nat list \<Rightarrow> 'r resources \<Rightarrow> 'r resources \<Rightarrow> bool" where
  "enlisted f ids rs rs' \<longleftrightarrow>
     map fst rs' = map fst rs \<and>
     (\<forall>(k, e') \<in> set rs'. \<exists>e. (k, e) \<in> set rs \<and>
        (if k \<in> set ids then cleanup_state e' = f (cleanup_state e) else e' = e))"

lemma enlisted_skip:
  assumes "enlisted f ids rs rs'" and "i \<notin> keys rs"
  shows "enlisted f (i # ids) rs rs'"
  unfolding enlisted_def
proof (intro conjI ballI, unfold split_paired_all prod.case)
  show "map fst rs' = map fst rs"
    using assms(1) by (simp add: enlisted_def)
  fix k e'
  assume "(k, e') \<in> set rs'"
  then obtain e where e: "(k, e) \<in> set rs" "if k \<in> set ids then cleanup_state e' = f (cleanup_state e) else e' = e"
    using assms(1) by (force simp: enlisted_def)
  then have "k \<noteq> i"
    using assms(2) by force
  with e show "\<exists>e. (k, e) \<in> set rs \<and> (if k \<in> set (i # ids) then cleanup_state e' = f (cleanup_state e) else e' = e)"
    by auto
qed

lemma enlist_effect:
  assumes "enlist f ids rs w = (rs', w', receivers)" and "\<And>c. f (f c) = f c"
  shows "enlisted f ids rs rs' \<and> w \<le> w' \<and> receivers = [w..<w'] \<and> waiters_of rs' = waiters_of rs \<union> {w..<w'} \<and>
    (receivers = [] \<longrightarrow> rs' = rs \<and> set ids \<inter> keys rs = {})"
  using assms(1)
proof (induction ids arbitrary: rs w rs' w' receivers)
  case Nil
  then show ?case
    by (auto simp: enlisted_def)
next
  case (Cons i ids)
  let ?push = "\<lambda>e. e\<lparr>cleanup_state := f (cleanup_state e), cleanup_waiters := cleanup_waiters e @ [w]\<rparr>"
  show ?case
  proof (cases "map_of rs i")
    case None
    then have i: "i \<notin> keys rs"
      by (simp add: map_of_eq_None_iff)
    have IH: "enlisted f ids rs rs' \<and> w \<le> w' \<and> receivers = [w..<w'] \<and> waiters_of rs' = waiters_of rs \<union> {w..<w'} \<and>
      (receivers = [] \<longrightarrow> rs' = rs \<and> set ids \<inter> keys rs = {})"
      using Cons.prems None by (intro Cons.IH) simp
    then show ?thesis
      using enlisted_skip [OF _ i] i by simp
  next
    case (Some e)
    obtain recs where rec: "enlist f ids (update_entry i ?push rs) (w + 1) = (rs', w', recs)" "receivers = w # recs"
      using Cons.prems Some by (auto split: prod.splits)
    have "i \<in> keys rs"
      using Some by (force dest: map_of_SomeD)
    note push = waiters_of_push [OF this, where f = f and w = w]
    have IH: "enlisted f ids (update_entry i ?push rs) rs' \<and> w + 1 \<le> w' \<and> recs = [w + 1..<w'] \<and>
      waiters_of rs' = waiters_of (update_entry i ?push rs) \<union> {w + 1..<w'}"
      using Cons.IH [OF rec(1)] by blast
    have "enlisted f (i # ids) rs rs'"
      unfolding enlisted_def
    proof (intro conjI ballI, unfold split_paired_all prod.case)
      show "map fst rs' = map fst rs"
        using IH by (simp add: enlisted_def)
      fix k e'
      assume "(k, e') \<in> set rs'"
      then obtain e1 where e1: "(k, e1) \<in> set (update_entry i ?push rs)"
        "if k \<in> set ids then cleanup_state e' = f (cleanup_state e1) else e' = e1"
        using IH by (force simp: enlisted_def)
      then obtain e0 where "(k, e0) \<in> set rs" "e1 = (if k = i then ?push e0 else e0)"
        unfolding in_update_entry by blast
      with e1(2) show "\<exists>e. (k, e) \<in> set rs \<and> (if k \<in> set (i # ids) then cleanup_state e' = f (cleanup_state e) else e' = e)"
        using assms(2) by (intro exI [of _ e0]) (auto split: if_splits)
    qed
    moreover have "{w..<w'} = insert w {w + 1..<w'}" "[w..<w'] = w # [w + 1..<w']"
      using IH by (auto simp: upt_conv_Cons)
    ultimately show ?thesis
      using IH push rec(2) by simp
  qed
qed

lemma request_idem: "request (request c) = request c"
  by (simp add: request_def)

text \<open>The sections that queue entries.\<close>

lemma queue_section_effect:
  assumes "queue_section registrations r = (receivers, spawn, r')"
  shows "\<exists>ids rs'. enlisted request ids (rg_resources (reg_state r)) rs' \<and>
    waiters_of rs' = waiters_of (rg_resources (reg_state r)) \<union> {next_waiter r..<next_waiter r'} \<and> next_waiter r \<le> next_waiter r' \<and>
    next_id r' = next_id r \<and>
    reg_state r' = set_parts rs' (rg_running (reg_state r) \<or> spawn \<noteq> None) (reg_state r) \<and>
    spawn \<in> {None, Some (rg_generation (reg_state r))} \<and> (rg_running (reg_state r) \<longrightarrow> spawn = None) \<and>
    (rs' = rg_resources (reg_state r) \<or> rg_running (reg_state r) \<or> spawn \<noteq> None)"
proof -
  let ?s = "reg_state r"
  let ?ids = "[rn_id n. n \<leftarrow> registrations, rn_generation n = rg_generation ?s]"
  obtain rs' w recs where e: "enlist request ?ids (rg_resources ?s) (next_waiter r) = (rs', w, recs)"
    by (metis prod_cases3)
  note effect = enlist_effect [OF e request_idem]
  have r': "receivers = recs" "spawn = (if recs \<noteq> [] \<and> \<not> rg_running ?s then Some (rg_generation ?s) else None)"
    "r' = r\<lparr>reg_state := set_parts rs' (rg_running ?s \<or> recs \<noteq> [] \<and> \<not> rg_running ?s) ?s, next_waiter := w\<rparr>"
    using assms unfolding queue_section_def Let_def e prod.case by auto
  show ?thesis
    using effect by (intro exI [of _ ?ids] exI [of _ rs']) (simp add: r')
qed

lemma enlisted_keys: "enlisted f ids rs rs' \<Longrightarrow> keys rs' = keys rs \<and> bt_invar rs' = bt_invar rs"
  by (metis bt_invar_same_keys enlisted_def set_map)

lemma enlisted_entry:
  assumes "enlisted f ids rs rs'" and "(k, e') \<in> set rs'"
  shows "\<exists>e. (k, e) \<in> set rs \<and> (if k \<in> set ids then cleanup_state e' = f (cleanup_state e) else e' = e)"
  using assms by (force simp: enlisted_def)

text \<open>What a registration adds: \<open>ids\<close> are the new keys, with their state.\<close>

definition registered :: "bool \<Rightarrow> nat set \<Rightarrow> 'r resources \<Rightarrow> 'r resources \<Rightarrow> bool" where
  "registered accepted ids rs rs' \<longleftrightarrow> bt_invar rs' \<and> keys rs' = keys rs \<union> ids \<and>
     (\<forall>k e. (k, e) \<in> set rs' \<longrightarrow> (k, e) \<in> set rs \<or>
        k \<in> ids \<and> cleanup_state e = (if accepted then CsOpen else CsQueued) \<and> (accepted \<longrightarrow> cleanup_waiters e = []))"

lemma registered_append:
  assumes "bt_invar (rs @ new)" and "\<forall>(k, e) \<in> set new. cleanup_state e = CsOpen \<and> cleanup_waiters e = []"
  shows "registered True (keys new) rs (rs @ new)"
  using assms by (force simp: registered_def)

lemma registered_enlisted:
  assumes "bt_invar (rs @ new)" and "enlisted (\<lambda>_. CsQueued) (map fst new) (rs @ new) rs'"
  shows "registered False (keys new) rs rs'"
proof -
  have "keys rs' = keys rs \<union> keys new" "bt_invar rs'"
    using assms(1) enlisted_keys [OF assms(2)] by (simp_all add: image_Un)
  moreover have "(k, e') \<in> set rs \<or> k \<in> keys new \<and> cleanup_state e' = CsQueued" if entry: "(k, e') \<in> set rs'" for k e'
  proof -
    obtain e where "(k, e) \<in> set (rs @ new)" "if k \<in> keys new then cleanup_state e' = CsQueued else e' = e"
      using enlisted_entry [OF assms(2) entry] by auto
    then show ?thesis
      by (force split: if_splits)
  qed
  ultimately show ?thesis
    by (simp add: registered_def)
qed

lemma register_section_effect:
  assumes "register_section belongs expected hs r = (out, r')" and "bt_invar (rg_resources (reg_state r))"
    and "\<forall>k \<in> keys (rg_resources (reg_state r)). k < next_id r" and "ids = set (map rn_id (ro_registrations out))"
  shows "\<exists>rs'. registered (ro_accepted out) ids (rg_resources (reg_state r)) rs' \<and>
    next_id r \<le> next_id r' \<and> (\<forall>k \<in> ids. next_id r \<le> k \<and> k < next_id r') \<and>
    waiters_of rs' = waiters_of (rg_resources (reg_state r)) \<union> {next_waiter r..<next_waiter r'} \<and> next_waiter r \<le> next_waiter r' \<and>
    reg_state r' = set_parts rs' (rg_running (reg_state r) \<or> ro_spawn out \<noteq> None) (reg_state r) \<and>
    ro_spawn out \<in> {None, Some (rg_generation (reg_state r))} \<and> (rg_running (reg_state r) \<longrightarrow> ro_spawn out = None) \<and>
    (if ro_accepted out then \<exists>rs p b. reg_state r = RegOpen expected rs p b
     else ids = {} \<or> rg_running (reg_state r) \<or> ro_spawn out \<noteq> None)"
proof -
  let ?s = "reg_state r"
  define valid where "valid = (case ?s of RegOpen g rs p b \<Rightarrow> belongs \<and> g = expected | _ \<Rightarrow> False)"
  obtain rs1 n fresh failed where i: "insert_handles (if valid then CsOpen else CsQueued) hs (rg_resources ?s) (next_id r) = (rs1, n, fresh, failed)"
    by (metis prod_cases4)
  obtain new where new: "rs1 = rg_resources ?s @ new" "fresh = map fst new" "next_id r \<le> n" "bt_invar rs1"
    "\<forall>k \<in> keys new. next_id r \<le> k \<and> k < n" "\<forall>(k, e) \<in> set new. cleanup_state e = (if valid then CsOpen else CsQueued) \<and> cleanup_waiters e = []"
    using insert_handles_append [OF i assms(2,3)] by auto
  obtain rs2 w recs where e: "enlist (\<lambda>_. CsQueued) fresh rs1 (next_waiter r) = (rs2, w, recs)"
    by (metis prod_cases3)
  note effect = enlist_effect [OF e refl]
  note reg = assms(1) [unfolded register_section_def Let_def valid_def [symmetric] i prod.case]
  have waiters: "waiters_of rs1 = waiters_of (rg_resources ?s)"
    using new(1,6) by (fastforce simp: waiters_of_def)
  show ?thesis
  proof (cases "valid \<and> \<not> failed")
    case True
    then have "\<exists>rs p b. ?s = RegOpen expected rs p b"
      by (auto simp: valid_def split: RegistryState.splits)
    moreover have "ro_accepted out" "ro_spawn out = None" "map rn_id (ro_registrations out) = fresh"
      "reg_state r' = set_parts rs1 (rg_running ?s) ?s" "next_id r' = n" "next_waiter r' = next_waiter r"
      using reg True by (auto simp: comp_def)
    moreover from this(3) have "ids = keys new"
      unfolding assms(4) new(2) by simp
    moreover have "registered True (keys new) (rg_resources ?s) rs1"
      using registered_append [of "rg_resources ?s" new] new True by simp
    ultimately show ?thesis
      using new(3,5) waiters by (intro exI [of _ rs1]) simp
  next
    case False
    then have "\<not> ro_accepted out" "map rn_id (ro_registrations out) = fresh"
      "ro_spawn out = (if recs \<noteq> [] \<and> \<not> rg_running ?s then Some (rg_generation ?s) else None)"
      "reg_state r' = set_parts rs2 (rg_running ?s \<or> recs \<noteq> [] \<and> \<not> rg_running ?s) ?s" "next_id r' = n" "next_waiter r' = w"
      using reg e by (auto simp: comp_def)
    moreover from this(2) have "ids = keys new"
      unfolding assms(4) new(2) by simp
    moreover have "registered False (keys new) (rg_resources ?s) rs2"
      using registered_enlisted [of "rg_resources ?s" new rs2] new(1,2,4) effect by simp
    moreover have "recs = [] \<longrightarrow> keys new = {}"
      using effect new(1,2) by (simp add: image_Un Int_Un_distrib)
    ultimately show ?thesis
      using new(3,5) waiters effect by (intro exI [of _ rs2]) simp
  qed
qed

text \<open>The sections of the coordinator.\<close>

lemma find_some_in: "find P xs = Some x \<Longrightarrow> x \<in> set xs \<and> P x"
  by (induction xs) (auto split: if_splits)

lemma coordinator_work:
  assumes "coordinator_turn g r = (Work i h, r')"
  shows "rg_generation (reg_state r) = g \<and> rg_running (reg_state r) \<and>
    (\<exists>e. (i, e) \<in> set (rg_resources (reg_state r)) \<and> cleanup_state e = CsQueued) \<and>
    r' = r\<lparr>reg_state := set_parts (update_entry i (\<lambda>e. e\<lparr>cleanup_state := CsClosing\<rparr>) (rg_resources (reg_state r))) True (reg_state r)\<rparr>"
proof -
  obtain e where e: "find (\<lambda>(_, e). cleanup_state e = CsQueued) (rev (rg_resources (reg_state r))) = Some (i, e)"
    using assms by (auto simp: coordinator_turn_def Let_def split: if_splits option.splits)
  have "(i, e) \<in> set (rg_resources (reg_state r)) \<and> cleanup_state e = CsQueued"
    using find_some_in [OF e] by simp
  moreover have "rg_generation (reg_state r) = g \<and> rg_running (reg_state r)"
    using assms by (auto simp: coordinator_turn_def Let_def split: if_splits)
  moreover have "r' = r\<lparr>reg_state := set_parts (update_entry i (\<lambda>e. e\<lparr>cleanup_state := CsClosing\<rparr>) (rg_resources (reg_state r))) True (reg_state r)\<rparr>"
    using assms e calculation(2) by (simp add: coordinator_turn_def Let_def split: if_splits)
  ultimately show ?thesis
    by blast
qed

lemma coordinator_wait: "coordinator_turn g r = (Wait, r') \<Longrightarrow> r' = r"
  by (auto simp: coordinator_turn_def Let_def split: if_splits option.splits)

definition finished_state :: "'r RegistryState \<Rightarrow> 'r RegistryState" where
  "finished_state s = (case s of RegClosing g rs p e b \<Rightarrow> RegClosed g rs e False | _ \<Rightarrow> set_parts (rg_resources s) False s)"

lemma coordinator_complete:
  assumes "coordinator_turn g r = (Complete, r')"
  shows "(rg_generation (reg_state r) \<noteq> g \<or> \<not> rg_running (reg_state r)) \<and> r' = r \<or>
    rg_generation (reg_state r) = g \<and> rg_running (reg_state r) \<and> r' = r\<lparr>reg_state := finished_state (reg_state r)\<rparr> \<and>
    all_in_state {CsOpen, CsRetry} (rg_resources (reg_state r)) \<and>
    (case reg_state r of RegClosing g' rs p e b \<Rightarrow> p = 0 | _ \<Rightarrow> True)"
proof (cases "rg_generation (reg_state r) \<noteq> g \<or> \<not> rg_running (reg_state r)")
  case True
  then show ?thesis
    using assms by (auto simp: coordinator_turn_def Let_def)
next
  case False
  let ?rs = "rg_resources (reg_state r)"
  have none: "find (\<lambda>(_, e). cleanup_state e = CsQueued) (rev ?rs) = None" "\<not> list_ex (\<lambda>(_, e). cleanup_state e = CsClosing) ?rs"
    "case reg_state r of RegClosing g' rs p e b \<Rightarrow> p = 0 | _ \<Rightarrow> True" "r' = r\<lparr>reg_state := finished_state (reg_state r)\<rparr>"
    using assms False
    by (auto simp: coordinator_turn_def finished_state_def Let_def split: if_splits option.splits RegistryState.splits)
  have "cleanup_state e \<in> {CsOpen, CsRetry}" if "(k, e) \<in> set ?rs" for k e
    using none(1,2) that by (cases "cleanup_state e") (auto simp: find_None_iff list_ex_iff)
  then show ?thesis
    using False none(3,4) by (simp add: all_in_state_def)
qed

section \<open>Invariants\<close>

abbreviation res :: "'r RWorld \<Rightarrow> 'r resources" where
  "res w \<equiv> rg_resources (reg_state (registry w))"

text \<open>Every registered resource is in the registry until it is closed.\<close>

definition ids_ok :: "'r RWorld \<Rightarrow> bool" where
  "ids_ok w \<longleftrightarrow> bt_invar (res w) \<and> keys (res w) \<subseteq> bound_ids w \<and> bound_ids w \<subseteq> keys (res w) \<union> closed_ids w \<and>
     accepted_ids w \<subseteq> bound_ids w \<and> (\<forall>k \<in> bound_ids w. k < next_id (registry w))"

text \<open>The counter of pending admissions is exact.\<close>

definition permits_ok :: "'r RWorld \<Rightarrow> bool" where
  "permits_ok w \<longleftrightarrow>
     (case reg_state (registry w) of
        RegOpen g rs p b \<Rightarrow> permits w = replicate_mset p g
      | RegClosing g rs p e b \<Rightarrow> permits w = replicate_mset p g
      | RegClosed g rs e b \<Rightarrow> permits w = {#})"

text \<open>One coordinator runs exactly when the flag says so, and the entry it closes is the one marked.\<close>

definition marked :: "(nat \<times> nat option) list \<Rightarrow> 'r resources \<Rightarrow> bool" where
  "marked cs rs \<longleftrightarrow> (\<forall>k e. (k, e) \<in> set rs \<longrightarrow> (cleanup_state e = CsClosing \<longleftrightarrow> Some k \<in> snd ` set cs))"

lemma marked_simps [simp]: "marked cs []" "marked ((g, None) # cs) rs \<longleftrightarrow> marked cs rs"
  by (auto simp: marked_def)

definition coordinator_ok :: "'r RWorld \<Rightarrow> bool" where
  "coordinator_ok w \<longleftrightarrow>
     map fst (coordinators w) = (if rg_running (reg_state (registry w)) then [rg_generation (reg_state (registry w))] else []) \<and>
     marked (coordinators w) (res w) \<and> (\<forall>k. Some k \<in> snd ` set (coordinators w) \<longrightarrow> k < next_id (registry w))"

text \<open>While the registry closes nothing is left open, and a failure is recorded; a registry that closed
  without a recorded failure holds no accepted resource.\<close>

definition phase_ok :: "'r RWorld \<Rightarrow> bool" where
  "phase_ok w \<longleftrightarrow>
     (case reg_state (registry w) of
        RegOpen g rs p b \<Rightarrow> True
      | RegClosing g rs p e b \<Rightarrow> all_in_state (if e = None then {CsQueued, CsClosing} else {CsQueued, CsClosing, CsRetry}) rs
      | RegClosed g rs e b \<Rightarrow> all_in_state {CsQueued, CsClosing, CsRetry} rs \<and> (e = None \<longrightarrow> keys rs \<inter> accepted_ids w = {}))"

text \<open>Every waiter waits at an entry that is being closed, or was answered.\<close>

definition quiet :: "'r resources \<Rightarrow> bool" where
  "quiet rs \<longleftrightarrow> (\<forall>k e. (k, e) \<in> set rs \<longrightarrow> cleanup_state e \<in> {CsOpen, CsRetry} \<longrightarrow> cleanup_waiters e = [])"

definition waiters_ok :: "'r RWorld \<Rightarrow> bool" where
  "waiters_ok w \<longleftrightarrow> {..<next_waiter (registry w)} = waiters_of (res w) \<union> answered w \<and>
     quiet (res w)"

text \<open>Unless a coordinator died, a queued entry has a coordinator.\<close>

definition queue_ok :: "'r RWorld \<Rightarrow> bool" where
  "queue_ok w \<longleftrightarrow> stops w = 0 \<longrightarrow> (\<exists>k e. (k, e) \<in> set (res w) \<and> cleanup_state e = CsQueued) \<longrightarrow> rg_running (reg_state (registry w))"

definition registry_inv :: "'r RWorld \<Rightarrow> bool" where
  "registry_inv w \<longleftrightarrow> ids_ok w \<and> permits_ok w \<and> coordinator_ok w \<and> phase_ok w \<and> waiters_ok w \<and> queue_ok w"

lemmas registry_inv_defs = registry_inv_def ids_ok_def permits_ok_def coordinator_ok_def phase_ok_def waiters_ok_def queue_ok_def

lemma registry_inv_new: "registry_inv RWorld_new"
  by (simp add: registry_inv_defs RWorld_new_def Registry_default_def waiters_of_def lessThan_def marked_def quiet_def)

lemma inv_begin:
  assumes "registry_inv w" and "begin_admission expected (registry w) = (Ok g, r)"
  shows "registry_inv (w\<lparr>registry := r, permits := add_mset g (permits w)\<rparr>)"
proof -
  obtain rs p b where s: "reg_state (registry w) = RegOpen g rs p b" and r: "r = (registry w)\<lparr>reg_state := RegOpen g rs (p + 1) b\<rparr>"
    using assms(2) by (auto simp: begin_admission_def split: RegistryState.splits if_splits)
  show ?thesis
    using assms(1) by (simp add: registry_inv_defs s r)
qed

lemma inv_finish:
  assumes "registry_inv w" and "g \<in># permits w"
  shows "registry_inv (w\<lparr>registry := finish_admission g (registry w), permits := permits w - {#g#}\<rparr>)"
proof -
  have less: "replicate_mset p g - {#g#} = replicate_mset (p - 1) g" for p
    by (cases p) simp_all
  show ?thesis
  proof (cases "reg_state (registry w)")
    case (RegOpen g' rs p b)
    then have "g' = g" "p > 0"
      using assms by (auto simp: registry_inv_def permits_ok_def split: if_splits)
    then show ?thesis
      using assms(1) less by (simp add: registry_inv_defs finish_admission_def RegOpen)
  next
    case (RegClosing g' rs p e b)
    then have "g' = g" "p > 0"
      using assms by (auto simp: registry_inv_def permits_ok_def split: if_splits)
    then show ?thesis
      using assms(1) less by (simp add: registry_inv_defs finish_admission_def RegClosing)
  qed (use assms in \<open>simp add: registry_inv_def permits_ok_def\<close>)
qed

lemma inv_open:
  assumes "registry_inv w" and "open_next_generation (registry w) = (Ok g, r)"
  shows "registry_inv (w\<lparr>registry := r\<rparr>)"
proof (cases "reg_state (registry w)")
  case (RegClosed g' rs e b)
  then have "rs = []" "e = None" "\<not> b" "r = (registry w)\<lparr>reg_state := RegOpen g [] 0 False\<rparr>"
    using assms(2) by (auto simp: open_next_generation_def Let_def split: if_splits)
  then show ?thesis
    using assms(1) by (simp add: registry_inv_defs RegClosed)
qed (use assms in \<open>auto simp: open_next_generation_def split: if_splits\<close>)

lemma inv_self_close:
  assumes "registry_inv w"
  shows "registry_inv (w\<lparr>closed_ids := insert i (closed_ids w)\<rparr>)"
proof -
  have "ids_ok (w\<lparr>closed_ids := insert i (closed_ids w)\<rparr>)"
    using assms by (auto simp: registry_inv_def ids_ok_def)
  then show ?thesis
    using assms by (cases "reg_state (registry w)")
      (simp_all add: registry_inv_def permits_ok_def coordinator_ok_def phase_ok_def waiters_ok_def queue_ok_def)
qed

lemma coordinator_running:
  "coordinator_ok w \<Longrightarrow> rg_running (reg_state (registry w)) \<Longrightarrow> \<exists>x. coordinators w = [(rg_generation (reg_state (registry w)), x)]"
  by (auto simp: coordinator_ok_def)

lemma spawned_some [simp]: "Some k \<in> snd ` set (spawned spawn @ cs) \<longleftrightarrow> Some k \<in> snd ` set cs"
  by (auto simp: spawned_def split: option.splits)

lemma marked_spawned [simp]: "marked (spawned spawn @ cs) rs \<longleftrightarrow> marked cs rs"
  unfolding marked_def spawned_some ..

text \<open>Invariants of entries carry over to entries that come from them.\<close>

lemma marked_change:
  assumes "marked cs rs" and "\<And>k e'. (k, e') \<in> set rs' \<Longrightarrow> \<exists>e. (k, e) \<in> set rs \<and> (cleanup_state e' = CsClosing \<longleftrightarrow> cleanup_state e = CsClosing)"
  shows "marked cs rs'"
  using assms unfolding marked_def by metis

lemma marked_extend:
  assumes "marked cs rs" and "\<And>k e. (k, e) \<in> set rs' \<Longrightarrow> (k, e) \<in> set rs \<or> k \<in> ids \<and> cleanup_state e \<noteq> CsClosing"
    and "\<And>k. k \<in> ids \<Longrightarrow> Some k \<notin> snd ` set cs"
  shows "marked cs rs'"
  using assms unfolding marked_def by metis

lemma all_in_state_change:
  assumes "all_in_state S rs" and "\<And>k e'. (k, e') \<in> set rs' \<Longrightarrow> \<exists>e. (k, e) \<in> set rs \<and> cleanup_state e' \<in> {cleanup_state e, CsQueued}"
    and "CsQueued \<in> S"
  shows "all_in_state S rs'"
  using assms unfolding all_in_state_def by (metis empty_iff insert_iff)

lemma quiet_change:
  assumes "quiet rs" and "\<And>k e'. (k, e') \<in> set rs' \<Longrightarrow> (\<exists>e. (k, e) \<in> set rs \<and> e' = e) \<or> cleanup_state e' \<notin> {CsOpen, CsRetry} \<or> cleanup_waiters e' = []"
  shows "quiet rs'"
  using assms unfolding quiet_def by metis

lemma inv_start_closing:
  assumes "registry_inv w" and "reg_state (registry w) = s" and "permits w = replicate_mset p (rg_generation s)"
  shows "registry_inv (w\<lparr>registry := (registry w)\<lparr>reg_state := RegClosing (rg_generation s) (update_states request (rg_resources s)) p None True\<rparr>,
    coordinators := spawned (if rg_running s then None else Some (rg_generation s)) @ coordinators w\<rparr>)"
    (is "registry_inv ?w")
proof -
  let ?rs = "update_states request (rg_resources s)"
  have parts: "ids_ok w" "coordinator_ok w" "waiters_ok w"
    using assms(1) by (simp_all add: registry_inv_def)
  have closing: "request c = CsClosing \<longleftrightarrow> c = CsClosing" for c
    by (simp add: request_def)
  have states: "request c \<in> {CsQueued, CsClosing}" for c
    by (cases c) (simp_all add: request_def)
  have "marked (coordinators w) (rg_resources s)"
    using parts(2) by (simp add: coordinator_ok_def assms(2))
  then have marked: "marked (coordinators w) ?rs"
    by (rule marked_change) (auto simp: in_update_states closing)
  have all: "all_in_state {CsQueued, CsClosing} ?rs"
    using states by (force simp: all_in_state_def in_update_states simp del: insert_iff)
  then have quiet: "quiet ?rs"
    by (fastforce simp: all_in_state_def quiet_def)
  have "ids_ok ?w"
    using parts(1) by (simp add: ids_ok_def assms(2))
  moreover have "permits_ok ?w"
    using assms(3) by (simp add: permits_ok_def)
  moreover have "coordinator_ok ?w"
    using parts(2) marked by (simp add: coordinator_ok_def assms(2) spawned_def)
  moreover have "phase_ok ?w"
    using all by (simp add: phase_ok_def)
  moreover have "waiters_ok ?w"
    using parts(3) quiet by (simp add: waiters_ok_def assms(2))
  moreover have "queue_ok ?w"
    by (simp add: queue_ok_def)
  ultimately show ?thesis
    by (simp add: registry_inv_def)
qed

lemma inv_close_all:
  assumes "registry_inv w" and "close_all_turn waited (registry w) = (result, waited', spawn, r)"
  shows "registry_inv (w\<lparr>registry := r, coordinators := spawned spawn @ coordinators w\<rparr>)"
proof (cases "reg_state (registry w)")
  case (RegOpen g rs p b)
  then have "permits w = replicate_mset p g"
    using assms(1) by (simp add: registry_inv_def permits_ok_def)
  then show ?thesis
    using inv_start_closing [OF assms(1) RegOpen, of p] assms(2) RegOpen by (auto simp: close_all_turn_def)
next
  case (RegClosing g rs p e b)
  have r: "r = (registry w)\<lparr>reg_state := RegClosing g rs p e True\<rparr>" "spawn = (if b then None else Some g)"
    using assms(2) RegClosing by (auto simp: close_all_turn_def)
  then show ?thesis
    using assms(1) by (cases b) (simp_all add: registry_inv_defs RegClosing spawned_def marked_def)
next
  case (RegClosed g rs e b)
  then have "permits w = replicate_mset 0 g"
    using assms(1) by (simp add: registry_inv_def permits_ok_def)
  note start = inv_start_closing [OF assms(1) RegClosed, of 0, unfolded RegistryState.sel, OF this]
  have same: "w\<lparr>registry := registry w, coordinators := spawned None @ coordinators w\<rparr> = w"
    by (simp add: spawned_def)
  consider "waited = Some g \<or> rs = [] \<and> e = None \<and> \<not> b" | "waited \<noteq> Some g" "\<not> (rs = [] \<and> e = None \<and> \<not> b)"
    by blast
  then show ?thesis
  proof cases
    case 1
    then have "r = registry w" "spawn = None"
      using assms(2) RegClosed by (auto simp: close_all_turn_def split: if_splits)
    then show ?thesis
      using assms(1) same by simp
  next
    case 2
    then have "spawn = (if b then None else Some g)"
      "r = (registry w)\<lparr>reg_state := RegClosing g (update_states request rs) 0 None True\<rparr>"
      using assms(2) RegClosed by (auto simp: close_all_turn_def)
    then show ?thesis
      using start by simp
  qed
qed

lemma lessThan_union: "m \<le> n \<Longrightarrow> {..<n :: nat} = {..<m} \<union> {m..<n}"
  by auto

lemma enlisted_request:
  assumes "enlisted request ids rs rs'" and "(k, e') \<in> set rs'"
  shows "\<exists>e. (k, e) \<in> set rs \<and> (e' = e \<or> cleanup_state e' \<in> {CsQueued, CsClosing}) \<and>
    cleanup_state e' \<in> {cleanup_state e, CsQueued} \<and> (cleanup_state e' = CsClosing \<longleftrightarrow> cleanup_state e = CsClosing)"
proof -
  obtain e where e: "(k, e) \<in> set rs" "if k \<in> set ids then cleanup_state e' = request (cleanup_state e) else e' = e"
    using enlisted_entry [OF assms] by blast
  then show ?thesis
    by (intro exI [of _ e]) (cases "cleanup_state e"; auto simp: request_def split: if_splits)
qed

lemma phase_ok_change:
  assumes "phase_ok w" and "\<And>S. all_in_state S (res w) \<Longrightarrow> {CsQueued, CsClosing} \<subseteq> S \<Longrightarrow> all_in_state S rs'"
    and "keys rs' \<inter> accepted_ids w \<subseteq> keys (res w)"
    and "reg_state (registry w') = set_parts rs' b (reg_state (registry w))" and "accepted_ids w' = accepted_ids w"
  shows "phase_ok w'"
proof (cases "reg_state (registry w)")
  case (RegClosed g rs e b')
  then have "all_in_state {CsQueued, CsClosing, CsRetry} rs'"
    using assms(1,2) by (simp add: phase_ok_def)
  then show ?thesis
    using assms(1,3) by (auto simp: phase_ok_def assms(4,5) RegClosed)
qed (use assms in \<open>simp_all add: phase_ok_def\<close>)

lemma inv_queue:
  assumes "registry_inv w" and "queue_section registrations (registry w) = (receivers, spawn, r)"
  shows "registry_inv (w\<lparr>registry := r, coordinators := spawned spawn @ coordinators w\<rparr>)" (is "registry_inv ?w")
proof -
  let ?s = "reg_state (registry w)"
  obtain ids rs' where e: "enlisted request ids (res w) rs'"
    and waiters: "waiters_of rs' = waiters_of (res w) \<union> {next_waiter (registry w)..<next_waiter r}" "next_waiter (registry w) \<le> next_waiter r"
    and r: "next_id r = next_id (registry w)" "reg_state r = set_parts rs' (rg_running ?s \<or> spawn \<noteq> None) ?s"
    and spawn: "spawn \<in> {None, Some (rg_generation ?s)}" "rg_running ?s \<longrightarrow> spawn = None"
    and same: "rs' = res w \<or> rg_running ?s \<or> spawn \<noteq> None"
    using queue_section_effect [OF assms(2)] by blast
  have parts: "ids_ok w" "permits_ok w" "coordinator_ok w" "phase_ok w" "waiters_ok w" "queue_ok w"
    using assms(1) by (simp_all add: registry_inv_def)
  note keys = enlisted_keys [OF e]
  have "marked (coordinators w) rs'"
    using marked_change [of "coordinators w" "res w" rs'] enlisted_request [OF e] parts(3)
    unfolding coordinator_ok_def by blast
  then have "coordinator_ok ?w"
    using parts(3) spawn by (auto simp: coordinator_ok_def r spawned_def)
  moreover have "ids_ok ?w"
    using parts(1) keys by (simp add: ids_ok_def r)
  moreover have "permits_ok ?w"
    using parts(2) by (cases ?s) (simp_all add: permits_ok_def r)
  moreover have "phase_ok ?w"
  proof (rule phase_ok_change [OF parts(4)])
    show "all_in_state S rs'" if "all_in_state S (res w)" "{CsQueued, CsClosing} \<subseteq> S" for S
      using all_in_state_change [OF that(1), of rs'] that(2) enlisted_request [OF e] by blast
    show "reg_state (registry ?w) = set_parts rs' (rg_running ?s \<or> spawn \<noteq> None) ?s"
      using r(2) by simp
  qed (use keys in auto)
  moreover have "quiet (res w)"
    using parts(5) by (simp add: waiters_ok_def)
  then have "quiet rs'"
  proof (rule quiet_change)
    fix k e'
    assume "(k, e') \<in> set rs'"
    then show "(\<exists>e. (k, e) \<in> set (res w) \<and> e' = e) \<or> cleanup_state e' \<notin> {CsOpen, CsRetry} \<or> cleanup_waiters e' = []"
      using enlisted_request [OF e, of k e'] by auto
  qed
  then have "waiters_ok ?w"
    using parts(5) waiters lessThan_union [OF waiters(2)] by (simp add: waiters_ok_def r ac_simps)
  moreover have "queue_ok ?w"
    using parts(6) same by (auto simp: queue_ok_def r)
  ultimately show ?thesis
    by (simp add: registry_inv_def)
qed

lemma in_bt_remove: "(k, e) \<in> set (bt_remove i rs) \<longleftrightarrow> (k, e) \<in> set rs \<and> k \<noteq> i"
  by (auto simp: bt_remove_def)

lemma coordinator_unique:
  assumes "coordinator_ok w" and "coordinators w = cs @ (g, x) # ds"
  shows "cs = []" "ds = []" "rg_running (reg_state (registry w))" "rg_generation (reg_state (registry w)) = g" "marked [(g, x)] (res w)"
proof -
  have fst: "map fst cs @ g # map fst ds = (if rg_running (reg_state (registry w)) then [rg_generation (reg_state (registry w))] else [])"
    using assms by (simp add: coordinator_ok_def)
  then show "cs = []" "ds = []" "rg_running (reg_state (registry w))" "rg_generation (reg_state (registry w)) = g"
    by (auto split: if_splits simp: append_eq_Cons_conv)
  then show "marked [(g, x)] (res w)"
    using assms by (simp add: coordinator_ok_def)
qed

lemma waiters_of_update_entry:
  assumes "\<And>e. cleanup_waiters (f e) = cleanup_waiters e"
  shows "waiters_of (update_entry i f rs) = waiters_of rs"
  using assms by (auto simp: waiters_of_def update_entry_def split: if_splits prod.splits)

lemma distinct_entries: "bt_invar rs \<Longrightarrow> (k, e) \<in> set rs \<Longrightarrow> (k, e') \<in> set rs \<Longrightarrow> e = e'"
  using bt.entries_distinct eq_key_imp_eq_value by metis

lemma entry_state_fixed: "e\<lparr>cleanup_state := c\<rparr> = e \<Longrightarrow> cleanup_state e = c"
  by (cases e) simp

lemma inv_work:
  assumes "registry_inv w" and "coordinators w = cs @ (g, None) # ds" and "coordinator_turn g (registry w) = (Work i h, r)"
  shows "registry_inv (w\<lparr>registry := r, coordinators := cs @ (g, Some i) # ds\<rparr>)" (is "registry_inv ?w")
proof -
  let ?rs = "update_entry i (\<lambda>e. e\<lparr>cleanup_state := CsClosing\<rparr>) (res w)"
  have parts: "ids_ok w" "permits_ok w" "coordinator_ok w" "phase_ok w" "waiters_ok w"
    using assms(1) by (simp_all add: registry_inv_def)
  note unique = coordinator_unique [OF parts(3) assms(2)]
  have r: "r = (registry w)\<lparr>reg_state := set_parts ?rs True (reg_state (registry w))\<rparr>"
    using coordinator_work [OF assms(3)] by simp
  have "marked [(g, Some i)] ?rs"
    using unique(5) by (auto simp: marked_def in_update_entry dest: entry_state_fixed)
  moreover have "i < next_id (registry w)"
    using coordinator_work [OF assms(3)] parts(1) by (force simp: ids_ok_def)
  ultimately have "coordinator_ok ?w"
    using unique by (simp add: coordinator_ok_def r)
  moreover have "ids_ok ?w"
    using parts(1) by (simp add: ids_ok_def r)
  moreover have "permits_ok ?w"
    using parts(2) by (cases "reg_state (registry w)") (simp_all add: permits_ok_def r)
  moreover have "phase_ok ?w"
  proof (rule phase_ok_change [OF parts(4)])
    show "all_in_state S ?rs" if "all_in_state S (res w)" "{CsQueued, CsClosing} \<subseteq> S" for S
      using that by (auto simp: all_in_state_def in_update_entry)
    show "reg_state (registry ?w) = set_parts ?rs True (reg_state (registry w))"
      by (simp add: r)
  qed simp_all
  moreover have "quiet ?rs"
    using parts(5) by (auto simp: waiters_ok_def quiet_def in_update_entry split: if_splits)
  then have "waiters_ok ?w"
    using parts(5) waiters_of_update_entry [of "\<lambda>e. e\<lparr>cleanup_state := CsClosing\<rparr>" i "res w"] by (simp add: waiters_ok_def r)
  moreover have "queue_ok ?w"
    by (simp add: queue_ok_def r)
  ultimately show ?thesis
    by (simp add: registry_inv_def)
qed

lemma inv_complete:
  assumes "registry_inv w" and "coordinators w = cs @ (g, None) # ds" and "coordinator_turn g (registry w) = (Complete, r)"
  shows "registry_inv (w\<lparr>registry := r, coordinators := cs @ ds\<rparr>)" (is "registry_inv ?w")
proof -
  let ?s = "reg_state (registry w)"
  have parts: "ids_ok w" "permits_ok w" "coordinator_ok w" "phase_ok w" "waiters_ok w"
    using assms(1) by (simp_all add: registry_inv_def)
  note unique = coordinator_unique [OF parts(3) assms(2)]
  have r: "r = (registry w)\<lparr>reg_state := finished_state ?s\<rparr>" and states: "all_in_state {CsOpen, CsRetry} (res w)"
    and pending: "case ?s of RegClosing g' rs p e b \<Rightarrow> p = 0 | _ \<Rightarrow> True"
    using coordinator_complete [OF assms(3)] unique(3,4) by auto
  have rs: "rg_resources (finished_state ?s) = res w" "rg_running (finished_state ?s) = False"
    by (cases ?s; simp add: finished_state_def)+
  have none: "\<not> (cleanup_state e = CsQueued \<or> cleanup_state e = CsClosing)" if "(k, e) \<in> set (res w)" for k e
    using states that by (fastforce simp: all_in_state_def)
  have "phase_ok ?w"
  proof (cases ?s)
    case (RegClosing g' rs p e b)
    then have "e = None \<Longrightarrow> rs = []"
      using parts(4) none [of "fst (hd rs)" "snd (hd rs)"] by (cases rs) (auto simp: phase_ok_def)
    moreover have "all_in_state {CsQueued, CsClosing, CsRetry} rs"
      using parts(4) by (cases e) (auto simp: phase_ok_def all_in_state_def RegClosing)
    ultimately show ?thesis
      by (auto simp: phase_ok_def r finished_state_def RegClosing)
  qed (use parts(4) in \<open>simp_all add: phase_ok_def r finished_state_def\<close>)
  moreover have "ids_ok ?w"
    using parts(1) by (simp add: ids_ok_def r rs)
  moreover have "permits_ok ?w"
    using parts(2) pending by (cases ?s) (simp_all add: permits_ok_def r finished_state_def)
  moreover have "coordinator_ok ?w"
    using none unique(1,2) by (auto simp: coordinator_ok_def marked_def r rs)
  moreover have "waiters_ok ?w"
    using parts(5) by (simp add: waiters_ok_def r rs)
  moreover have "queue_ok ?w"
    using none by (auto simp: queue_ok_def r rs)
  ultimately show ?thesis
    by (simp add: registry_inv_def)
qed

lemma inv_stop:
  assumes "registry_inv w" and "coordinators w = cs @ (g, x) # ds"
  shows "registry_inv (w\<lparr>registry := coordinator_stopped g (registry w), coordinators := cs @ ds, stops := stops w + 1\<rparr>)"
    (is "registry_inv ?w")
proof -
  let ?f = "\<lambda>c. if c = CsClosing then CsQueued else c"
  let ?rs = "update_states ?f (res w)"
  have parts: "ids_ok w" "permits_ok w" "coordinator_ok w" "phase_ok w" "waiters_ok w"
    using assms(1) by (simp_all add: registry_inv_def)
  note unique = coordinator_unique [OF parts(3) assms(2)]
  have r: "coordinator_stopped g (registry w) = (registry w)\<lparr>reg_state := set_parts ?rs False (reg_state (registry w))\<rparr>"
    using unique(4) by (simp add: coordinator_stopped_def Let_def)
  have "phase_ok ?w"
  proof (rule phase_ok_change [OF parts(4)])
    show "all_in_state S ?rs" if "all_in_state S (res w)" "{CsQueued, CsClosing} \<subseteq> S" for S
      using that by (auto simp: all_in_state_def in_update_states)
    show "reg_state (registry ?w) = set_parts ?rs False (reg_state (registry w))"
      by (simp add: r)
  qed simp_all
  moreover have "ids_ok ?w"
    using parts(1) by (simp add: ids_ok_def r)
  moreover have "permits_ok ?w"
    using parts(2) by (cases "reg_state (registry w)") (simp_all add: permits_ok_def r)
  moreover have "coordinator_ok ?w"
    using unique(1,2) by (auto simp: coordinator_ok_def marked_def r in_update_states dest: entry_state_fixed)
  moreover have "quiet ?rs"
    using parts(5) by (auto simp: waiters_ok_def quiet_def in_update_states split: if_splits)
  then have "waiters_ok ?w"
    using parts(5) by (simp add: waiters_ok_def r)
  moreover have "queue_ok ?w"
    by (simp add: queue_ok_def)
  ultimately show ?thesis
    by (simp add: registry_inv_def)
qed

text \<open>Entries that are removed take their waiters along.\<close>

lemma in_waiters_of: "x \<in> waiters_of rs \<longleftrightarrow> (\<exists>k e. (k, e) \<in> set rs \<and> x \<in> set (cleanup_waiters e))"
  by (auto simp: waiters_of_def)

lemma waiters_of_remove:
  assumes "bt_invar rs" and "(i, e) \<in> set rs"
  shows "waiters_of rs = waiters_of (bt_remove i rs) \<union> set (cleanup_waiters e)"
proof (intro equalityI subsetI)
  fix x
  assume "x \<in> waiters_of rs"
  then obtain k e' where "(k, e') \<in> set rs" "x \<in> set (cleanup_waiters e')"
    by (auto simp: waiters_of_def)
  then show "x \<in> waiters_of (bt_remove i rs) \<union> set (cleanup_waiters e)"
    using distinct_entries [OF assms] by (cases "k = i") (auto simp: waiters_of_def bt_remove_def)
qed (use assms(2) in \<open>auto simp: waiters_of_def bt_remove_def\<close>)

lemma waiters_of_clear:
  assumes "bt_invar rs" and "(i, e) \<in> set rs" and "\<And>e. cleanup_waiters (f e) = []"
  shows "waiters_of rs = waiters_of (update_entry i f rs) \<union> set (cleanup_waiters e)"
proof -
  have "waiters_of (update_entry i f rs) = waiters_of (bt_remove i rs)"
  proof (intro equalityI subsetI)
    fix x
    assume "x \<in> waiters_of (update_entry i f rs)"
    then obtain k e' e0 where "(k, e0) \<in> set rs" "e' = (if k = i then f e0 else e0)" "x \<in> set (cleanup_waiters e')"
      unfolding in_waiters_of in_update_entry by blast
    then show "x \<in> waiters_of (bt_remove i rs)"
      using assms(3) by (cases "k = i") (auto simp: in_waiters_of in_bt_remove)
  next
    fix x
    assume "x \<in> waiters_of (bt_remove i rs)"
    then show "x \<in> waiters_of (update_entry i f rs)"
      unfolding in_waiters_of in_update_entry in_bt_remove by metis
  qed
  then show ?thesis
    using waiters_of_remove [OF assms(1,2)] by simp
qed

lemma inv_unregister:
  assumes "registry_inv w" and "i \<in> closed_ids w"
  shows "registry_inv (w\<lparr>registry := unregister g i (registry w)\<rparr>)" (is "registry_inv ?w")
proof (cases "unregister g i (registry w) = registry w")
  case False
  let ?s = "reg_state (registry w)" and ?rs = "bt_remove i (res w)"
  obtain e where e: "(i, e) \<in> set (res w)" "cleanup_state e \<in> {CsOpen, CsRetry}"
    and r: "unregister g i (registry w) = (registry w)\<lparr>reg_state := set_parts ?rs (rg_running ?s) ?s\<rparr>"
    using False by (auto simp: unregister_def Let_def split: if_splits option.splits dest: map_of_SomeD)
  have parts: "ids_ok w" "permits_ok w" "coordinator_ok w" "phase_ok w" "waiters_ok w" "queue_ok w"
    using assms(1) by (simp_all add: registry_inv_def)
  have "phase_ok ?w"
  proof (rule phase_ok_change [OF parts(4)])
    show "all_in_state S ?rs" if "all_in_state S (res w)" "{CsQueued, CsClosing} \<subseteq> S" for S
      using that by (auto simp: all_in_state_def in_bt_remove)
    show "reg_state (registry ?w) = set_parts ?rs (rg_running ?s) ?s"
      by (simp add: r)
  qed auto
  moreover have "ids_ok ?w"
    using parts(1) assms(2) by (auto simp: ids_ok_def r bt_invar_remove)
  moreover have "permits_ok ?w"
    using parts(2) by (cases ?s) (simp_all add: permits_ok_def r)
  moreover have "coordinator_ok ?w"
    using parts(3) by (auto simp: coordinator_ok_def marked_def r in_bt_remove)
  moreover have "cleanup_waiters e = []"
    using parts(5) e unfolding waiters_ok_def quiet_def by blast
  then have "waiters_ok ?w"
    using parts(1,5) waiters_of_remove [of "res w" i e] e(1)
    by (auto simp: waiters_ok_def ids_ok_def r quiet_def in_bt_remove)
  moreover have "queue_ok ?w"
    using parts(6) by (auto simp: queue_ok_def r in_bt_remove)
  ultimately show ?thesis
    by (simp add: registry_inv_def)
qed (use assms(1) in simp)

lemma inv_done:
  assumes "registry_inv w" and "coordinators w = cs @ (g, Some i) # ds" and "coordinator_done g i a (registry w) = (sent, r)"
  shows "registry_inv (w\<lparr>registry := r, coordinators := cs @ (g, None) # ds,
    closed_ids := (if is_ok a then insert i (closed_ids w) else closed_ids w), answered := answered w \<union> set sent\<rparr>)"
    (is "registry_inv ?w")
proof -
  let ?s = "reg_state (registry w)"
  let ?f = "\<lambda>e. e\<lparr>cleanup_state := CsRetry, cleanup_waiters := []\<rparr>"
  have parts: "ids_ok w" "permits_ok w" "coordinator_ok w" "phase_ok w" "waiters_ok w"
    using assms(1) by (simp_all add: registry_inv_def)
  note unique = coordinator_unique [OF parts(3) assms(2)]
  define rs' where "rs' = (if is_ok a then bt_remove i (res w) else update_entry i ?f (res w))"
  have r: "r = (registry w)\<lparr>reg_state := record_error a (set_parts rs' (rg_running ?s) ?s)\<rparr>"
    and sent: "sent = (case map_of (res w) i of Some e \<Rightarrow> cleanup_waiters e | None \<Rightarrow> [])"
    using assms(3) unique(4) by (auto simp: coordinator_done_def Let_def rs'_def split: result.splits)
  have invar: "bt_invar (res w)"
    using parts(1) by (simp add: ids_ok_def)
  have waiters: "waiters_of (res w) = waiters_of rs' \<union> set sent"
  proof (cases "map_of (res w) i")
    case None
    then have "rs' = res w"
      using bt_remove_other [of i "res w"] update_entry_other [of i "res w" ?f] by (simp add: rs'_def map_of_eq_None_iff)
    then show ?thesis
      by (simp add: sent None)
  next
    case (Some e)
    then show ?thesis
      using waiters_of_remove [OF invar] waiters_of_clear [OF invar, of i e ?f]
      by (auto simp: sent rs'_def dest!: map_of_SomeD)
  qed
  have entry: "(\<exists>e. (k, e) \<in> set (res w) \<and> k \<noteq> i \<and> e' = e) \<or> k = i \<and> cleanup_state e' = CsRetry \<and> cleanup_waiters e' = [] \<and> \<not> is_ok a"
    if "(k, e') \<in> set rs'" for k e'
  proof (cases "k = i \<and> \<not> is_ok a")
    case True
    then have "(k, e') \<in> set (update_entry i ?f (res w))"
      using that by (simp add: rs'_def)
    then obtain e0 where "e' = ?f e0"
      using True unfolding in_update_entry by auto
    then show ?thesis
      using True by simp
  next
    case False
    then show ?thesis
      using that by (auto simp: rs'_def in_bt_remove in_update_entry split: if_splits)
  qed
  have "phase_ok ?w"
  proof (cases ?s)
    case (RegClosing g' rs p err b)
    have "all_in_state {CsQueued, CsClosing} rs'" if "is_ok a" "err = None"
      using that parts(4) entry by (auto simp: phase_ok_def RegClosing all_in_state_def)
    moreover have "all_in_state {CsQueued, CsClosing, CsRetry} rs'"
      using parts(4) entry by (cases err) (fastforce simp: phase_ok_def RegClosing all_in_state_def)+
    ultimately show ?thesis
      by (cases a; cases err) (auto simp: phase_ok_def r record_error_def RegClosing)
  next
    case (RegClosed g' rs err b)
    have "all_in_state {CsQueued, CsClosing, CsRetry} rs'"
      using parts(4) entry by (fastforce simp: phase_ok_def RegClosed all_in_state_def)
    moreover have "keys rs' \<subseteq> keys (res w)"
      by (auto simp: rs'_def)
    ultimately show ?thesis
      using parts(4) by (cases a) (auto simp: phase_ok_def r record_error_def RegClosed)
  qed (cases a; simp add: phase_ok_def r record_error_def)
  moreover have "ids_ok ?w"
    using parts(1) by (auto simp: ids_ok_def r rs'_def bt_invar_remove)
  moreover have "permits_ok ?w"
    using parts(2) by (cases ?s; cases a) (auto simp: permits_ok_def r record_error_def split: option.splits)
  moreover have "marked [(g, None)] rs'"
    using entry unique(5) by (fastforce simp: marked_def)
  then have "coordinator_ok ?w"
    using unique by (simp add: coordinator_ok_def r)
  moreover have "quiet rs'"
    using parts(5) entry unfolding waiters_ok_def quiet_def by metis
  then have "waiters_ok ?w"
    using parts(5) waiters by (auto simp: waiters_ok_def r)
  moreover have "queue_ok ?w"
    using unique(3) by (simp add: queue_ok_def r)
  ultimately show ?thesis
    by (simp add: registry_inv_def)
qed

lemma inv_register:
  assumes "registry_inv w" and "register_section belongs expected handles (registry w) = (out, r)"
    and ids: "ids = set (map rn_id (ro_registrations out))"
  shows "registry_inv (w\<lparr>registry := r, coordinators := spawned (ro_spawn out) @ coordinators w, bound_ids := bound_ids w \<union> ids,
    accepted_ids := (if ro_accepted out then accepted_ids w \<union> ids else accepted_ids w)\<rparr>)" (is "registry_inv ?w")
proof -
  let ?s = "reg_state (registry w)"
  have parts: "ids_ok w" "permits_ok w" "coordinator_ok w" "phase_ok w" "waiters_ok w" "queue_ok w"
    using assms(1) by (simp_all add: registry_inv_def)
  have "bt_invar (res w)" "\<forall>k \<in> keys (res w). k < next_id (registry w)"
    using parts(1) by (auto simp: ids_ok_def)
  from register_section_effect [OF assms(2) this ids] obtain rs' where
    reg: "registered (ro_accepted out) ids (res w) rs'"
    and n: "next_id (registry w) \<le> next_id r" "\<forall>k \<in> ids. next_id (registry w) \<le> k \<and> k < next_id r"
    and waiters: "waiters_of rs' = waiters_of (res w) \<union> {next_waiter (registry w)..<next_waiter r}" "next_waiter (registry w) \<le> next_waiter r"
    and r: "reg_state r = set_parts rs' (rg_running ?s \<or> ro_spawn out \<noteq> None) ?s"
    and spawn: "ro_spawn out \<in> {None, Some (rg_generation ?s)}" "rg_running ?s \<longrightarrow> ro_spawn out = None"
    and outcome: "if ro_accepted out then \<exists>rs p b. ?s = RegOpen expected rs p b else ids = {} \<or> rg_running ?s \<or> ro_spawn out \<noteq> None"
    by blast
  have keys: "keys rs' = keys (res w) \<union> ids" "bt_invar rs'"
    using reg by (simp_all add: registered_def)
  have entry: "(k, e) \<in> set (res w) \<or> k \<in> ids \<and> cleanup_state e = (if ro_accepted out then CsOpen else CsQueued) \<and>
      (ro_accepted out \<longrightarrow> cleanup_waiters e = [])" if "(k, e) \<in> set rs'" for k e
    using reg that by (simp add: registered_def)
  have old: "k \<notin> bound_ids w" if "k \<in> ids" for k
    using that parts(1) n(2) unfolding ids_ok_def by (metis linorder_not_less)
  have "k < next_id r" if "k \<in> bound_ids w \<union> ids" for k
    using that parts(1) n unfolding ids_ok_def by (metis Un_iff order_less_le_trans)
  then have "ids_ok ?w"
    using parts(1) keys by (auto simp: ids_ok_def r)
  moreover have "permits_ok ?w"
    using parts(2) by (cases ?s) (simp_all add: permits_ok_def r)
  moreover have "Some k \<notin> snd ` set (coordinators w)" if "k \<in> ids" for k
    using parts(3) n(2) that unfolding coordinator_ok_def by (metis linorder_not_less)
  then have "marked (coordinators w) rs'"
  proof (rule marked_extend [rotated 2])
    show "marked (coordinators w) (res w)"
      using parts(3) by (simp add: coordinator_ok_def)
    show "(k, e) \<in> set (res w) \<or> k \<in> ids \<and> cleanup_state e \<noteq> CsClosing" if "(k, e) \<in> set rs'" for k e
      using entry [OF that] by (auto split: if_splits)
  qed
  then have "coordinator_ok ?w"
    using parts(3) spawn n(1) by (fastforce simp: coordinator_ok_def r spawned_def)
  moreover have "phase_ok ?w"
  proof (cases "ro_accepted out")
    case False
    show ?thesis
    proof (rule phase_ok_change [OF parts(4)])
      show "all_in_state S rs'" if "all_in_state S (res w)" "{CsQueued, CsClosing} \<subseteq> S" for S
        using that entry False unfolding all_in_state_def by fastforce
      show "reg_state (registry ?w) = set_parts rs' (rg_running ?s \<or> ro_spawn out \<noteq> None) ?s"
        by (simp add: r)
      show "keys rs' \<inter> accepted_ids w \<subseteq> keys (res w)"
        using keys(1) old parts(1) by (auto simp: ids_ok_def)
    qed (simp add: False)
  qed (use outcome in \<open>auto simp: phase_ok_def r\<close>)
  moreover have "quiet rs'"
    using parts(5) entry unfolding waiters_ok_def quiet_def by (metis CleanupState.distinct(1,9) insert_iff singletonD)
  then have "waiters_ok ?w"
    using parts(5) waiters lessThan_union [OF waiters(2)] by (simp add: waiters_ok_def r ac_simps)
  moreover have "queue_ok ?w"
    using parts(6) outcome entry by (fastforce simp: queue_ok_def r split: if_splits)
  ultimately show ?thesis
    by (simp add: registry_inv_def)
qed

lemma rstep_inv: "rstep w w' \<Longrightarrow> registry_inv w \<Longrightarrow> registry_inv w'"
proof (induction rule: rstep.induct)
  case (rs_wait w cs g ds r)
  then show ?case
    using coordinator_wait [of g "registry w" r] by simp
next
  case (rs_register handles belongs expected w out r ids)
  then show ?case
    by (intro inv_register)
next
  case (rs_done w cs g i ds a sent r)
  then show ?case
    by (intro inv_done)
next
  case (rs_stop w cs g x ds)
  then show ?case
    by (intro inv_stop)
qed (auto intro: inv_begin inv_finish inv_queue inv_close_all inv_work inv_complete inv_self_close inv_unregister inv_open)

lemma rreachable_inv: "rreachable w \<Longrightarrow> registry_inv w"
  unfolding rreachable_def by (induction rule: rtranclp_induct) (simp_all add: registry_inv_new rstep_inv)

lemma rreachable_step: "rreachable w \<Longrightarrow> rstep w w' \<Longrightarrow> rreachable w'"
  unfolding rreachable_def by (rule rtranclp.rtrancl_into_rtrancl)

section \<open>Properties\<close>

text \<open>C30. Resources are never lost: in every interleaving each resource that was ever registered is closed or
  still in the registry, at most one coordinator runs, it runs exactly when the flag says so, and the count of
  pending admissions is the number of unfinished ones, which is zero once the registry is closed.\<close>

theorem resources_are_never_lost:
  assumes "rreachable w"
  shows "bound_ids w \<subseteq> keys (res w) \<union> closed_ids w \<and> keys (res w) \<subseteq> bound_ids w \<and>
    length (coordinators w) = (if rg_running (reg_state (registry w)) then 1 else 0) \<and>
    size (permits w) = (case reg_state (registry w) of RegOpen g rs p b \<Rightarrow> p | RegClosing g rs p e b \<Rightarrow> p | RegClosed g rs e b \<Rightarrow> 0)"
proof -
  have inv: "ids_ok w" "permits_ok w" "coordinator_ok w"
    using rreachable_inv [OF assms] by (simp_all add: registry_inv_def)
  have "length (map fst (coordinators w)) = (if rg_running (reg_state (registry w)) then 1 else 0)"
    using inv(3) unfolding coordinator_ok_def by simp
  moreover have "size (permits w) = (case reg_state (registry w) of RegOpen g rs p b \<Rightarrow> p | RegClosing g rs p e b \<Rightarrow> p | RegClosed g rs e b \<Rightarrow> 0)"
    using inv(2) by (cases "reg_state (registry w)") (simp_all add: permits_ok_def)
  ultimately show ?thesis
    using inv(1) by (simp add: ids_ok_def)
qed

text \<open>C29. \<open>close_all\<close> tells the truth: when it returns success, in any interleaving with registrations, explicit
  closes, retries and dying coordinators, every accepted resource is closed and no admission is pending.\<close>

theorem close_all_ok_closes_everything:
  assumes "rreachable w" and "close_all_turn waited (registry w) = (Some (Ok ()), waited', spawn, r)"
  shows "accepted_ids w \<subseteq> closed_ids w \<and> permits w = {#}"
proof -
  have inv: "ids_ok w" "permits_ok w" "phase_ok w"
    using rreachable_inv [OF assms(1)] by (simp_all add: registry_inv_def)
  obtain g rs b where s: "reg_state (registry w) = RegClosed g rs None b"
    using assms(2) by (auto simp: close_all_turn_def Let_def split: RegistryState.splits if_splits option.splits)
  have "keys rs \<inter> accepted_ids w = {}"
    using inv(3) by (simp add: phase_ok_def s)
  moreover have "accepted_ids w \<subseteq> keys rs \<union> closed_ids w"
    using inv(1) by (auto simp: ids_ok_def s)
  moreover have "permits w = {#}"
    using inv(2) by (simp add: permits_ok_def s)
  ultimately show ?thesis
    by blast
qed

text \<open>C28. A connection is leased again only when nothing of the previous lease is left: when the next generation
  opens, every resource that was ever registered is closed, no admission is pending and no coordinator runs.\<close>

theorem next_lease_starts_clean:
  assumes "rreachable w" and "open_next_generation (registry w) = (Ok g, r)"
  shows "bound_ids w \<subseteq> closed_ids w \<and> permits w = {#} \<and> coordinators w = []"
proof -
  have inv: "ids_ok w" "permits_ok w" "coordinator_ok w"
    using rreachable_inv [OF assms(1)] by (simp_all add: registry_inv_def)
  have s: "res w = []" "\<not> rg_running (reg_state (registry w))"
    "case reg_state (registry w) of RegOpen g rs p b \<Rightarrow> p = 0 | RegClosing g rs p e b \<Rightarrow> False | RegClosed g rs e b \<Rightarrow> True"
    using assms(2) by (auto simp: open_next_generation_def split: RegistryState.splits if_splits)
  have "permits w = {#}"
    using inv(2) s(3) by (cases "reg_state (registry w)") (simp_all add: permits_ok_def)
  then show ?thesis
    using inv(1,3) s(1,2) by (simp add: ids_ok_def coordinator_ok_def)
qed

text \<open>C31. No request to close is forgotten: as long as no coordinator died, whoever waits for a resource to be
  closed has been answered, or waits at an entry that is queued or being closed while a coordinator runs.\<close>

theorem no_cleanup_forgotten:
  assumes "rreachable w" and "stops w = 0" and "x < next_waiter (registry w)"
  shows "x \<in> answered w \<or> (\<exists>k e. (k, e) \<in> set (res w) \<and> x \<in> set (cleanup_waiters e) \<and>
    cleanup_state e \<in> {CsQueued, CsClosing} \<and> length (coordinators w) = 1)"
proof -
  have inv: "coordinator_ok w" "waiters_ok w" "queue_ok w"
    using rreachable_inv [OF assms(1)] by (simp_all add: registry_inv_def)
  have "x \<in> waiters_of (res w) \<or> x \<in> answered w"
    using inv(2) assms(3) unfolding waiters_ok_def by blast
  moreover have "cleanup_state e \<in> {CsQueued, CsClosing} \<and> length (coordinators w) = 1"
    if "(k, e) \<in> set (res w)" "x \<in> set (cleanup_waiters e)" for k e
  proof -
    have state: "cleanup_state e \<in> {CsQueued, CsClosing}"
      using inv(2) that by (cases "cleanup_state e") (fastforce simp: waiters_ok_def quiet_def)+
    have "length (map fst (coordinators w)) = 1"
    proof (cases "cleanup_state e = CsQueued")
      case True
      then have "rg_running (reg_state (registry w))"
        using inv(3) assms(2) that(1) unfolding queue_ok_def by blast
      then show ?thesis
        using inv(1) unfolding coordinator_ok_def by simp
    next
      case False
      then have "coordinators w \<noteq> []"
        using inv(1) that(1) state unfolding coordinator_ok_def marked_def by force
      then show ?thesis
        using inv(1) unfolding coordinator_ok_def by (auto split: if_splits)
    qed
    with state show ?thesis
      by simp
  qed
  ultimately show ?thesis
    unfolding in_waiters_of by blast
qed

section \<open>A run\<close>

text \<open>One resource is admitted and registered, its admission ends, \<open>close_all\<close> starts, and a coordinator
  closes the resource and finishes.\<close>

definition demo_entry :: "CleanupState \<Rightarrow> nat Entry" where
  "demo_entry cs = Entry_new 7 cs"

definition demo_world :: "nat RegistryState \<Rightarrow> nat \<Rightarrow> nat multiset \<Rightarrow> (nat \<times> nat option) list \<Rightarrow> nat set \<Rightarrow> nat set \<Rightarrow> nat RWorld" where
  "demo_world s n ps cs closed bound = \<lparr>registry = \<lparr>reg_state = s, next_id = n, next_waiter = 0\<rparr>, permits = ps, coordinators = cs,
     closed_ids = closed, bound_ids = bound, accepted_ids = bound, answered = {}, stops = 0\<rparr>"

lemma demo_start: "RWorld_new = demo_world (RegOpen 0 [] 0 False) 1 {#} [] {} {}"
  by (simp add: RWorld_new_def demo_world_def Registry_default_def)

lemma demo_1: "rreachable (demo_world (RegOpen 0 [] 1 False) 1 {#0#} [] {} {})"
proof -
  have "rreachable (RWorld_new :: nat RWorld)"
    by (simp add: rreachable_def)
  then have "rreachable (demo_world (RegOpen 0 [] 0 False) 1 {#} [] {} {})"
    unfolding demo_start .
  from rreachable_step [OF this rs_begin [of 0 _ 0]] show ?thesis
    by (simp add: demo_world_def begin_admission_def)
qed

lemma demo_2: "rreachable (demo_world (RegOpen 0 [(1, demo_entry CsOpen)] 1 False) 2 {#0#} [] {} {1})"
proof -
  let ?r = "registry (demo_world (RegOpen 0 [] 1 False) 1 {#0#} [] {} {})"
  have "register_section True 0 [(7, True)] ?r =
    (\<lparr>ro_accepted = True, ro_registrations = [\<lparr>rn_own = True, rn_generation = 0, rn_id = 1\<rparr>], ro_bind_failed = False,
      ro_receivers = [], ro_spawn = None\<rparr>, ?r\<lparr>reg_state := RegOpen 0 [(1, demo_entry CsOpen)] 1 False, next_id := 2\<rparr>)"
    by (simp add: register_section_def Let_def demo_world_def demo_entry_def)
  from rreachable_step [OF demo_1 rs_register [OF _ _ this refl]] show ?thesis
    by (simp add: demo_world_def spawned_def)
qed

lemma demo_3: "rreachable (demo_world (RegOpen 0 [(1, demo_entry CsOpen)] 0 False) 2 {#} [] {} {1})"
  using rreachable_step [OF demo_2 rs_finish [of 0]] by (simp add: demo_world_def finish_admission_def)

lemma demo_4: "rreachable (demo_world (RegClosing 0 [(1, demo_entry CsQueued)] 0 None True) 2 {#} [(0, None)] {} {1})"
proof -
  let ?r = "registry (demo_world (RegOpen 0 [(1, demo_entry CsOpen)] 0 False) 2 {#} [] {} {1})"
  have "close_all_turn None ?r = (None, Some 0, Some 0, ?r\<lparr>reg_state := RegClosing 0 [(1, demo_entry CsQueued)] 0 None True\<rparr>)"
    by (simp add: close_all_turn_def demo_world_def update_states_def request_def demo_entry_def Entry_new_def)
  from rreachable_step [OF demo_3 rs_close_all [OF this]] show ?thesis
    by (simp add: demo_world_def spawned_def)
qed

lemma demo_5: "rreachable (demo_world (RegClosing 0 [(1, demo_entry CsClosing)] 0 None True) 2 {#} [(0, Some 1)] {} {1})"
proof -
  let ?w = "demo_world (RegClosing 0 [(1, demo_entry CsQueued)] 0 None True) 2 {#} [(0, None)] {} {1}"
  have "coordinator_turn 0 (registry ?w) = (Work 1 7, (registry ?w)\<lparr>reg_state := RegClosing 0 [(1, demo_entry CsClosing)] 0 None True\<rparr>)"
    by (simp add: coordinator_turn_def demo_world_def update_entry_def demo_entry_def Entry_new_def)
  from rreachable_step [OF demo_4 rs_work [of _ "[]" 0 "[]", OF _ this]] show ?thesis
    by (simp add: demo_world_def)
qed

lemma demo_6: "rreachable (demo_world (RegClosing 0 [] 0 None True) 2 {#} [(0, None)] {1} {1})"
proof -
  let ?w = "demo_world (RegClosing 0 [(1, demo_entry CsClosing)] 0 None True) 2 {#} [(0, Some 1)] {} {1}"
  have "coordinator_done 0 1 (Ok ()) (registry ?w) = ([], (registry ?w)\<lparr>reg_state := RegClosing 0 [] 0 None True\<rparr>)"
    by (simp add: coordinator_done_def demo_world_def bt_remove_def record_error_def demo_entry_def Entry_new_def)
  from rreachable_step [OF demo_5 rs_done [of _ "[]" 0 1 "[]", OF _ this]] show ?thesis
    by (simp add: demo_world_def)
qed

lemma demo_7: "rreachable (demo_world (RegClosed 0 [] None False) 2 {#} [] {1} {1})"
proof -
  let ?w = "demo_world (RegClosing 0 [] 0 None True) 2 {#} [(0, None)] {1} {1}"
  have "coordinator_turn 0 (registry ?w) = (Complete, (registry ?w)\<lparr>reg_state := RegClosed 0 [] None False\<rparr>)"
    by (simp add: coordinator_turn_def demo_world_def)
  from rreachable_step [OF demo_6 rs_complete [of _ "[]" 0 "[]", OF _ this]] show ?thesis
    by (simp add: demo_world_def)
qed

theorem resources_are_never_lost_witness:
  "bound_ids (demo_world (RegOpen 0 [(1, demo_entry CsOpen)] 1 False) 2 {#0#} [] {} {1}) = {1} \<and>
   keys (res (demo_world (RegOpen 0 [(1, demo_entry CsOpen)] 1 False) 2 {#0#} [] {} {1})) = {1}"
  using resources_are_never_lost [OF demo_2] by (simp add: demo_world_def)

theorem close_all_ok_closes_everything_witness:
  "accepted_ids (demo_world (RegClosed 0 [] None False) 2 {#} [] {1} {1}) = {1} \<and>
   {1} \<subseteq> closed_ids (demo_world (RegClosed 0 [] None False) 2 {#} [] {1} {1})"
  using close_all_ok_closes_everything [OF demo_7, of "Some 0" "Some 0" None] by (simp add: demo_world_def close_all_turn_def)

theorem next_lease_starts_clean_witness:
  "fst (open_next_generation (registry (demo_world (RegClosed 0 [] None False) 2 {#} [] {1} {1}))) = Ok 1 \<and>
   bound_ids (demo_world (RegClosed 0 [] None False) 2 {#} [] {1} {1}) \<subseteq> closed_ids (demo_world (RegClosed 0 [] None False) 2 {#} [] {1} {1})"
  using next_lease_starts_clean [OF demo_7, of 1] by (simp add: demo_world_def open_next_generation_def)

theorem no_cleanup_forgotten_witness:
  "\<exists>w :: nat RWorld. next_waiter (registry w) = 1 \<and> stops w = 0 \<and> (0 \<in> answered w \<or> length (coordinators w) = 1)"
proof -
  let ?w = "demo_world (RegOpen 0 [(1, demo_entry CsOpen)] 0 False) 2 {#} [] {} {1}"
  let ?r = "(registry ?w)\<lparr>reg_state := RegOpen 0 [(1, (demo_entry CsQueued)\<lparr>cleanup_waiters := [0]\<rparr>)] 0 True, next_waiter := 1\<rparr>"
  let ?v = "?w\<lparr>registry := ?r, coordinators := [(0, None)]\<rparr>"
  have "queue_section [\<lparr>rn_own = True, rn_generation = 0, rn_id = 1\<rparr>] (registry ?w) = ([0], Some 0, ?r)"
    by (simp add: queue_section_def demo_world_def update_entry_def request_def demo_entry_def Entry_new_def Let_def)
  from rreachable_step [OF demo_3 rs_queue [OF this]] have "rreachable ?v"
    by (simp add: demo_world_def spawned_def)
  from no_cleanup_forgotten [OF this, of 0] show ?thesis
    by (intro exI [of _ ?v]) (simp add: demo_world_def)
qed

end
