(* ===== verification/Snapshot_Encoder.thy ===== *)
theory Snapshot_Encoder
  imports Utf8
begin

text \<open>
  The configuration of the metrics runtime with its validating builder (\<open>config.rs\<close>), the telemetry
  snapshot of a data source (\<open>druid/src/stats/druid_telemetry_snapshot.rs\<close>), its encoding as a
  protocol entry (\<open>snapshot_encoder.rs\<close>) and the ring buffers of the timeline (\<open>timeline.rs\<close>). The
  digest SHA-256 is the crate \<open>sha2\<close>, a parameter of the definitions.
\<close>

section \<open>Configuration\<close>

datatype SqlTextPolicy = Disabled | FingerprintOnly | RawWithoutParameters

datatype MetricsConfigError =
    InvalidQueueCapacity | InvalidBatchSize | InvalidCoalesceWindow | InvalidSampleInterval
  | InvalidShutdownTimeout

record DruidMetricsConfig =
  sample_interval :: duration
  queue_capacity :: nat
  batch_size :: nat
  coalesce_window :: duration
  max_sql_statements :: nat
  sql_text_policy :: SqlTextPolicy
  shutdown_timeout :: duration

definition millis :: "nat \<Rightarrow> duration" where
  "millis n = n * 1000000"

definition config_defaults :: DruidMetricsConfig where
  "config_defaults =
     \<lparr>sample_interval = millis 15000, queue_capacity = 1024, batch_size = 64,
      coalesce_window = millis 500, max_sql_statements = 256, sql_text_policy = FingerprintOnly,
      shutdown_timeout = millis 5000\<rparr>"

text \<open>The builder holds the same fields; its setters are the record updates.\<close>

definition config_build :: "DruidMetricsConfig \<Rightarrow> (DruidMetricsConfig, MetricsConfigError) result" where
  "config_build b =
     (if sample_interval b = 0 then Err InvalidSampleInterval
      else if queue_capacity b = 0 then Err InvalidQueueCapacity
      else if batch_size b = 0 then Err InvalidBatchSize
      else if coalesce_window b = 0 then Err InvalidCoalesceWindow
      else if shutdown_timeout b = 0 then Err InvalidShutdownTimeout
      else Ok b)"

lemma config_build_Ok_iff:
  "config_build b = Ok c \<longleftrightarrow> c = b \<and> sample_interval b > 0 \<and> queue_capacity b > 0
     \<and> batch_size b > 0 \<and> coalesce_window b > 0 \<and> shutdown_timeout b > 0"
  by (auto simp: config_build_def)

lemma config_defaults_build: "config_build config_defaults = Ok config_defaults"
  by (simp add: config_build_Ok_iff config_defaults_def millis_def)

section \<open>Telemetry snapshots\<close>

record DataSourceIdentity =
  ds_id :: u64
  ds_name :: rust_str
  driver_name :: "rust_str option"

record PoolSnapshot =
  active_count :: u32
  idle_count :: u32
  max_active :: u32
  max_idle :: u32
  waiting_count :: u32

record SqlStatSnapshot =
  fingerprint :: rust_str
  exec_count :: u64
  exec_time_millis :: u64
  fetch_row_count :: u64
  update_count :: u64

record WallSnapshot =
  check_count :: u64
  deny_count :: u64
  violation_count :: u64

record DruidTelemetrySnapshot =
  ds_identity :: DataSourceIdentity
  pool_snapshot :: PoolSnapshot
  sql_stats :: "SqlStatSnapshot list"
  wall_snapshot :: "WallSnapshot option"
  sampling_time_millis :: u64

datatype SnapshotUnavailable = Busy | SourceClosed

section \<open>Encoding\<close>

text \<open>The messages \<open>SqlStatMsg\<close>, \<open>PoolSnapshotMsg\<close> and \<open>SnapshotEntry\<close> of the protocol.\<close>

record SnapshotEntryMsg =
  e_datasource_id :: u64
  e_datasource_name :: rust_str
  e_driver_name :: "rust_str option"
  e_pool :: "PoolSnapshot option"
  e_sql_stats :: "SqlStatSnapshot list"
  e_wall_check_count :: u64
  e_wall_deny_count :: u64
  e_wall_violation_count :: u64
  e_sampling_time_millis :: u64

type_synonym digest = "u8 list \<Rightarrow> u8 list"

definition hex_digit :: "nat \<Rightarrow> nat" where
  "hex_digit n = (if n < 10 then 48 + n else 87 + n)"

definition hex_bytes :: "u8 list \<Rightarrow> rust_str" where
  "hex_bytes bs = concat (map (\<lambda>b. [hex_digit (unat b div 16), hex_digit (unat b mod 16)]) bs)"

definition encode_sql_stat :: "digest \<Rightarrow> SqlTextPolicy \<Rightarrow> SqlStatSnapshot \<Rightarrow> SqlStatSnapshot" where
  "encode_sql_stat sha256 policy stat =
     stat\<lparr>fingerprint := (case policy of
            Disabled \<Rightarrow> []
          | FingerprintOnly \<Rightarrow> lit ''sha256:'' @ hex_bytes (sha256 (utf8_bytes (fingerprint stat)))
          | RawWithoutParameters \<Rightarrow> lit ''sha256:'' @ hex_bytes (sha256 (utf8_bytes (fingerprint stat))))\<rparr>"

definition encode_snapshot ::
  "digest \<Rightarrow> nat \<Rightarrow> SqlTextPolicy \<Rightarrow> DruidTelemetrySnapshot \<Rightarrow> SnapshotEntryMsg" where
  "encode_snapshot sha256 limit policy s =
     \<lparr>e_datasource_id = ds_id (ds_identity s),
      e_datasource_name = ds_name (ds_identity s),
      e_driver_name = driver_name (ds_identity s),
      e_pool = Some (pool_snapshot s),
      e_sql_stats = map (encode_sql_stat sha256 policy) (take limit (sql_stats s)),
      e_wall_check_count = (case wall_snapshot s of Some w \<Rightarrow> check_count w | None \<Rightarrow> 0),
      e_wall_deny_count = (case wall_snapshot s of Some w \<Rightarrow> deny_count w | None \<Rightarrow> 0),
      e_wall_violation_count = (case wall_snapshot s of Some w \<Rightarrow> violation_count w | None \<Rightarrow> 0),
      e_sampling_time_millis = sampling_time_millis s\<rparr>"

text \<open>
  Two snapshots that differ only in the SQL texts, and whose texts have equal digests: what an
  observer of the entry may not tell apart.
\<close>

definition same_but_sql ::
  "digest \<Rightarrow> DruidTelemetrySnapshot \<Rightarrow> DruidTelemetrySnapshot \<Rightarrow> bool" where
  "same_but_sql sha256 s t \<longleftrightarrow>
     s\<lparr>sql_stats := []\<rparr> = t\<lparr>sql_stats := []\<rparr>
     \<and> list_all2 (\<lambda>a b. a\<lparr>fingerprint := []\<rparr> = b\<lparr>fingerprint := []\<rparr>
          \<and> sha256 (utf8_bytes (fingerprint a)) = sha256 (utf8_bytes (fingerprint b)))
        (sql_stats s) (sql_stats t)"

lemma encode_sql_stat_eq:
  assumes "a\<lparr>fingerprint := []\<rparr> = b\<lparr>fingerprint := []\<rparr>"
    and "policy = Disabled \<or> sha256 (utf8_bytes (fingerprint a)) = sha256 (utf8_bytes (fingerprint b))"
  shows "encode_sql_stat sha256 policy a = encode_sql_stat sha256 policy b"
  using assms by (cases a; cases b; cases policy) (auto simp: encode_sql_stat_def)

text \<open>No SQL text leaves the process: whatever the policy, two snapshots of a data source that
  differ only in statement texts with equal digests have the same entry; with the policy
  \<open>Disabled\<close> the texts do not matter at all, and an entry carries at most the configured number
  of statements.\<close>
theorem entry_hides_sql_text:
  "(same_but_sql sha256 s t \<longrightarrow> encode_snapshot sha256 limit policy s = encode_snapshot sha256 limit policy t)
   \<and> (same_but_sql (\<lambda>_. []) s t
        \<longrightarrow> encode_snapshot sha256 limit Disabled s = encode_snapshot sha256 limit Disabled t)
   \<and> length (e_sql_stats (encode_snapshot sha256 limit policy s)) \<le> limit"
proof -
  have base: "encode_snapshot sha256 limit p s = encode_snapshot sha256 limit p t"
    if "s\<lparr>sql_stats := []\<rparr> = t\<lparr>sql_stats := []\<rparr>"
      and stats: "map (encode_sql_stat sha256 p) (sql_stats s) = map (encode_sql_stat sha256 p) (sql_stats t)"
    for p
  proof -
    have "map (encode_sql_stat sha256 p) (take limit (sql_stats s))
        = map (encode_sql_stat sha256 p) (take limit (sql_stats t))"
      using stats by (metis take_map)
    with that(1) show ?thesis
      by (cases s; cases t) (simp add: encode_snapshot_def)
  qed
  have all2: "list_all2 R xs ys \<Longrightarrow> (\<And>a b. R a b \<Longrightarrow> encode_sql_stat sha256 p a = encode_sql_stat sha256 p b)
      \<Longrightarrow> map (encode_sql_stat sha256 p) xs = map (encode_sql_stat sha256 p) ys" for R xs ys p
    by (induction rule: list_all2_induct) auto
  show ?thesis
    by (intro conjI impI base)
      (auto simp: same_but_sql_def encode_snapshot_def
        elim!: all2 intro: encode_sql_stat_eq)
qed

section \<open>Timeline\<close>

record TimelineBucket =
  timestamp_secs :: u64
  b_exec_count :: u64
  b_exec_time_millis :: u64
  active_connections :: u32

record TimelineRingBuffer =
  resolution_secs :: u64
  ring_capacity :: nat
  ring_buffer :: "TimelineBucket list"

definition ring_new :: "u64 \<Rightarrow> nat \<Rightarrow> TimelineRingBuffer" where
  "ring_new resolution cap = \<lparr>resolution_secs = resolution, ring_capacity = cap, ring_buffer = []\<rparr>"

definition ring_push :: "TimelineBucket \<Rightarrow> TimelineRingBuffer \<Rightarrow> TimelineRingBuffer" where
  "ring_push b r =
     r\<lparr>ring_buffer := (if length (ring_buffer r) \<ge> ring_capacity r then tl (ring_buffer r)
                      else ring_buffer r) @ [b]\<rparr>"

definition ring_len :: "TimelineRingBuffer \<Rightarrow> nat" where
  "ring_len r = length (ring_buffer r)"

definition ring_is_empty :: "TimelineRingBuffer \<Rightarrow> bool" where
  "ring_is_empty r \<longleftrightarrow> ring_buffer r = []"

record TimelineSnapshot =
  per_15s :: TimelineRingBuffer
  per_60s :: TimelineRingBuffer
  per_3600s :: TimelineRingBuffer

definition timeline_new :: TimelineSnapshot where
  "timeline_new = \<lparr>per_15s = ring_new 15 180, per_60s = ring_new 60 360, per_3600s = ring_new 3600 360\<rparr>"

lemma ring_push_suffix:
  assumes "ring_buffer r = drop (length bs - ring_capacity r) bs" "ring_capacity r > 0"
  shows "ring_buffer (ring_push b r) = drop (length (bs @ [b]) - ring_capacity (ring_push b r)) (bs @ [b])"
  using assms by (auto simp: ring_push_def Suc_diff_le drop_Suc tl_drop)

text \<open>After any number of pushes a ring of positive capacity holds the newest buckets, in order.\<close>

theorem ring_keeps_newest:
  assumes "cap > 0"
  shows "ring_buffer (foldl (\<lambda>r b. ring_push b r) (ring_new res cap) bs) = drop (length bs - cap) bs"
proof (induction bs rule: rev_induct)
  case (snoc b bs)
  have cap: "ring_capacity (foldl (\<lambda>r b. ring_push b r) (ring_new res cap) bs) = cap" for bs
    by (induction bs rule: rev_induct) (simp_all add: ring_new_def ring_push_def)
  from snoc cap [of bs] cap [of "bs @ [b]"] ring_push_suffix [of "foldl (\<lambda>r b. ring_push b r) (ring_new res cap) bs" bs b] assms
  show ?case by simp
qed (simp add: ring_new_def)

end
