(* ===== verification/Pipeline_Ownership.thy ===== *)
theory Pipeline_Ownership
  imports Service_Identity "HOL-Library.AList"
begin

text \<open>
  The ownership ledger of the metrics pipeline (\<open>druid-metrics/src/pipeline_ownership.rs\<close>): which
  stage owns a batch between the aggregator and its acknowledgement, and which commands are
  queued or being processed. Every method holds one lock, so an operation is a function from the
  state to a result and the new state; the waiters it notifies only read. Counts of \<open>usize\<close> are
  natural numbers with the checked operations written out; the hash map of commands is an
  association list.
\<close>

section \<open>Keys\<close>

datatype PipelineOwnershipError = InvalidTransition rust_str

text \<open>The messages of \<open>ServiceIdentity\<close>, which the ledger passes on.\<close>

fun identity_message :: "IdentityError \<Rightarrow> rust_str" where
  "identity_message ComponentTooLong = lit ''service identity component exceeds byte budget''"
| "identity_message SizeOverflow = lit ''service identity size overflow''"
| "identity_message CanonicalTooLong = lit ''canonical service identity exceeds byte budget''"
| "identity_message BadPrefix = lit ''canonical service identity prefix is invalid''"
| "identity_message BadEncoding = lit ''canonical service identity encoding is invalid''"
| "identity_message PayloadTooLong = lit ''canonical service identity payload exceeds byte budget''"
| "identity_message BadMagic = lit ''canonical service identity magic is invalid''"
| "identity_message Truncated = lit ''canonical service identity is truncated''"
| "identity_message NotUtf8 = lit ''canonical service identity component is not UTF-8''"
| "identity_message TrailingData = lit ''canonical service identity has trailing data''"
| "identity_message NotNormalized = lit ''canonical service identity is not normalized''"

datatype CommandPayload = ResetStats "u64 list" | RequestFullSnapshot

definition canonical_command_payload :: "CommandPayload option \<Rightarrow> (u8 list, rust_str) result" where
  "canonical_command_payload payload =
     (case payload of
        Some (ResetStats ids) \<Rightarrow>
          Ok (1 # concat (map (\<lambda>i. be_bytes 8 (unat i)) (remdups_adj (sort ids))))
      | Some RequestFullSnapshot \<Rightarrow> Ok [2]
      | None \<Rightarrow> Err (lit ''command payload is empty''))"

record CommandWorkKey =
  service_identity :: ServiceIdentity
  command_id :: rust_str
  canonical_payload :: "u8 list"

definition from_parts ::
  "b64_encoder \<Rightarrow> rust_str \<Rightarrow> rust_str \<Rightarrow> rust_str \<Rightarrow> rust_str \<Rightarrow> CommandPayload option
     \<Rightarrow> (CommandWorkKey, PipelineOwnershipError) result" where
  "from_parts enc name inst boot cid payload =
     (if str_trim cid = [] then Err (InvalidTransition (lit ''command ID must be non-empty''))
      else case ServiceIdentity_try_new enc name inst boot of
        Err e \<Rightarrow> Err (InvalidTransition (identity_message e))
      | Ok ident \<Rightarrow>
          (case canonical_command_payload payload of
             Err e \<Rightarrow> Err (InvalidTransition e)
           | Ok bytes \<Rightarrow> Ok \<lparr>service_identity = ident, command_id = cid, canonical_payload = bytes\<rparr>))"

section \<open>The ledger\<close>

datatype CommandTransition = Started | Coalesced

record CommandOwnership =
  queued :: nat
  processing :: bool

type_synonym BatchWorkId = u64

record PipelineOwnershipState =
  aggregator_snapshots :: nat
  next_work_id :: u64
  exporter_batches :: "BatchWorkId list"
  client_queued_batches :: "BatchWorkId list"
  pending_frames :: "BatchWorkId list"
  commands :: "(CommandWorkKey \<times> CommandOwnership) list"

type_synonym 'a po_result = "('a, PipelineOwnershipError) result \<times> PipelineOwnershipState"

definition PipelineOwnership_new :: PipelineOwnershipState where
  "PipelineOwnership_new =
     \<lparr>aggregator_snapshots = 0, next_work_id = 0, exporter_batches = [], client_queued_batches = [],
      pending_frames = [], commands = []\<rparr>"

definition invalid :: "string \<Rightarrow> PipelineOwnershipState \<Rightarrow> 'a po_result" where
  "invalid msg s = (Err (InvalidTransition (lit msg)), s)"

definition set_aggregator_snapshots :: "nat \<Rightarrow> PipelineOwnershipState \<Rightarrow> PipelineOwnershipState" where
  "set_aggregator_snapshots count s = s\<lparr>aggregator_snapshots := count\<rparr>"

definition allocate_work_id :: "PipelineOwnershipState \<Rightarrow> BatchWorkId po_result" where
  "allocate_work_id s =
     (case checked_add_one (next_work_id s) of
        None \<Rightarrow> invalid ''batch work ID space exhausted'' s
      | Some nxt \<Rightarrow> (Ok (next_work_id s), s\<lparr>next_work_id := nxt\<rparr>))"

definition transfer_aggregator_to_exporter ::
  "nat \<Rightarrow> PipelineOwnershipState \<Rightarrow> BatchWorkId po_result" where
  "transfer_aggregator_to_exporter snapshots s =
     (if snapshots > aggregator_snapshots s then invalid ''aggregator ownership underflow'' s
      else case allocate_work_id s of
        (Err e, s') \<Rightarrow> (Err e, s')
      | (Ok i, s') \<Rightarrow>
          (Ok i, s'\<lparr>aggregator_snapshots := aggregator_snapshots s - snapshots,
                    exporter_batches := exporter_batches s' @ [i]\<rparr>))"

definition restore_exporter_to_aggregator ::
  "BatchWorkId \<Rightarrow> nat \<Rightarrow> PipelineOwnershipState \<Rightarrow> unit po_result" where
  "restore_exporter_to_aggregator i snapshots s =
     (if exporter_batches s = [] \<or> last (exporter_batches s) \<noteq> i
      then invalid ''exporter restore does not own the expected batch'' s
      else if aggregator_snapshots s + snapshots \<ge> usize_limit
      then invalid ''aggregator ownership overflow'' s
      else (Ok (), s\<lparr>exporter_batches := butlast (exporter_batches s),
                     aggregator_snapshots := aggregator_snapshots s + snapshots\<rparr>))"

text \<open>\<open>VecDeque::front\<close>.\<close>

fun front :: "'a list \<Rightarrow> 'a option" where
  "front [] = None"
| "front (x # xs) = Some x"

definition finish_exporter_batch :: "BatchWorkId \<Rightarrow> PipelineOwnershipState \<Rightarrow> unit po_result" where
  "finish_exporter_batch i s =
     (if front (exporter_batches s) \<noteq> Some i
      then invalid ''exporter finish does not own the expected batch'' s
      else (Ok (), s\<lparr>exporter_batches := tl (exporter_batches s)\<rparr>))"

definition queue_client_batch :: "PipelineOwnershipState \<Rightarrow> BatchWorkId po_result" where
  "queue_client_batch s =
     (case allocate_work_id s of
        (Err e, s') \<Rightarrow> (Err e, s')
      | (Ok i, s') \<Rightarrow> (Ok i, s'\<lparr>client_queued_batches := client_queued_batches s' @ [i]\<rparr>))"

text \<open>The identifiers of \<open>queue_client_batches_front\<close>: an exhausted counter keeps those drawn before.\<close>

fun allocate_ids :: "nat \<Rightarrow> PipelineOwnershipState \<Rightarrow> BatchWorkId list po_result" where
  "allocate_ids 0 s = (Ok [], s)"
| "allocate_ids (Suc n) s =
     (case allocate_work_id s of
        (Err e, s') \<Rightarrow> (Err e, s')
      | (Ok i, s') \<Rightarrow>
          (case allocate_ids n s' of
             (Err e, s'') \<Rightarrow> (Err e, s'')
           | (Ok ids, s'') \<Rightarrow> (Ok (i # ids), s'')))"

definition queue_client_batches_front :: "nat \<Rightarrow> PipelineOwnershipState \<Rightarrow> unit po_result" where
  "queue_client_batches_front count s =
     (case allocate_ids count s of
        (Err e, s') \<Rightarrow> (Err e, s')
      | (Ok ids, s') \<Rightarrow> (Ok (), s'\<lparr>client_queued_batches := ids @ client_queued_batches s'\<rparr>))"

definition drop_client_batch :: "BatchWorkId \<Rightarrow> PipelineOwnershipState \<Rightarrow> unit po_result" where
  "drop_client_batch i s =
     (case position (\<lambda>c. c = i) (client_queued_batches s) of
        None \<Rightarrow> invalid ''client drop does not own the expected batch'' s
      | Some p \<Rightarrow> (Ok (), s\<lparr>client_queued_batches := remove_at p (client_queued_batches s)\<rparr>))"

definition transfer_exporter_to_client ::
  "BatchWorkId \<Rightarrow> PipelineOwnershipState \<Rightarrow> unit po_result" where
  "transfer_exporter_to_client i s =
     (if front (exporter_batches s) \<noteq> Some i
      then invalid ''exporter handoff does not own the expected batch'' s
      else (Ok (), s\<lparr>exporter_batches := tl (exporter_batches s),
                     client_queued_batches := client_queued_batches s @ [i]\<rparr>))"

definition transfer_client_to_pending_frames ::
  "BatchWorkId \<Rightarrow> PipelineOwnershipState \<Rightarrow> unit po_result" where
  "transfer_client_to_pending_frames i s =
     (if front (client_queued_batches s) \<noteq> Some i
      then invalid ''client handoff does not own the expected batch'' s
      else (Ok (), s\<lparr>client_queued_batches := tl (client_queued_batches s),
                     pending_frames := pending_frames s @ [i]\<rparr>))"

definition finish_pending_frame :: "BatchWorkId \<Rightarrow> PipelineOwnershipState \<Rightarrow> unit po_result" where
  "finish_pending_frame i s =
     (if front (pending_frames s) \<noteq> Some i
      then invalid ''pending-frame finish does not own the expected batch'' s
      else (Ok (), s\<lparr>pending_frames := tl (pending_frames s)\<rparr>))"

definition verify_pending_frames ::
  "nat \<Rightarrow> PipelineOwnershipState \<Rightarrow> (unit, PipelineOwnershipError) result" where
  "verify_pending_frames expected s =
     (if length (pending_frames s) \<noteq> expected
      then Err (InvalidTransition (lit ''pending-frame ownership does not match restored window''))
      else Ok ())"

definition discard_pending_frames :: "nat \<Rightarrow> PipelineOwnershipState \<Rightarrow> unit po_result" where
  "discard_pending_frames expected s =
     (if length (pending_frames s) \<noteq> expected
      then invalid ''pending-frame discard count does not match window'' s
      else (Ok (), s\<lparr>pending_frames := []\<rparr>))"

subsection \<open>Commands\<close>

definition queue_command :: "CommandWorkKey \<Rightarrow> PipelineOwnershipState \<Rightarrow> unit po_result" where
  "queue_command key s =
     (let lifecycle = (case map_of (commands s) key of
                         Some c \<Rightarrow> c | None \<Rightarrow> \<lparr>queued = 0, processing = False\<rparr>)
      in if queued lifecycle + 1 \<ge> usize_limit then invalid ''command queue ownership overflow'' s
         else (Ok (), s\<lparr>commands :=
                 AList.update key (lifecycle\<lparr>queued := queued lifecycle + 1\<rparr>) (commands s)\<rparr>))"

definition drop_command :: "CommandWorkKey \<Rightarrow> PipelineOwnershipState \<Rightarrow> unit po_result" where
  "drop_command key s =
     (case map_of (commands s) key of
        None \<Rightarrow> invalid ''command ownership is missing'' s
      | Some lifecycle \<Rightarrow>
          if queued lifecycle = 0 then invalid ''command queue ownership is missing'' s
          else if queued lifecycle - 1 = 0 \<and> \<not> processing lifecycle
          then (Ok (), s\<lparr>commands := AList.delete key (commands s)\<rparr>)
          else (Ok (), s\<lparr>commands :=
                 AList.update key (lifecycle\<lparr>queued := queued lifecycle - 1\<rparr>) (commands s)\<rparr>))"

definition start_command :: "CommandWorkKey \<Rightarrow> PipelineOwnershipState \<Rightarrow> CommandTransition po_result" where
  "start_command key s =
     (case map_of (commands s) key of
        None \<Rightarrow> invalid ''command ownership is missing'' s
      | Some lifecycle \<Rightarrow>
          if queued lifecycle = 0 then invalid ''command queue ownership is missing'' s
          else (Ok (if processing lifecycle then Coalesced else Started),
                s\<lparr>commands := AList.update key
                    (lifecycle\<lparr>queued := queued lifecycle - 1, processing := True\<rparr>) (commands s)\<rparr>))"

definition finish_command :: "CommandWorkKey \<Rightarrow> PipelineOwnershipState \<Rightarrow> unit po_result" where
  "finish_command key s =
     (case map_of (commands s) key of
        None \<Rightarrow> invalid ''command ownership is missing'' s
      | Some lifecycle \<Rightarrow>
          if \<not> processing lifecycle then invalid ''command is not processing'' s
          else if queued lifecycle = 0
          then (Ok (), s\<lparr>commands := AList.delete key (commands s)\<rparr>)
          else (Ok (), s\<lparr>commands :=
                 AList.update key (lifecycle\<lparr>processing := False\<rparr>) (commands s)\<rparr>))"

subsection \<open>Counters\<close>

definition processing_commands :: "PipelineOwnershipState \<Rightarrow> nat" where
  "processing_commands s = length (filter (\<lambda>e. processing (snd e)) (commands s))"

definition transport_commands :: "PipelineOwnershipState \<Rightarrow> nat" where
  "transport_commands s = sum_list (map (\<lambda>e. queued (snd e)) (commands s))"

definition command_work :: "PipelineOwnershipState \<Rightarrow> nat" where
  "command_work s =
     sum_list (map (\<lambda>e. queued (snd e) + (if processing (snd e) then 1 else 0)) (commands s))"

definition client_unflushed :: "PipelineOwnershipState \<Rightarrow> nat" where
  "client_unflushed s =
     length (client_queued_batches s) + length (pending_frames s) + command_work s"

definition total_unflushed :: "PipelineOwnershipState \<Rightarrow> nat" where
  "total_unflushed s =
     aggregator_snapshots s + length (exporter_batches s) + length (client_queued_batches s)
     + length (pending_frames s) + command_work s"

section \<open>Runs\<close>

text \<open>The calls in the order in which they take the lock, with what each of them answered.\<close>

datatype PipelineOp =
    SetAggregator nat
  | AggregatorToExporter nat
  | ExporterToAggregator BatchWorkId nat
  | FinishExporter BatchWorkId
  | QueueClient
  | QueueClientFront nat
  | DropClient BatchWorkId
  | ExporterToClient BatchWorkId
  | ClientToPending BatchWorkId
  | FinishPending BatchWorkId
  | DiscardPending nat
  | QueueCommand CommandWorkKey
  | DropCommand CommandWorkKey
  | StartCommand CommandWorkKey
  | FinishCommand CommandWorkKey

datatype Answer = Accepted | Issued BatchWorkId | Transition CommandTransition | Refused PipelineOwnershipError

fun answer :: "('a \<Rightarrow> Answer) \<Rightarrow> 'a po_result \<Rightarrow> Answer \<times> PipelineOwnershipState" where
  "answer f (Ok x, s) = (f x, s)"
| "answer f (Err e, s) = (Refused e, s)"

abbreviation accepted :: "unit po_result \<Rightarrow> Answer \<times> PipelineOwnershipState" where
  "accepted \<equiv> answer (\<lambda>_. Accepted)"

fun po_step :: "PipelineOwnershipState \<Rightarrow> PipelineOp \<Rightarrow> Answer \<times> PipelineOwnershipState" where
  "po_step s (SetAggregator n) = (Accepted, set_aggregator_snapshots n s)"
| "po_step s (AggregatorToExporter n) = answer Issued (transfer_aggregator_to_exporter n s)"
| "po_step s (ExporterToAggregator i n) = accepted (restore_exporter_to_aggregator i n s)"
| "po_step s (FinishExporter i) = accepted (finish_exporter_batch i s)"
| "po_step s QueueClient = answer Issued (queue_client_batch s)"
| "po_step s (QueueClientFront n) = accepted (queue_client_batches_front n s)"
| "po_step s (DropClient i) = accepted (drop_client_batch i s)"
| "po_step s (ExporterToClient i) = accepted (transfer_exporter_to_client i s)"
| "po_step s (ClientToPending i) = accepted (transfer_client_to_pending_frames i s)"
| "po_step s (FinishPending i) = accepted (finish_pending_frame i s)"
| "po_step s (DiscardPending n) = accepted (discard_pending_frames n s)"
| "po_step s (QueueCommand k) = accepted (queue_command k s)"
| "po_step s (DropCommand k) = accepted (drop_command k s)"
| "po_step s (StartCommand k) = answer Transition (start_command k s)"
| "po_step s (FinishCommand k) = accepted (finish_command k s)"

fun po_run :: "PipelineOwnershipState \<Rightarrow> PipelineOp list \<Rightarrow> (PipelineOp \<times> Answer) list \<times> PipelineOwnershipState" where
  "po_run s [] = ([], s)"
| "po_run s (c # cs) =
     (let (a, s') = po_step s c; (log, s'') = po_run s' cs in ((c, a) # log, s''))"


section \<open>The stages of a batch\<close>

datatype Stage = AtExporter | AtClient | AtPending

definition stage_of :: "PipelineOwnershipState \<Rightarrow> BatchWorkId \<Rightarrow> Stage option" where
  "stage_of s i =
     (if i \<in> set (exporter_batches s) then Some AtExporter
      else if i \<in> set (client_queued_batches s) then Some AtClient
      else if i \<in> set (pending_frames s) then Some AtPending
      else None)"

definition owned_batches :: "PipelineOwnershipState \<Rightarrow> BatchWorkId list" where
  "owned_batches s = exporter_batches s @ client_queued_batches s @ pending_frames s"

definition batches_ok :: "PipelineOwnershipState \<Rightarrow> bool" where
  "batches_ok s \<longleftrightarrow> distinct (owned_batches s) \<and> (\<forall>i\<in>set (owned_batches s). i < next_work_id s)"

text \<open>
  The moves the pipeline allows: in at the exporter or the client queue with a new identifier, out
  at every stage, and forward from the exporter to the client queue and on to the pending frames.
\<close>

fun allowed_move :: "bool \<Rightarrow> Stage option \<Rightarrow> Stage option \<Rightarrow> bool" where
  "allowed_move issued None new \<longleftrightarrow> new = None \<or> \<not> issued \<and> new \<noteq> Some AtPending"
| "allowed_move issued (Some AtExporter) new \<longleftrightarrow> new \<noteq> Some AtPending"
| "allowed_move issued (Some AtClient) new \<longleftrightarrow> new \<noteq> Some AtExporter"
| "allowed_move issued (Some AtPending) new \<longleftrightarrow> new \<in> {None, Some AtPending}"

definition moves_allowed :: "PipelineOwnershipState \<Rightarrow> PipelineOwnershipState \<Rightarrow> bool" where
  "moves_allowed s s' \<longleftrightarrow>
     batches_ok s' \<and> next_work_id s \<le> next_work_id s'
     \<and> (\<forall>i. allowed_move (i < next_work_id s) (stage_of s i) (stage_of s' i))"

lemma stage_of_None: "stage_of s i = None \<longleftrightarrow> i \<notin> set (owned_batches s)"
  by (auto simp: stage_of_def owned_batches_def)

lemma allowed_move_refl [simp]: "allowed_move b st st"
proof (cases st)
  case (Some x)
  then show ?thesis by (cases x) simp_all
qed simp

lemma moves_allowed_same:
  assumes "batches_ok s" "exporter_batches s' = exporter_batches s"
    "client_queued_batches s' = client_queued_batches s" "pending_frames s' = pending_frames s"
    "next_work_id s \<le> next_work_id s'"
  shows "moves_allowed s s'"
  using assms
  by (auto simp: moves_allowed_def batches_ok_def owned_batches_def stage_of_def
           dest: order_less_le_trans)

lemmas batch_defs = moves_allowed_def batches_ok_def owned_batches_def stage_of_def

lemma front_Some: "front xs = Some x \<longleftrightarrow> (\<exists>r. xs = x # r)"
  by (cases xs) auto

lemma allocate_work_id_cases:
  obtains (full) e where "allocate_work_id s = (Err e, s)"
  | (fresh) "next_work_id s \<noteq> - 1" "allocate_work_id s = (Ok (next_work_id s), s\<lparr>next_work_id := next_work_id s + 1\<rparr>)"
  by (cases "next_work_id s = - 1")
    (simp_all add: allocate_work_id_def checked_add_one_def invalid_def)

lemma allocate_ids_effect:
  "allocate_ids n s = (r, s') \<Longrightarrow>
     (\<exists>w. s' = s\<lparr>next_work_id := w\<rparr> \<and> next_work_id s \<le> w)
     \<and> (\<forall>ids. r = Ok ids \<longrightarrow> distinct ids \<and> length ids = n
          \<and> (\<forall>i\<in>set ids. next_work_id s \<le> i \<and> i < next_work_id s'))"
proof (induction n arbitrary: s r s')
  case 0
  then show ?case by (auto intro!: exI [of _ "next_work_id s"])
next
  case (Suc n)
  show ?case
  proof (cases rule: allocate_work_id_cases [of s])
    case full
    with Suc.prems show ?thesis by (auto intro!: exI [of _ "next_work_id s"])
  next
    case fresh
    let ?s1 = "s\<lparr>next_work_id := next_work_id s + 1\<rparr>"
    obtain r1 s2 where rest: "allocate_ids n ?s1 = (r1, s2)" by fastforce
    obtain w where w: "s2 = ?s1\<lparr>next_work_id := w\<rparr>" "next_work_id s + 1 \<le> w"
      and ids: "\<And>ids. r1 = Ok ids \<Longrightarrow> distinct ids \<and> length ids = n
          \<and> (\<forall>i\<in>set ids. next_work_id s + 1 \<le> i \<and> i < w)"
      using Suc.IH [OF rest] by fastforce
    have less: "next_work_id s < next_work_id s + 1"
      by (rule u64_less_Suc [OF fresh(1)])
    with w have mono: "next_work_id s < w" by (rule_tac order_less_le_trans)
    show ?thesis
    proof (cases r1)
      case (Ok more_ids)
      have "next_work_id s \<notin> set more_ids" "\<forall>i\<in>set more_ids. next_work_id s \<le> i \<and> i < w"
        using ids [OF Ok] less by (auto dest: order_less_le_trans)
      with Suc.prems fresh rest w ids [OF Ok] Ok mono less_imp_le [OF mono] show ?thesis
        by auto
    next
      case (Err e)
      with Suc.prems fresh rest w less_imp_le [OF mono] show ?thesis by auto
    qed
  qed
qed

subsection \<open>Every operation moves batches as allowed\<close>

lemma transfer_aggregator_moves:
  "batches_ok s \<Longrightarrow> moves_allowed s (snd (transfer_aggregator_to_exporter n s))"
proof (cases rule: allocate_work_id_cases [of s])
  case full
  then show "batches_ok s \<Longrightarrow> ?thesis"
    by (auto simp: transfer_aggregator_to_exporter_def invalid_def intro!: moves_allowed_same)
next
  case fresh
  then show "batches_ok s \<Longrightarrow> ?thesis"
    using u64_less_Suc [OF fresh(1)]
    by (auto simp: transfer_aggregator_to_exporter_def invalid_def batch_defs
             dest: order_less_trans)
qed

lemma queue_client_moves: "batches_ok s \<Longrightarrow> moves_allowed s (snd (queue_client_batch s))"
proof (cases rule: allocate_work_id_cases [of s])
  case full
  then show "batches_ok s \<Longrightarrow> ?thesis"
    by (auto simp: queue_client_batch_def intro!: moves_allowed_same)
next
  case fresh
  then show "batches_ok s \<Longrightarrow> ?thesis"
    using u64_less_Suc [OF fresh(1)]
    by (auto simp: queue_client_batch_def batch_defs dest: order_less_trans)
qed

lemma queue_front_moves: "batches_ok s \<Longrightarrow> moves_allowed s (snd (queue_client_batches_front n s))"
proof -
  assume ok: "batches_ok s"
  obtain r s' where alloc: "allocate_ids n s = (r, s')" by fastforce
  note eff = allocate_ids_effect [OF alloc]
  obtain w where w: "s' = s\<lparr>next_work_id := w\<rparr>" "next_work_id s \<le> w" using eff by blast
  show ?thesis
  proof (cases r)
    case (Err e)
    with ok alloc w show ?thesis
      by (auto simp: queue_client_batches_front_def intro!: moves_allowed_same)
  next
    case (Ok ids)
    then have ids: "distinct ids" "\<And>i. i \<in> set ids \<Longrightarrow> next_work_id s \<le> i \<and> i < w"
      using eff w by auto
    let ?t = "s'\<lparr>client_queued_batches := ids @ client_queued_batches s'\<rparr>"
    have disjoint: "set ids \<inter> set (owned_batches s) = {}"
      using ok ids(2) by (fastforce simp: batches_ok_def)
    have owned: "set (owned_batches ?t) = set ids \<union> set (owned_batches s)"
      using w by (auto simp: owned_batches_def)
    have "distinct (owned_batches ?t)"
      using ok ids(1) disjoint w by (auto simp: batches_ok_def owned_batches_def)
    moreover have "\<forall>i\<in>set (owned_batches ?t). i < next_work_id ?t"
      unfolding owned using ok ids(2) w by (auto simp: batches_ok_def dest: order_less_le_trans)
    moreover have "allowed_move (i < next_work_id s) (stage_of s i) (stage_of ?t i)" for i
    proof (cases "i \<in> set ids")
      case True
      then have "i \<notin> set (owned_batches s)" "\<not> i < next_work_id s"
        using disjoint ids(2) [of i] by auto
      with True w show ?thesis by (simp add: stage_of_def owned_batches_def)
    next
      case False
      with w show ?thesis by (simp add: stage_of_def)
    qed
    ultimately have "moves_allowed s ?t"
      using w by (simp add: moves_allowed_def batches_ok_def)
    with alloc Ok show ?thesis by (simp add: queue_client_batches_front_def)
  qed
qed

lemma drop_client_moves: "batches_ok s \<Longrightarrow> moves_allowed s (snd (drop_client_batch i s))"
proof (cases "position (\<lambda>c. c = i) (client_queued_batches s)")
  case None
  then show "batches_ok s \<Longrightarrow> ?thesis"
    by (simp add: drop_client_batch_def invalid_def moves_allowed_same)
next
  case (Some p)
  assume ok: "batches_ok s"
  have p: "p < length (client_queued_batches s)" using position_Some [OF Some] by blast
  have "distinct (client_queued_batches s)" using ok by (simp add: batches_ok_def owned_batches_def)
  from distinct_remove_at [OF this p] ok Some show ?thesis
    by (auto simp: drop_client_batch_def batch_defs)
qed

lemma restore_moves: "batches_ok s \<Longrightarrow> moves_allowed s (snd (restore_exporter_to_aggregator i n s))"
proof (cases "exporter_batches s" rule: rev_cases)
  case Nil
  then show "batches_ok s \<Longrightarrow> ?thesis"
    by (simp add: restore_exporter_to_aggregator_def invalid_def moves_allowed_same)
next
  case (snoc xs x)
  then show "batches_ok s \<Longrightarrow> ?thesis"
    by (auto simp: restore_exporter_to_aggregator_def invalid_def batch_defs)
qed

lemma finish_exporter_moves: "batches_ok s \<Longrightarrow> moves_allowed s (snd (finish_exporter_batch i s))"
  by (cases "exporter_batches s")
    (auto simp: finish_exporter_batch_def invalid_def batch_defs)

lemma exporter_to_client_moves:
  "batches_ok s \<Longrightarrow> moves_allowed s (snd (transfer_exporter_to_client i s))"
  by (cases "exporter_batches s")
    (auto simp: transfer_exporter_to_client_def invalid_def batch_defs)

lemma client_to_pending_moves:
  "batches_ok s \<Longrightarrow> moves_allowed s (snd (transfer_client_to_pending_frames i s))"
  by (cases "client_queued_batches s")
    (auto simp: transfer_client_to_pending_frames_def invalid_def batch_defs)

lemma finish_pending_moves: "batches_ok s \<Longrightarrow> moves_allowed s (snd (finish_pending_frame i s))"
  by (cases "pending_frames s") (auto simp: finish_pending_frame_def invalid_def batch_defs)

lemma discard_pending_moves: "batches_ok s \<Longrightarrow> moves_allowed s (snd (discard_pending_frames n s))"
  by (auto simp: discard_pending_frames_def invalid_def batch_defs)

lemmas other_moves = restore_moves finish_exporter_moves exporter_to_client_moves
  client_to_pending_moves finish_pending_moves discard_pending_moves

lemma command_moves:
  assumes ok: "batches_ok s"
  shows "moves_allowed s (snd (queue_command k s))" and "moves_allowed s (snd (drop_command k s))"
    and "moves_allowed s (snd (start_command k s))" and "moves_allowed s (snd (finish_command k s))"
  using ok
  by (auto simp: queue_command_def drop_command_def start_command_def finish_command_def Let_def
           invalid_def split: option.split intro!: moves_allowed_same)

lemma snd_answer [simp]: "snd (answer f p) = snd p"
  by (cases p; cases "fst p") auto

lemma po_step_moves: "batches_ok s \<Longrightarrow> moves_allowed s (snd (po_step s c))"
  by (cases c)
    (simp_all add: transfer_aggregator_moves queue_client_moves queue_front_moves drop_client_moves
       other_moves command_moves, simp add: moves_allowed_same set_aggregator_snapshots_def)

lemma snd_po_run_Cons: "snd (po_run s (c # cs)) = snd (po_run (snd (po_step s c)) cs)"
  by (simp add: split_beta Let_def)

lemma po_run_batches: "batches_ok s \<Longrightarrow> batches_ok (snd (po_run s cs))"
proof (induction cs arbitrary: s)
  case (Cons c cs)
  then have "batches_ok (snd (po_step s c))"
    using po_step_moves by (simp add: moves_allowed_def)
  then show ?case
    unfolding snd_po_run_Cons by (rule Cons.IH)
qed simp

lemma batches_ok_new: "batches_ok PipelineOwnership_new"
  by (simp add: PipelineOwnership_new_def batches_ok_def owned_batches_def)

lemma dead_stays_dead:
  assumes "batches_ok s" "i < next_work_id s" "stage_of s i = None"
  shows "stage_of (snd (po_run s cs)) i = None"
  using assms
proof (induction cs arbitrary: s)
  case (Cons c cs)
  let ?t = "snd (po_step s c)"
  have t: "moves_allowed s ?t" by (rule po_step_moves [OF Cons.prems(1)])
  then have "batches_ok ?t" "i < next_work_id ?t"
    using Cons.prems(2) by (auto simp: moves_allowed_def dest: order_less_le_trans)
  moreover have "allowed_move (i < next_work_id s) (stage_of s i) (stage_of ?t i)"
    using t by (simp add: moves_allowed_def)
  then have "stage_of ?t i = None"
    using Cons.prems(2,3) by simp
  ultimately show ?case
    unfolding snd_po_run_Cons by (rule Cons.IH)
qed simp


text \<open>The batch an operation takes from its owner.\<close>

fun taken_batch :: "PipelineOp \<Rightarrow> BatchWorkId option" where
  "taken_batch (ExporterToAggregator i n) = Some i"
| "taken_batch (FinishExporter i) = Some i"
| "taken_batch (DropClient i) = Some i"
| "taken_batch (ExporterToClient i) = Some i"
| "taken_batch (ClientToPending i) = Some i"
| "taken_batch (FinishPending i) = Some i"
| "taken_batch _ = None"

lemma position_mem: "position (\<lambda>c. c = i) xs = Some p \<Longrightarrow> i \<in> set xs"
  using position_Some [of "\<lambda>c. c = i" xs p] by auto

lemma taken_is_owned:
  "taken_batch c = Some i \<Longrightarrow> fst (po_step s c) = Accepted \<Longrightarrow> stage_of s i \<noteq> None"
  by (cases c)
    (auto simp: stage_of_None owned_batches_def restore_exporter_to_aggregator_def
       finish_exporter_batch_def drop_client_batch_def transfer_exporter_to_client_def
       transfer_client_to_pending_frames_def finish_pending_frame_def invalid_def front_Some
       split: if_splits option.splits dest: position_mem)

lemma issued_is_new: "fst (po_step s c) = Issued j \<Longrightarrow> j = next_work_id s"
proof -
  have [simp]: "fst (accepted p) \<noteq> Issued j" "fst (answer Transition q) \<noteq> Issued j" for p q
    by (cases p; cases "fst p"; auto) (cases q; cases "fst q"; auto)
  show "fst (po_step s c) = Issued j \<Longrightarrow> j = next_work_id s"
    by (cases rule: allocate_work_id_cases [of s]; cases c)
      (auto simp: transfer_aggregator_to_exporter_def queue_client_batch_def invalid_def
         split: if_splits)
qed

section \<open>Commands\<close>

definition commands_ok :: "PipelineOwnershipState \<Rightarrow> bool" where
  "commands_ok s \<longleftrightarrow> distinct (map fst (commands s))
     \<and> (\<forall>k c. map_of (commands s) k = Some c \<longrightarrow> queued c > 0 \<or> processing c)"

definition queued_of :: "CommandWorkKey \<Rightarrow> PipelineOwnershipState \<Rightarrow> nat" where
  "queued_of k s = (case map_of (commands s) k of Some c \<Rightarrow> queued c | None \<Rightarrow> 0)"

definition running :: "CommandWorkKey \<Rightarrow> PipelineOwnershipState \<Rightarrow> nat" where
  "running k s = (case map_of (commands s) k of Some c \<Rightarrow> (if processing c then 1 else 0) | None \<Rightarrow> 0)"

definition log_count :: "PipelineOp \<Rightarrow> Answer list \<Rightarrow> (PipelineOp \<times> Answer) list \<Rightarrow> nat" where
  "log_count c as log = length (filter (\<lambda>e. fst e = c \<and> snd e \<in> set as) log)"

lemmas command_defs = queue_command_def drop_command_def start_command_def finish_command_def

lemma allocate_work_id_commands: "commands (snd (allocate_work_id s)) = commands s"
  by (cases rule: allocate_work_id_cases [of s]) simp_all

lemma allocate_ids_commands: "allocate_ids n s = (r, s') \<Longrightarrow> commands s' = commands s"
  by (auto dest: allocate_ids_effect)

fun command_op :: "PipelineOp \<Rightarrow> bool" where
  "command_op (QueueCommand k) = True"
| "command_op (DropCommand k) = True"
| "command_op (StartCommand k) = True"
| "command_op (FinishCommand k) = True"
| "command_op _ = False"

lemma commands_kept: "\<not> command_op c \<Longrightarrow> commands (snd (po_step s c)) = commands s"
  using allocate_work_id_commands [of s]
  by (cases c)
    (auto simp: set_aggregator_snapshots_def transfer_aggregator_to_exporter_def
       restore_exporter_to_aggregator_def finish_exporter_batch_def queue_client_batch_def
       queue_client_batches_front_def drop_client_batch_def transfer_exporter_to_client_def
       transfer_client_to_pending_frames_def finish_pending_frame_def discard_pending_frames_def
       invalid_def split: prod.splits result.splits option.splits dest: allocate_ids_commands)

lemma commands_ok_update:
  "commands_ok s \<Longrightarrow> queued c > 0 \<or> processing c \<Longrightarrow> commands_ok (s\<lparr>commands := AList.update k c (commands s)\<rparr>)"
  by (auto simp: commands_ok_def distinct_update update_conv')

lemma commands_ok_delete: "commands_ok s \<Longrightarrow> commands_ok (s\<lparr>commands := AList.delete k (commands s)\<rparr>)"
  by (auto simp: commands_ok_def distinct_delete delete_conv')

lemma commands_ok_step: "commands_ok s \<Longrightarrow> commands_ok (snd (po_step s c))"
proof (cases "command_op c")
  case True
  assume ok: "commands_ok s"
  then have some: "map_of (commands s) k = Some c \<Longrightarrow> queued c > 0 \<or> processing c" for k c
    by (simp add: commands_ok_def)
  from True show ?thesis
    by (cases c)
      (auto simp: command_defs invalid_def Let_def ok intro!: commands_ok_update commands_ok_delete ok
         split: option.split dest: some)
next
  case False
  then show "commands_ok s \<Longrightarrow> ?thesis"
    by (simp add: commands_ok_def commands_kept)
qed

lemma commands_ok_run: "commands_ok s \<Longrightarrow> commands_ok (snd (po_run s cs))"
proof (induction cs arbitrary: s)
  case (Cons c cs)
  then show ?case
    unfolding snd_po_run_Cons by (simp add: commands_ok_step)
qed simp

lemma fst_po_run_Cons:
  "fst (po_run s (c # cs)) = (c, fst (po_step s c)) # fst (po_run (snd (po_step s c)) cs)"
  by (simp add: split_beta Let_def)

lemma log_count_Nil [simp]: "log_count c as [] = 0"
  by (simp add: log_count_def)

lemma log_count_Cons:
  "log_count c as (e # log) = (if fst e = c \<and> snd e \<in> set as then 1 else 0) + log_count c as log"
  by (simp add: log_count_def)

text \<open>What one call does to the tokens of one command.\<close>

lemma running_step:
  "running k s + (if c = StartCommand k \<and> fst (po_step s c) = Transition Started then 1 else 0)
     = running k (snd (po_step s c))
       + (if c = FinishCommand k \<and> fst (po_step s c) = Accepted then 1 else 0)"
proof (cases "command_op c")
  case True
  then show ?thesis
    by (cases c)
      (auto simp: running_def command_defs invalid_def Let_def update_conv' delete_conv'
         split: option.split)
next
  case False
  then have "running k (snd (po_step s c)) = running k s" by (simp add: running_def commands_kept)
  with False show ?thesis by auto
qed

lemma queued_step:
  "queued_of k s + (if c = QueueCommand k \<and> fst (po_step s c) = Accepted then 1 else 0)
     = queued_of k (snd (po_step s c))
       + (if c = DropCommand k \<and> fst (po_step s c) = Accepted then 1 else 0)
       + (if c = StartCommand k \<and> fst (po_step s c) \<in> {Transition Started, Transition Coalesced}
          then 1 else 0)"
proof (cases "command_op c")
  case True
  then show ?thesis
    by (cases c)
      (auto simp: queued_of_def command_defs invalid_def Let_def update_conv' delete_conv'
         split: option.split)
next
  case False
  then have "queued_of k (snd (po_step s c)) = queued_of k s" by (simp add: queued_of_def commands_kept)
  with False show ?thesis by auto
qed

lemma command_log:
  "running k s + log_count (StartCommand k) [Transition Started] (fst (po_run s cs))
     = running k (snd (po_run s cs)) + log_count (FinishCommand k) [Accepted] (fst (po_run s cs))"
  "queued_of k s + log_count (QueueCommand k) [Accepted] (fst (po_run s cs))
     = queued_of k (snd (po_run s cs)) + log_count (DropCommand k) [Accepted] (fst (po_run s cs))
       + log_count (StartCommand k) [Transition Started, Transition Coalesced] (fst (po_run s cs))"
proof -
  show "running k s + log_count (StartCommand k) [Transition Started] (fst (po_run s cs))
     = running k (snd (po_run s cs)) + log_count (FinishCommand k) [Accepted] (fst (po_run s cs))"
  proof (induction cs arbitrary: s)
    case (Cons c cs)
    show ?case
      unfolding snd_po_run_Cons fst_po_run_Cons log_count_Cons
      using Cons.IH [of "snd (po_step s c)"] running_step [of k s c] by simp
  qed simp
  show "queued_of k s + log_count (QueueCommand k) [Accepted] (fst (po_run s cs))
     = queued_of k (snd (po_run s cs)) + log_count (DropCommand k) [Accepted] (fst (po_run s cs))
       + log_count (StartCommand k) [Transition Started, Transition Coalesced] (fst (po_run s cs))"
  proof (induction cs arbitrary: s)
    case (Cons c cs)
    show ?case
      unfolding snd_po_run_Cons fst_po_run_Cons log_count_Cons
      using Cons.IH [of "snd (po_step s c)"] queued_step [of k s c] by simp
  qed simp
qed

section \<open>Canonical payloads\<close>

lemma distinct_remdups_adj_sorted: "sorted xs \<Longrightarrow> distinct (remdups_adj xs)"
  by (induction xs rule: remdups_adj.induct) (auto simp: order_le_less dest: order_less_le_trans)

lemma remdups_adj_sort: "remdups_adj (sort xs) = sorted_list_of_set (set xs)" for xs :: "'a::linorder list"
  by (rule strict_sorted_equal)
    (simp_all add: strict_sorted_iff sorted_remdups_adj distinct_remdups_adj_sorted)

lemma be_bytes_inject: "be_bytes 8 (unat a) = be_bytes 8 (unat b) \<longleftrightarrow> a = b" for a b :: u64
proof
  assume "be_bytes 8 (unat a) = be_bytes 8 (unat b)"
  then have "be_value (be_bytes 8 (unat a)) = be_value (be_bytes 8 (unat b))" by simp
  then have "unat a mod 2 ^ 64 = unat b mod 2 ^ 64" by (simp only: be_value_be_bytes) simp
  moreover have "unat a < 2 ^ 64" "unat b < 2 ^ 64"
    using unsigned_less [of a] unsigned_less [of b] by auto
  ultimately show "a = b" by (simp add: word_unat_eq_iff)
qed simp

lemma concat_be_bytes_inject:
  "concat (map (\<lambda>i. be_bytes 8 (unat i)) xs) = concat (map (\<lambda>i. be_bytes 8 (unat i)) ys) \<longleftrightarrow> xs = ys"
  for xs ys :: "u64 list"
proof (induction xs arbitrary: ys)
  case Nil
  then show ?case by (cases ys) (auto dest: arg_cong [of _ _ length])
next
  case (Cons x xs)
  then show ?case by (cases ys) (auto simp: be_bytes_inject dest: arg_cong [of _ _ length])
qed


lemma remdups_adj_sort_eq:
  "remdups_adj (sort xs) = remdups_adj (sort ys) \<longleftrightarrow> set xs = set ys" for xs ys :: "'a::linorder list"
  by (metis List.finite_set remdups_adj_sort sorted_list_of_set.set_sorted_key_list_of_set)

section \<open>Properties\<close>

lemma commands_ok_new: "commands_ok PipelineOwnership_new"
  by (simp add: PipelineOwnership_new_def commands_ok_def)

lemma commands_zero_iff:
  assumes "commands_ok s"
  shows "command_work s = 0 \<longleftrightarrow> (\<forall>k. queued_of k s = 0 \<and> running k s = 0)"
proof
  assume "command_work s = 0"
  then have none: "\<forall>e\<in>set (commands s). queued (snd e) = 0 \<and> \<not> processing (snd e)"
    by (auto simp: command_work_def)
  then show "\<forall>k. queued_of k s = 0 \<and> running k s = 0"
    by (fastforce simp: queued_of_def running_def dest: map_of_SomeD split: option.split)
next
  assume none: "\<forall>k. queued_of k s = 0 \<and> running k s = 0"
  have "commands s = []"
  proof (rule ccontr)
    assume "commands s \<noteq> []"
    then obtain k c r where "commands s = (k, c) # r" by (cases "commands s") auto
    then have entry: "map_of (commands s) k = Some c" by simp
    with assms have "queued c > 0 \<or> processing c" unfolding commands_ok_def by blast
    with entry none [THEN spec, of k] show False
      by (simp add: queued_of_def running_def split: if_splits)
  qed
  then show "command_work s = 0" by (simp add: command_work_def)
qed


text \<open>C33. A batch that has left the pipeline is gone for good: once an issued identifier is owned by
  no stage, no later call that takes it is accepted, whatever the history in between, so
  nothing is finished, dropped or handed over twice.\<close>
theorem finished_batch_never_returns:
  assumes "s = snd (po_run PipelineOwnership_new cs)" and "i < next_work_id s"
    and "stage_of s i = None" and "taken_batch c = Some i"
  shows "fst (po_step (snd (po_run s ds)) c) \<noteq> Accepted"
  using assms taken_is_owned dead_stays_dead po_run_batches [OF batches_ok_new] by metis

theorem finished_batch_never_returns_witness:
  "fst (po_step (snd (po_run (snd (po_run PipelineOwnership_new [QueueClient, ClientToPending 0, FinishPending 0]))
      [QueueClient])) (FinishPending 0)) \<noteq> Accepted"
  by (rule finished_batch_never_returns
      [where i = 0 and cs = "[QueueClient, ClientToPending 0, FinishPending 0]"]; code_simp)

text \<open>A command has one durable owner: in every history the number of \<open>Started\<close> answers for a key
  is the number of accepted finishes, plus one while it is processing; and every accepted
  enqueue is matched by one accepted drop, one start (\<open>Started\<close> or \<open>Coalesced\<close>) or a token still
  queued.\<close>
theorem command_has_one_owner:
  "let (log, s) = po_run PipelineOwnership_new cs
   in log_count (StartCommand k) [Transition Started] log
        = log_count (FinishCommand k) [Accepted] log + running k s
      \<and> running k s \<le> 1
      \<and> log_count (QueueCommand k) [Accepted] log
        = log_count (DropCommand k) [Accepted] log
          + log_count (StartCommand k) [Transition Started, Transition Coalesced] log + queued_of k s"
proof -
  have "running k PipelineOwnership_new = 0" "queued_of k PipelineOwnership_new = 0"
    by (simp_all add: running_def queued_of_def PipelineOwnership_new_def)
  with command_log [of k PipelineOwnership_new cs] show ?thesis
    by (auto simp: split_beta Let_def running_def split: option.split)
qed

text \<open>Shutdown sees nothing unflushed exactly when nothing is owned: in every history the total is
  zero if and only if the aggregator holds no snapshot, no batch is at any stage, and no
  command is queued or processing.\<close>
theorem total_unflushed_zero:
  "let s = snd (po_run PipelineOwnership_new cs)
   in total_unflushed s = 0 \<longleftrightarrow> aggregator_snapshots s = 0 \<and> (\<forall>i. stage_of s i = None)
        \<and> (\<forall>k. queued_of k s = 0 \<and> running k s = 0)"
proof -
  have none: "(\<forall>i. stage_of s i = None) \<longleftrightarrow> owned_batches s = []" for s
    by (auto simp: stage_of_None)
  have "commands_ok (snd (po_run PipelineOwnership_new cs))"
    by (rule commands_ok_run [OF commands_ok_new])
  from commands_zero_iff [OF this] show ?thesis
    unfolding Let_def none by (auto simp: total_unflushed_def owned_batches_def)
qed

lemma refused_cases: "fst (accepted p) = Refused e \<Longrightarrow> \<exists>s. p = (Err e, s)"
  by (cases p; cases "fst p") auto

lemma refused_issue: "fst (answer Issued p) = Refused e \<Longrightarrow> \<exists>s. p = (Err e, s)"
  by (cases p; cases "fst p") auto

lemma refused_transition: "fst (answer Transition p) = Refused e \<Longrightarrow> \<exists>s. p = (Err e, s)"
  by (cases p; cases "fst p") auto

lemma refused_same:
  "restore_exporter_to_aggregator i n s = (Err e, s') \<Longrightarrow> snd (restore_exporter_to_aggregator i n s) = s"
  "finish_exporter_batch i s = (Err e, s') \<Longrightarrow> snd (finish_exporter_batch i s) = s"
  "drop_client_batch i s = (Err e, s') \<Longrightarrow> snd (drop_client_batch i s) = s"
  "transfer_exporter_to_client i s = (Err e, s') \<Longrightarrow> snd (transfer_exporter_to_client i s) = s"
  "transfer_client_to_pending_frames i s = (Err e, s') \<Longrightarrow> snd (transfer_client_to_pending_frames i s) = s"
  "finish_pending_frame i s = (Err e, s') \<Longrightarrow> snd (finish_pending_frame i s) = s"
  "discard_pending_frames n s = (Err e, s') \<Longrightarrow> snd (discard_pending_frames n s) = s"
  by (simp_all add: restore_exporter_to_aggregator_def finish_exporter_batch_def drop_client_batch_def
       transfer_exporter_to_client_def transfer_client_to_pending_frames_def finish_pending_frame_def
       discard_pending_frames_def invalid_def split: if_splits option.splits)

lemma refused_same_issue:
  "transfer_aggregator_to_exporter n s = (Err e, s') \<Longrightarrow> snd (transfer_aggregator_to_exporter n s) = s"
  "queue_client_batch s = (Err e, s') \<Longrightarrow> snd (queue_client_batch s) = s"
  by (rule allocate_work_id_cases [of s];
      simp add: transfer_aggregator_to_exporter_def invalid_def split: if_splits)
    (rule allocate_work_id_cases [of s]; simp add: queue_client_batch_def)

lemma refused_same_command:
  "queue_command k s = (Err e, s') \<Longrightarrow> snd (queue_command k s) = s" "drop_command k s = (Err e, s') \<Longrightarrow> snd (drop_command k s) = s"
  "start_command k s = (Err e, s') \<Longrightarrow> snd (start_command k s) = s" "finish_command k s = (Err e, s') \<Longrightarrow> snd (finish_command k s) = s"
  by (simp_all add: command_defs Let_def invalid_def split: if_splits option.splits)

text \<open>A refused call changes no ownership: whatever the operation and its reason, the ledger is as
  before except for identifiers the call may have drawn.\<close>
theorem refused_call_keeps_ledger:
  "fst (po_step s c) = Refused e
     \<Longrightarrow> \<exists>w\<ge>next_work_id s. snd (po_step s c) = s\<lparr>next_work_id := w\<rparr>"
proof (cases "\<exists>n. c = QueueClientFront n")
  case True
  then obtain n where c: "c = QueueClientFront n" ..
  obtain r s' where alloc: "allocate_ids n s = (r, s')" by fastforce
  assume "fst (po_step s c) = Refused e"
  with allocate_ids_effect [OF alloc] alloc show ?thesis
    by (cases r) (auto simp: c queue_client_batches_front_def)
next
  case False
  assume "fst (po_step s c) = Refused e"
  with False have "snd (po_step s c) = s"
    by (cases c) (auto dest!: refused_cases refused_issue refused_transition
        dest: refused_same refused_same_issue refused_same_command)
  then show ?thesis by (intro exI [of _ "next_work_id s"]) simp
qed

theorem refused_call_keeps_ledger_witness:
  "\<exists>w\<ge>0. snd (po_step PipelineOwnership_new (FinishExporter 3)) = PipelineOwnership_new\<lparr>next_work_id := w\<rparr>"
  using refused_call_keeps_ledger [of PipelineOwnership_new "FinishExporter 3"
      "InvalidTransition (lit ''exporter finish does not own the expected batch'')"]
  by (simp add: finish_exporter_batch_def invalid_def PipelineOwnership_new_def)

text \<open>The canonical payload identifies a command: two commands have the same canonical bytes
  exactly when both ask for a full snapshot, or both reset the same set of data sources.\<close>
theorem canonical_payload_identifies:
  "canonical_command_payload (Some p) = canonical_command_payload (Some q)
     \<longleftrightarrow> (case (p, q) of
            (ResetStats xs, ResetStats ys) \<Rightarrow> set xs = set ys
          | (RequestFullSnapshot, RequestFullSnapshot) \<Rightarrow> True
          | _ \<Rightarrow> False)"
  by (cases p; cases q)
    (simp_all add: canonical_command_payload_def concat_be_bytes_inject remdups_adj_sort_eq)

end
