(* ===== verification/Aggregator.thy ===== *)
theory Aggregator
  imports Snapshot_Encoder Ordered_Map Pipeline_Ownership
begin

text \<open>
  The aggregation task of the metrics runtime (\<open>aggregator.rs\<close>): it keeps the latest snapshot of every
  data source during the coalescing window and sends them in bounded batches, handing each
  batch over in the ownership ledger before it waits for the output channel. The event \<open>select!\<close>
  picks and the fate of a send come from the environment: while a send waits, the other tasks
  may use the ledger. The loop over the batches is a partial function, since it would not end
  with a batch size of zero; that it ends is part of the properties.
\<close>

section \<open>Definitions\<close>

record PendingSnapshot =
  datasource_id :: u64
  snapshot :: DruidTelemetrySnapshot

datatype MetricsError = ChannelSend rust_str

record AggregatedBatch =
  entries :: "SnapshotEntryMsg list"
  is_full_snapshot :: bool

text \<open>
  The variables of \<open>run_aggregator\<close>, the counters of \<open>RuntimeSelfMetrics\<close> it uses, the batches that
  entered the output channel, the answers to flush commands and the snapshots taken from the
  input, all oldest first.
\<close>

record AggState =
  pending :: "(u64, PendingSnapshot) btree"
  flush_deadline :: "instant option"
  command_channel_open :: bool
  coalesced_total :: u64
  ledger :: PipelineOwnershipState
  sent :: "AggregatedBatch list"
  replies :: "(unit, MetricsError) result list"
  received :: "PendingSnapshot list"

definition agg_start :: "PipelineOwnershipState \<Rightarrow> AggState" where
  "agg_start l = \<lparr>pending = [], flush_deadline = None, command_channel_open = True,
     coalesced_total = 0, ledger = l, sent = [], replies = [], received = []\<rparr>"

text \<open>
  The environment of the \<open>n\<close>th send: what the other tasks do to the ledger while it waits, and
  whether the receiver is still there.
\<close>

type_synonym send_env = "nat \<Rightarrow> PipelineOwnershipState \<Rightarrow> PipelineOp list \<times> bool"

definition output_closed_error :: "nat \<Rightarrow> MetricsError" where
  "output_closed_error unflushed =
     ChannelSend (lit ''aggregated batch output closed with '' @ decimal unflushed @ lit '' unflushed entries'')"

fun message :: "PipelineOwnershipError \<Rightarrow> rust_str" where
  "message (InvalidTransition m) = m"

definition insert_snapshot :: "PendingSnapshot \<Rightarrow> AggState \<Rightarrow> AggState" where
  "insert_snapshot s st =
     (let st' = st\<lparr>pending := bt_insert (datasource_id s) s (pending st),
                   coalesced_total := (if map_of (pending st) (datasource_id s) \<noteq> None
                                       then coalesced_total st + 1 else coalesced_total st),
                   received := received st @ [s]\<rparr>
      in st'\<lparr>ledger := set_aggregator_snapshots (length (pending st')) (ledger st')\<rparr>)"

partial_function (option) send_batches ::
  "nat \<Rightarrow> send_env \<Rightarrow> SnapshotEntryMsg list \<Rightarrow> AggState \<Rightarrow> ((unit, MetricsError) result \<times> AggState) option"
where
  "send_batches bsize env es st =
     (if es = [] then Some (Ok (), st)
      else let n = min bsize (length es) in
        (case transfer_aggregator_to_exporter n (ledger st) of
           (Err e, l) \<Rightarrow> Some (Err (ChannelSend (message e)), st\<lparr>ledger := l\<rparr>)
         | (Ok work_id, l) \<Rightarrow>
             let (others, accepted) = env (length (sent st)) l;
                 l' = snd (po_run l others)
             in if accepted
                then send_batches bsize env (drop n es)
                       (st\<lparr>ledger := l',
                          sent := sent st @ [\<lparr>entries = take n es, is_full_snapshot = False\<rparr>]\<rparr>)
                else (case restore_exporter_to_aggregator work_id n l' of
                        (Err e, l'') \<Rightarrow> Some (Err (ChannelSend (message e)), st\<lparr>ledger := l''\<rparr>)
                      | (Ok _, l'') \<Rightarrow>
                          Some (Err (output_closed_error (aggregator_snapshots l'')), st\<lparr>ledger := l''\<rparr>))))"

definition flush_pending ::
  "digest \<Rightarrow> DruidMetricsConfig \<Rightarrow> send_env \<Rightarrow> AggState \<Rightarrow> ((unit, MetricsError) result \<times> AggState) option"
where
  "flush_pending sha256 cfg env st =
     send_batches (batch_size cfg) env
       (map (\<lambda>p. encode_snapshot sha256 (max_sql_statements cfg) (sql_text_policy cfg) (snapshot p))
          (map snd (pending st)))
       (st\<lparr>pending := []\<rparr>)"

text \<open>
  What \<open>select!\<close> delivers. A cancellation and a flush command come with the snapshots that \<open>try_recv\<close>
  then takes from the input.
\<close>

datatype AggEvent =
    Cancelled "PendingSnapshot list"
  | FlushCommand "PendingSnapshot list"
  | CommandsClosed
  | SnapshotReceived PendingSnapshot
  | InputClosed
  | WindowElapsed

datatype AggControl = Continue AggState | Return "(unit, MetricsError) result" AggState

text \<open>The branches \<open>select!\<close> can take in a state.\<close>

fun can_select :: "AggState \<Rightarrow> AggEvent \<Rightarrow> bool" where
  "can_select st WindowElapsed \<longleftrightarrow> flush_deadline st \<noteq> None"
| "can_select st (FlushCommand ss) \<longleftrightarrow> command_channel_open st"
| "can_select st CommandsClosed \<longleftrightarrow> command_channel_open st"
| "can_select st _ \<longleftrightarrow> True"

text \<open>A flush followed by \<open>?\<close> and the reset of the deadline.\<close>

definition flush_and_continue ::
  "digest \<Rightarrow> DruidMetricsConfig \<Rightarrow> send_env \<Rightarrow> AggState \<Rightarrow> AggControl option" where
  "flush_and_continue sha256 cfg env st =
     (case flush_pending sha256 cfg env st of
        None \<Rightarrow> None
      | Some (Err e, st') \<Rightarrow> Some (Return (Err e) st')
      | Some (Ok _, st') \<Rightarrow> Some (Continue (st'\<lparr>flush_deadline := None\<rparr>)))"

definition flush_and_return ::
  "digest \<Rightarrow> DruidMetricsConfig \<Rightarrow> send_env \<Rightarrow> AggState \<Rightarrow> AggControl option" where
  "flush_and_return sha256 cfg env st =
     (case flush_pending sha256 cfg env st of None \<Rightarrow> None | Some (r, st') \<Rightarrow> Some (Return r st'))"

fun handle_event ::
  "digest \<Rightarrow> DruidMetricsConfig \<Rightarrow> send_env \<Rightarrow> instant \<Rightarrow> AggEvent \<Rightarrow> AggState \<Rightarrow> AggControl option" where
  "handle_event sha256 cfg env now (Cancelled ss) st =
     flush_and_return sha256 cfg env (fold insert_snapshot ss st)"
| "handle_event sha256 cfg env now (FlushCommand ss) st =
     (case flush_pending sha256 cfg env (fold insert_snapshot ss st) of
        None \<Rightarrow> None
      | Some (Err e, st') \<Rightarrow>
          Some (Return (Err e) (st'\<lparr>replies := replies st' @
            [Err (output_closed_error (aggregator_snapshots (ledger st')))]\<rparr>))
      | Some (Ok _, st') \<Rightarrow>
          Some (Continue (st'\<lparr>replies := replies st' @ [Ok ()], flush_deadline := None\<rparr>)))"
| "handle_event sha256 cfg env now WindowElapsed st = flush_and_continue sha256 cfg env st"
| "handle_event sha256 cfg env now CommandsClosed st =
     Some (Continue (st\<lparr>command_channel_open := False\<rparr>))"
| "handle_event sha256 cfg env now (SnapshotReceived s) st =
     (let was_empty = (pending st = []);
          st1 = insert_snapshot s st;
          st2 = (if was_empty then st1\<lparr>flush_deadline := Some (now + coalesce_window cfg)\<rparr> else st1)
      in if length (pending st2) \<ge> batch_size cfg then flush_and_continue sha256 cfg env st2
         else Some (Continue st2))"
| "handle_event sha256 cfg env now InputClosed st = flush_and_return sha256 cfg env st"

text \<open>
  The loop at time \<open>now\<close>, up to the next event it takes: a deadline that has passed is served first
  (and the loop continues without a deadline), then \<open>select!\<close> delivers; an event it cannot take
  leaves the state as it is.
\<close>

definition select_event ::
  "digest \<Rightarrow> DruidMetricsConfig \<Rightarrow> send_env \<Rightarrow> instant \<Rightarrow> AggEvent \<Rightarrow> AggState \<Rightarrow> AggControl option" where
  "select_event sha256 cfg env now ev st =
     (if can_select st ev then handle_event sha256 cfg env now ev st else Some (Continue st))"

definition agg_turn ::
  "digest \<Rightarrow> DruidMetricsConfig \<Rightarrow> send_env \<Rightarrow> instant \<Rightarrow> AggEvent \<Rightarrow> AggState \<Rightarrow> AggControl option" where
  "agg_turn sha256 cfg env now ev st =
     (if (case flush_deadline st of Some deadline \<Rightarrow> now \<ge> deadline | None \<Rightarrow> False)
      then case flush_and_continue sha256 cfg env st of
             Some (Continue st') \<Rightarrow> select_event sha256 cfg env now ev st'
           | r \<Rightarrow> r
      else select_event sha256 cfg env now ev st)"

fun run_aggregator ::
  "digest \<Rightarrow> DruidMetricsConfig \<Rightarrow> send_env \<Rightarrow> (instant \<times> AggEvent) list \<Rightarrow> AggState \<Rightarrow> AggControl option" where
  "run_aggregator sha256 cfg env [] st = Some (Continue st)"
| "run_aggregator sha256 cfg env ((now, ev) # evs) st =
     (case agg_turn sha256 cfg env now ev st of
        Some (Continue st') \<Rightarrow> run_aggregator sha256 cfg env evs st'
      | r \<Rightarrow> r)"

section \<open>Batches\<close>

function chunks :: "nat \<Rightarrow> 'a list \<Rightarrow> 'a list list" where
  "chunks n xs = (if n = 0 \<or> xs = [] then [] else take n xs # chunks n (drop n xs))"
  by pat_completeness auto
termination
  by (relation "measure (\<lambda>(n, xs). length xs)") auto

declare chunks.simps [simp del]

lemma chunks_Nil [simp]: "chunks n [] = []"
  by (simp add: chunks.simps)

lemma chunks_step: "n > 0 \<Longrightarrow> xs \<noteq> [] \<Longrightarrow> chunks n xs = take n xs # chunks n (drop n xs)"
  by (simp add: chunks.simps [of n xs])

lemma concat_chunks: "n > 0 \<Longrightarrow> concat (chunks n xs) = xs"
  by (induction n xs rule: chunks.induct) (subst chunks.simps, simp)

lemma chunks_bounded: "c \<in> set (chunks n xs) \<Longrightarrow> c \<noteq> [] \<and> length c \<le> n"
  by (induction n xs rule: chunks.induct) (subst (asm) (2) chunks.simps, auto split: if_splits)

definition batch_of :: "SnapshotEntryMsg list \<Rightarrow> AggregatedBatch" where
  "batch_of es = \<lparr>entries = es, is_full_snapshot = False\<rparr>"

section \<open>What the other tasks leave alone\<close>

fun other_op :: "PipelineOp \<Rightarrow> bool" where
  "other_op (SetAggregator n) = False"
| "other_op (AggregatorToExporter n) = False"
| "other_op (ExporterToAggregator i n) = False"
| "other_op _ = True"

text \<open>
  Only the aggregator moves its own count, and no other task takes the batch whose send is still
  waiting, the last one the exporter owns.
\<close>

definition others_behave :: "send_env \<Rightarrow> bool" where
  "others_behave env \<longleftrightarrow>
     (\<forall>n l. \<forall>c\<in>set (fst (env n l)). other_op c \<and> taken_batch c \<noteq> Some (last (exporter_batches l)))"

lemma allocate_ids_keeps:
  "allocate_ids n s = (r, s') \<Longrightarrow> aggregator_snapshots s' = aggregator_snapshots s \<and> exporter_batches s' = exporter_batches s"
  by (auto dest: allocate_ids_effect)

lemmas other_defs = finish_exporter_batch_def queue_client_batch_def queue_client_batches_front_def
  drop_client_batch_def transfer_exporter_to_client_def transfer_client_to_pending_frames_def
  finish_pending_frame_def discard_pending_frames_def command_defs Let_def invalid_def

lemma other_op_count:
  "other_op c \<Longrightarrow> aggregator_snapshots (snd (po_step s c)) = aggregator_snapshots s"
  by (rule allocate_work_id_cases [of s]; cases c)
    (auto simp: other_defs split: option.split prod.split result.split dest: allocate_ids_keeps)

lemma other_op_last:
  assumes "other_op c" "taken_batch c \<noteq> Some i" "exporter_batches s = xs @ [i]"
  shows "\<exists>ys. exporter_batches (snd (po_step s c)) = ys @ [i]"
proof -
  have tl: "front (xs @ [i]) = Some j \<Longrightarrow> j \<noteq> i \<Longrightarrow> \<exists>ys. tl (xs @ [i]) = ys @ [i]" for j
    by (cases xs) auto
  show ?thesis
    using assms
    by (rule_tac allocate_work_id_cases [of s]; cases c)
      (auto simp: other_defs intro!: tl split: option.split prod.split result.split dest: allocate_ids_keeps)
qed

lemma other_run_count:
  "\<forall>c\<in>set cs. other_op c \<Longrightarrow> aggregator_snapshots (snd (po_run s cs)) = aggregator_snapshots s"
  by (induction cs arbitrary: s) (simp_all add: other_op_count snd_po_run_Cons del: po_run.simps(2))

lemma other_run_last:
  "\<forall>c\<in>set cs. other_op c \<and> taken_batch c \<noteq> Some i \<Longrightarrow> exporter_batches s = xs @ [i]
     \<Longrightarrow> \<exists>ys. exporter_batches (snd (po_run s cs)) = ys @ [i]"
proof (induction cs arbitrary: s xs)
  case (Cons c cs)
  then obtain ys where "exporter_batches (snd (po_step s c)) = ys @ [i]"
    using other_op_last by (metis list.set_intros(1))
  with Cons show ?case
    by (simp add: snd_po_run_Cons del: po_run.simps(2))
qed simp

section \<open>A flush\<close>

definition id_exhausted :: MetricsError where
  "id_exhausted = ChannelSend (lit ''batch work ID space exhausted'')"

lemma transfer_outcome:
  assumes "n \<le> aggregator_snapshots l"
  obtains "transfer_aggregator_to_exporter n l = (Err (InvalidTransition (lit ''batch work ID space exhausted'')), l)"
  | "transfer_aggregator_to_exporter n l =
       (Ok (next_work_id l), l\<lparr>next_work_id := next_work_id l + 1,
          aggregator_snapshots := aggregator_snapshots l - n,
          exporter_batches := exporter_batches l @ [next_work_id l]\<rparr>)"
  using assms
  by (cases "next_work_id l = - 1")
    (auto simp: transfer_aggregator_to_exporter_def allocate_work_id_def checked_add_one_def invalid_def)

lemma restore_outcome:
  assumes "exporter_batches l = xs @ [i]" "aggregator_snapshots l + n < usize_limit"
  shows "restore_exporter_to_aggregator i n l =
    (Ok (), l\<lparr>exporter_batches := xs, aggregator_snapshots := aggregator_snapshots l + n\<rparr>)"
  using assms by (simp add: restore_exporter_to_aggregator_def)


text \<open>What a flush of \<open>es\<close> leaves behind when its first \<open>k\<close> batches were sent.\<close>

definition flush_result ::
  "nat \<Rightarrow> send_env \<Rightarrow> SnapshotEntryMsg list \<Rightarrow> AggState \<Rightarrow> nat \<Rightarrow> (unit, MetricsError) result \<Rightarrow> AggState \<Rightarrow> bool" where
  "flush_result bsize env es st k r st' \<longleftrightarrow>
     k \<le> length (chunks bsize es)
     \<and> st' = st\<lparr>ledger := ledger st', sent := sent st @ map batch_of (take k (chunks bsize es))\<rparr>
     \<and> aggregator_snapshots (ledger st') = length (concat (drop k (chunks bsize es)))
     \<and> (if k = length (chunks bsize es) then r = Ok ()
        else r = Err id_exhausted
           \<or> (\<exists>l. \<not> snd (env (length (sent st) + k) l))
             \<and> r = Err (output_closed_error (length (concat (drop k (chunks bsize es))))))"

lemma flush_result_Cons:
  assumes "bsize > 0" "es \<noteq> []"
    and "flush_result bsize env (drop bsize es) (st\<lparr>ledger := l, sent := sent st @ [batch_of (take bsize es)]\<rparr>) k r st'"
  shows "flush_result bsize env es st (Suc k) r st'"
  using assms by (cases st') (auto simp: flush_result_def chunks_step split: if_splits)

lemma send_batches_outcome:
  assumes "bsize > 0" "others_behave env"
    and "aggregator_snapshots (ledger st) = length es" "length es < usize_limit"
  shows "\<exists>k r st'. send_batches bsize env es st = Some (r, st') \<and> flush_result bsize env es st k r st'"
  using assms(3,4)
proof (induction "length es" arbitrary: es st rule: less_induct)
  case less
  show ?case
  proof (cases "es = []")
    case True
    with less.prems show ?thesis
      by (subst send_batches.simps) (cases st, simp add: flush_result_def)
  next
    case False
    let ?n = "min bsize (length es)"
    have take: "take ?n es = take bsize es" "drop ?n es = drop bsize es"
      by (simp_all add: min_def)
    have n: "?n \<le> aggregator_snapshots (ledger st)" using less.prems by simp
    show ?thesis
    proof (rule transfer_outcome [OF n])
      assume "transfer_aggregator_to_exporter ?n (ledger st)
        = (Err (InvalidTransition (lit ''batch work ID space exhausted'')), ledger st)"
      then have "send_batches bsize env es st = Some (Err id_exhausted, st)"
        using False by (subst send_batches.simps) (simp add: id_exhausted_def)
      moreover have "flush_result bsize env es st 0 (Err id_exhausted) st"
        using False assms(1) less.prems by (simp add: flush_result_def concat_chunks chunks_step)
      ultimately show ?thesis by blast
    next
      let ?l = "(ledger st)\<lparr>next_work_id := next_work_id (ledger st) + 1,
          aggregator_snapshots := aggregator_snapshots (ledger st) - ?n,
          exporter_batches := exporter_batches (ledger st) @ [next_work_id (ledger st)]\<rparr>"
      assume transfer: "transfer_aggregator_to_exporter ?n (ledger st) = (Ok (next_work_id (ledger st)), ?l)"
      obtain others acc where env: "env (length (sent st)) ?l = (others, acc)" by fastforce
      let ?l' = "snd (po_run ?l others)"
      have ops: "\<forall>c\<in>set others. other_op c \<and> taken_batch c \<noteq> Some (next_work_id (ledger st))"
        using assms(2) [unfolded others_behave_def, rule_format, of _ "length (sent st)" ?l] env by simp
      then have count: "aggregator_snapshots ?l' = length es - ?n"
        using other_run_count [of others ?l] less.prems by simp
      show ?thesis
      proof (cases acc)
        case True
        let ?st = "st\<lparr>ledger := ?l', sent := sent st @ [batch_of (take bsize es)]\<rparr>"
        have step: "send_batches bsize env es st = send_batches bsize env (drop bsize es) ?st"
          using False transfer env True
          by (subst send_batches.simps) (simp add: take batch_of_def Let_def)
        have "length (drop bsize es) < length es" using False assms(1) by simp
        moreover have "aggregator_snapshots (ledger ?st) = length (drop bsize es)"
          using count by (simp add: min_def)
        ultimately have "\<exists>k r st'. send_batches bsize env (drop bsize es) ?st = Some (r, st')
            \<and> flush_result bsize env (drop bsize es) ?st k r st'"
          using less.prems by (intro less.hyps) auto
        then show ?thesis
          unfolding step using flush_result_Cons [OF assms(1) False] by blast
      next
        case closed: False
        obtain ys where ys: "exporter_batches ?l' = ys @ [next_work_id (ledger st)]"
          using other_run_last [OF ops, of ?l] by auto
        have "aggregator_snapshots ?l' + ?n < usize_limit" using count less.prems by simp
        note restore = restore_outcome [OF ys this]
        let ?st = "st\<lparr>ledger := ?l'\<lparr>exporter_batches := ys, aggregator_snapshots := length es\<rparr>\<rparr>"
        have "send_batches bsize env es st = Some (Err (output_closed_error (length es)), ?st)"
          using False transfer env closed restore count
          by (subst send_batches.simps) (simp add: Let_def)
        moreover have "flush_result bsize env es st 0 (Err (output_closed_error (length es))) ?st"
          using False assms(1) env closed
          by (auto simp: flush_result_def concat_chunks chunks_step intro!: exI [of _ ?l])
        ultimately show ?thesis by blast
      qed
    qed
  qed
qed


section \<open>A turn of the loop\<close>

fun drained :: "AggEvent \<Rightarrow> PendingSnapshot list" where
  "drained (Cancelled ss) = ss"
| "drained (FlushCommand ss) = ss"
| "drained (SnapshotReceived s) = [s]"
| "drained _ = []"

definition entry_of :: "digest \<Rightarrow> DruidMetricsConfig \<Rightarrow> PendingSnapshot \<Rightarrow> SnapshotEntryMsg" where
  "entry_of sha256 cfg p =
     encode_snapshot sha256 (max_sql_statements cfg) (sql_text_policy cfg) (snapshot p)"

definition own_id :: "PendingSnapshot \<Rightarrow> bool" where
  "own_id s \<longleftrightarrow> ds_id (ds_identity (snapshot s)) = datasource_id s"

definition pending_entries :: "digest \<Rightarrow> DruidMetricsConfig \<Rightarrow> AggState \<Rightarrow> SnapshotEntryMsg list" where
  "pending_entries sha256 cfg st = map (\<lambda>e. entry_of sha256 cfg (snd e)) (pending st)"

definition sent_entries :: "AggState \<Rightarrow> SnapshotEntryMsg list" where
  "sent_entries st = concat (map entries (sent st))"

definition last_entry :: "u64 \<Rightarrow> SnapshotEntryMsg list \<Rightarrow> SnapshotEntryMsg option" where
  "last_entry k es = find (\<lambda>e. e_datasource_id e = k) (rev es)"

definition last_received :: "u64 \<Rightarrow> PendingSnapshot list \<Rightarrow> PendingSnapshot option" where
  "last_received k ss = find (\<lambda>s. datasource_id s = k) (rev ss)"

text \<open>What holds of the pending map and its count at every moment.\<close>

definition pending_ok :: "AggState \<Rightarrow> bool" where
  "pending_ok st \<longleftrightarrow> bt_invar (pending st)
     \<and> (\<forall>e\<in>set (pending st). datasource_id (snd e) = fst e \<and> own_id (snd e))
     \<and> aggregator_snapshots (ledger st) = length (pending st)"

text \<open>What holds between two turns in addition: room for a snapshot, and an armed deadline exactly
  while something is pending.\<close>

definition agg_inv :: "DruidMetricsConfig \<Rightarrow> AggState \<Rightarrow> bool" where
  "agg_inv cfg st \<longleftrightarrow> pending_ok st \<and> length (pending st) < batch_size cfg
     \<and> (flush_deadline st = None \<longleftrightarrow> pending st = [])"

text \<open>The newest word on every data source, in what was sent and what is pending.\<close>

definition latest :: "digest \<Rightarrow> DruidMetricsConfig \<Rightarrow> AggState \<Rightarrow> bool" where
  "latest sha256 cfg st \<longleftrightarrow>
     (\<forall>k. last_entry k (sent_entries st @ pending_entries sha256 cfg st)
          = map_option (entry_of sha256 cfg) (last_received k (received st)))"

lemma last_entry_append:
  "last_entry k (xs @ ys) = (case last_entry k ys of Some e \<Rightarrow> Some e | None \<Rightarrow> last_entry k xs)"
  by (simp add: last_entry_def find_append split: option.split)

lemma entry_of_id: "own_id s \<Longrightarrow> e_datasource_id (entry_of sha256 cfg s) = datasource_id s"
  by (simp add: entry_of_def encode_snapshot_def own_id_def)

lemma last_entry_map:
  assumes "distinct (map fst m)"
    and "\<forall>e\<in>set m. datasource_id (snd e) = fst e \<and> own_id (snd e)"
  shows "last_entry k (map (\<lambda>e. entry_of sha256 cfg (snd e)) m) = map_option (entry_of sha256 cfg) (map_of m k)"
  using assms
proof (induction m)
  case Nil
  then show ?case by (simp add: last_entry_def)
next
  case (Cons e m)
  then have IH: "last_entry k (map (\<lambda>e. entry_of sha256 cfg (snd e)) m) = map_option (entry_of sha256 cfg) (map_of m k)"
    by simp
  have "last_entry k [entry_of sha256 cfg (snd e)] = (if fst e = k then Some (entry_of sha256 cfg (snd e)) else None)"
    using Cons.prems(2) by (simp add: last_entry_def entry_of_id)
  moreover have "fst e = k \<Longrightarrow> map_of m k = None"
    using Cons.prems(1) by (force simp: map_of_eq_None_iff)
  ultimately show ?case
    using last_entry_append [of k "[entry_of sha256 cfg (snd e)]" "map (\<lambda>e. entry_of sha256 cfg (snd e)) m"] IH
    by (cases "map_of m k") auto
qed

lemma last_pending_entry:
  "pending_ok st \<Longrightarrow>
     last_entry k (pending_entries sha256 cfg st) = map_option (entry_of sha256 cfg) (map_of (pending st) k)"
  unfolding pending_entries_def pending_ok_def
  by (rule last_entry_map) (auto dest: bt.entries_distinct)

lemma length_bt_insert: "length (bt_insert k v m) \<le> Suc (length m)" "bt_insert k v m \<noteq> []"
  by (induction k v m rule: bt_insert.induct) auto

lemma insert_pending_ok:
  assumes "pending_ok st" "own_id s"
  shows "pending_ok (insert_snapshot s st)"
  using assms set_bt_insert_subset [of "datasource_id s" s "pending st"]
  by (auto simp: pending_ok_def insert_snapshot_def Let_def set_aggregator_snapshots_def bt_invar_insert)

lemma insert_latest:
  assumes "pending_ok st" "own_id s" "latest sha256 cfg st"
  shows "latest sha256 cfg (insert_snapshot s st)"
  unfolding latest_def
proof
  fix k
  let ?st = "insert_snapshot s st"
  have ok: "pending_ok ?st" by (rule insert_pending_ok [OF assms(1,2)])
  have upd: "map_of (pending ?st) = (map_of (pending st))(datasource_id s \<mapsto> s)"
    and sent: "sent_entries ?st = sent_entries st" and received: "received ?st = received st @ [s]"
    using assms(1) by (simp_all add: pending_ok_def insert_snapshot_def Let_def map_of_bt_insert sent_entries_def)
  have old: "last_entry k (sent_entries st @ pending_entries sha256 cfg st)
      = map_option (entry_of sha256 cfg) (last_received k (received st))"
    using assms(3) by (simp add: latest_def)
  show "last_entry k (sent_entries ?st @ pending_entries sha256 cfg ?st)
      = map_option (entry_of sha256 cfg) (last_received k (received ?st))"
    using old
    unfolding last_entry_append last_pending_entry [OF ok] last_pending_entry [OF assms(1)] upd sent received
    by (auto simp: last_received_def)
qed

lemma fold_insert:
  assumes "\<forall>s\<in>set ss. own_id s" "pending_ok st"
  shows "pending_ok (fold insert_snapshot ss st)"
    and "latest sha256 cfg st \<Longrightarrow> latest sha256 cfg (fold insert_snapshot ss st)"
    and "length (pending (fold insert_snapshot ss st)) \<le> length (pending st) + length ss"
proof -
  show "pending_ok (fold insert_snapshot ss st)"
    using assms by (induction ss arbitrary: st) (simp_all add: insert_pending_ok)
  show "latest sha256 cfg st \<Longrightarrow> latest sha256 cfg (fold insert_snapshot ss st)"
    using assms by (induction ss arbitrary: st) (simp_all add: insert_pending_ok insert_latest)
  show "length (pending (fold insert_snapshot ss st)) \<le> length (pending st) + length ss"
  proof (induction ss arbitrary: st)
    case (Cons s ss)
    have "length (pending (insert_snapshot s st)) \<le> Suc (length (pending st))"
      by (simp add: insert_snapshot_def Let_def length_bt_insert)
    then show ?case
      using Cons.IH [of "insert_snapshot s st"] by simp
  qed simp
qed

lemma flush_pending_outcome:
  assumes "batch_size cfg > 0" "others_behave env" "pending_ok st" "length (pending st) < usize_limit"
  obtains k r st' where "flush_pending sha256 cfg env st = Some (r, st')"
    "flush_result (batch_size cfg) env (pending_entries sha256 cfg st) (st\<lparr>pending := []\<rparr>) k r st'"
proof -
  have "\<exists>k r st'. send_batches (batch_size cfg) env (pending_entries sha256 cfg st) (st\<lparr>pending := []\<rparr>) = Some (r, st')
      \<and> flush_result (batch_size cfg) env (pending_entries sha256 cfg st) (st\<lparr>pending := []\<rparr>) k r st'"
    using assms by (intro send_batches_outcome) (auto simp: pending_ok_def pending_entries_def)
  then show ?thesis
    using that by (auto simp: flush_pending_def pending_entries_def entry_of_def comp_def)
qed

lemma flushed_Ok:
  assumes "flush_result b env (pending_entries sha256 cfg st) (st\<lparr>pending := []\<rparr>) k (Ok ()) st'" "b > 0"
  shows "pending st' = []" "aggregator_snapshots (ledger st') = 0"
    "sent_entries st' = sent_entries st @ pending_entries sha256 cfg st" "received st' = received st"
    "latest sha256 cfg st \<Longrightarrow> latest sha256 cfg st'"
    "\<forall>b'\<in>set (sent st') - set (sent st). length (entries b') \<le> b \<and> entries b' \<noteq> []"
proof -
  let ?c = "chunks b (pending_entries sha256 cfg st)"
  from assms(1) have k: "k = length ?c"
    and st': "st' = st\<lparr>pending := [], ledger := ledger st', sent := sent st @ map batch_of (take k ?c)\<rparr>"
    and count: "aggregator_snapshots (ledger st') = length (concat (drop k ?c))"
    by (auto simp: flush_result_def id_exhausted_def split: if_splits)
  show pending: "pending st' = []" by (subst st') simp
  show "received st' = received st" by (subst st') simp
  have "sent st' = sent st @ map batch_of ?c" using k by (subst st') simp
  then have sent: "sent_entries st' = sent_entries st @ concat ?c"
    by (simp add: sent_entries_def batch_of_def comp_def)
  then show all: "sent_entries st' = sent_entries st @ pending_entries sha256 cfg st"
    by (simp add: concat_chunks [OF assms(2)])
  show "aggregator_snapshots (ledger st') = 0" using count k by simp
  show "latest sha256 cfg st \<Longrightarrow> latest sha256 cfg st'"
    using all pending \<open>received st' = received st\<close> by (simp add: latest_def pending_entries_def)
  show "\<forall>b'\<in>set (sent st') - set (sent st). length (entries b') \<le> b \<and> entries b' \<noteq> []"
    using \<open>sent st' = sent st @ map batch_of ?c\<close> by (auto simp: batch_of_def dest: chunks_bounded)
qed


definition good_control :: "digest \<Rightarrow> DruidMetricsConfig \<Rightarrow> AggControl \<Rightarrow> bool" where
  "good_control sha256 cfg c \<longleftrightarrow>
     (case c of
        Continue st \<Rightarrow> agg_inv cfg st \<and> latest sha256 cfg st
      | Return (Ok _) st \<Rightarrow> pending st = [] \<and> aggregator_snapshots (ledger st) = 0 \<and> latest sha256 cfg st
      | Return (Err e) st \<Rightarrow> e = id_exhausted \<or> e = output_closed_error (aggregator_snapshots (ledger st)))"

lemma flush_result_Err:
  "flush_result b env es st k (Err e) st' \<Longrightarrow>
     e = id_exhausted \<or> e = output_closed_error (aggregator_snapshots (ledger st'))"
  by (auto simp: flush_result_def split: if_splits)

text \<open>The three ways a flush is used lead to a good outcome.\<close>

lemma flush_uses:
  assumes "batch_size cfg > 0" "others_behave env" "pending_ok st" "latest sha256 cfg st"
    "length (pending st) < usize_limit"
  shows "\<exists>c. flush_and_continue sha256 cfg env st = Some c \<and> good_control sha256 cfg c
           \<and> (\<forall>st'. c = Continue st' \<longrightarrow> pending st' = [] \<and> flush_deadline st' = None)"
    and "\<exists>c. flush_and_return sha256 cfg env st = Some c \<and> good_control sha256 cfg c"
    and "\<exists>c. handle_event sha256 cfg env now (FlushCommand []) st = Some c \<and> good_control sha256 cfg c"
proof -
  obtain k r st' where flush: "flush_pending sha256 cfg env st = Some (r, st')"
    and res: "flush_result (batch_size cfg) env (pending_entries sha256 cfg st) (st\<lparr>pending := []\<rparr>) k r st'"
    using flush_pending_outcome [OF assms(1,2,3,5)] by blast
  have ok: "pending st' = [] \<and> aggregator_snapshots (ledger st') = 0 \<and> latest sha256 cfg st'"
    if "r = Ok ()" using flushed_Ok [OF res [unfolded that] assms(1)] assms(4) by simp
  then have inv: "agg_inv cfg (st'\<lparr>replies := rs, flush_deadline := None\<rparr>)
      \<and> latest sha256 cfg (st'\<lparr>replies := rs, flush_deadline := None\<rparr>)" if "r = Ok ()" for rs
    using that assms(1)
    by (auto simp: agg_inv_def pending_ok_def latest_def sent_entries_def pending_entries_def)
  have inv': "agg_inv cfg (st'\<lparr>flush_deadline := None\<rparr>) \<and> latest sha256 cfg (st'\<lparr>flush_deadline := None\<rparr>)"
    if "r = Ok ()" using inv [OF that, of "replies st'"] by (cases st') simp
  show "\<exists>c. flush_and_continue sha256 cfg env st = Some c \<and> good_control sha256 cfg c
           \<and> (\<forall>st'. c = Continue st' \<longrightarrow> pending st' = [] \<and> flush_deadline st' = None)"
    using flush ok inv' res
    by (cases r) (auto simp: flush_and_continue_def good_control_def dest: flush_result_Err)
  show "\<exists>c. flush_and_return sha256 cfg env st = Some c \<and> good_control sha256 cfg c"
    using flush ok res
    by (cases r) (auto simp: flush_and_return_def good_control_def dest: flush_result_Err)
  show "\<exists>c. handle_event sha256 cfg env now (FlushCommand []) st = Some c \<and> good_control sha256 cfg c"
    using flush inv res
    by (cases r) (auto simp: good_control_def dest: flush_result_Err)
qed

lemma select_event_good:
  assumes cfg: "batch_size cfg > 0" and env: "others_behave env"
    and inv: "agg_inv cfg st" and latest: "latest sha256 cfg st"
    and ids: "\<forall>s\<in>set (drained ev). own_id s"
    and size: "batch_size cfg + length (drained ev) \<le> usize_limit"
  shows "\<exists>c. select_event sha256 cfg env now ev st = Some c \<and> good_control sha256 cfg c"
proof -
  have ok: "pending_ok st" and len: "length (pending st) < batch_size cfg"
    and deadline: "flush_deadline st = None \<longleftrightarrow> pending st = []"
    using inv by (simp_all add: agg_inv_def)
  let ?st = "fold insert_snapshot (drained ev) st"
  note ins = fold_insert [OF ids ok]
  have latest': "latest sha256 cfg ?st" by (rule ins(2) [OF latest])
  have bound: "length (pending ?st) < usize_limit" using ins(3) len size by simp
  note uses = flush_uses [OF cfg env ins(1) latest' bound]
  have stay: "good_control sha256 cfg (Continue st)"
    using inv latest by (simp add: good_control_def)
  show ?thesis
  proof (cases "can_select st ev")
    case False
    with stay show ?thesis by (simp add: select_event_def)
  next
    case True
    show ?thesis
    proof (cases ev)
      case (SnapshotReceived s)
      define st2 where "st2 = (if pending st = [] then ?st\<lparr>flush_deadline := Some (now + coalesce_window cfg)\<rparr> else ?st)"
      have same: "pending st2 = pending ?st" "ledger st2 = ledger ?st" "sent st2 = sent ?st" "received st2 = received ?st"
        by (simp_all add: st2_def)
      have ok2: "pending_ok st2" and latest2: "latest sha256 cfg st2" and bound2: "length (pending st2) < usize_limit"
        using ins(1) latest' bound
        by (simp_all add: pending_ok_def latest_def sent_entries_def pending_entries_def same)
      have "flush_deadline ?st = flush_deadline st" "pending ?st \<noteq> []"
        using SnapshotReceived by (simp_all add: insert_snapshot_def Let_def length_bt_insert)
      then have "flush_deadline st2 \<noteq> None" "pending st2 \<noteq> []"
        using deadline by (auto simp: st2_def)
      with flush_uses(1) [OF cfg env ok2 latest2 bound2] ok2 latest2 SnapshotReceived True
      show ?thesis
        by (auto simp: select_event_def good_control_def agg_inv_def Let_def st2_def not_le)
    next
      case (FlushCommand ss)
      with uses(3) [of now] True show ?thesis by (simp add: select_event_def)
    next
      case CommandsClosed
      with inv latest True show ?thesis
        by (simp add: select_event_def good_control_def agg_inv_def pending_ok_def latest_def
            sent_entries_def pending_entries_def)
    qed (use uses True in \<open>auto simp: select_event_def\<close>)
  qed
qed


lemma agg_turn_good:
  assumes cfg: "batch_size cfg > 0" and env: "others_behave env"
    and inv: "agg_inv cfg st" and latest: "latest sha256 cfg st"
    and ids: "\<forall>s\<in>set (drained ev). own_id s"
    and size: "batch_size cfg + length (drained ev) \<le> usize_limit"
  shows "\<exists>c. agg_turn sha256 cfg env now ev st = Some c \<and> good_control sha256 cfg c"
proof (cases "case flush_deadline st of Some deadline \<Rightarrow> now \<ge> deadline | None \<Rightarrow> False")
  case False
  with select_event_good [OF assms, of now] show ?thesis by (simp add: agg_turn_def)
next
  case True
  have "pending_ok st" "length (pending st) < usize_limit"
    using inv size by (auto simp: agg_inv_def)
  from flush_uses(1) [OF cfg env this(1) latest this(2)]
  obtain c where c: "flush_and_continue sha256 cfg env st = Some c" "good_control sha256 cfg c" by blast
  show ?thesis
  proof (cases c)
    case (Continue st')
    with c(2) have "agg_inv cfg st'" "latest sha256 cfg st'" by (simp_all add: good_control_def)
    from select_event_good [OF cfg env this ids size, of now] c True Continue
    show ?thesis by (simp add: agg_turn_def)
  next
    case (Return r st')
    with c True show ?thesis by (simp add: agg_turn_def)
  qed
qed

lemma run_aggregator_good:
  assumes cfg: "batch_size cfg > 0" and env: "others_behave env"
    and evs: "\<forall>e\<in>set evs. (\<forall>s\<in>set (drained (snd e)). own_id s)
        \<and> batch_size cfg + length (drained (snd e)) \<le> usize_limit"
    and inv: "agg_inv cfg st" and latest: "latest sha256 cfg st"
  shows "\<exists>c. run_aggregator sha256 cfg env evs st = Some c \<and> good_control sha256 cfg c"
  using evs inv latest
proof (induction evs arbitrary: st)
  case Nil
  then show ?case by (simp add: good_control_def)
next
  case (Cons e evs)
  obtain now ev where e: "e = (now, ev)" by fastforce
  obtain c where c: "agg_turn sha256 cfg env now ev st = Some c" "good_control sha256 cfg c"
    using agg_turn_good [OF cfg env Cons.prems(2,3), of ev now] Cons.prems(1) e by auto
  show ?case
  proof (cases c)
    case (Continue st')
    with c(2) have "agg_inv cfg st'" "latest sha256 cfg st'" by (simp_all add: good_control_def)
    with Cons.IH [of st'] Cons.prems(1) c Continue e show ?thesis by simp
  next
    case (Return r st')
    with c e show ?thesis by simp
  qed
qed

lemma agg_start_good:
  "batch_size cfg > 0 \<Longrightarrow> aggregator_snapshots l = 0 \<Longrightarrow> agg_inv cfg (agg_start l) \<and> latest sha256 cfg (agg_start l)"
  by (simp add: agg_inv_def pending_ok_def latest_def agg_start_def sent_entries_def pending_entries_def
      last_entry_def last_received_def)

section \<open>Properties\<close>


text \<open>A flush accounts for every entry: with a positive batch size it ends after some number of
  batches, each of at most the batch size and none empty, which together are the oldest part of
  the pending entries in the order of their data source; the ledger's count is exactly the rest.
  Either nothing is left, or the output was closed at the next batch and the error reports
  exactly that rest, or the identifiers are exhausted.\<close>
theorem flush_accounts_for_every_entry:
  assumes "batch_size cfg > 0" and "others_behave env" and "pending_ok st"
    and "length (pending st) < usize_limit"
  shows "\<exists>r st' bs unsent. flush_pending sha256 cfg env st = Some (r, st')
     \<and> pending st' = [] \<and> sent st' = sent st @ map batch_of bs
     \<and> pending_entries sha256 cfg st = concat bs @ unsent
     \<and> (\<forall>es\<in>set bs. es \<noteq> [] \<and> length es \<le> batch_size cfg)
     \<and> aggregator_snapshots (ledger st') = length unsent
     \<and> (r = Ok () \<and> unsent = []
        \<or> r = Err (output_closed_error (length unsent)) \<and> unsent \<noteq> []
          \<and> (\<exists>l. \<not> snd (env (length (sent st) + length bs) l))
        \<or> r = Err id_exhausted \<and> unsent \<noteq> [])"
proof -
  obtain k r st' where flush: "flush_pending sha256 cfg env st = Some (r, st')"
    and res: "flush_result (batch_size cfg) env (pending_entries sha256 cfg st) (st\<lparr>pending := []\<rparr>) k r st'"
    using flush_pending_outcome [OF assms] by blast
  let ?c = "chunks (batch_size cfg) (pending_entries sha256 cfg st)"
  let ?unsent = "concat (drop k ?c)"
  have st': "st' = st\<lparr>pending := [], ledger := ledger st', sent := sent st @ map batch_of (take k ?c)\<rparr>"
    and k: "k \<le> length ?c" using res by (simp_all add: flush_result_def)
  have "pending st' = []" "sent st' = sent st @ map batch_of (take k ?c)"
    by (subst st', simp)+
  moreover have "pending_entries sha256 cfg st = concat (take k ?c) @ ?unsent"
    by (simp flip: concat_append add: concat_chunks assms(1))
  moreover have "?unsent \<noteq> []" if "k < length ?c"
    using chunks_bounded [OF nth_mem [OF that]] that by (simp flip: Cons_nth_drop_Suc)
  moreover have "\<forall>es\<in>set (take k ?c). es \<noteq> [] \<and> length es \<le> batch_size cfg"
    by (auto dest!: in_set_takeD chunks_bounded)
  ultimately show ?thesis
    using flush res k
    by (intro exI [of _ r] exI [of _ st'] exI [of _ "take k ?c"] exI [of _ ?unsent])
      (auto simp: flush_result_def split: if_splits)
qed


section \<open>Examples\<close>

definition sample_snapshot :: "u64 \<Rightarrow> u64 \<Rightarrow> PendingSnapshot" where
  "sample_snapshot i time =
     \<lparr>datasource_id = i,
      snapshot = \<lparr>ds_identity = \<lparr>ds_id = i, ds_name = lit ''orders'', driver_name = None\<rparr>,
        pool_snapshot = \<lparr>active_count = 1, idle_count = 2, max_active = 8, max_idle = 8, waiting_count = 0\<rparr>,
        sql_stats = [], wall_snapshot = None, sampling_time_millis = time\<rparr>\<rparr>"

definition open_output :: send_env where
  "open_output n l = ([QueueClient], True)"

definition closed_output :: send_env where
  "closed_output n l = ([QueueClient], False)"

lemma sample_own_id [simp]: "own_id (sample_snapshot i time)"
  by (simp add: own_id_def sample_snapshot_def)

lemma sample_env [simp]: "others_behave open_output" "others_behave closed_output"
  by (simp_all add: others_behave_def open_output_def closed_output_def)


theorem flush_accounts_for_every_entry_witness:
  "\<exists>r st'. flush_pending (\<lambda>b. b) config_defaults closed_output
     (insert_snapshot (sample_snapshot 7 1) (agg_start PipelineOwnership_new)) = Some (r, st')"
proof -
  have "pending_ok (insert_snapshot (sample_snapshot 7 1) (agg_start PipelineOwnership_new))"
    by (rule insert_pending_ok) (simp_all add: pending_ok_def agg_start_def PipelineOwnership_new_def)
  moreover have "length (pending (insert_snapshot (sample_snapshot 7 1) (agg_start PipelineOwnership_new))) < usize_limit"
    by (simp add: insert_snapshot_def Let_def agg_start_def usize_limit_def)
  ultimately show ?thesis
    using flush_accounts_for_every_entry [of config_defaults closed_output
        "insert_snapshot (sample_snapshot 7 1) (agg_start PipelineOwnership_new)" "\<lambda>b. b"]
    by (auto simp: config_defaults_def)
qed

end
