(* ===== verification/Metrics_Registry.thy ===== *)
theory Metrics_Registry
  imports Aggregator
begin

text \<open>
  The registry of monitored data sources (\<open>registry.rs\<close>, the registration part of \<open>runtime.rs\<close>) with the
  remote commands that work on it, and the sampler (\<open>sampler.rs\<close>). A data source is an object of
  the application behind a weak reference: its address identifies it, whether it is still
  alive and what \<open>try_snapshot\<close> answers come from the environment. Registrations carry a token, the address
  of their \<open>active\<close> flag.
\<close>

section \<open>Registrations\<close>

record RegistryEntry =
  r_datasource_id :: u64
  source :: nat
  token :: nat

text \<open>
  The registry, the flags that are still set, the unregister channel with its capacity, the
  counters, and the guards that cleared their flag but have not notified the channel yet.
\<close>

record MetricsRegistry =
  registry :: "RegistryEntry list"
  active :: "nat list"
  next_token :: nat
  unregister_queue :: "u64 list"
  unregister_capacity :: nat
  unregister_coalesced_total :: u64
  registered_datasources :: nat
  notifying :: "u64 list"

definition registry_new :: "nat \<Rightarrow> MetricsRegistry" where
  "registry_new cap = \<lparr>registry = [], active = [], next_token = 0, unregister_queue = [],
     unregister_capacity = cap, unregister_coalesced_total = 0, registered_datasources = 0, notifying = []\<rparr>"

definition is_active :: "MetricsRegistry \<Rightarrow> RegistryEntry \<Rightarrow> bool" where
  "is_active m e \<longleftrightarrow> token e \<in> set (active m)"

definition register :: "u64 \<Rightarrow> nat \<Rightarrow> MetricsRegistry \<Rightarrow> MetricsRegistry" where
  "register i src m =
     (let es = registry m @ [\<lparr>r_datasource_id = i, source = src, token = next_token m\<rparr>]
      in m\<lparr>registry := es, active := next_token m # active m, next_token := next_token m + 1,
           registered_datasources := length es\<rparr>)"

definition retain_entries :: "(RegistryEntry \<Rightarrow> bool) \<Rightarrow> MetricsRegistry \<Rightarrow> MetricsRegistry" where
  "retain_entries keep m =
     (let es = filter keep (registry m) in m\<lparr>registry := es, registered_datasources := length es\<rparr>)"

text \<open>Dropping a guard: the flag first, then a wake-up in the bounded channel.\<close>

definition guard_clear :: "u64 \<Rightarrow> nat \<Rightarrow> MetricsRegistry \<Rightarrow> MetricsRegistry" where
  "guard_clear i t m = m\<lparr>active := removeAll t (active m), notifying := i # notifying m\<rparr>"

definition guard_notify :: "u64 \<Rightarrow> MetricsRegistry \<Rightarrow> MetricsRegistry" where
  "guard_notify i m =
     (let m' = m\<lparr>notifying := remove1 i (notifying m)\<rparr>
      in if length (unregister_queue m') \<ge> unregister_capacity m'
         then m'\<lparr>unregister_coalesced_total := unregister_coalesced_total m' + 1\<rparr>
         else m'\<lparr>unregister_queue := unregister_queue m' @ [i]\<rparr>)"

definition unregister_listener :: "MetricsRegistry \<Rightarrow> MetricsRegistry" where
  "unregister_listener m =
     (case unregister_queue m of
        [] \<Rightarrow> m
      | _ # q \<Rightarrow> retain_entries (is_active m) (m\<lparr>unregister_queue := q\<rparr>))"

section \<open>Remote commands\<close>

datatype RegistryCommandError =
    EmptyResetTargets
  | UnknownDatasources "u64 list"
  | DatasourceUnavailable u64 rust_str
  | EmptyRegistry
  | InvalidBatchSize

text \<open>The environment: the sources that can be upgraded and their snapshots.\<close>

record sources_env =
  alive :: "nat \<Rightarrow> bool"
  try_snapshot :: "nat \<Rightarrow> (DruidTelemetrySnapshot, SnapshotUnavailable) result"

definition dropped :: "u64 \<Rightarrow> RegistryCommandError" where
  "dropped i = DatasourceUnavailable i (lit ''registered datasource was dropped'')"

definition target_ids :: "u64 list \<Rightarrow> u64 list" where
  "target_ids ids = remdups_adj (sort ids)"

definition registered_entry :: "MetricsRegistry \<Rightarrow> u64 \<Rightarrow> RegistryEntry option" where
  "registered_entry m i = find (\<lambda>e. r_datasource_id e = i \<and> is_active m e) (registry m)"

fun resolve_targets ::
  "sources_env \<Rightarrow> MetricsRegistry \<Rightarrow> u64 list \<Rightarrow> ((u64 \<times> nat) list, RegistryCommandError) result" where
  "resolve_targets env m [] = Ok []"
| "resolve_targets env m (i # is) =
     (case registered_entry m i of
        None \<Rightarrow> Err (UnknownDatasources [i])
      | Some e \<Rightarrow>
          if \<not> alive env (source e) then Err (dropped i)
          else case resolve_targets env m is of
                 Err x \<Rightarrow> Err x
               | Ok rest \<Rightarrow> Ok ((i, source e) # rest))"

text \<open>The result and the sources whose \<open>reset_stat\<close> was called, in order.\<close>

definition registry_reset_stats ::
  "sources_env \<Rightarrow> MetricsRegistry \<Rightarrow> u64 list \<Rightarrow> (unit, RegistryCommandError) result \<times> nat list" where
  "registry_reset_stats env m ids =
     (let targets = target_ids ids;
          unknown = filter (\<lambda>i. \<not> list_ex (\<lambda>e. r_datasource_id e = i \<and> is_active m e) (registry m)) targets
      in if targets = [] then (Err EmptyResetTargets, [])
         else if unknown \<noteq> [] then (Err (UnknownDatasources unknown), [])
         else case resolve_targets env m targets of
                Err e \<Rightarrow> (Err e, [])
              | Ok registered \<Rightarrow> (Ok (), map (\<lambda>i. the (map_of registered i)) targets))"

fun live_datasources ::
  "sources_env \<Rightarrow> MetricsRegistry \<Rightarrow> RegistryEntry list \<Rightarrow> (u64, nat) btree
     \<Rightarrow> ((u64, nat) btree, RegistryCommandError) result" where
  "live_datasources env m [] live = Ok live"
| "live_datasources env m (e # es) live =
     (if \<not> is_active m e \<or> map_of live (r_datasource_id e) \<noteq> None
      then live_datasources env m es live
      else if \<not> alive env (source e) then Err (dropped (r_datasource_id e))
      else live_datasources env m es (bt_insert (r_datasource_id e) (source e) live))"

definition live_datasources_by_id ::
  "sources_env \<Rightarrow> MetricsRegistry \<Rightarrow> ((u64, nat) btree, RegistryCommandError) result" where
  "live_datasources_by_id env m = live_datasources env m (registry m) []"

fun unavailable_debug :: "SnapshotUnavailable \<Rightarrow> rust_str" where
  "unavailable_debug Busy = lit ''Busy''"
| "unavailable_debug SourceClosed = lit ''Closed''"

record command_config =
  c_batch_size :: nat
  c_max_sql_statements :: nat
  c_sql_text_policy :: SqlTextPolicy

fun snapshot_all ::
  "digest \<Rightarrow> command_config \<Rightarrow> sources_env \<Rightarrow> (u64 \<times> nat) list
     \<Rightarrow> (SnapshotEntryMsg list, RegistryCommandError) result" where
  "snapshot_all sha256 cfg env [] = Ok []"
| "snapshot_all sha256 cfg env ((i, src) # rest) =
     (case try_snapshot env src of
        Err e \<Rightarrow> Err (DatasourceUnavailable i (unavailable_debug e))
      | Ok s \<Rightarrow>
          (case snapshot_all sha256 cfg env rest of
             Err e \<Rightarrow> Err e
           | Ok es \<Rightarrow> Ok (encode_snapshot sha256 (c_max_sql_statements cfg) (c_sql_text_policy cfg) s # es)))"

definition full_batch :: "SnapshotEntryMsg list \<Rightarrow> AggregatedBatch" where
  "full_batch es = \<lparr>entries = es, is_full_snapshot = True\<rparr>"

definition full_snapshot ::
  "digest \<Rightarrow> command_config \<Rightarrow> sources_env \<Rightarrow> MetricsRegistry
     \<Rightarrow> (AggregatedBatch list, RegistryCommandError) result" where
  "full_snapshot sha256 cfg env m =
     (if c_batch_size cfg = 0 then Err InvalidBatchSize
      else case live_datasources_by_id env m of
        Err e \<Rightarrow> Err e
      | Ok registered \<Rightarrow>
          (case snapshot_all sha256 cfg env registered of
             Err e \<Rightarrow> Err e
           | Ok es \<Rightarrow> if es = [] then Ok [full_batch []]
                      else Ok (map full_batch (chunks (c_batch_size cfg) es))))"

section \<open>The sampler\<close>

text \<open>
  One round: the snapshots that entered the channel, the registrations found dead, and the counters.
  The \<open>n\<close>th \<open>try_send\<close> of the round succeeds, finds the channel full, or finds it closed, which ends
  the scan.
\<close>

datatype TrySend = SendOk | SendFull | SendClosed

record SampleRound =
  sampled :: "PendingSnapshot list"
  dead_registrations :: "nat list"
  coalesced :: nat
  busy :: nat
  sends :: nat

fun sample_scan ::
  "sources_env \<Rightarrow> (nat \<Rightarrow> TrySend) \<Rightarrow> MetricsRegistry \<Rightarrow> RegistryEntry list \<Rightarrow> SampleRound \<Rightarrow> SampleRound" where
  "sample_scan env chan m [] r = r"
| "sample_scan env chan m (e # es) r =
     (if \<not> is_active m e \<or> \<not> alive env (source e)
      then sample_scan env chan m es (r\<lparr>dead_registrations := token e # dead_registrations r\<rparr>)
      else case try_snapshot env (source e) of
        Ok s \<Rightarrow>
          (case chan (sends r) of
             SendOk \<Rightarrow> sample_scan env chan m es
               (r\<lparr>sampled := sampled r @ [\<lparr>datasource_id = r_datasource_id e, snapshot = s\<rparr>], sends := sends r + 1\<rparr>)
           | SendFull \<Rightarrow> sample_scan env chan m es (r\<lparr>coalesced := coalesced r + 1, sends := sends r + 1\<rparr>)
           | SendClosed \<Rightarrow> r)
      | Err Busy \<Rightarrow> sample_scan env chan m es (r\<lparr>busy := busy r + 1\<rparr>)
      | Err SourceClosed \<Rightarrow> sample_scan env chan m es (r\<lparr>dead_registrations := token e # dead_registrations r\<rparr>))"

definition sample_sweep :: "nat list \<Rightarrow> MetricsRegistry \<Rightarrow> MetricsRegistry" where
  "sample_sweep dead m =
     (if dead = [] then m else retain_entries (\<lambda>e. token e \<notin> set dead) m)"

definition round_start :: SampleRound where
  "round_start = \<lparr>sampled = [], dead_registrations = [], coalesced = 0, busy = 0, sends = 0\<rparr>"

text \<open>The scan reads a copy of the registry; the sweep works on the registry of its own moment.\<close>

definition sample_all ::
  "sources_env \<Rightarrow> (nat \<Rightarrow> TrySend) \<Rightarrow> MetricsRegistry \<Rightarrow> MetricsRegistry \<Rightarrow> SampleRound \<times> MetricsRegistry" where
  "sample_all env chan scanned current =
     (let r = sample_scan env chan scanned (registry scanned) round_start
      in (r, sample_sweep (dead_registrations r) current))"

text \<open>The runtime's shutdown withdraws what is still registered.\<close>

definition registry_clear :: "MetricsRegistry \<Rightarrow> MetricsRegistry" where
  "registry_clear m = m\<lparr>registry := [], registered_datasources := 0\<rparr>"

section \<open>Interleavings\<close>

datatype RegistryEvent =
    Register u64 nat
  | GuardClear u64 nat
  | GuardNotify u64
  | ListenerTurn
  | SamplerSweep "nat list"
  | ShutdownClear

fun registry_step :: "MetricsRegistry \<Rightarrow> RegistryEvent \<Rightarrow> MetricsRegistry" where
  "registry_step m (Register i src) = register i src m"
| "registry_step m (GuardClear i t) = guard_clear i t m"
| "registry_step m (GuardNotify i) = (if i \<in> set (notifying m) then guard_notify i m else m)"
| "registry_step m ListenerTurn = unregister_listener m"
| "registry_step m (SamplerSweep dead) = sample_sweep dead m"
| "registry_step m ShutdownClear = registry_clear m"


section \<open>Registrations are cleaned up\<close>

definition registrations_inv :: "MetricsRegistry \<Rightarrow> bool" where
  "registrations_inv m \<longleftrightarrow>
     registered_datasources m = length (registry m)
     \<and> distinct (map token (registry m))
     \<and> (\<forall>e\<in>set (registry m). token e < next_token m)
     \<and> (unregister_queue m = [] \<and> notifying m = [] \<longrightarrow> (\<forall>e\<in>set (registry m). is_active m e))"

lemma distinct_map_filter: "distinct (map f xs) \<Longrightarrow> distinct (map f (filter P xs))"
  by (induction xs) auto

lemma retain_inv:
  assumes "registrations_inv m"
  shows "registrations_inv (retain_entries keep m)"
  using assms
  by (auto simp: registrations_inv_def retain_entries_def Let_def is_active_def distinct_map_filter)

lemma registry_step_inv:
  assumes inv: "registrations_inv m" and cap: "unregister_capacity m > 0"
  shows "registrations_inv (registry_step m ev)"
proof (cases ev)
  case (Register i src)
  with inv show ?thesis
    by (auto simp: registrations_inv_def register_def Let_def is_active_def)
next
  case (GuardClear i t)
  with inv show ?thesis by (simp add: registrations_inv_def guard_clear_def)
next
  case (GuardNotify i)
  with inv cap show ?thesis
    by (auto simp: registrations_inv_def guard_notify_def Let_def is_active_def)
next
  case ListenerTurn
  have "registrations_inv (retain_entries (is_active m) (m\<lparr>unregister_queue := q\<rparr>))" for q
    using inv
    by (auto simp: registrations_inv_def retain_entries_def Let_def is_active_def distinct_map_filter)
  with ListenerTurn inv show ?thesis
    by (auto simp: unregister_listener_def split: list.split)
next
  case (SamplerSweep dead)
  with inv show ?thesis by (simp add: sample_sweep_def retain_inv)
next
  case ShutdownClear
  with inv show ?thesis by (simp add: registrations_inv_def registry_clear_def)
qed

lemma registry_step_capacity: "unregister_capacity (registry_step m ev) = unregister_capacity m"
  by (cases ev) (auto simp: register_def guard_clear_def guard_notify_def unregister_listener_def
      sample_sweep_def retain_entries_def registry_clear_def Let_def split: list.split)

lemma registry_run_inv:
  assumes "cap > 0"
  shows "registrations_inv (foldl registry_step (registry_new cap) evs)
    \<and> unregister_capacity (foldl registry_step (registry_new cap) evs) = cap"
  using assms
  by (induction evs rule: rev_induct)
    (simp_all add: registry_step_inv registry_step_capacity, simp add: registrations_inv_def registry_new_def)

section \<open>Commands\<close>

definition resolves :: "sources_env \<Rightarrow> MetricsRegistry \<Rightarrow> u64 \<Rightarrow> bool" where
  "resolves env m i \<longleftrightarrow> (\<exists>e. registered_entry m i = Some e \<and> alive env (source e))"

definition source_of :: "MetricsRegistry \<Rightarrow> u64 \<Rightarrow> nat" where
  "source_of m i = source (the (registered_entry m i))"

lemma registered_entry_None:
  "registered_entry m i = None \<longleftrightarrow> \<not> list_ex (\<lambda>e. r_datasource_id e = i \<and> is_active m e) (registry m)"
  by (auto simp: registered_entry_def find_None_iff list_ex_iff)

lemma resolve_targets_Ok_iff:
  "(\<exists>r. resolve_targets env m ids = Ok r) \<longleftrightarrow> (\<forall>i\<in>set ids. resolves env m i)"
  by (induction ids) (auto simp: resolves_def split: option.split result.split)

lemma resolve_targets_Ok:
  "resolve_targets env m ids = Ok r \<Longrightarrow> r = map (\<lambda>i. (i, source_of m i)) ids"
  by (induction ids arbitrary: r) (auto simp: source_of_def split: option.splits result.splits if_splits)

lemma set_target_ids [simp]: "set (target_ids ids) = set ids"
  by (simp add: target_ids_def)

lemma target_ids_sorted: "target_ids ids = sorted_list_of_set (set ids)"
  by (simp add: target_ids_def remdups_adj_sort)

lemma target_ids_Nil [simp]: "target_ids ids = [] \<longleftrightarrow> ids = []"
  by (metis set_empty set_target_ids)

text \<open>C35. A remote reset is all or nothing: if there is a target and every target is registered, active
  and alive, each of them is reset once, in ascending order of its identifier; in every other case
  the command fails and no source is reset.\<close>
theorem reset_is_all_or_nothing:
  "if ids \<noteq> [] \<and> (\<forall>i\<in>set ids. resolves env m i)
   then registry_reset_stats env m ids = (Ok (), map (source_of m) (sorted_list_of_set (set ids)))
   else \<exists>e. registry_reset_stats env m ids = (Err e, [])"
proof (cases "ids \<noteq> [] \<and> (\<forall>i\<in>set ids. resolves env m i)")
  case True
  then obtain r where r: "resolve_targets env m (target_ids ids) = Ok r"
    using resolve_targets_Ok_iff by force
  have "filter (\<lambda>i. \<not> list_ex (\<lambda>e. r_datasource_id e = i \<and> is_active m e) (registry m)) (target_ids ids) = []"
    using True by (force simp: filter_empty_conv resolves_def simp flip: registered_entry_None)
  moreover have "map (\<lambda>i. the (map_of r i)) (target_ids ids) = map (source_of m) (target_ids ids)"
    using resolve_targets_Ok [OF r] by (simp add: map_of_map_restrict)
  ultimately show ?thesis
    using True r by (simp add: registry_reset_stats_def Let_def target_ids_sorted)
next
  case False
  then have "ids = [] \<or> (\<nexists>r. resolve_targets env m (target_ids ids) = Ok r)"
    using resolve_targets_Ok_iff [of env m "target_ids ids"] by auto
  then have "\<exists>e. registry_reset_stats env m ids = (Err e, [])"
    by (auto simp: registry_reset_stats_def Let_def split: result.split)
  then show ?thesis unfolding if_not_P [OF False] .
qed

definition active_ids :: "MetricsRegistry \<Rightarrow> u64 set" where
  "active_ids m = r_datasource_id ` {e \<in> set (registry m). is_active m e}"

lemma live_datasources_Ok:
  assumes "live_datasources env m es live = Ok r" "bt_invar live"
  shows "bt_invar r \<and> map_of r = (\<lambda>i. case map_of live i of Some s \<Rightarrow> Some s
     | None \<Rightarrow> map_option source (find (\<lambda>e. r_datasource_id e = i \<and> is_active m e) es))"
  using assms
proof (induction es arbitrary: live)
  case Nil
  then show ?case by (auto simp: fun_eq_iff split: option.split)
next
  case (Cons e es)
  show ?case
  proof (cases "\<not> is_active m e \<or> map_of live (r_datasource_id e) \<noteq> None")
    case True
    with Cons.prems have "live_datasources env m es live = Ok r" by simp
    from Cons.IH [OF this Cons.prems(2)] True show ?thesis
      by (auto simp: fun_eq_iff split: option.split)
  next
    case False
    with Cons.prems have rest: "live_datasources env m es (bt_insert (r_datasource_id e) (source e) live) = Ok r"
      by (auto split: if_splits)
    from Cons.IH [OF rest bt_invar_insert [OF Cons.prems(2)]] False Cons.prems(2) show ?thesis
      by (auto simp: fun_eq_iff map_of_bt_insert split: option.split)
  qed
qed

lemma live_by_id_Ok:
  assumes "live_datasources_by_id env m = Ok r"
  shows "r = map (\<lambda>i. (i, source_of m i)) (sorted_list_of_set (active_ids m))"
proof -
  from live_datasources_Ok [OF assms [unfolded live_datasources_by_id_def]]
  have inv: "bt_invar r" and look: "map_of r = (\<lambda>i. map_option source (registered_entry m i))"
    by (simp_all add: registered_entry_def)
  have "dom (map_of r) = active_ids m"
    by (auto simp: look active_ids_def dom_def registered_entry_None list_ex_iff
        simp flip: not_None_eq)
  then have "set (map fst r) = active_ids m" by (simp add: dom_map_of_conv_image_fst)
  moreover have "finite (active_ids m)" by (simp add: active_ids_def)
  ultimately have keys: "map fst r = sorted_list_of_set (active_ids m)"
    using inv by (intro strict_sorted_equal) (auto simp: bt_invar_def)
  have "r = map (\<lambda>k. (k, the (map_of r k))) (map fst r)"
    by (rule bt.entries_of_keys [OF inv])
  moreover have "the (map_of r k) = source_of m k" if "k \<in> set (map fst r)" for k
    using that by (auto simp: look source_of_def dom_map_of_conv_image_fst [symmetric] dom_def)
  ultimately show ?thesis
    unfolding keys [symmetric] by (metis (no_types, lifting) map_cong)
qed


lemma live_datasources_Ok_iff:
  "bt_invar live \<Longrightarrow> (\<exists>r. live_datasources env m es live = Ok r) \<longleftrightarrow>
     (\<forall>i. map_of live i = None \<longrightarrow>
        (\<forall>e. find (\<lambda>e. r_datasource_id e = i \<and> is_active m e) es = Some e \<longrightarrow> alive env (source e)))"
proof (induction es arbitrary: live)
  case (Cons e es)
  show ?case
  proof (cases "\<not> is_active m e \<or> map_of live (r_datasource_id e) \<noteq> None")
    case True
    then have "map_of live i = None \<Longrightarrow>
        find (\<lambda>e. r_datasource_id e = i \<and> is_active m e) (e # es)
        = find (\<lambda>e. r_datasource_id e = i \<and> is_active m e) es" for i by auto
    with Cons.IH [OF Cons.prems] True show ?thesis by (simp del: find.simps)
  next
    case fresh: False
    show ?thesis
    proof (cases "alive env (source e)")
      case True
      let ?live = "bt_insert (r_datasource_id e) (source e) live"
      have "(map_of live i = None \<longrightarrow>
          (\<forall>e'. find (\<lambda>e. r_datasource_id e = i \<and> is_active m e) (e # es) = Some e' \<longrightarrow> alive env (source e')))
        \<longleftrightarrow> (map_of ?live i = None \<longrightarrow>
          (\<forall>e'. find (\<lambda>e. r_datasource_id e = i \<and> is_active m e) es = Some e' \<longrightarrow> alive env (source e')))" for i
        using True fresh by (cases "i = r_datasource_id e") (auto simp: map_of_bt_insert [OF Cons.prems])
      moreover have "live_datasources env m (e # es) live = live_datasources env m es ?live"
        using True fresh by simp
      ultimately show ?thesis
        using Cons.IH [OF bt_invar_insert [OF Cons.prems], of "r_datasource_id e" "source e"]
        by (simp only:)
    next
      case False
      with fresh show ?thesis by auto
    qed
  qed
qed simp

lemma live_by_id_Ok_iff:
  "(\<exists>r. live_datasources_by_id env m = Ok r) \<longleftrightarrow> (\<forall>i\<in>active_ids m. resolves env m i)"
proof -
  have "registered_entry m i = Some e \<Longrightarrow> i \<in> active_ids m" for i e
    by (auto simp: registered_entry_def active_ids_def find_Some_iff)
  moreover have "i \<in> active_ids m \<Longrightarrow> registered_entry m i \<noteq> None" for i
    by (auto simp: registered_entry_None active_ids_def list_ex_iff)
  ultimately show ?thesis
    unfolding live_datasources_by_id_def
    by (subst live_datasources_Ok_iff)
      (simp, simp add: resolves_def flip: registered_entry_def, metis not_None_eq option.inject)
qed

lemma snapshot_all_iff:
  "snapshot_all sha256 cfg env rs = Ok es \<longleftrightarrow>
     list_all2 (\<lambda>r e. \<exists>s. try_snapshot env (snd r) = Ok s
        \<and> e = encode_snapshot sha256 (c_max_sql_statements cfg) (c_sql_text_policy cfg) s) rs es"
proof (induction rs arbitrary: es)
  case (Cons r rs)
  then show ?case
    by (cases r; cases "snapshot_all sha256 cfg env rs")
      (auto simp: list_all2_Cons1 split: result.split)
qed auto

lemma snapshot_all_Ok_iff:
  "(\<exists>es. snapshot_all sha256 cfg env rs = Ok es) \<longleftrightarrow> (\<forall>r\<in>set rs. is_ok (try_snapshot env (snd r)))"
proof (induction rs)
  case (Cons r rs)
  then show ?case by (cases r) (auto split: result.split)
qed simp

text \<open>An entry that encodes what a source answers.\<close>

definition entry_from :: "digest \<Rightarrow> command_config \<Rightarrow> sources_env \<Rightarrow> nat \<Rightarrow> SnapshotEntryMsg \<Rightarrow> bool" where
  "entry_from sha256 cfg env src e \<longleftrightarrow>
     (\<exists>s. try_snapshot env src = Ok s
        \<and> e = encode_snapshot sha256 (c_max_sql_statements cfg) (c_sql_text_policy cfg) s)"

text \<open>A full snapshot is complete or refused: with a positive batch size it succeeds exactly when
  the first active registration of every identifier is alive and gives a snapshot; then its batches, all
  marked full, none over the batch size and at least one, carry one entry for every active identifier,
  in ascending order.\<close>
theorem full_snapshot_complete_or_refused:
  "if c_batch_size cfg > 0
      \<and> (\<forall>i\<in>active_ids m. resolves env m i \<and> is_ok (try_snapshot env (source_of m i)))
   then \<exists>bs. full_snapshot sha256 cfg env m = Ok bs \<and> bs \<noteq> []
        \<and> list_all2 (\<lambda>i. entry_from sha256 cfg env (source_of m i))
            (sorted_list_of_set (active_ids m)) (concat (map entries bs))
        \<and> (\<forall>b\<in>set bs. is_full_snapshot b \<and> length (entries b) \<le> c_batch_size cfg)
   else \<exists>e. full_snapshot sha256 cfg env m = Err e"
proof (cases "c_batch_size cfg > 0
      \<and> (\<forall>i\<in>active_ids m. resolves env m i \<and> is_ok (try_snapshot env (source_of m i)))")
  case True
  then obtain r where r: "live_datasources_by_id env m = Ok r" using live_by_id_Ok_iff by metis
  have fin: "finite (active_ids m)" by (simp add: active_ids_def)
  note r' = live_by_id_Ok [OF r]
  obtain es where es: "snapshot_all sha256 cfg env r = Ok es"
    using True fin snapshot_all_Ok_iff [of sha256 cfg env r] by (auto simp: r')
  have es': "list_all2 (\<lambda>i. entry_from sha256 cfg env (source_of m i)) (sorted_list_of_set (active_ids m)) es"
    using es [unfolded snapshot_all_iff] unfolding entry_from_def by (simp add: r' list_all2_map1)
  have "concat (map entries (map full_batch (chunks (c_batch_size cfg) es))) = es"
    using True by (simp add: full_batch_def comp_def concat_chunks)
  moreover have "\<forall>b\<in>set (map full_batch (chunks (c_batch_size cfg) es)).
      is_full_snapshot b \<and> length (entries b) \<le> c_batch_size cfg"
    by (auto simp: full_batch_def dest: chunks_bounded)
  moreover have "es \<noteq> [] \<Longrightarrow> chunks (c_batch_size cfg) es \<noteq> []"
    using True by (simp add: chunks_step)
  ultimately have "\<exists>bs. full_snapshot sha256 cfg env m = Ok bs \<and> bs \<noteq> [] \<and> concat (map entries bs) = es
      \<and> (\<forall>b\<in>set bs. is_full_snapshot b \<and> length (entries b) \<le> c_batch_size cfg)"
    using True r es by (cases "es = []") (simp_all add: full_snapshot_def full_batch_def)
  with es' show ?thesis unfolding if_P [OF True] by blast
next
  case False
  show ?thesis
    unfolding if_not_P [OF False]
  proof (rule ccontr)
    assume "\<nexists>e. full_snapshot sha256 cfg env m = Err e"
    then obtain r es where size: "c_batch_size cfg > 0" and r: "live_datasources_by_id env m = Ok r"
      and es: "snapshot_all sha256 cfg env r = Ok es"
      by (auto simp: full_snapshot_def split: if_splits result.splits)
    have fin: "finite (active_ids m)" by (simp add: active_ids_def)
    have "\<forall>i\<in>active_ids m. resolves env m i" using r live_by_id_Ok_iff by blast
    moreover have "\<forall>i\<in>active_ids m. is_ok (try_snapshot env (source_of m i))"
      using es fin snapshot_all_Ok_iff [of sha256 cfg env r] live_by_id_Ok [OF r] by fastforce
    ultimately show False using False size by blast
  qed
qed

text \<open>No dropped registration lingers: in every interleaving of registrations, guard drops,
  listener turns, sampler sweeps and the final clearing, the published count is the length of the
  registry, and when no wake-up is queued or about to be queued every registered entry is still
  active; so a wake-up lost to a full channel is covered by one already in it.\<close>
theorem no_dropped_registration_lingers:
  assumes "cap > 0"
  shows "let m = foldl registry_step (registry_new cap) evs
     in registered_datasources m = length (registry m)
        \<and> (unregister_queue m = [] \<and> notifying m = [] \<longrightarrow> (\<forall>e\<in>set (registry m). is_active m e))"
  using registry_run_inv [OF assms, of evs] by (simp add: Let_def registrations_inv_def)

section \<open>The sampler\<close>

definition reports :: "sources_env \<Rightarrow> MetricsRegistry \<Rightarrow> RegistryEntry \<Rightarrow> bool" where
  "reports env m e \<longleftrightarrow> is_active m e \<and> alive env (source e) \<and> is_ok (try_snapshot env (source e))"

definition finished :: "sources_env \<Rightarrow> MetricsRegistry \<Rightarrow> RegistryEntry \<Rightarrow> bool" where
  "finished env m e \<longleftrightarrow>
     \<not> is_active m e \<or> \<not> alive env (source e) \<or> try_snapshot env (source e) = Err SourceClosed"

lemma sample_scan_open:
  assumes "\<forall>n. chan n = SendOk"
  shows "map datasource_id (sampled (sample_scan env chan m es r))
           = map datasource_id (sampled r) @ map r_datasource_id (filter (reports env m) es)
     \<and> set (dead_registrations (sample_scan env chan m es r))
           = set (dead_registrations r) \<union> token ` {e \<in> set es. finished env m e}"
proof (induction es arbitrary: r)
  case (Cons e es)
  show ?case
  proof (cases "try_snapshot env (source e)")
    case (Err x)
    with Cons.IH show ?thesis
      by (cases x) (auto simp: reports_def finished_def)
  qed (use assms Cons.IH in \<open>auto simp: reports_def finished_def\<close>)
qed simp


lemma filter_by_token:
  "distinct (map token es) \<Longrightarrow> filter (\<lambda>e. token e \<notin> token ` {e \<in> set es. P e}) es = filter (\<lambda>e. \<not> P e) es"
  by (rule filter_cong) (auto dest: inj_onD simp: distinct_map)

text \<open>A round with room in the channel samples every source that can answer, in registration order, and
  removes exactly the registrations that are withdrawn, dropped or closed.\<close>

theorem sampler_reports_live_sources:
  assumes "\<forall>n. chan n = SendOk" "distinct (map token (registry m))"
  shows "map datasource_id (sampled (fst (sample_all env chan m m)))
           = map r_datasource_id (filter (reports env m) (registry m))
     \<and> registry (snd (sample_all env chan m m)) = filter (\<lambda>e. \<not> finished env m e) (registry m)"
proof -
  let ?r = "sample_scan env chan m (registry m) round_start"
  note scan = sample_scan_open [OF assms(1), of env m "registry m" round_start]
  have dead: "set (dead_registrations ?r) = token ` {e \<in> set (registry m). finished env m e}"
    using scan by (simp add: round_start_def)
  then have "registry (sample_sweep (dead_registrations ?r) m) = filter (\<lambda>e. \<not> finished env m e) (registry m)"
  proof (cases "dead_registrations ?r = []")
    case True
    with dead have "\<forall>e\<in>set (registry m). \<not> finished env m e" by auto
    with True show ?thesis by (simp add: sample_sweep_def)
  next
    case False
    then show ?thesis
      by (simp add: sample_sweep_def retain_entries_def Let_def dead filter_by_token [OF assms(2)])
  qed
  with scan show ?thesis by (simp add: sample_all_def Let_def round_start_def)
qed

section \<open>Examples\<close>

definition sample_sources :: sources_env where
  "sample_sources = \<lparr>alive = (\<lambda>s. s = 5), try_snapshot = (\<lambda>_. Ok (snapshot (sample_snapshot 1 2)))\<rparr>"

definition sample_registry :: MetricsRegistry where
  "sample_registry = register 1 5 (registry_new 4)"

definition sample_command_config :: command_config where
  "sample_command_config = \<lparr>c_batch_size = 2, c_max_sql_statements = 1, c_sql_text_policy = Disabled\<rparr>"

lemma sample_registry_active: "active_ids sample_registry = {1}"
  by (auto simp: active_ids_def sample_registry_def register_def registry_new_def is_active_def)

lemma sample_resolves: "resolves sample_sources sample_registry 1"
  by (simp add: resolves_def registered_entry_def sample_sources_def sample_registry_def register_def
      registry_new_def is_active_def)

theorem reset_is_all_or_nothing_witness:
  "registry_reset_stats sample_sources sample_registry [1, 1]
     = (Ok (), map (source_of sample_registry) (sorted_list_of_set {1}))"
proof -
  have "[1, 1] \<noteq> ([] :: u64 list) \<and> (\<forall>i\<in>set [1, 1]. resolves sample_sources sample_registry i)"
    using sample_resolves by simp
  from reset_is_all_or_nothing [of "[1, 1]" sample_sources sample_registry, unfolded if_P [OF this]]
  show ?thesis by simp
qed

theorem full_snapshot_complete_or_refused_witness:
  "\<exists>bs. full_snapshot (\<lambda>b. b) sample_command_config sample_sources sample_registry = Ok bs \<and> bs \<noteq> []"
proof -
  have "c_batch_size sample_command_config > 0 \<and> (\<forall>i\<in>active_ids sample_registry.
      resolves sample_sources sample_registry i \<and> is_ok (try_snapshot sample_sources (source_of sample_registry i)))"
    unfolding sample_registry_active using sample_resolves
    by (simp add: sample_command_config_def) (simp add: sample_sources_def)
  from full_snapshot_complete_or_refused [of sample_command_config sample_registry sample_sources "\<lambda>b. b",
      unfolded if_P [OF this]]
  show ?thesis by blast
qed

theorem no_dropped_registration_lingers_witness:
  "let m = foldl registry_step (registry_new 1) [Register 1 5, GuardClear 1 0, GuardNotify 1, ListenerTurn]
   in registered_datasources m = length (registry m)
      \<and> (unregister_queue m = [] \<and> notifying m = [] \<longrightarrow> (\<forall>e\<in>set (registry m). is_active m e))"
  by (rule no_dropped_registration_lingers) simp

end
