(* ===== verification/Sanitizer.thy ===== *)
theory Sanitizer
  imports Snapshot_Encoder
begin

text \<open>
  The JSON sanitizer of the metrics exporter (\<open>sanitizer.rs\<close>): a payload with a password, token or
  secret anywhere is refused, and the fields the SQL text policy forbids are removed at every
  depth. A JSON object is the list of its fields in iteration order.
\<close>

section \<open>Definitions\<close>

datatype json =
    JNull
  | JBool bool
  | JNumber rust_str
  | JString rust_str
  | JArray "json list"
  | JObject "(rust_str \<times> json) list"

definition ALWAYS_SENSITIVE_FIELDS :: "rust_str list" where
  "ALWAYS_SENSITIVE_FIELDS = map lit [''password'', ''token'', ''secret'']"

definition BIND_VALUE_FIELDS :: "rust_str list" where
  "BIND_VALUE_FIELDS = map lit [''bind_values'', ''bindparameters'', ''bind_parameters'', ''args'', ''arguments'']"

text \<open>
  \<open>str::to_lowercase\<close> as far as a comparison with an ASCII word can see it: besides the ASCII letters
  only the Kelvin sign has an ASCII lower case (k), and the dotted capital I gives an i with a combining
  dot; every other character keeps a character outside ASCII.
\<close>

definition lower_char :: "nat \<Rightarrow> rust_str" where
  "lower_char c =
     (if 65 \<le> c \<and> c \<le> 90 then [c + 32] else if c = 8490 then [107]
      else if c = 304 then [105, 775] else [c])"

definition to_lowercase :: "rust_str \<Rightarrow> rust_str" where
  "to_lowercase s = concat (map lower_char s)"

definition sensitive_key :: "rust_str \<Rightarrow> bool" where
  "sensitive_key k \<longleftrightarrow> to_lowercase k \<in> set ALWAYS_SENSITIVE_FIELDS"

definition bind_value_key :: "rust_str \<Rightarrow> bool" where
  "bind_value_key k \<longleftrightarrow> to_lowercase k \<in> set BIND_VALUE_FIELDS"

text \<open>The error carries the offending field.\<close>

fun check_always_sensitive :: "json \<Rightarrow> (unit, rust_str) result"
  and check_fields :: "(rust_str \<times> json) list \<Rightarrow> (unit, rust_str) result"
  and check_items :: "json list \<Rightarrow> (unit, rust_str) result" where
  "check_always_sensitive (JObject m) =
     (case find sensitive_key (map fst m) of Some k \<Rightarrow> Err k | None \<Rightarrow> check_fields m)"
| "check_always_sensitive (JArray vs) = check_items vs"
| "check_always_sensitive JNull = Ok ()"
| "check_always_sensitive (JBool b) = Ok ()"
| "check_always_sensitive (JNumber n) = Ok ()"
| "check_always_sensitive (JString s) = Ok ()"
| "check_fields [] = Ok ()"
| "check_fields (f # fs) = (case check_always_sensitive (snd f) of Err k \<Rightarrow> Err k | Ok _ \<Rightarrow> check_fields fs)"
| "check_items [] = Ok ()"
| "check_items (v # vs) = (case check_always_sensitive v of Err k \<Rightarrow> Err k | Ok _ \<Rightarrow> check_items vs)"

text \<open>The SQL fields each of the three policies removes.\<close>

fun removed_sql_fields :: "SqlTextPolicy \<Rightarrow> rust_str list" where
  "removed_sql_fields Disabled = map lit [''sql'', ''raw_sql'', ''rawSql'', ''formatted_sql'', ''formattedSql'',
     ''fingerprint'', ''parameterized_sql'', ''parameterizedSql'']"
| "removed_sql_fields FingerprintOnly = map lit [''raw_sql'', ''rawSql'', ''formatted_sql'', ''formattedSql'', ''sql'']"
| "removed_sql_fields RawWithoutParameters = []"

definition strip_bind_value_fields :: "(rust_str \<times> json) list \<Rightarrow> (rust_str \<times> json) list" where
  "strip_bind_value_fields m = filter (\<lambda>f. \<not> bind_value_key (fst f)) m"

definition remove_fields :: "SqlTextPolicy \<Rightarrow> (rust_str \<times> json) list \<Rightarrow> (rust_str \<times> json) list" where
  "remove_fields policy m =
     strip_bind_value_fields (filter (\<lambda>f. fst f \<notin> set (removed_sql_fields policy)) m)"

lemma size_remove_fields:
  "size_list (\<lambda>f. Suc (size (snd f))) (remove_fields p m) \<le> size_list (\<lambda>f. Suc (size (snd f))) m"
  by (induction m) (auto simp: remove_fields_def strip_bind_value_fields_def)

function (sequential) sanitize :: "SqlTextPolicy \<Rightarrow> json \<Rightarrow> (json, rust_str) result"
  and sanitize_fields :: "SqlTextPolicy \<Rightarrow> (rust_str \<times> json) list \<Rightarrow> ((rust_str \<times> json) list, rust_str) result"
  and sanitize_items :: "SqlTextPolicy \<Rightarrow> json list \<Rightarrow> (json list, rust_str) result" where
  "sanitize p v =
     (case check_always_sensitive v of
        Err k \<Rightarrow> Err k
      | Ok _ \<Rightarrow>
          (case v of
             JObject m \<Rightarrow>
               (case sanitize_fields p (remove_fields p m) of Err k \<Rightarrow> Err k | Ok m' \<Rightarrow> Ok (JObject m'))
           | JArray vs \<Rightarrow> (case sanitize_items p vs of Err k \<Rightarrow> Err k | Ok vs' \<Rightarrow> Ok (JArray vs'))
           | other \<Rightarrow> Ok other))"
| "sanitize_fields p [] = Ok []"
| "sanitize_fields p (f # fs) =
     (case sanitize p (snd f) of
        Err k \<Rightarrow> Err k
      | Ok v \<Rightarrow> (case sanitize_fields p fs of Err k \<Rightarrow> Err k | Ok fs' \<Rightarrow> Ok ((fst f, v) # fs')))"
| "sanitize_items p [] = Ok []"
| "sanitize_items p (v # vs) =
     (case sanitize p v of
        Err k \<Rightarrow> Err k
      | Ok v' \<Rightarrow> (case sanitize_items p vs of Err k \<Rightarrow> Err k | Ok vs' \<Rightarrow> Ok (v' # vs')))"
  by pat_completeness auto

termination
  by (relation "measure (\<lambda>a. case a of
        Inl (_, v) \<Rightarrow> size v
      | Inr (Inl (_, fs)) \<Rightarrow> size_list (\<lambda>f. Suc (size (snd f))) fs
      | Inr (Inr (_, vs)) \<Rightarrow> size_list size vs)")
    (auto simp: size_prod_simp le_imp_less_Suc size_remove_fields split: prod.split)

declare sanitize.simps [simp del]

definition sanitize_payload :: "json \<Rightarrow> SqlTextPolicy \<Rightarrow> (json, rust_str) result" where
  "sanitize_payload v policy = sanitize policy v"

section \<open>What the sanitizer means to do\<close>

text \<open>The keys of a value at every depth, and the value without the fields a policy forbids.\<close>

fun all_keys :: "json \<Rightarrow> rust_str list" where
  "all_keys (JObject m) = map fst m @ concat (map (\<lambda>f. all_keys (snd f)) m)"
| "all_keys (JArray vs) = concat (map all_keys vs)"
| "all_keys _ = []"

definition forbidden_key :: "SqlTextPolicy \<Rightarrow> rust_str \<Rightarrow> bool" where
  "forbidden_key p k \<longleftrightarrow> k \<in> set (removed_sql_fields p) \<or> bind_value_key k"

fun prune :: "SqlTextPolicy \<Rightarrow> json \<Rightarrow> json" where
  "prune p (JObject m) =
     JObject (filter (\<lambda>f. \<not> forbidden_key p (fst f)) (map (\<lambda>f. (fst f, prune p (snd f))) m))"
| "prune p (JArray vs) = JArray (map (prune p) vs)"
| "prune p v = v"

definition clean :: "json \<Rightarrow> bool" where
  "clean v \<longleftrightarrow> (\<forall>k\<in>set (all_keys v). \<not> sensitive_key k)"

lemma remove_fields_filter: "remove_fields p m = filter (\<lambda>f. \<not> forbidden_key p (fst f)) m"
  by (induction m) (auto simp: remove_fields_def strip_bind_value_fields_def forbidden_key_def)

lemma check_spec:
  "clean v \<Longrightarrow> check_always_sensitive v = Ok ()"
  "\<forall>f\<in>set fs. clean (snd f) \<Longrightarrow> check_fields fs = Ok ()"
  "\<forall>v\<in>set vs. clean v \<Longrightarrow> check_items vs = Ok ()"
  by (induction v and fs and vs rule: check_always_sensitive_check_fields_check_items.induct)
    (auto simp: clean_def find_None_iff split: option.split)

lemma check_dirty:
  "\<not> clean v \<Longrightarrow> \<exists>k\<in>set (all_keys v). sensitive_key k \<and> check_always_sensitive v = Err k"
  "\<exists>f\<in>set fs. \<not> clean (snd f) \<Longrightarrow>
     \<exists>f\<in>set fs. \<exists>k\<in>set (all_keys (snd f)). sensitive_key k \<and> check_fields fs = Err k"
  "\<exists>v\<in>set vs. \<not> clean v \<Longrightarrow>
     \<exists>v\<in>set vs. \<exists>k\<in>set (all_keys v). sensitive_key k \<and> check_items vs = Err k"
proof (induction v and fs and vs rule: check_always_sensitive_check_fields_check_items.induct)
  case (1 m)
  show ?case
  proof (cases "find sensitive_key (map fst m)")
    case None
    then have "\<exists>f\<in>set m. \<not> clean (snd f)"
      using "1.prems" by (auto simp: clean_def find_None_iff)
    with "1.IH" None show ?thesis by fastforce
  next
    case (Some k)
    then have "sensitive_key k" "k \<in> fst ` set m" by (auto simp: find_Some_iff intro: imageI nth_mem)
    with Some show ?thesis by auto
  qed
next
  case (2 vs)
  then show ?case by (fastforce simp: clean_def)
next
  case (8 f fs)
  show ?case
  proof (cases "clean (snd f)")
    case True
    with 8 show ?thesis by (auto simp: check_spec)
  next
    case False
    with "8.IH"(1) show ?thesis by auto
  qed
next
  case (10 v vs)
  show ?case
  proof (cases "clean v")
    case True
    with 10 show ?thesis by (auto simp: check_spec)
  next
    case False
    with "10.IH"(1) show ?thesis by auto
  qed
qed (simp_all add: clean_def)

lemma clean_parts:
  "clean (JObject m) \<Longrightarrow> \<forall>f\<in>set (remove_fields p m). clean (snd f)"
  "clean (JArray vs) \<Longrightarrow> \<forall>v\<in>set vs. clean v"
  by (fastforce simp: clean_def remove_fields_filter)+

lemma sanitize_clean:
  "clean v \<Longrightarrow> sanitize p v = Ok (prune p v)"
  "\<forall>f\<in>set fs. clean (snd f) \<Longrightarrow> sanitize_fields p fs = Ok (map (\<lambda>f. (fst f, prune p (snd f))) fs)"
  "\<forall>v\<in>set vs. clean v \<Longrightarrow> sanitize_items p vs = Ok (map (prune p) vs)"
proof (induction p v and p fs and p vs rule: sanitize_sanitize_fields_sanitize_items.induct)
  case (1 p v)
  note ok = check_spec(1) [OF "1.prems"]
  show ?case
  proof (cases v)
    case (JArray vs)
    with "1.IH"(1) [OF ok JArray] "1.prems" clean_parts(2) ok show ?thesis
      by (subst sanitize.simps) auto
  next
    case (JObject m)
    with "1.IH"(2) [OF ok JObject] "1.prems" clean_parts(1) ok show ?thesis
      by (subst sanitize.simps) (auto simp: remove_fields_filter filter_map comp_def)
  qed (simp_all add: sanitize.simps ok)
qed simp_all


lemma all_keys_prune: "k \<in> set (all_keys (prune p v)) \<Longrightarrow> k \<in> set (all_keys v) \<and> \<not> forbidden_key p k"
proof (induction p v arbitrary: k rule: prune.induct)
  case (1 p m)
  from "1.prems" consider f where "f \<in> set m" "k = fst f" "\<not> forbidden_key p k"
    | f where "f \<in> set m" "k \<in> set (all_keys (prune p (snd f)))" by auto
  then show ?case
  proof cases
    case (2 f)
    with "1.IH" [OF 2] show ?thesis by auto
  qed auto
next
  case (2 p vs)
  then show ?case by auto
qed auto

lemma prune_prune: "prune p (prune p v) = prune p v"
proof (induction p v rule: prune.induct)
  case (1 p m)
  then show ?case by (auto simp: filter_map comp_def intro!: map_cong)
qed auto

text \<open>What leaves the sanitizer is safe at every depth: no key of the result is sensitive, forbidden by
  the policy or a listed bind-value name in any capitalisation; and sanitizing it again changes
  nothing.\<close>
theorem sanitized_payload_is_safe:
  assumes "sanitize_payload v p = Ok w"
  shows "(\<forall>k\<in>set (all_keys w). \<not> sensitive_key k \<and> k \<notin> set (removed_sql_fields p) \<and> \<not> bind_value_key k)
     \<and> sanitize_payload w p = Ok w"
proof -
  have clean: "clean v"
  proof (rule ccontr)
    assume "\<not> clean v"
    then obtain k where "check_always_sensitive v = Err k" using check_dirty(1) by blast
    then have "sanitize p v = Err k" by (subst sanitize.simps) simp
    with assms show False by (simp add: sanitize_payload_def)
  qed
  from sanitize_clean(1) [OF this, of p] assms have w: "w = prune p v"
    unfolding sanitize_payload_def by (metis result.inject(1))
  then have keys: "\<forall>k\<in>set (all_keys w). \<not> sensitive_key k \<and> \<not> forbidden_key p k"
    using all_keys_prune clean by (auto simp: clean_def)
  then have "sanitize p w = Ok (prune p w)"
    by (intro sanitize_clean(1)) (simp add: clean_def)
  moreover have "prune p w = w" by (simp only: w prune_prune)
  ultimately have "sanitize_payload w p = Ok w" by (simp add: sanitize_payload_def)
  with keys show ?thesis by (simp add: forbidden_key_def)
qed

lemmas key_defs = forbidden_key_def sensitive_key_def bind_value_key_def to_lowercase_def lower_char_def
  BIND_VALUE_FIELDS_def ALWAYS_SENSITIVE_FIELDS_def lit_def

definition sample_payload :: json where
  "sample_payload = JObject [(lit ''sql'', JString (lit ''select 1'')),
     (lit ''stats'', JArray [JObject [(lit ''Args'', JNull), (lit ''count'', JNumber (lit ''1''))]])]"

theorem sanitized_payload_is_safe_witness:
  "sanitize_payload (JObject [(lit ''stats'', JArray [JObject [(lit ''count'', JNumber (lit ''1''))]])]) Disabled
     = Ok (JObject [(lit ''stats'', JArray [JObject [(lit ''count'', JNumber (lit ''1''))]])])"
proof -
  have "clean sample_payload"
    by (simp add: clean_def sample_payload_def) (simp add: key_defs)
  moreover have "prune Disabled sample_payload
     = JObject [(lit ''stats'', JArray [JObject [(lit ''count'', JNumber (lit ''1''))]])]"
    by (simp add: sample_payload_def) (simp add: key_defs)
  ultimately have "sanitize_payload sample_payload Disabled
     = Ok (JObject [(lit ''stats'', JArray [JObject [(lit ''count'', JNumber (lit ''1''))]])])"
    by (metis sanitize_clean(1) sanitize_payload_def)
  from sanitized_payload_is_safe [OF this] show ?thesis by blast
qed

text \<open>Camel-case bind values are not recognised: the bind-value list has \<open>bind_values\<close> but not
  \<open>bindvalues\<close>, so a field \<open>bindValues\<close> with its statement arguments passes every policy unchanged.\<close>
theorem camel_case_bind_values_pass:
  "sanitize_payload (JObject [(lit ''bindValues'', JArray (map JString args))]) p
     = Ok (JObject [(lit ''bindValues'', JArray (map JString args))])"
proof -
  let ?v = "JObject [(lit ''bindValues'', JArray (map JString args))]"
  have keys: "all_keys ?v = [lit ''bindValues'']" by (simp add: comp_def)
  have "\<not> sensitive_key (lit ''bindValues'')" by (simp add: key_defs)
  moreover have "\<not> forbidden_key p (lit ''bindValues'')" by (cases p) (simp_all add: key_defs)
  moreover note keys
  ultimately have "clean ?v" "prune p ?v = ?v" by (simp_all add: clean_def comp_def)
  from sanitize_clean(1) [OF this(1), of p] this(2) show ?thesis
    unfolding sanitize_payload_def by metis
qed

end
