(* ===== verification/Jdbc_Datetime.thy ===== *)
theory Jdbc_Datetime
  imports Utf8
begin

text \<open>
  JDBC dates, times and timestamps (\<open>druid-rdbc/src/types/jdbc_datetime_ext.rs\<close> and \<open>timestamp.rs\<close>):
  the texts of \<open>toString\<close> and \<open>valueOf\<close>, the lenient field arithmetic of JDK 8, and the comparison
  of timestamps. The calendar is the crate \<open>chrono\<close> and the time zones are the crate \<open>jiff\<close>: both are
  records of functions, and what the code relies on is the predicate \<open>chrono_ok\<close>. The texts of
  errors are left out. A Rust integer is an \<open>int\<close> or \<open>nat\<close> with its range checks written out.
\<close>

section \<open>The calendar and the time zone\<close>

text \<open>
  \<open>Overflow\<close> stands for an arithmetic overflow, at which a build with overflow checks panics.
\<close>

datatype RdbcError = InvalidArgument | UnsupportedOperation rust_str | Overflow

record ('d, 't) chrono =
  from_ymd_opt :: "int \<Rightarrow> nat \<Rightarrow> nat \<Rightarrow> 'd option"
  year_of :: "'d \<Rightarrow> int"
  month_of :: "'d \<Rightarrow> nat"
  day_of :: "'d \<Rightarrow> nat"
  num_days_from_ce :: "'d \<Rightarrow> int"
  from_num_days_from_ce_opt :: "int \<Rightarrow> 'd option"
  checked_add_days :: "'d \<Rightarrow> int \<Rightarrow> 'd option"
  from_hms_nano_opt :: "nat \<Rightarrow> nat \<Rightarrow> nat \<Rightarrow> nat \<Rightarrow> 't option"
  hour_of :: "'t \<Rightarrow> nat"
  minute_of :: "'t \<Rightarrow> nat"
  second_of :: "'t \<Rightarrow> nat"
  nano_of :: "'t \<Rightarrow> nat"
  with_nanosecond :: "'t \<Rightarrow> nat \<Rightarrow> 't option"
  utc_in_range :: "int \<Rightarrow> nat \<Rightarrow> bool"

text \<open>A civil date and time for \<open>jiff\<close>, and an instant as its signed seconds and nanoseconds.\<close>

record civil =
  c_year :: int
  c_month :: nat
  c_day :: nat
  c_hour :: nat
  c_minute :: nat
  c_second :: nat
  c_nano :: nat

type_synonym jiff_instant = "int \<times> int"

datatype AmbiguousOffset = Unambiguous | Gap | Fold
datatype Disambiguation = Compatible | Later

text \<open>The process time zone, which may be missing (\<open>TZ\<close> names no zone).\<close>

record jiff =
  civil_ok :: "civil \<Rightarrow> bool"
  zone_ok :: bool
  ambiguous_offset :: "civil \<Rightarrow> AmbiguousOffset"
  disambiguate :: "civil \<Rightarrow> Disambiguation \<Rightarrow> jiff_instant option"
  instant_new :: "int \<Rightarrow> int \<Rightarrow> jiff_instant option"
  zoned_civil :: "jiff_instant \<Rightarrow> civil"

section \<open>Texts\<close>

definition in_i32 :: "int \<Rightarrow> bool" where
  "in_i32 n \<longleftrightarrow> - 2147483648 \<le> n \<and> n \<le> 2147483647"

definition in_i64 :: "int \<Rightarrow> bool" where
  "in_i64 n \<longleftrightarrow> - 9223372036854775808 \<le> n \<and> n \<le> 9223372036854775807"

text \<open>The format \<open>{:0w}\<close> of an unsigned number, and \<open>to_string\<close> of a signed one.\<close>

definition zero_pad :: "nat \<Rightarrow> nat \<Rightarrow> rust_str" where
  "zero_pad w n = replicate (w - length (decimal n)) 48 @ decimal n"

definition int_text :: "int \<Rightarrow> rust_str" where
  "int_text n = (if n < 0 then 45 # decimal (nat (- n)) else decimal (nat n))"

definition java_year_text :: "int \<Rightarrow> rust_str" where
  "java_year_text y = (if 0 \<le> y \<and> y < 1000 then zero_pad 4 (nat y) else int_text y)"

definition trim_end_zeros :: "rust_str \<Rightarrow> rust_str" where
  "trim_end_zeros s = rev (dropWhile (\<lambda>c. c = 48) (rev s))"

definition date_text :: "('d, 't) chrono \<Rightarrow> 'd \<Rightarrow> rust_str" where
  "date_text C d = java_year_text (year_of C d) @ [45] @ zero_pad 2 (month_of C d) @ [45] @ zero_pad 2 (day_of C d)"

definition time_text :: "('d, 't) chrono \<Rightarrow> 't \<Rightarrow> rust_str" where
  "time_text C t = zero_pad 2 (hour_of C t) @ [58] @ zero_pad 2 (minute_of C t) @ [58] @ zero_pad 2 (second_of C t)"

definition fraction_text :: "nat \<Rightarrow> rust_str" where
  "fraction_text nanos = (if nanos = 0 then lit ''0'' else trim_end_zeros (zero_pad 9 nanos))"

definition timestamp_text :: "('d, 't) chrono \<Rightarrow> 'd \<times> 't \<Rightarrow> rust_str" where
  "timestamp_text C dt =
     date_text C (fst dt) @ [32] @ time_text C (snd dt) @ [46] @ fraction_text (nano_of C (snd dt))"

text \<open>\<open>Integer.parseInt\<close>.\<close>

definition ascii_digit :: "nat \<Rightarrow> bool" where
  "ascii_digit c \<longleftrightarrow> 48 \<le> c \<and> c \<le> 57"

definition digits_value :: "rust_str \<Rightarrow> nat" where
  "digits_value ds = foldl (\<lambda>v c. v * 10 + (c - 48)) 0 ds"

definition java_parse_int :: "rust_str \<Rightarrow> (int, RdbcError) result" where
  "java_parse_int text =
     (let (negative, digits) =
        (case text of c # cs \<Rightarrow> if c = 45 then (True, cs) else if c = 43 then (False, cs) else (False, text)
                    | [] \<Rightarrow> (False, text))
      in if digits = [] \<or> \<not> list_all ascii_digit digits then Err InvalidArgument
         else if \<not> in_i64 (int (digits_value digits)) then Err InvalidArgument
         else let v = (if negative then - int (digits_value digits) else int (digits_value digits))
              in if in_i32 v then Ok v else Err InvalidArgument)"

section \<open>Lenient fields\<close>

definition normalize_java_datetime ::
  "('d, 't) chrono \<Rightarrow> int \<Rightarrow> int \<Rightarrow> int \<Rightarrow> int \<Rightarrow> int \<Rightarrow> int \<Rightarrow> nat \<Rightarrow> ('d \<times> 't, RdbcError) result" where
  "normalize_java_datetime C year month day hour minute sec nanos =
     (let year = year + month div 12;
          month = month mod 12 + 1
      in if \<not> in_i32 year then Err InvalidArgument
         else case from_ymd_opt C year (nat month) 1 of
           None \<Rightarrow> Err InvalidArgument
         | Some first_of_month \<Rightarrow>
           if \<not> in_i32 (day - 1) then Err Overflow
           else let days = num_days_from_ce C first_of_month + (day - 1) in
             if \<not> in_i32 days then Err InvalidArgument
             else case from_num_days_from_ce_opt C days of
               None \<Rightarrow> Err InvalidArgument
             | Some date \<Rightarrow>
               (let total_seconds = hour * 3600 + minute * 60 + sec;
                    day_shift = total_seconds div 86400;
                    remainder = nat (total_seconds mod 86400)
                in case checked_add_days C date day_shift of
                     None \<Rightarrow> Err InvalidArgument
                   | Some date' \<Rightarrow>
                     (case from_hms_nano_opt C (remainder div 3600) (remainder mod 3600 div 60) (remainder mod 60) nanos of
                        None \<Rightarrow> Err InvalidArgument
                      | Some t \<Rightarrow> Ok (date', t))))"

definition new_timestamp ::
  "('d, 't) chrono \<Rightarrow> int \<Rightarrow> int \<Rightarrow> int \<Rightarrow> int \<Rightarrow> int \<Rightarrow> int \<Rightarrow> int \<Rightarrow> ('d \<times> 't, RdbcError) result" where
  "new_timestamp C year month day hour minute sec nanos =
     (if \<not> (0 \<le> nanos \<and> nanos \<le> 999999999) then Err InvalidArgument
      else normalize_java_datetime C (year + 1900) month day hour minute sec (nat nanos))"

definition new_date :: "('d, 't) chrono \<Rightarrow> int \<Rightarrow> int \<Rightarrow> int \<Rightarrow> ('d, RdbcError) result" where
  "new_date C year month day =
     (case normalize_java_datetime C (year + 1900) month day 0 0 0 0 of Err e \<Rightarrow> Err e | Ok dt \<Rightarrow> Ok (fst dt))"

definition time_of_total :: "('d, 't) chrono \<Rightarrow> int \<Rightarrow> ('t, RdbcError) result" where
  "time_of_total C seconds =
     (let remainder = nat (seconds mod 86400)
      in case from_hms_nano_opt C (remainder div 3600) (remainder mod 3600 div 60) (remainder mod 60) 0 of
           None \<Rightarrow> Err InvalidArgument
         | Some t \<Rightarrow> Ok t)"

definition new_time :: "('d, 't) chrono \<Rightarrow> int \<Rightarrow> int \<Rightarrow> int \<Rightarrow> ('t, RdbcError) result" where
  "new_time C hour minute sec = time_of_total C (hour * 3600 + minute * 60 + sec)"

section \<open>Parsing\<close>

text \<open>\<open>str::len\<close> counts bytes.\<close>

definition byte_len :: "rust_str \<Rightarrow> nat" where
  "byte_len s = length (utf8_bytes s)"

text \<open>
  The two separators of \<open>a-b-c\<close> and \<open>a:b:c\<close>: the first must not be at the start, and something must
  follow the second.
\<close>

definition split3 :: "nat \<Rightarrow> rust_str \<Rightarrow> (rust_str \<times> rust_str \<times> rust_str) option" where
  "split3 sep s =
     (case position (\<lambda>c. c = sep) s of
        None \<Rightarrow> None
      | Some i \<Rightarrow>
          (case position (\<lambda>c. c = sep) (drop (i + 1) s) of
             None \<Rightarrow> None
           | Some j \<Rightarrow>
               let k = i + 1 + j in
               if i = 0 \<or> k = 0 \<or> k + 1 \<ge> length s then None
               else Some (take i s, drop (i + 1) (take k s), drop (k + 1) s)))"

definition parse_date_fields :: "rust_str \<Rightarrow> (int \<times> int \<times> int, RdbcError) result" where
  "parse_date_fields s =
     (case split3 45 s of
        None \<Rightarrow> Err InvalidArgument
      | Some (year_text, month_text, day_text) \<Rightarrow>
          if byte_len year_text \<noteq> 4 \<or> \<not> (1 \<le> byte_len month_text \<and> byte_len month_text \<le> 2)
             \<or> \<not> (1 \<le> byte_len day_text \<and> byte_len day_text \<le> 2)
          then Err InvalidArgument
          else case java_parse_int year_text of Err e \<Rightarrow> Err e | Ok year \<Rightarrow>
            (case java_parse_int month_text of Err e \<Rightarrow> Err e | Ok month \<Rightarrow>
              (case java_parse_int day_text of Err e \<Rightarrow> Err e | Ok day \<Rightarrow>
                 if \<not> (1 \<le> month \<and> month \<le> 12) \<or> \<not> (1 \<le> day \<and> day \<le> 31) then Err InvalidArgument
                 else Ok (year, month, day))))"

text \<open>The seconds field with an optional fraction.\<close>

definition parse_seconds :: "rust_str \<Rightarrow> (int \<times> int, RdbcError) result" where
  "parse_seconds s =
     (case position (\<lambda>c. c = 46) s of
        None \<Rightarrow> (case java_parse_int s of Err e \<Rightarrow> Err e | Ok sec \<Rightarrow> Ok (sec, 0))
      | Some p \<Rightarrow>
          if p > 0 \<and> p + 1 < length s then
            (case java_parse_int (take p s) of Err e \<Rightarrow> Err e | Ok sec \<Rightarrow>
               let fraction = drop (p + 1) s in
               if byte_len fraction > 9 then Err InvalidArgument
               else if \<not> ascii_digit (hd fraction) then Err InvalidArgument
               else (case java_parse_int (fraction @ replicate (9 - length fraction) 48) of
                       Err e \<Rightarrow> Err e | Ok nanos \<Rightarrow> Ok (sec, nanos)))
          else Err InvalidArgument)"

definition parse_jdbc_timestamp :: "('d, 't) chrono \<Rightarrow> rust_str \<Rightarrow> ('d \<times> 't, RdbcError) result" where
  "parse_jdbc_timestamp C v =
     (let trimmed = str_trim v in
      case position (\<lambda>c. c = 32) trimmed of
        None \<Rightarrow> Err InvalidArgument
      | Some sp \<Rightarrow>
          if sp = 0 then Err InvalidArgument
          else case parse_date_fields (take sp trimmed) of Err e \<Rightarrow> Err e | Ok (year, month, day) \<Rightarrow>
            (case split3 58 (drop (sp + 1) trimmed) of None \<Rightarrow> Err InvalidArgument | Some (h, m, rest) \<Rightarrow>
              (case java_parse_int h of Err e \<Rightarrow> Err e | Ok hour \<Rightarrow>
                (case java_parse_int m of Err e \<Rightarrow> Err e | Ok minute \<Rightarrow>
                  (case parse_seconds rest of Err e \<Rightarrow> Err e | Ok (sec, nanos) \<Rightarrow>
                     normalize_java_datetime C year (month - 1) day hour minute sec (nat nanos))))))"

definition parse_jdbc_date :: "('d, 't) chrono \<Rightarrow> rust_str \<Rightarrow> ('d, RdbcError) result" where
  "parse_jdbc_date C v =
     (case parse_date_fields v of Err e \<Rightarrow> Err e | Ok (year, month, day) \<Rightarrow>
        (case normalize_java_datetime C year (month - 1) day 0 0 0 0 of Err e \<Rightarrow> Err e | Ok dt \<Rightarrow> Ok (fst dt)))"

definition parse_jdbc_time :: "('d, 't) chrono \<Rightarrow> rust_str \<Rightarrow> ('t, RdbcError) result" where
  "parse_jdbc_time C v =
     (case split3 58 v of None \<Rightarrow> Err InvalidArgument | Some (h, m, s) \<Rightarrow>
        (case java_parse_int h of Err e \<Rightarrow> Err e | Ok hour \<Rightarrow>
          (case java_parse_int m of Err e \<Rightarrow> Err e | Ok minute \<Rightarrow>
            (case java_parse_int s of Err e \<Rightarrow> Err e | Ok sec \<Rightarrow>
               time_of_total C (hour * 3600 + minute * 60 + sec)))))"


section \<open>Instants\<close>

datatype Ordering = Less | Equal | Greater

definition cmp_int :: "int \<Rightarrow> int \<Rightarrow> Ordering" where
  "cmp_int a b = (if a < b then Less else if a = b then Equal else Greater)"

definition civil_of :: "('d, 't) chrono \<Rightarrow> 'd \<times> 't \<Rightarrow> civil" where
  "civil_of C dt =
     \<lparr>c_year = year_of C (fst dt), c_month = month_of C (fst dt), c_day = day_of C (fst dt),
      c_hour = hour_of C (snd dt), c_minute = minute_of C (snd dt), c_second = second_of C (snd dt),
      c_nano = nano_of C (snd dt)\<rparr>"

definition local_to_instant ::
  "('d, 't) chrono \<Rightarrow> jiff \<Rightarrow> 'd \<times> 't \<Rightarrow> (jiff_instant, RdbcError) result" where
  "local_to_instant C J dt =
     (let c = civil_of C dt in
      if \<not> (- 32768 \<le> c_year c \<and> c_year c \<le> 32767) \<or> \<not> civil_ok J c then Err InvalidArgument
      else if \<not> zone_ok J then Err InvalidArgument
      else case disambiguate J c (case ambiguous_offset J c of Fold \<Rightarrow> Later | _ \<Rightarrow> Compatible) of
             None \<Rightarrow> Err InvalidArgument
           | Some i \<Rightarrow> Ok i)"

definition jiff_to_chrono :: "('d, 't) chrono \<Rightarrow> civil \<Rightarrow> ('d \<times> 't, RdbcError) result" where
  "jiff_to_chrono C c =
     (case from_ymd_opt C (c_year c) (c_month c) (c_day c) of
        None \<Rightarrow> Err InvalidArgument
      | Some d \<Rightarrow>
          (case from_hms_nano_opt C (c_hour c) (c_minute c) (c_second c) (c_nano c) of
             None \<Rightarrow> Err InvalidArgument
           | Some t \<Rightarrow> Ok (d, t)))"

definition instant_to_local ::
  "('d, 't) chrono \<Rightarrow> jiff \<Rightarrow> jiff_instant \<Rightarrow> ('d \<times> 't, RdbcError) result" where
  "instant_to_local C J i =
     (if \<not> zone_ok J then Err InvalidArgument else jiff_to_chrono C (zoned_civil J i))"

definition millis_to_instant :: "jiff \<Rightarrow> int \<Rightarrow> (jiff_instant, RdbcError) result" where
  "millis_to_instant J millis =
     (case instant_new J (millis div 1000) (millis mod 1000 * 1000000) of
        None \<Rightarrow> Err InvalidArgument
      | Some i \<Rightarrow> Ok i)"

definition split_instant :: "jiff_instant \<Rightarrow> int \<times> nat" where
  "split_instant i =
     (if snd i < 0 then (fst i - 1, nat (snd i + 1000000000)) else (fst i, nat (snd i)))"

definition java_epoch_millis :: "int \<Rightarrow> nat \<Rightarrow> (int, RdbcError) result" where
  "java_epoch_millis seconds nanos =
     (if \<not> in_i64 (seconds * 1000) then Err InvalidArgument
      else if \<not> in_i64 (seconds * 1000 + int (nanos div 1000000)) then Err InvalidArgument
      else Ok (seconds * 1000 + int (nanos div 1000000)))"

definition compare_millis_then_nanos :: "int \<Rightarrow> nat \<Rightarrow> int \<Rightarrow> nat \<Rightarrow> Ordering" where
  "compare_millis_then_nanos this_millis this_nanos that_millis that_nanos =
     (case cmp_int this_millis that_millis of
        Equal \<Rightarrow> cmp_int (int this_nanos) (int that_nanos)
      | r \<Rightarrow> r)"

text \<open>Milliseconds and nanoseconds of a local time.\<close>

definition millis_and_nanos ::
  "('d, 't) chrono \<Rightarrow> jiff \<Rightarrow> 'd \<times> 't \<Rightarrow> (int \<times> nat, RdbcError) result" where
  "millis_and_nanos C J dt =
     (case local_to_instant C J dt of Err e \<Rightarrow> Err e | Ok i \<Rightarrow>
        (case split_instant i of (seconds, nanos) \<Rightarrow>
          (case java_epoch_millis seconds nanos of Err e \<Rightarrow> Err e | Ok millis \<Rightarrow> Ok (millis, nanos))))"

definition compare_to ::
  "('d, 't) chrono \<Rightarrow> jiff \<Rightarrow> 'd \<times> 't \<Rightarrow> 'd \<times> 't \<Rightarrow> (Ordering, RdbcError) result" where
  "compare_to C J a b =
     (case millis_and_nanos C J a of Err e \<Rightarrow> Err e | Ok (m, n) \<Rightarrow>
     (case millis_and_nanos C J b of Err e \<Rightarrow> Err e | Ok (m', n') \<Rightarrow>
        Ok (compare_millis_then_nanos m n m' n')))"

definition compare_to_date ::
  "('d, 't) chrono \<Rightarrow> jiff \<Rightarrow> 'd \<times> 't \<Rightarrow> 'd \<times> 't \<Rightarrow> (Ordering, RdbcError) result" where
  "compare_to_date C J a b =
     (case millis_and_nanos C J b of Err e \<Rightarrow> Err e | Ok (m', _) \<Rightarrow>
     (case millis_and_nanos C J a of Err e \<Rightarrow> Err e | Ok (m, n) \<Rightarrow>
        Ok (compare_millis_then_nanos m n m' (nat (m' mod 1000 * 1000000)))))"

definition after :: "('d, 't) chrono \<Rightarrow> jiff \<Rightarrow> 'd \<times> 't \<Rightarrow> 'd \<times> 't \<Rightarrow> (bool, RdbcError) result" where
  "after C J a b = (case compare_to C J a b of Err e \<Rightarrow> Err e | Ok r \<Rightarrow> Ok (r = Greater))"

definition before :: "('d, 't) chrono \<Rightarrow> jiff \<Rightarrow> 'd \<times> 't \<Rightarrow> 'd \<times> 't \<Rightarrow> (bool, RdbcError) result" where
  "before C J a b = (case compare_to C J a b of Err e \<Rightarrow> Err e | Ok r \<Rightarrow> Ok (r = Less))"

definition equals_timestamp :: "('d, 't) chrono \<Rightarrow> jiff \<Rightarrow> 'd \<times> 't \<Rightarrow> 'd \<times> 't \<Rightarrow> (bool, RdbcError) result" where
  "equals_timestamp C J a b =
     (case millis_and_nanos C J a of Err e \<Rightarrow> Err e | Ok (m, n) \<Rightarrow>
     (case millis_and_nanos C J b of Err e \<Rightarrow> Err e | Ok (m', n') \<Rightarrow> Ok (m = m' \<and> n = n')))"

definition get_time :: "('d, 't) chrono \<Rightarrow> jiff \<Rightarrow> 'd \<times> 't \<Rightarrow> (int, RdbcError) result" where
  "get_time C J dt = (case millis_and_nanos C J dt of Err e \<Rightarrow> Err e | Ok (m, _) \<Rightarrow> Ok m)"

definition hash_code :: "('d, 't) chrono \<Rightarrow> jiff \<Rightarrow> 'd \<times> 't \<Rightarrow> (int, RdbcError) result" where
  "hash_code C J dt =
     (case get_time C J dt of Err e \<Rightarrow> Err e | Ok millis \<Rightarrow>
        let bits = (of_int millis :: u64)
        in Ok (sint (ucast (Bit_Operations.xor bits (drop_bit 32 bits)) :: 32 word)))"

definition new_timestamp_from_millis ::
  "('d, 't) chrono \<Rightarrow> jiff \<Rightarrow> int \<Rightarrow> ('d \<times> 't, RdbcError) result" where
  "new_timestamp_from_millis C J millis =
     (case millis_to_instant J millis of Err e \<Rightarrow> Err e | Ok i \<Rightarrow> instant_to_local C J i)"

definition set_nanos :: "('d, 't) chrono \<Rightarrow> 'd \<times> 't \<Rightarrow> int \<Rightarrow> (unit, RdbcError) result \<times> ('d \<times> 't)" where
  "set_nanos C dt nanos =
     (if nanos < 0 \<or> nanos > 999999999 then (Err InvalidArgument, dt)
      else case with_nanosecond C (snd dt) (nat nanos) of
             None \<Rightarrow> (Err InvalidArgument, dt)
           | Some t \<Rightarrow> (Ok (), (fst dt, t)))"

text \<open>A \<open>DateTime<Utc>\<close> is its seconds and its unsigned nanoseconds.\<close>

definition to_instant :: "('d, 't) chrono \<Rightarrow> jiff \<Rightarrow> 'd \<times> 't \<Rightarrow> (int \<times> nat, RdbcError) result" where
  "to_instant C J dt =
     (case local_to_instant C J dt of
        Err e \<Rightarrow> Err e
      | Ok i \<Rightarrow>
          (case split_instant i of (seconds, nanos) \<Rightarrow>
             if utc_in_range C seconds nanos then Ok (seconds, nanos) else Err InvalidArgument))"

definition from_instant :: "('d, 't) chrono \<Rightarrow> jiff \<Rightarrow> int \<times> nat \<Rightarrow> ('d \<times> 't, RdbcError) result" where
  "from_instant C J instant =
     (case instant_new J (fst instant) (if snd instant \<le> 2147483647 then int (snd instant) else 2147483647) of
        None \<Rightarrow> Err InvalidArgument
      | Some i \<Rightarrow> instant_to_local C J i)"

definition set_time :: "('d, 't) chrono \<Rightarrow> jiff \<Rightarrow> 'd \<times> 't \<Rightarrow> int \<Rightarrow> (unit, RdbcError) result \<times> ('d \<times> 't)" where
  "set_time C J dt millis =
     (case millis_to_instant J millis of
        Err e \<Rightarrow> (Err e, dt)
      | Ok i \<Rightarrow> (case instant_to_local C J i of Err e \<Rightarrow> (Err e, dt) | Ok dt' \<Rightarrow> (Ok (), dt')))"

definition new_date_from_millis :: "('d, 't) chrono \<Rightarrow> jiff \<Rightarrow> int \<Rightarrow> ('d, RdbcError) result" where
  "new_date_from_millis C J millis =
     (case new_timestamp_from_millis C J millis of Err e \<Rightarrow> Err e | Ok dt \<Rightarrow> Ok (fst dt))"

definition new_time_from_millis :: "('d, 't) chrono \<Rightarrow> jiff \<Rightarrow> int \<Rightarrow> ('t, RdbcError) result" where
  "new_time_from_millis C J millis =
     (case new_timestamp_from_millis C J millis of Err e \<Rightarrow> Err e | Ok dt \<Rightarrow> Ok (snd dt))"

definition Date_to_instant :: "'d \<Rightarrow> (int \<times> nat, RdbcError) result" where
  "Date_to_instant d = Err (UnsupportedOperation (lit ''java.sql.Date#toInstant''))"

definition Time_to_instant :: "'t \<Rightarrow> (int \<times> nat, RdbcError) result" where
  "Time_to_instant t = Err (UnsupportedOperation (lit ''java.sql.Time#toInstant''))"


section \<open>The value type \<open>Timestamp\<close>\<close>

record ('d, 't) Timestamp =
  epoch_seconds :: int
  ts_nanos :: nat
  local_cache :: "'d \<times> 't"

text \<open>The casts \<open>as u32\<close> and \<open>as i32\<close>.\<close>

definition as_u32 :: "int \<Rightarrow> nat" where
  "as_u32 n = nat (n mod 4294967296)"

definition as_i32 :: "nat \<Rightarrow> int" where
  "as_i32 n = (if n < 2147483648 then int n else int n - 4294967296)"

definition Timestamp_from_instant ::
  "('d, 't) chrono \<Rightarrow> jiff \<Rightarrow> int \<Rightarrow> nat \<Rightarrow> (('d, 't) Timestamp, RdbcError) result" where
  "Timestamp_from_instant C J seconds nanos =
     (case instant_new J seconds (as_i32 nanos) of
        None \<Rightarrow> Err InvalidArgument
      | Some i \<Rightarrow>
          if \<not> zone_ok J then Err InvalidArgument
          else case jiff_to_chrono C (zoned_civil J i) of
                 Err e \<Rightarrow> Err e
               | Ok dt \<Rightarrow> Ok \<lparr>epoch_seconds = seconds, ts_nanos = nanos, local_cache = dt\<rparr>)"

definition Timestamp_from_millis ::
  "('d, 't) chrono \<Rightarrow> jiff \<Rightarrow> int \<Rightarrow> (('d, 't) Timestamp, RdbcError) result" where
  "Timestamp_from_millis C J millis =
     Timestamp_from_instant C J (millis div 1000) (as_u32 (millis mod 1000) * 1000000)"

definition Timestamp_from_local_date_time ::
  "('d, 't) chrono \<Rightarrow> jiff \<Rightarrow> 'd \<times> 't \<Rightarrow> (('d, 't) Timestamp, RdbcError) result" where
  "Timestamp_from_local_date_time C J dt =
     (case local_to_instant C J dt of
        Err e \<Rightarrow> Err e
      | Ok i \<Rightarrow> Timestamp_from_instant C J (fst i) (as_u32 (snd i)))"

definition Timestamp_to_local_date_time ::
  "('d, 't) chrono \<Rightarrow> jiff \<Rightarrow> ('d, 't) Timestamp \<Rightarrow> 'd \<times> 't" where
  "Timestamp_to_local_date_time C J ts =
     (if \<not> zone_ok J then local_cache ts
      else case instant_new J (epoch_seconds ts) (as_i32 (ts_nanos ts)) of
             None \<Rightarrow> local_cache ts
           | Some i \<Rightarrow> (case jiff_to_chrono C (zoned_civil J i) of Ok dt \<Rightarrow> dt | Err _ \<Rightarrow> local_cache ts))"

definition Timestamp_set_nanos ::
  "('d, 't) chrono \<Rightarrow> jiff \<Rightarrow> nat \<Rightarrow> ('d, 't) Timestamp \<Rightarrow> (unit, RdbcError) result \<times> ('d, 't) Timestamp" where
  "Timestamp_set_nanos C J nanos ts =
     (if nanos > 999999999 then (Err InvalidArgument, ts)
      else case Timestamp_from_instant C J (epoch_seconds ts) nanos of
             Err e \<Rightarrow> (Err e, ts)
           | Ok updated \<Rightarrow> (Ok (), updated))"

definition Timestamp_millis :: "('d, 't) Timestamp \<Rightarrow> (int, RdbcError) result" where
  "Timestamp_millis ts = java_epoch_millis (epoch_seconds ts) (ts_nanos ts)"

definition Timestamp_cmp :: "('d, 't) Timestamp \<Rightarrow> ('d, 't) Timestamp \<Rightarrow> Ordering" where
  "Timestamp_cmp a b =
     (case cmp_int (epoch_seconds a) (epoch_seconds b) of
        Equal \<Rightarrow> cmp_int (int (ts_nanos a)) (int (ts_nanos b))
      | r \<Rightarrow> r)"

text \<open>The fraction that \<open>Display\<close> prints.\<close>

definition Timestamp_fraction :: "('d, 't) Timestamp \<Rightarrow> rust_str" where
  "Timestamp_fraction ts =
     (let fraction = trim_end_zeros (zero_pad 9 (ts_nanos ts))
      in if fraction = [] then lit ''0'' else fraction)"

end
