(* ===== verification/Jdbc_Datetime_Properties.thy ===== *)
theory Jdbc_Datetime_Properties
  imports Jdbc_Datetime
begin

text \<open>
  What the JDBC date and time functions compute: the texts read back as what was printed, the
  lenient fields are linear arithmetic on days and seconds, comparison is the order of instants, and
  two defects of the code. \<open>chrono_ok\<close> states what the code relies on of the calendar crate.
\<close>

section \<open>The calendar's documented behaviour\<close>

definition valid_date :: "('d, 't) chrono \<Rightarrow> 'd \<Rightarrow> bool" where
  "valid_date C d \<longleftrightarrow> from_ymd_opt C (year_of C d) (month_of C d) (day_of C d) = Some d"

definition valid_time :: "('d, 't) chrono \<Rightarrow> 't \<Rightarrow> bool" where
  "valid_time C t \<longleftrightarrow> hour_of C t < 24 \<and> minute_of C t < 60 \<and> second_of C t < 60 \<and> nano_of C t < 1000000000
     \<and> from_hms_nano_opt C (hour_of C t) (minute_of C t) (second_of C t) (nano_of C t) = Some t"

text \<open>
  Constructors give valid values with the given fields; the days of a month are consecutive; the
  count of days is a bijection in the range of \<open>i32\<close>; adding days adds to the count.
\<close>

definition chrono_ok :: "('d, 't) chrono \<Rightarrow> bool" where
  "chrono_ok C \<longleftrightarrow>
     (\<forall>y m d x. from_ymd_opt C y m d = Some x \<longrightarrow> year_of C x = y \<and> month_of C x = m \<and> day_of C x = d)
     \<and> (\<forall>x. valid_date C x \<longrightarrow> 1 \<le> month_of C x \<and> month_of C x \<le> 12 \<and> 1 \<le> day_of C x \<and> day_of C x \<le> 31
          \<and> in_i32 (num_days_from_ce C x) \<and> from_num_days_from_ce_opt C (num_days_from_ce C x) = Some x
          \<and> (\<exists>first. from_ymd_opt C (year_of C x) (month_of C x) 1 = Some first
               \<and> num_days_from_ce C x = num_days_from_ce C first + int (day_of C x) - 1))
     \<and> (\<forall>n x. from_num_days_from_ce_opt C n = Some x \<longrightarrow> valid_date C x \<and> num_days_from_ce C x = n)
     \<and> (\<forall>x k. valid_date C x \<longrightarrow> checked_add_days C x k = from_num_days_from_ce_opt C (num_days_from_ce C x + k))
     \<and> (\<forall>h m s n. h < 24 \<and> m < 60 \<and> s < 60 \<and> n < 1000000000 \<longrightarrow>
          (\<exists>t. from_hms_nano_opt C h m s n = Some t \<and> valid_time C t
             \<and> hour_of C t = h \<and> minute_of C t = m \<and> second_of C t = s \<and> nano_of C t = n))"

lemma chrono_ymd: "chrono_ok C \<Longrightarrow> from_ymd_opt C y m d = Some x \<Longrightarrow> valid_date C x"
  unfolding chrono_ok_def valid_date_def by metis

lemma chrono_days:
  assumes "chrono_ok C" "valid_date C x"
  shows "1 \<le> month_of C x \<and> month_of C x \<le> 12 \<and> 1 \<le> day_of C x \<and> day_of C x \<le> 31"
    and "in_i32 (num_days_from_ce C x)" and "from_num_days_from_ce_opt C (num_days_from_ce C x) = Some x"
    and "\<exists>first. from_ymd_opt C (year_of C x) (month_of C x) 1 = Some first
           \<and> num_days_from_ce C x = num_days_from_ce C first + int (day_of C x) - 1"
  using assms unfolding chrono_ok_def by blast+

lemma chrono_from_days:
  "chrono_ok C \<Longrightarrow> from_num_days_from_ce_opt C n = Some x \<Longrightarrow> valid_date C x \<and> num_days_from_ce C x = n"
  unfolding chrono_ok_def by blast

lemma chrono_add: "chrono_ok C \<Longrightarrow> valid_date C x \<Longrightarrow>
    checked_add_days C x k = from_num_days_from_ce_opt C (num_days_from_ce C x + k)"
  unfolding chrono_ok_def by blast

lemma chrono_hms:
  assumes "chrono_ok C" "h < 24" "m < 60" "s < 60" "n < 1000000000"
  obtains t where "from_hms_nano_opt C h m s n = Some t" "valid_time C t"
    "hour_of C t = h" "minute_of C t = m" "second_of C t = s" "nano_of C t = n"
proof -
  from assms(1) have "\<forall>h m s n. h < 24 \<and> m < 60 \<and> s < 60 \<and> n < 1000000000 \<longrightarrow>
          (\<exists>t. from_hms_nano_opt C h m s n = Some t \<and> valid_time C t
             \<and> hour_of C t = h \<and> minute_of C t = m \<and> second_of C t = s \<and> nano_of C t = n)"
    unfolding chrono_ok_def by (elim conjE)
  from this [THEN spec, THEN spec, THEN spec, THEN spec, of h m s n] assms(2-5)
  have "\<exists>t. from_hms_nano_opt C h m s n = Some t \<and> valid_time C t
      \<and> hour_of C t = h \<and> minute_of C t = m \<and> second_of C t = s \<and> nano_of C t = n"
    by simp
  then show thesis using that by (elim exE conjE)
qed

section \<open>Digits\<close>

lemma digits_value_append: "digits_value (xs @ ys) = digits_value xs * 10 ^ length ys + digits_value ys"
proof -
  have fold: "foldl (\<lambda>v c. v * 10 + (c - 48)) a ys = a * 10 ^ length ys + digits_value ys" for a :: nat and ys
    by (induction ys rule: rev_induct) (simp_all add: digits_value_def algebra_simps)
  show ?thesis
    unfolding digits_value_def foldl_append by (rule fold [unfolded digits_value_def])
qed

lemma decimal_props:
  "digits_value (decimal n) = n \<and> list_all ascii_digit (decimal n) \<and> decimal n \<noteq> []"
proof (induction n rule: decimal.induct)
  case (1 n)
  show ?case
  proof (cases "n < 10")
    case True
    then show ?thesis by (simp add: decimal.simps [of n] digits_value_def ascii_digit_def)
  next
    case False
    have "digits_value [48 + n mod 10] = n mod 10" by (simp add: digits_value_def)
    with 1 [OF False] False show ?thesis
      by (simp add: decimal.simps [of n] digits_value_append ascii_digit_def)
  qed
qed

lemma length_decimal: "k > 0 \<Longrightarrow> n < 10 ^ k \<Longrightarrow> length (decimal n) \<le> k"
proof (induction n arbitrary: k rule: decimal.induct)
  case (1 n)
  show ?case
  proof (cases "n < 10")
    case True
    with "1.prems" show ?thesis by (simp add: decimal.simps [of n])
  next
    case False
    with "1.prems" obtain j where k: "k = Suc j" "j > 0" by (cases k; cases "k - 1") auto
    then have "n div 10 < 10 ^ j" using "1.prems" by (simp add: less_mult_imp_div_less mult.commute)
    from "1.IH" [OF False k(2) this] False k show ?thesis by (simp add: decimal.simps [of n])
  qed
qed

lemma decimal_lead: "n > 0 \<Longrightarrow> hd (decimal n) \<noteq> 48"
proof (induction n rule: decimal.induct)
  case (1 n)
  then show ?case
    using decimal_props [of "n div 10"] by (cases "n < 10") (auto simp: decimal.simps [of n])
qed

lemma digits_value_zeros: "digits_value (replicate k 48) = 0"
  by (induction k) (simp_all add: digits_value_def)

lemma zero_pad_props:
  "digits_value (zero_pad w n) = n" "list_all ascii_digit (zero_pad w n)" "zero_pad w n \<noteq> []"
  using decimal_props [of n]
  by (simp_all add: zero_pad_def digits_value_append digits_value_zeros)
    (simp add: list_all_iff ascii_digit_def set_replicate_conv_if)

lemma length_zero_pad: "w > 0 \<Longrightarrow> n < 10 ^ w \<Longrightarrow> length (zero_pad w n) = w"
  using length_decimal [of w n] by (simp add: zero_pad_def)

lemma parse_digits:
  assumes "list_all ascii_digit ds" "ds \<noteq> []" "digits_value ds \<le> 2147483647"
  shows "java_parse_int ds = Ok (int (digits_value ds))"
proof -
  obtain c cs where "ds = c # cs" using assms(2) by (cases ds) auto
  with assms show ?thesis
    by (simp add: java_parse_int_def in_i64_def in_i32_def ascii_digit_def)
qed

lemma parse_zero_pad: "n \<le> 2147483647 \<Longrightarrow> java_parse_int (zero_pad w n) = Ok (int n)"
  using parse_digits [of "zero_pad w n"] by (simp add: zero_pad_props)

lemma byte_len_digits: "list_all ascii_digit ds \<Longrightarrow> byte_len ds = length ds"
  by (induction ds) (auto simp: byte_len_def utf8_bytes_def utf8_char_def ascii_digit_def)

section \<open>Splitting\<close>

lemma position_append:
  "\<forall>x\<in>set xs. \<not> P x \<Longrightarrow> P y \<Longrightarrow> position P (xs @ y # ys) = Some (length xs)"
  by (induction xs) auto

lemma split3_join:
  assumes "sep \<notin> set a" "sep \<notin> set b" "a \<noteq> []" "c \<noteq> []"
  shows "split3 sep (a @ sep # b @ sep # c) = Some (a, b, c)"
proof -
  have i: "position (\<lambda>x. x = sep) (a @ sep # b @ sep # c) = Some (length a)"
    using assms by (intro position_append) auto
  have j: "position (\<lambda>x. x = sep) (b @ sep # c) = Some (length b)"
    using assms by (intro position_append) auto
  show ?thesis
    using i j assms by (simp add: split3_def Let_def)
qed

lemma digits_no: "list_all ascii_digit ds \<Longrightarrow> c < 48 \<or> 57 < c \<Longrightarrow> c \<notin> set ds"
  by (auto simp: list_all_iff ascii_digit_def)


section \<open>Lenient fields are linear\<close>

definition seconds_of_day :: "('d, 't) chrono \<Rightarrow> 't \<Rightarrow> int" where
  "seconds_of_day C t = int (hour_of C t) * 3600 + int (minute_of C t) * 60 + int (second_of C t)"

lemma seconds_split:
  fixes r :: nat
  assumes "r < 86400"
  shows "r div 3600 < 24" "r mod 3600 div 60 < 60" "r mod 60 < 60"
    and "int (r div 3600) * 3600 + int (r mod 3600 div 60) * 60 + int (r mod 60) = int r"
proof -
  show "r div 3600 < 24" "r mod 3600 div 60 < 60" "r mod 60 < 60"
    using assms by (simp_all add: less_mult_imp_div_less)
  have "r = r div 3600 * 3600 + r mod 3600" "r mod 3600 = r mod 3600 div 60 * 60 + r mod 3600 mod 60"
    by simp_all
  moreover have "r mod 3600 mod 60 = r mod 60" by (simp add: mod_mod_cancel)
  ultimately have "r = r div 3600 * 3600 + (r mod 3600 div 60 * 60 + r mod 60)" by simp
  then show "int (r div 3600) * 3600 + int (r mod 3600 div 60) * 60 + int (r mod 60) = int r"
    by linarith
qed

lemma time_of_remainder:
  assumes "chrono_ok C" "nanos < 1000000000" "0 \<le> r" "r < 86400"
  obtains t where "from_hms_nano_opt C (nat r div 3600) (nat r mod 3600 div 60) (nat r mod 60) nanos = Some t"
    "valid_time C t" "seconds_of_day C t = r" "nano_of C t = nanos"
proof -
  have r: "nat r < 86400" using assms by simp
  note split = seconds_split [OF r]
  from chrono_hms [OF assms(1) split(1,2,3) assms(2)] obtain t where t:
    "from_hms_nano_opt C (nat r div 3600) (nat r mod 3600 div 60) (nat r mod 60) nanos = Some t"
    "valid_time C t" "hour_of C t = nat r div 3600" "minute_of C t = nat r mod 3600 div 60"
    "second_of C t = nat r mod 60" "nano_of C t = nanos" by metis
  then have "seconds_of_day C t = r"
    using split(4) assms(3) by (simp add: seconds_of_day_def)
  with t that show thesis by blast
qed

text \<open>C38. Out-of-range fields carry over exactly: when the constructor accepts its fields, the date and
  time it returns are the first of the named month (with months carried into years) plus the day
  offset and the seconds, counted on one linear scale, with the nanoseconds kept.\<close>
theorem lenient_fields_are_linear:
  assumes "chrono_ok C" and "nanos < 1000000000"
    and "normalize_java_datetime C year month day hour minute sec nanos = Ok (d, t)"
  shows "\<exists>first. from_ymd_opt C (year + month div 12) (nat (month mod 12 + 1)) 1 = Some first
     \<and> valid_date C d \<and> valid_time C t \<and> nano_of C t = nanos
     \<and> num_days_from_ce C d * 86400 + seconds_of_day C t
         = (num_days_from_ce C first + day - 1) * 86400 + hour * 3600 + minute * 60 + sec"
proof -
  let ?total = "hour * 3600 + minute * 60 + sec"
  obtain first date where first: "from_ymd_opt C (year + month div 12) (nat (month mod 12 + 1)) 1 = Some first"
    and date: "from_num_days_from_ce_opt C (num_days_from_ce C first + (day - 1)) = Some date"
    and add: "checked_add_days C date (?total div 86400) = Some d"
    and time: "from_hms_nano_opt C (nat (?total mod 86400) div 3600) (nat (?total mod 86400) mod 3600 div 60)
        (nat (?total mod 86400) mod 60) nanos = Some t"
    using assms(3) by (auto simp: normalize_java_datetime_def Let_def split: if_splits option.splits)
  note date' = chrono_from_days [OF assms(1) date]
  have "from_num_days_from_ce_opt C (num_days_from_ce C date + ?total div 86400) = Some d"
    using add chrono_add [OF assms(1)] date' by metis
  note d = chrono_from_days [OF assms(1) this]
  obtain t' where "from_hms_nano_opt C (nat (?total mod 86400) div 3600) (nat (?total mod 86400) mod 3600 div 60)
        (nat (?total mod 86400) mod 60) nanos = Some t'" "valid_time C t'"
    "seconds_of_day C t' = ?total mod 86400" "nano_of C t' = nanos"
    using time_of_remainder [OF assms(1,2), of "?total mod 86400"] by auto
  with time have t: "valid_time C t" "seconds_of_day C t = ?total mod 86400" "nano_of C t = nanos" by simp_all
  have "?total div 86400 * 86400 + ?total mod 86400 = ?total" by simp
  moreover have "num_days_from_ce C d = num_days_from_ce C first + (day - 1) + ?total div 86400"
    using d date' by simp
  moreover have "x * 86400 + r = (f + day - 1) * 86400 + hour * 3600 + minute * 60 + sec"
    if "q * 86400 + r = ?total" "x = f + (day - 1) + q" for x q r f :: int
    using that by simp
  ultimately have "num_days_from_ce C d * 86400 + seconds_of_day C t
      = (num_days_from_ce C first + day - 1) * 86400 + hour * 3600 + minute * 60 + sec"
    unfolding t(2) by blast
  with d t first show ?thesis by blast
qed

section \<open>Reading back\<close>

lemma int_hms_div:
  assumes "h < 24" "m < 60" "s < (60 :: nat)"
  shows "nat (int h * 3600 + int m * 60 + int s) = h * 3600 + m * 60 + s"
    and "(int h * 3600 + int m * 60 + int s) mod 86400 = int h * 3600 + int m * 60 + int s"
    and "(int h * 3600 + int m * 60 + int s) div 86400 = 0"
  using assms by auto

lemma hms_split:
  assumes "h < 24" "m < 60" "s < (60 :: nat)"
  shows "(h * 3600 + m * 60 + s) div 3600 = h" "(h * 3600 + m * 60 + s) mod 3600 div 60 = m"
    "(h * 3600 + m * 60 + s) mod 60 = s"
proof -
  have "m * 60 + s < 3600" using assms by simp
  then show "(h * 3600 + m * 60 + s) div 3600 = h" by simp
  have "(h * 3600 + m * 60 + s) mod 3600 = m * 60 + s"
    using \<open>m * 60 + s < 3600\<close> by (simp add: add.assoc)
  then show "(h * 3600 + m * 60 + s) mod 3600 div 60 = m" using assms by simp
  have "h * 3600 + m * 60 + s = (h * 60 + m) * 60 + s" by simp
  then show "(h * 3600 + m * 60 + s) mod 60 = s" using assms by (metis mod_less mod_mult_self3)
qed

lemma normalize_valid:
  assumes "chrono_ok C" "valid_date C d" "valid_time C t" "in_i32 (year_of C d)"
  shows "normalize_java_datetime C (year_of C d) (int (month_of C d) - 1) (int (day_of C d))
    (int (hour_of C t)) (int (minute_of C t)) (int (second_of C t)) (nano_of C t) = Ok (d, t)"
proof -
  note days = chrono_days [OF assms(1,2)]
  obtain first where first: "from_ymd_opt C (year_of C d) (month_of C d) 1 = Some first"
    and num: "num_days_from_ce C d = num_days_from_ce C first + int (day_of C d) - 1"
    using days(4) by blast
  have month: "(int (month_of C d) - 1) div 12 = 0" "nat ((int (month_of C d) - 1) mod 12 + 1) = month_of C d"
    using days(1) by auto
  have day: "in_i32 (int (day_of C d) - 1)" using days(1) by (simp add: in_i32_def)
  have "num_days_from_ce C first + (int (day_of C d) - 1) = num_days_from_ce C d" using num by simp
  moreover have "checked_add_days C d 0 = Some d"
    using chrono_add [OF assms(1,2), of 0] days(3) by simp
  moreover have t: "hour_of C t < 24" "minute_of C t < 60" "second_of C t < 60"
    "from_hms_nano_opt C (hour_of C t) (minute_of C t) (second_of C t) (nano_of C t) = Some t"
    using assms(3) by (simp_all add: valid_time_def)
  ultimately show ?thesis
    using assms(4) first month day days(2,3)
    by (simp add: normalize_java_datetime_def Let_def int_hms_div [OF t(1,2,3)] hms_split [OF t(1,2,3)])
qed

lemma digits_value_less: "list_all ascii_digit ds \<Longrightarrow> digits_value ds < 10 ^ length ds"
proof (induction ds rule: rev_induct)
  case (snoc x xs)
  then have "digits_value xs < 10 ^ length xs" "x - 48 \<le> 9" by (auto simp: ascii_digit_def)
  moreover have "digits_value (xs @ [x]) = digits_value xs * 10 + (x - 48)" by (simp add: digits_value_def)
  ultimately show ?case by simp
qed (simp add: digits_value_def)

lemma year_text:
  assumes "0 \<le> y" "y \<le> 9999"
  shows "java_year_text y = zero_pad 4 (nat y)"
proof (cases "y < 1000")
  case False
  have "length (decimal (nat y)) = 4"
  proof (rule antisym)
    show "length (decimal (nat y)) \<le> 4" using assms by (intro length_decimal) auto
    have "\<not> length (decimal (nat y)) \<le> 3"
    proof
      assume "length (decimal (nat y)) \<le> 3"
      have "nat y < 10 ^ length (decimal (nat y))"
        using decimal_props [of "nat y"] digits_value_less [of "decimal (nat y)"] by metis
      also have "\<dots> \<le> 10 ^ 3"
        using \<open>length (decimal (nat y)) \<le> 3\<close> by (intro power_increasing) auto
      finally have "nat y < 10 ^ 3" .
      with False show False by simp
    qed
    then show "4 \<le> length (decimal (nat y))" by simp
  qed
  with False assms show ?thesis by (simp add: java_year_text_def int_text_def zero_pad_def)
qed (use assms in \<open>simp add: java_year_text_def\<close>)


lemma date_fields_text:
  assumes "0 \<le> y" "y \<le> 9999" "1 \<le> m" "m \<le> 12" "1 \<le> d" "d \<le> 31"
  shows "parse_date_fields (java_year_text y @ [45] @ zero_pad 2 m @ [45] @ zero_pad 2 d) = Ok (y, int m, int d)"
proof -
  have "split3 45 (zero_pad 4 (nat y) @ 45 # zero_pad 2 m @ 45 # zero_pad 2 d)
      = Some (zero_pad 4 (nat y), zero_pad 2 m, zero_pad 2 d)"
    by (rule split3_join) (simp_all add: zero_pad_props digits_no)
  moreover have "length (zero_pad 4 (nat y)) = 4" "length (zero_pad 2 m) = 2" "length (zero_pad 2 d) = 2"
    using assms by (auto intro!: length_zero_pad)
  ultimately show ?thesis
    using assms
    by (simp add: year_text parse_date_fields_def byte_len_digits zero_pad_props parse_zero_pad)
qed

lemma trim_end_zeros_append: "\<exists>k. s = trim_end_zeros s @ replicate k 48"
proof -
  have "takeWhile (\<lambda>c. c = 48) (rev s) = replicate (length (takeWhile (\<lambda>c. c = 48) (rev s))) 48"
    by (rule replicate_length_same [symmetric]) (auto dest: set_takeWhileD)
  then have "rev s = replicate (length (takeWhile (\<lambda>c. c = 48) (rev s))) 48 @ dropWhile (\<lambda>c. c = 48) (rev s)"
    by (metis takeWhile_dropWhile_id)
  then have "s = rev (dropWhile (\<lambda>c. c = 48) (rev s)) @ replicate (length (takeWhile (\<lambda>c. c = 48) (rev s))) 48"
    by (metis rev_append rev_replicate rev_rev_ident)
  then show ?thesis unfolding trim_end_zeros_def by blast
qed

lemma fraction_text_padded:
  assumes "n < 1000000000"
  shows "fraction_text n @ replicate (9 - length (fraction_text n)) 48 = zero_pad 9 n"
    and "fraction_text n \<noteq> []" and "length (fraction_text n) \<le> 9"
proof -
  have len: "length (zero_pad 9 n) = 9" using assms by (intro length_zero_pad) auto
  have "fraction_text n @ replicate (9 - length (fraction_text n)) 48 = zero_pad 9 n \<and> fraction_text n \<noteq> []
      \<and> length (fraction_text n) \<le> 9"
  proof (cases "n = 0")
    case True
    have "decimal 0 = [48]" by (simp add: decimal.simps)
    with True show ?thesis by (simp add: fraction_text_def zero_pad_def lit_def numeral_eq_Suc)
  next
    case False
    obtain k where k: "zero_pad 9 n = trim_end_zeros (zero_pad 9 n) @ replicate k 48"
      using trim_end_zeros_append by blast
    then have "length (trim_end_zeros (zero_pad 9 n)) + k = 9" using len by (metis length_append length_replicate)
    then have k': "k = 9 - length (trim_end_zeros (zero_pad 9 n))" "length (trim_end_zeros (zero_pad 9 n)) \<le> 9" by simp_all
    have "trim_end_zeros (zero_pad 9 n) \<noteq> []"
    proof
      assume "trim_end_zeros (zero_pad 9 n) = []"
      with k have "zero_pad 9 n = replicate k 48" by simp
      then have "digits_value (zero_pad 9 n) = 0" by (simp add: digits_value_zeros)
      with False show False by (simp add: zero_pad_props)
    qed
    with False k k' show ?thesis by (simp add: fraction_text_def)
  qed
  then show "fraction_text n @ replicate (9 - length (fraction_text n)) 48 = zero_pad 9 n"
    "fraction_text n \<noteq> []" "length (fraction_text n) \<le> 9" by simp_all
qed

lemma fraction_digits:
  assumes "n < 1000000000"
  shows "list_all ascii_digit (fraction_text n)"
proof -
  have "list_all ascii_digit (fraction_text n @ replicate (9 - length (fraction_text n)) 48)"
    by (simp only: fraction_text_padded [OF assms] zero_pad_props)
  then show ?thesis by simp
qed

lemma parse_seconds_text:
  assumes "s < 60" "n < 1000000000"
  shows "parse_seconds (zero_pad 2 s @ [46] @ fraction_text n) = Ok (int s, int n)"
proof -
  let ?f = "fraction_text n"
  note f = fraction_text_padded [OF assms(2)] fraction_digits [OF assms(2)]
  have p: "position (\<lambda>c. c = 46) (zero_pad 2 s @ 46 # ?f) = Some (length (zero_pad 2 s))"
  proof (rule position_append)
    have "46 \<notin> set (zero_pad 2 s)" by (rule digits_no [OF zero_pad_props(2)]) simp
    then show "\<forall>x\<in>set (zero_pad 2 s). x \<noteq> 46" by auto
  qed simp
  have "ascii_digit (hd ?f)" using f(2,4) by (cases ?f) auto
  with p f show ?thesis
    using assms zero_pad_props(3) [of 2 s]
    by (simp add: parse_seconds_def byte_len_digits parse_zero_pad Let_def)
qed

lemma str_trim_id:
  assumes "s \<noteq> []" "\<not> char_is_whitespace (hd s)" "\<not> char_is_whitespace (last s)"
  shows "str_trim s = s"
proof -
  have "dropWhile char_is_whitespace s = s" using assms(1,2) by (cases s) auto
  moreover have "dropWhile char_is_whitespace (rev s) = rev s"
    using assms(1,3) by (cases s rule: rev_cases) auto
  ultimately show ?thesis by (simp add: str_trim_def)
qed

lemma digit_not_space: "ascii_digit c \<Longrightarrow> \<not> char_is_whitespace c"
  by (simp add: ascii_digit_def char_is_whitespace_def)

text \<open>C37. A timestamp reads back as what was printed: for every valid date of the years 0 to 9999 and every
  valid time, down to the nanosecond, parsing the JDBC text gives the same value.\<close>
theorem timestamp_text_round_trip:
  assumes "chrono_ok C" and "valid_date C d" and "valid_time C t"
    and "0 \<le> year_of C d" and "year_of C d \<le> 9999"
  shows "parse_jdbc_timestamp C (timestamp_text C (d, t)) = Ok (d, t)"
proof -
  note days = chrono_days [OF assms(1,2)]
  have time: "hour_of C t < 24" "minute_of C t < 60" "second_of C t < 60" "nano_of C t < 1000000000"
    using assms(3) by (simp_all add: valid_time_def)
  let ?date = "date_text C d" and ?f = "fraction_text (nano_of C t)"
  let ?h = "zero_pad 2 (hour_of C t)" and ?m = "zero_pad 2 (minute_of C t)" and ?s = "zero_pad 2 (second_of C t)"
  have shape: "timestamp_text C (d, t) = ?date @ 32 # ?h @ 58 # ?m @ 58 # ?s @ [46] @ ?f"
    by (simp add: timestamp_text_def time_text_def)
  have year: "java_year_text (year_of C d) = zero_pad 4 (nat (year_of C d))"
    using assms(4,5) by (rule year_text)
  then have date: "set ?date \<inter> {32} = {}" "?date \<noteq> []" "ascii_digit (hd ?date)"
    using zero_pad_props(2,3) [of 4 "nat (year_of C d)"] zero_pad_props(2) [of 2 "month_of C d"]
      zero_pad_props(2) [of 2 "day_of C d"]
    by (auto simp: date_text_def list_all_iff ascii_digit_def hd_append)
  have "ascii_digit (last ?f)"
    using fraction_digits [OF time(4)] fraction_text_padded(2) [OF time(4)]
    by (simp add: list_all_iff)
  then have trim: "str_trim (timestamp_text C (d, t)) = timestamp_text C (d, t)"
    unfolding shape using date fraction_text_padded(2) [OF time(4)]
    by (intro str_trim_id) (auto simp: digit_not_space)
  have sp: "position (\<lambda>c. c = 32) (timestamp_text C (d, t)) = Some (length ?date)"
    unfolding shape using date by (intro position_append) auto
  have fields: "parse_date_fields ?date = Ok (year_of C d, int (month_of C d), int (day_of C d))"
    using date_fields_text [OF assms(4,5), of "month_of C d" "day_of C d"] days(1)
    by (simp add: date_text_def)
  have hms: "split3 58 (?h @ 58 # ?m @ 58 # ?s @ [46] @ ?f) = Some (?h, ?m, ?s @ [46] @ ?f)"
    by (rule split3_join) (simp_all add: zero_pad_props digits_no)
  have "in_i32 (year_of C d)" using assms(4,5) by (simp add: in_i32_def)
  note norm = normalize_valid [OF assms(1-3) this]
  have "?date \<noteq> []" using date by simp
  moreover have "take (length ?date) (timestamp_text C (d, t)) = ?date"
    "drop (length ?date + 1) (timestamp_text C (d, t)) = ?h @ 58 # ?m @ 58 # ?s @ [46] @ ?f"
    unfolding shape by simp_all
  ultimately show ?thesis
    using sp fields hms parse_seconds_text [OF time(3,4)] time norm
    unfolding parse_jdbc_timestamp_def trim Let_def by (simp add: parse_zero_pad)
qed

text \<open>The same for dates and times alone.\<close>

theorem date_text_round_trip:
  assumes "chrono_ok C" and "valid_date C d" and "0 \<le> year_of C d" and "year_of C d \<le> 9999"
  shows "parse_jdbc_date C (date_text C d) = Ok d"
proof -
  obtain t where t: "from_hms_nano_opt C 0 0 0 0 = Some t" "valid_time C t" "hour_of C t = 0" "minute_of C t = 0"
    "second_of C t = 0" "nano_of C t = 0"
    using chrono_hms [OF assms(1), of 0 0 0 0] by auto
  have "in_i32 (year_of C d)" using assms(3,4) by (simp add: in_i32_def)
  note norm = normalize_valid [OF assms(1,2) t(2) this]
  show ?thesis
    using norm t date_fields_text [OF assms(3,4), of "month_of C d" "day_of C d"] chrono_days(1) [OF assms(1,2)]
    by (simp add: parse_jdbc_date_def date_text_def)
qed


section \<open>Instants\<close>

definition instant_nanos :: "jiff_instant \<Rightarrow> int" where
  "instant_nanos i = fst i * 1000000000 + snd i"

definition subsecond :: "jiff_instant \<Rightarrow> bool" where
  "subsecond i \<longleftrightarrow> - 1000000000 < snd i \<and> snd i < 1000000000"

lemma split_instant_nanos:
  "subsecond i \<Longrightarrow> split_instant i = (s, n) \<Longrightarrow> n < 1000000000 \<and> s * 1000000000 + int n = instant_nanos i"
  by (auto simp: split_instant_def subsecond_def instant_nanos_def split: if_splits)

lemma cmp_int_simps:
  "a < b \<Longrightarrow> cmp_int a b = Less" "b < a \<Longrightarrow> cmp_int a b = Greater" "cmp_int a a = Equal"
  by (simp_all add: cmp_int_def)

lemma million_split:
  assumes "n < 1000000000"
  obtains q r where "int (n div 1000000) = q" "int n = q * 1000000 + r" "0 \<le> r" "r < 1000000" "0 \<le> q" "q < 1000"
proof -
  have "n = n div 1000000 * 1000000 + n mod 1000000" by simp
  then have "int n = int (n div 1000000) * 1000000 + int (n mod 1000000)" by linarith
  moreover have "n div 1000000 < 1000" using assms by (intro less_mult_imp_div_less) simp
  ultimately show thesis using that by simp
qed

lemma millis_nanos_inject:
  assumes "n < 1000000000" "n' < 1000000000"
  shows "(s * 1000 + int (n div 1000000) = s' * 1000 + int (n' div 1000000) \<and> n = n')
    \<longleftrightarrow> s * 1000000000 + int n = s' * 1000000000 + int n'"
proof
  assume "s * 1000000000 + int n = s' * 1000000000 + int n'"
  moreover from this have "s = s'" using assms by linarith
  ultimately show "s * 1000 + int (n div 1000000) = s' * 1000 + int (n' div 1000000) \<and> n = n'" by simp
qed auto

lemma compare_millis_nanos:
  assumes "n < 1000000000" "n' < 1000000000"
  shows "compare_millis_then_nanos (s * 1000 + int (n div 1000000)) n (s' * 1000 + int (n' div 1000000)) n'
    = cmp_int (s * 1000000000 + int n) (s' * 1000000000 + int n')"
proof -
  obtain q r where n: "int (n div 1000000) = q" "int n = q * 1000000 + r" "0 \<le> r" "r < 1000000" "0 \<le> q" "q < 1000"
    by (rule million_split [OF assms(1)])
  obtain q' r' where n': "int (n' div 1000000) = q'" "int n' = q' * 1000000 + r'" "0 \<le> r'" "r' < 1000000"
    "0 \<le> q'" "q' < 1000"
    by (rule million_split [OF assms(2)])
  have order: "s * 1000 + q < s' * 1000 + q' \<Longrightarrow> s * 1000000000 + int n < s' * 1000000000 + int n'"
    "s' * 1000 + q' < s * 1000 + q \<Longrightarrow> s' * 1000000000 + int n' < s * 1000000000 + int n"
    using n(2-) n'(2-) by linarith+
  consider "s * 1000 + q < s' * 1000 + q'" | "s * 1000 + q = s' * 1000 + q'" | "s' * 1000 + q' < s * 1000 + q"
    by linarith
  then show ?thesis
  proof cases
    case 1
    from cmp_int_simps(1) [OF this] cmp_int_simps(1) [OF order(1) [OF this]]
    show ?thesis by (simp only: compare_millis_then_nanos_def n(1) n'(1) Ordering.case)
  next
    case 2
    then have "s = s'" using n(5,6) n'(5,6) by linarith
    with 2 have "s = s' \<and> q = q'" by simp
    then show ?thesis by (simp add: compare_millis_then_nanos_def cmp_int_def n(1) n'(1))
  next
    case 3
    from cmp_int_simps(2) [OF this] cmp_int_simps(2) [OF order(2) [OF this]]
    show ?thesis by (simp only: compare_millis_then_nanos_def n(1) n'(1) Ordering.case)
  qed
qed

text \<open>
  The instant handed to callers splits the same number of nanoseconds, also before 1970, and reading
  it back in the same zone gives the local time the zone shows at that instant.
\<close>

lemma to_instant_nanos:
  assumes "local_to_instant C J dt = Ok i" "subsecond i" "to_instant C J dt = Ok (s, n)"
  shows "n < 1000000000 \<and> s * 1000000000 + int n = instant_nanos i"
  using assms split_instant_nanos [OF assms(2)] by (auto simp: to_instant_def split: prod.splits if_splits)

lemma instant_round_trip:
  assumes "local_to_instant C J dt = Ok i" "subsecond i" "to_instant C J dt = Ok u"
    and "\<And>s n. 0 \<le> n \<Longrightarrow> n < 1000000000 \<Longrightarrow> s * 1000000000 + n = instant_nanos i \<Longrightarrow> instant_new J s n = Some i"
    and "instant_to_local C J i = Ok dt"
  shows "from_instant C J u = Ok dt"
proof -
  obtain s n where u: "u = (s, n)" by (cases u) auto
  from to_instant_nanos [OF assms(1,2)] assms(3) u
  have "n < 1000000000" "s * 1000000000 + int n = instant_nanos i" by auto
  with assms(4) [of "int n" s] assms(5) u show ?thesis by (simp add: from_instant_def)
qed

text \<open>C39. Timestamps are ordered as instants: whenever \<open>compareTo\<close> answers, also for instants before 1970 whose
  seconds and nanoseconds are negative, comparing milliseconds first and nanoseconds second is the order of
  the instants on one nanosecond scale, and \<open>equals\<close> is its equality.\<close>
theorem compare_is_instant_order:
  assumes "local_to_instant C J a = Ok i" and "local_to_instant C J b = Ok j"
    and "subsecond i" and "subsecond j" and "compare_to C J a b = Ok r"
  shows "r = cmp_int (instant_nanos i) (instant_nanos j)
     \<and> equals_timestamp C J a b = Ok (instant_nanos i = instant_nanos j)"
proof -
  obtain s n s' n' where split: "split_instant i = (s, n)" "split_instant j = (s', n')" by fastforce
  note si = split_instant_nanos [OF assms(3) split(1)] split_instant_nanos [OF assms(4) split(2)]
  have r: "r = compare_millis_then_nanos (s * 1000 + int (n div 1000000)) n (s' * 1000 + int (n' div 1000000)) n'"
    and eq: "equals_timestamp C J a b
      = Ok (s * 1000 + int (n div 1000000) = s' * 1000 + int (n' div 1000000) \<and> n = n')"
    using assms(1,2,5) split
    by (auto simp: compare_to_def equals_timestamp_def millis_and_nanos_def java_epoch_millis_def
        split: if_splits)
  have first: "r = cmp_int (instant_nanos i) (instant_nanos j)"
    unfolding r using compare_millis_nanos [of n n' s s'] si by simp
  moreover have "(s * 1000 + int (n div 1000000) = s' * 1000 + int (n' div 1000000) \<and> n = n')
      \<longleftrightarrow> instant_nanos i = instant_nanos j"
    using millis_nanos_inject [of n n' s s'] si by simp
  ultimately show ?thesis using eq by simp
qed

text \<open>C40. A local time before 1970 with a fraction becomes a broken \<open>Timestamp\<close>: \<open>from_local_date_time\<close> casts
  the negative subsecond part of the instant to an unsigned number, so the stored nanoseconds are above
  999999999 and the value is not equal to the one built from the milliseconds of the same instant.\<close>
theorem fraction_before_epoch_wraps:
  assumes "local_to_instant C J dt = Ok i" and "- 1000000000 < snd i" and "snd i < 0"
    and "Timestamp_from_local_date_time C J dt = Ok ts"
    and "instant_nanos i = millis * 1000000" and "Timestamp_from_millis C J millis = Ok ts'"
  shows "ts_nanos ts > 999999999 \<and> ts_nanos ts' \<le> 999999999 \<and> Timestamp_cmp ts ts' = Greater"
proof -
  have ts: "epoch_seconds ts = fst i" "ts_nanos ts = as_u32 (snd i)"
    using assms(1,4)
    by (auto simp: Timestamp_from_local_date_time_def Timestamp_from_instant_def split: option.splits if_splits result.splits)
  have ts': "epoch_seconds ts' = millis div 1000" "ts_nanos ts' = as_u32 (millis mod 1000) * 1000000"
    using assms(6)
    by (auto simp: Timestamp_from_millis_def Timestamp_from_instant_def split: option.splits if_splits result.splits)
  have "snd i mod 4294967296 = snd i + 4294967296"
    using assms(2,3) by (intro int_mod_pos_eq [of _ _ "- 1"]) simp_all
  then have "ts_nanos ts > 999999999" using ts assms(2) by (simp add: as_u32_def)
  moreover have "millis mod 1000 mod 4294967296 = millis mod 1000"
    by (intro mod_pos_pos_trivial) (auto simp: order_less_trans [OF pos_mod_bound])
  then have "as_u32 (millis mod 1000) = nat (millis mod 1000)" by (simp add: as_u32_def)
  then have "ts_nanos ts' \<le> 999999999" using ts' by simp
  moreover have "millis div 1000 = fst i - 1"
  proof (intro int_div_pos_eq [of _ _ _ "millis - 1000 * (fst i - 1)"])
    show "0 \<le> millis - 1000 * (fst i - 1)" "millis - 1000 * (fst i - 1) < 1000"
      using assms(2,3,5) by (simp_all add: instant_nanos_def)
  qed simp
  ultimately show ?thesis using ts ts' by (simp add: Timestamp_cmp_def cmp_int_def)
qed

text \<open>C0. The day before the smallest day overflows: with the day \<open>i32::MIN\<close> the constructor of \<open>java.sql.Date\<close>
  computes \<open>day - 1\<close> unchecked, which panics in builds with overflow checks, although every other
  overflow in the function is an \<open>InvalidArgument\<close>.\<close>
theorem smallest_day_overflows:
  assumes "from_ymd_opt C (year + 1900 + month div 12) (nat (month mod 12 + 1)) 1 = Some first"
    and "in_i32 (year + 1900 + month div 12)"
  shows "new_date C year month (- 2147483648) = Err Overflow"
  using assms by (simp add: new_date_def normalize_java_datetime_def Let_def in_i32_def)

end
