(* ===== verification/Gregorian.thy ===== *)
theory Gregorian
  imports Jdbc_Datetime_Properties
begin

text \<open>
  The proleptic Gregorian calendar and a UTC time zone as instances of the records \<open>chrono\<close> and \<open>jiff\<close>:
  they show that the hypotheses on the two crates can hold, and carry the witnesses of the JDBC
  date and time properties.
\<close>

section \<open>Days and months\<close>

type_synonym ymd = "int \<times> nat \<times> nat"

definition leap :: "int \<Rightarrow> bool" where
  "leap y \<longleftrightarrow> (y mod 4 = 0 \<and> y mod 100 \<noteq> 0) \<or> y mod 400 = 0"

definition days_in_month :: "int \<Rightarrow> nat \<Rightarrow> nat" where
  "days_in_month y m =
     (if m = 2 then (if leap y then 29 else 28) else if m \<in> {4, 6, 9, 11} then 30 else 31)"

definition days_before_year :: "int \<Rightarrow> int" where
  "days_before_year y = 365 * (y - 1) + (y - 1) div 4 - (y - 1) div 100 + (y - 1) div 400"

fun days_before_month :: "int \<Rightarrow> nat \<Rightarrow> nat" where
  "days_before_month y 0 = 0"
| "days_before_month y (Suc m) = days_before_month y m + (if m = 0 then 0 else days_in_month y m)"

fun valid_ymd :: "ymd \<Rightarrow> bool" where
  "valid_ymd (y, m, d) \<longleftrightarrow> - 262143 \<le> y \<and> y \<le> 262142 \<and> 1 \<le> m \<and> m \<le> 12 \<and> 1 \<le> d \<and> d \<le> days_in_month y m"

fun ymd_days :: "ymd \<Rightarrow> int" where
  "ymd_days (y, m, d) = days_before_year y + int (days_before_month y m) + int d"

text \<open>The date with a given day number is searched in the three years around the mean year.\<close>

definition ymd_candidates :: "int \<Rightarrow> ymd list" where
  "ymd_candidates n =
     (let y = n * 400 div 146097 + 1
      in List.product [y - 1, y, y + 1] (List.product [1..<13] [1..<32]))"

definition ymd_of_days :: "int \<Rightarrow> ymd option" where
  "ymd_of_days n = find (\<lambda>x. valid_ymd x \<and> ymd_days x = n) (ymd_candidates n)"

lemma year_length: "days_before_year (y + 1) = days_before_year y + (if leap y then 366 else 365)"
proof -
  have step: "y div k = (y - 1) div k + (if y mod k = 0 then 1 else 0)" if "k > 0" for k :: int
  proof -
    have "(y - 1) div k = (if y mod k = 0 then y div k - 1 else y div k)"
    proof (cases "y mod k = 0")
      case True
      then have "y div k * k = y" using div_mult_mod_eq [of y k] by simp
      then have "y - 1 = (y div k - 1) * k + (k - 1)" by (simp add: left_diff_distrib)
      then have "(y - 1) div k = y div k - 1"
        using that by (intro int_div_pos_eq [of _ _ _ "k - 1"]) (auto simp: mult.commute)
      with True show ?thesis by simp
    next
      case False
      then have "0 \<le> y mod k - 1" "y mod k - 1 < k" using that pos_mod_sign [of k y] pos_mod_bound [of k y] by linarith+
      moreover have "y - 1 = y div k * k + (y mod k - 1)" by simp
      ultimately have "(y - 1) div k = y div k" by (intro int_div_pos_eq [of _ _ _ "y mod k - 1"]) (auto simp: mult.commute)
      with False show ?thesis by simp
    qed
    then show ?thesis by simp
  qed
  have "y mod 400 = 0 \<Longrightarrow> y mod 100 = 0" "y mod 100 = 0 \<Longrightarrow> y mod 4 = 0" by presburger+
  note mods = this
  have regroup: "365 * y + (p + a) - (q + b) + (r + c) = 365 * (y - 1) + p - q + r + 365 + a - b + c"
    for p q r a b c :: int by simp
  have expand: "days_before_year (y + 1) = days_before_year y + 365 + (if y mod 4 = 0 then 1 else 0)
      - (if y mod 100 = 0 then 1 else 0) + (if y mod 400 = 0 then 1 else 0)"
    unfolding days_before_year_def add_diff_cancel_right'
      step [of 4, OF zero_less_numeral] step [of 100, OF zero_less_numeral] step [of 400, OF zero_less_numeral]
    by (rule regroup)
  show ?thesis
    unfolding expand leap_def
    by (cases "y mod 4 = 0"; cases "y mod 100 = 0"; cases "y mod 400 = 0") (use mods in simp_all)
qed

lemma months_of_year:
  "days_before_month y 12 + days_in_month y 12 = (if leap y then 366 else 365)"
  by (simp add: numeral_eq_Suc days_in_month_def)

lemma days_before_month_mono:
  "m < m' \<Longrightarrow> 1 \<le> m \<Longrightarrow> days_before_month y m + days_in_month y m \<le> days_before_month y m'"
proof (induction m')
  case (Suc m')
  then show ?case by (cases "m = m'") auto
qed simp

lemma days_before_year_mono: "y < y' \<Longrightarrow> days_before_year (y + 1) \<le> days_before_year y'"
proof (induction "nat (y' - y - 1)" arbitrary: y')
  case 0
  then have "y' = y + 1" by simp
  then show ?case by simp
next
  case (Suc k)
  then have "k = nat (y' - 1 - y - 1)" "y < y' - 1" by simp_all
  from Suc.hyps(1) [OF this] year_length [of "y' - 1"] show ?case by (auto split: if_splits)
qed

lemma ymd_in_year:
  assumes "valid_ymd (y, m, d)"
  shows "days_before_year y < ymd_days (y, m, d)" "ymd_days (y, m, d) \<le> days_before_year (y + 1)"
proof -
  have m: "1 \<le> m" "m \<le> 12" "1 \<le> d" "d \<le> days_in_month y m" using assms by simp_all
  then show "days_before_year y < ymd_days (y, m, d)" by simp
  have "days_before_month y m + days_in_month y m \<le> days_before_month y 12 + days_in_month y 12"
    using days_before_month_mono [of m 12 y] m by (cases "m = 12") auto
  then show "ymd_days (y, m, d) \<le> days_before_year (y + 1)"
    using m(4) months_of_year [of y] by (simp add: year_length split: if_splits)
qed

lemma ymd_days_inject:
  assumes "valid_ymd x" "valid_ymd x'" "ymd_days x = ymd_days x'"
  shows "x = x'"
proof -
  obtain y m d y' m' d' where x: "x = (y, m, d)" "x' = (y', m', d')" by (cases x; cases x') auto
  note v = assms(1,2) [unfolded x]
  have "y = y'"
    using ymd_in_year [OF v(1)] ymd_in_year [OF v(2)] days_before_year_mono [of y y'] days_before_year_mono [of y' y]
      assms(3) x by (cases y y' rule: linorder_cases) auto
  moreover have "m = m'"
    using days_before_month_mono [of m m' y] days_before_month_mono [of m' m y] v assms(3) x \<open>y = y'\<close>
    by (cases m m' rule: linorder_cases) auto
  ultimately show ?thesis using assms(3) x by simp
qed

lemma mean_year:
  assumes "valid_ymd (y, m, d)"
  shows "ymd_days (y, m, d) * 400 div 146097 + 1 \<in> {y - 1, y, y + 1}"
proof -
  let ?n = "ymd_days (y, m, d)"
  have bounds: "k * (z div k) \<le> z" "z \<le> k * (z div k) + (k - 1)" if "k > 0" for z k :: int
    using mult_div_mod_eq [of k z] pos_mod_sign [of k z] pos_mod_bound [of k z] that by linarith+
  have before: "146097 * (y - 1) - 1200 \<le> 400 * days_before_year y" for y
    using bounds [of 4 "y - 1"] bounds [of 100 "y - 1"] bounds [of 400 "y - 1"]
    by (simp add: days_before_year_def)
  have after: "400 * days_before_year y \<le> 146097 * (y - 1) + 1200" for y
    using bounds [of 4 "y - 1"] bounds [of 100 "y - 1"] bounds [of 400 "y - 1"]
    by (simp add: days_before_year_def)
  have low: "146097 * (y - 2) < ?n * 400" using before [of y] ymd_in_year(1) [OF assms] by simp
  have high: "?n * 400 < 146097 * (y + 1)" using after [of "y + 1"] ymd_in_year(2) [OF assms] by simp
  have "y - 2 \<le> ?n * 400 div 146097" "?n * 400 div 146097 < y + 1"
    using bounds(1) [of 146097 "?n * 400"] bounds(2) [of 146097 "?n * 400"] low high by simp_all
  then show ?thesis by (simp, linarith)
qed

lemma ymd_of_days:
  "valid_ymd x \<Longrightarrow> ymd_of_days (ymd_days x) = Some x"
  "ymd_of_days n = Some x \<Longrightarrow> valid_ymd x \<and> ymd_days x = n"
proof -
  assume valid: "valid_ymd x"
  obtain y m d where x: "x = (y, m, d)" by (cases x) auto
  have "days_in_month y m \<le> 31" by (simp add: days_in_month_def)
  then have "m \<in> set [1..<13]" "d \<in> set [1..<32]" using valid x by auto
  moreover have "y \<in> set [z - 1, z, z + 1]" if "z = ymd_days x * 400 div 146097 + 1" for z
    using mean_year [of y m d] valid unfolding x that by auto
  ultimately have "x \<in> set (ymd_candidates (ymd_days x))"
    unfolding ymd_candidates_def Let_def set_product x by blast
  then have "\<exists>z \<in> set (ymd_candidates (ymd_days x)). valid_ymd z \<and> ymd_days z = ymd_days x" using valid by blast
  then obtain z where "ymd_of_days (ymd_days x) = Some z"
    unfolding ymd_of_days_def by (cases "find (\<lambda>z. valid_ymd z \<and> ymd_days z = ymd_days x) (ymd_candidates (ymd_days x))")
      (auto simp: find_None_iff)
  moreover from this have "valid_ymd z" "ymd_days z = ymd_days x"
    by (auto simp: ymd_of_days_def find_Some_iff)
  ultimately show "ymd_of_days (ymd_days x) = Some x" using ymd_days_inject valid by metis
qed (auto simp: ymd_of_days_def find_Some_iff)


section \<open>The calendar as an instance of \<open>chrono\<close>\<close>

type_synonym hms = "nat \<times> nat \<times> nat \<times> nat"

definition gregorian :: "(ymd, hms) chrono" where
  "gregorian =
     \<lparr>from_ymd_opt = (\<lambda>y m d. if valid_ymd (y, m, d) then Some (y, m, d) else None),
      year_of = fst, month_of = (\<lambda>x. fst (snd x)), day_of = (\<lambda>x. snd (snd x)),
      num_days_from_ce = ymd_days, from_num_days_from_ce_opt = ymd_of_days,
      checked_add_days = (\<lambda>x k. ymd_of_days (ymd_days x + k)),
      from_hms_nano_opt =
        (\<lambda>h m s n. if h < 24 \<and> m < 60 \<and> s < 60 \<and> n < 1000000000 then Some (h, m, s, n) else None),
      hour_of = fst, minute_of = (\<lambda>t. fst (snd t)), second_of = (\<lambda>t. fst (snd (snd t))),
      nano_of = (\<lambda>t. snd (snd (snd t))),
      with_nanosecond = (\<lambda>(h, m, s, _) n. if n < 2000000000 then Some (h, m, s, n) else None),
      utc_in_range = (\<lambda>s n. - 8334601228800 \<le> s \<and> s \<le> 8210266876799 \<and> n < 2000000000)\<rparr>"

lemma gregorian_sel [simp]:
  "from_ymd_opt gregorian = (\<lambda>y m d. if valid_ymd (y, m, d) then Some (y, m, d) else None)"
  "year_of gregorian x = fst x" "month_of gregorian x = fst (snd x)" "day_of gregorian x = snd (snd x)"
  "num_days_from_ce gregorian = ymd_days" "from_num_days_from_ce_opt gregorian = ymd_of_days"
  "checked_add_days gregorian x k = ymd_of_days (ymd_days x + k)"
  "from_hms_nano_opt gregorian h m s n =
     (if h < 24 \<and> m < 60 \<and> s < 60 \<and> n < 1000000000 then Some (h, m, s, n) else None)"
  "hour_of gregorian t = fst t" "minute_of gregorian t = fst (snd t)"
  "second_of gregorian t = fst (snd (snd t))" "nano_of gregorian t = snd (snd (snd t))"
  by (simp_all add: gregorian_def)

lemma valid_date_gregorian: "valid_date gregorian x \<longleftrightarrow> valid_ymd x"
  by (cases x) (simp add: valid_date_def)

lemma ymd_days_i32:
  assumes "valid_ymd x"
  shows "in_i32 (ymd_days x)"
proof -
  obtain y m d where x: "x = (y, m, d)" by (cases x) auto
  have "ymd_days x * 400 div 146097 + 1 \<in> {y - 1, y, y + 1}" "- 262143 \<le> y" "y \<le> 262142"
    using assms mean_year [of y m d] x by simp_all
  then have "- 262145 \<le> ymd_days x * 400 div 146097" "ymd_days x * 400 div 146097 < 262143" by auto
  moreover have "ymd_days x * 400 = 146097 * (ymd_days x * 400 div 146097) + ymd_days x * 400 mod 146097"
    "0 \<le> ymd_days x * 400 mod 146097" "ymd_days x * 400 mod 146097 < 146097"
    by (simp_all only: mult_div_mod_eq pos_mod_sign pos_mod_bound zero_less_numeral)
  ultimately have "- 100000000 \<le> ymd_days x" "ymd_days x \<le> 100000000" by linarith+
  then show ?thesis by (simp add: in_i32_def)
qed

lemma gregorian_ok: "chrono_ok gregorian"
proof -
  have first: "valid_ymd (y, m, 1) \<and> ymd_days (y, m, d) = ymd_days (y, m, 1) + int d - 1"
    if "valid_ymd (y, m, d)" for y m d
    using that by auto
  have fields: "1 \<le> m" "m \<le> 12" "1 \<le> d" "d \<le> 31" if "valid_ymd (y, m, d)" for y m d
    using that by (auto simp: days_in_month_def split: if_splits)
  show ?thesis
    unfolding chrono_ok_def valid_date_gregorian
  proof (intro conjI allI impI, goal_cases)
    case (1 y m d x)
    then show ?case by (simp del: valid_ymd.simps split: if_splits) auto
  next
    case (2 y m d x)
    then show ?case by (simp del: valid_ymd.simps split: if_splits) auto
  next
    case (3 y m d x)
    then show ?case by (simp del: valid_ymd.simps split: if_splits) auto
  next
    case (4 x)
    then show ?case using fields by (cases x) (simp del: valid_ymd.simps)
  next
    case (5 x)
    then show ?case using fields by (cases x) (simp del: valid_ymd.simps)
  next
    case (6 x)
    then show ?case using fields by (cases x) (simp del: valid_ymd.simps)
  next
    case (7 x)
    then show ?case using fields by (cases x) (simp del: valid_ymd.simps)
  next
    case (8 x)
    then show ?case using ymd_days_i32 by simp
  next
    case (9 x)
    then show ?case using ymd_of_days(1) by simp
  next
    case (10 x)
    obtain y m d where "x = (y, m, d)" by (cases x) auto
    with first [of y m d] 10 show ?case by (simp del: valid_ymd.simps ymd_days.simps)
  next
    case (11 n x)
    then show ?case using ymd_of_days(2) by simp
  next
    case (12 n x)
    then show ?case using ymd_of_days(2) by simp
  next
    case (13 x k)
    then show ?case by simp
  next
    case (14 h m s n)
    then show ?case by (auto simp: valid_time_def)
  qed
qed


section \<open>UTC as an instance of \<open>jiff\<close>\<close>

text \<open>An instant is normalised so that its seconds and nanoseconds have the same sign.\<close>

definition instant_of_nanos :: "int \<Rightarrow> jiff_instant" where
  "instant_of_nanos t = (sgn t * (\<bar>t\<bar> div 1000000000), sgn t * (\<bar>t\<bar> mod 1000000000))"

definition civil_nanos :: "civil \<Rightarrow> int" where
  "civil_nanos c =
     (((ymd_days (c_year c, c_month c, c_day c) - 719163) * 86400 + int (c_hour c) * 3600
       + int (c_minute c) * 60 + int (c_second c)) * 1000000000) + int (c_nano c)"

definition utc_civil :: "jiff_instant \<Rightarrow> civil" where
  "utc_civil i =
     (let t = instant_nanos i; s = t div 1000000000; r = nat (s mod 86400)
      in case ymd_of_days (s div 86400 + 719163) of
           Some (y, m, d) \<Rightarrow> \<lparr>c_year = y, c_month = m, c_day = d, c_hour = r div 3600, c_minute = r mod 3600 div 60,
             c_second = r mod 60, c_nano = nat (t mod 1000000000)\<rparr>
         | None \<Rightarrow> \<lparr>c_year = 0, c_month = 0, c_day = 0, c_hour = 0, c_minute = 0, c_second = 0, c_nano = 0\<rparr>)"

definition utc :: jiff where
  "utc =
     \<lparr>civil_ok = (\<lambda>c. valid_ymd (c_year c, c_month c, c_day c)), zone_ok = True,
      ambiguous_offset = (\<lambda>_. Unambiguous), disambiguate = (\<lambda>c _. Some (instant_of_nanos (civil_nanos c))),
      instant_new = (\<lambda>s n. if - 999999999 \<le> n \<and> n \<le> 999999999 then Some (instant_of_nanos (s * 1000000000 + n)) else None),
      zoned_civil = utc_civil\<rparr>"

lemma utc_sel [simp]:
  "civil_ok utc c = valid_ymd (c_year c, c_month c, c_day c)" "zone_ok utc"
  "ambiguous_offset utc c = Unambiguous" "disambiguate utc c k = Some (instant_of_nanos (civil_nanos c))"
  "instant_new utc s n =
     (if - 999999999 \<le> n \<and> n \<le> 999999999 then Some (instant_of_nanos (s * 1000000000 + n)) else None)"
  "zoned_civil utc = utc_civil"
  by (simp_all add: utc_def)

section \<open>Witnesses\<close>

lemma leap_years [simp]: "leap 2024" "\<not> leap 1969" "\<not> leap 1970"
  by (simp_all add: leap_def)

lemma day_numbers:
  "ymd_days (2024, 2, Suc 0) = 738917" "ymd_days (2024, 3, Suc 0) = 738946" "ymd_days (2024, 3, 2) = 738947"
  "ymd_days (1969, 12, 31) = 719162" "ymd_days (1970, Suc 0, Suc 0) = 719163"
  by (simp_all add: days_before_year_def days_in_month_def numeral_eq_Suc)

lemma days_back:
  "ymd_of_days 738946 = Some (2024, 3, 1)" "ymd_of_days 738947 = Some (2024, 3, 2)"
  "ymd_of_days 719162 = Some (1969, 12, 31)" "ymd_of_days 719163 = Some (1970, 1, 1)"
  using ymd_of_days(1) [of "(2024, 3, 1)"] ymd_of_days(1) [of "(2024, 3, 2)"]
    ymd_of_days(1) [of "(1969, 12, 31)"] ymd_of_days(1) [of "(1970, 1, 1)"]
  by (simp_all add: day_numbers days_in_month_def del: ymd_days.simps)

theorem timestamp_text_round_trip_witness:
  "parse_jdbc_timestamp gregorian (timestamp_text gregorian ((2024, 2, 29), (23, 59, 7, 500)))
     = Ok ((2024, 2, 29), (23, 59, 7, 500))"
  by (rule timestamp_text_round_trip [OF gregorian_ok])
    (simp_all add: valid_date_gregorian valid_time_def days_in_month_def)

theorem date_text_round_trip_witness:
  "parse_jdbc_date gregorian (date_text gregorian (2024, 2, 29)) = Ok (2024, 2, 29)"
  by (rule date_text_round_trip [OF gregorian_ok])
    (simp_all add: valid_date_gregorian days_in_month_def)

text \<open>Month 13 of 2023 is February 2024, whose day 30 is the first of March; 25 hours reach the next day.\<close>

theorem lenient_fields_are_linear_witness:
  "normalize_java_datetime gregorian 2023 13 30 25 0 (- 1) 7 = Ok ((2024, 3, 2), (0, 59, 59, 7))
   \<and> seconds_of_day gregorian (0, 59, 59, 7) = 3599
   \<and> (\<exists>first. from_ymd_opt gregorian 2024 2 1 = Some first
        \<and> 738947 * 86400 + 3599 = (ymd_days first + 29) * 86400 + 25 * 3600 - (1 :: int))"
proof -
  have made: "normalize_java_datetime gregorian 2023 13 30 25 0 (- 1) 7 = Ok ((2024, 3, 2), (0, 59, 59, 7))"
    by (simp add: normalize_java_datetime_def in_i32_def days_in_month_def day_numbers days_back del: ymd_days.simps)
  have secs: "seconds_of_day gregorian (0, 59, 59, 7) = 3599" by (simp add: seconds_of_day_def)
  show ?thesis
    using lenient_fields_are_linear [OF gregorian_ok _ made] made secs
    by (simp add: days_in_month_def day_numbers del: ymd_days.simps)
qed

definition before_epoch :: "ymd \<times> hms" where
  "before_epoch = ((1969, 12, 31), (23, 59, 59, 500000000))"

definition at_epoch :: "ymd \<times> hms" where
  "at_epoch = ((1970, 1, 1), (0, 0, 0, 0))"

lemma epoch_instants:
  "local_to_instant gregorian utc before_epoch = Ok (0, - 500000000)"
  "local_to_instant gregorian utc at_epoch = Ok (0, 0)"
  by (simp_all add: local_to_instant_def civil_of_def before_epoch_def at_epoch_def civil_nanos_def
      instant_of_nanos_def days_in_month_def day_numbers del: ymd_days.simps)

theorem compare_is_instant_order_witness:
  "compare_to gregorian utc before_epoch at_epoch = Ok Less
   \<and> equals_timestamp gregorian utc before_epoch at_epoch = Ok False"
proof -
  have "compare_to gregorian utc before_epoch at_epoch = Ok Less"
    by (simp add: compare_to_def millis_and_nanos_def epoch_instants split_instant_def java_epoch_millis_def
        in_i64_def compare_millis_then_nanos_def cmp_int_def)
  with compare_is_instant_order [OF epoch_instants _ _ this] show ?thesis
    by (simp add: subsecond_def instant_nanos_def)
qed

lemma utc_before_epoch: "jiff_to_chrono gregorian (utc_civil (0, - 500000000)) = Ok before_epoch"
  by (simp add: jiff_to_chrono_def utc_civil_def instant_nanos_def Let_def days_back before_epoch_def days_in_month_def)

theorem fraction_before_epoch_wraps_witness:
  "\<exists>ts ts'. Timestamp_from_local_date_time gregorian utc before_epoch = Ok ts
     \<and> Timestamp_from_millis gregorian utc (- 500) = Ok ts'
     \<and> ts_nanos ts > 999999999 \<and> Timestamp_cmp ts ts' = Greater"
proof -
  obtain ts where ts: "Timestamp_from_local_date_time gregorian utc before_epoch = Ok ts"
    by (simp add: Timestamp_from_local_date_time_def epoch_instants Timestamp_from_instant_def as_u32_def as_i32_def
        instant_of_nanos_def utc_before_epoch)
  obtain ts' where ts': "Timestamp_from_millis gregorian utc (- 500) = Ok ts'"
    by (simp add: Timestamp_from_millis_def Timestamp_from_instant_def as_u32_def as_i32_def
        instant_of_nanos_def utc_before_epoch)
  show ?thesis
    using ts ts' fraction_before_epoch_wraps [OF epoch_instants(1) _ _ ts _ ts'] by (simp add: instant_nanos_def)
qed

theorem smallest_day_overflows_witness:
  "new_date gregorian 70 0 (- 2147483648) = Err Overflow"
  by (rule smallest_day_overflows [of gregorian 70 0 "(1970, 1, 1)"])
    (simp_all add: days_in_month_def in_i32_def)

end
