(* ===== verification/Push_Worker.thy ===== *)
theory Push_Worker
  imports Sequence_Window Ingest Metrics_Registry
begin

text \<open>
  The client's push worker (\<open>druid-metrics/src/push_worker.rs\<close>, \<open>push_worker_a.rs\<close> and
  \<open>push_worker_b.rs\<close>): the single writer of one network session, which numbers batches, keeps every
  frame until its acknowledgement, answers remote commands and hands what is left to the next
  session. The record \<open>PushWorker\<close> has the fields of the struct and the part of the outside an
  execution needs: the tape of what its awaits return, the frames written to the transport and
  the frames the server acknowledged. An await takes the next entry of the tape; an operation is
  \<open>None\<close> when the tape ends before it does or holds what the await cannot return.
\<close>

section \<open>Messages\<close>

datatype ClientFrame =
    CSnapshotBatch "SnapshotEntryMsg SnapshotBatch"
  | CCommandAck FrameHeader rust_str bool rust_str
  | COther

record Command =
  cmd_header :: "FrameHeader option"
  cmd_id :: rust_str
  cmd_payload :: "CommandPayload option"

datatype ServerFrame =
    SBatchAck u64
  | SHelloAck
  | SCommand Command
  | SResyncRequired rust_str u64
  | SServerError u32 rust_str bool
  | SEmpty

datatype PushEvent =
    Batch AggregatedBatch
  | BatchAt BatchWorkId u64 AggregatedBatch
  | Resend PendingFrame

datatype FullSnapshotCommandState = PendingChunks rust_str | ReplyReady rust_str

fun state_command_id :: "FullSnapshotCommandState \<Rightarrow> rust_str" where
  "state_command_id (PendingChunks i) = i"
| "state_command_id (ReplyReady i) = i"

datatype PushWorkerError =
    Ownership rust_str
  | Window SequenceWindowError
  | Decode
  | ResendWithoutSnapshotHeader
  | ResendSequenceMismatch u64 u64
  | TransportClosed
  | Cancelled
  | ServerInterrupted rust_str
  | ServerInboundOverload nat
  | SuccessorCommandOverflow nat
  | InvalidSuccessorFrame
  | InvalidSnapshotTransaction rust_str

fun ownership_error :: "PipelineOwnershipError \<Rightarrow> PushWorkerError" where
  "ownership_error (InvalidTransition m) = Ownership m"

definition missing :: "string \<Rightarrow> PushWorkerError" where
  "missing m = Ownership (lit m)"

definition bad_transaction :: "string \<Rightarrow> PushWorkerError" where
  "bad_transaction m = InvalidSnapshotTransaction (lit m)"

text \<open>
  What an await returns: the cancellation, the end of a write (which fails when the transport is
  closed), a server frame or a batch event; \<open>None\<close> closes the channel. With it comes what other
  tasks did to the ledger meanwhile.
\<close>

datatype Await =
    AwCancelled
  | AwSent bool
  | AwServer "ServerFrame option"
  | AwBatch "PushEvent option"

text \<open>
  Parameters: the generated protobuf code, the base64 engine of the service identity, and, by the
  number of awaits that are left, the clock and the answers of the registry.
\<close>

record push_env =
  encode :: "ClientFrame \<Rightarrow> u8 list"
  decode :: "u8 list \<Rightarrow> ClientFrame option"
  b64 :: b64_encoder
  now_at :: "nat \<Rightarrow> u64"
  reset_at :: "nat \<Rightarrow> u64 list \<Rightarrow> CommandResult"
  full_at :: "nat \<Rightarrow> (AggregatedBatch list, rust_str) result"

section \<open>The worker\<close>

record PushWorker =
  window :: SequenceWindow
  service_name :: rust_str
  instance_id :: rust_str
  boot_id :: rust_str
  stream_epoch :: u64
  command_executor :: bool
  deferred_server_frames :: "ServerFrame list"
  deferred_server_capacity :: nat
  replay_frames :: "PendingFrame list"
  force_first_batch_full_snapshot :: bool
  initial_batches :: "AggregatedBatch list"
  progress :: "PipelineOwnershipState option"
  resync_required :: bool
  full_snapshot_command :: "FullSnapshotCommandState option"
  completed_full_snapshot_commands :: "rust_str list"
  reply_sent_this_session :: bool
  preserved_live_events :: "PushEvent list"
  snapshot_transaction :: "(rust_str \<times> u32 \<times> u32) option"
  command_journal :: CommandJournal
  tape :: "(PipelineOp list \<times> Await) list"
  outbound :: "ClientFrame list"
  released :: "PendingFrame list"

text \<open>The result of an operation that may await: \<open>None\<close> while it still waits.\<close>

type_synonym 'a awaiting = "('a \<times> PushWorker) option"
type_synonym push_result = "(unit, PushWorkerError) result"

definition with_identity ::
  "nat \<Rightarrow> nat \<Rightarrow> rust_str \<Rightarrow> rust_str \<Rightarrow> rust_str \<Rightarrow> u64 \<Rightarrow> (PipelineOp list \<times> Await) list \<Rightarrow> PushWorker" where
  "with_identity server_channel window_capacity name inst boot epoch t =
     \<lparr>window = SequenceWindow_new window_capacity, service_name = name, instance_id = inst, boot_id = boot,
      stream_epoch = epoch, command_executor = False, deferred_server_frames = [],
      deferred_server_capacity = max (min (server_channel * 2) (usize_limit - 1)) 1, replay_frames = [],
      force_first_batch_full_snapshot = False, initial_batches = [], progress = None, resync_required = False,
      full_snapshot_command = None, completed_full_snapshot_commands = [], reply_sent_this_session = False,
      preserved_live_events = [], snapshot_transaction = None,
      command_journal = CommandJournal_new window_capacity, tape = t, outbound = [], released = []\<rparr>"

definition clock_now :: "push_env \<Rightarrow> PushWorker \<Rightarrow> u64" where
  "clock_now E w = now_at E (length (tape w))"

definition make_header :: "push_env \<Rightarrow> PushWorker \<Rightarrow> u64 \<Rightarrow> FrameHeader" where
  "make_header E w s =
     \<lparr>protocol_version = 1, h_service_name = service_name w, h_instance_id = instance_id w,
      h_boot_id = boot_id w, h_stream_epoch = stream_epoch w, h_sequence = s, emitted_at_unix_ms = clock_now E w\<rparr>"

definition make_command_ack :: "push_env \<Rightarrow> PushWorker \<Rightarrow> rust_str \<Rightarrow> CommandResult \<Rightarrow> ClientFrame" where
  "make_command_ack E w i r =
     CCommandAck (make_header E w 0) i (case r of Ok _ \<Rightarrow> True | Err _ \<Rightarrow> False)
       (case r of Ok _ \<Rightarrow> [] | Err m \<Rightarrow> m)"

definition take_await :: "(Await \<Rightarrow> bool) \<Rightarrow> PushWorker \<Rightarrow> Await awaiting" where
  "take_await enabled w =
     (case tape w of
        [] \<Rightarrow> None
      | (ops, a) # t \<Rightarrow>
          if enabled a then Some (a, w\<lparr>tape := t, progress := map_option (\<lambda>l. snd (po_run l ops)) (progress w)\<rparr>)
          else None)"

section \<open>The ledger as the worker uses it\<close>

definition command_key :: "push_env \<Rightarrow> Command \<Rightarrow> (CommandWorkKey, PushWorkerError) result" where
  "command_key E c =
     (case cmd_header c of
        None \<Rightarrow> Err (missing ''command header is missing'')
      | Some h \<Rightarrow>
          (case from_parts (b64 E) (h_service_name h) (h_instance_id h) (h_boot_id h) (cmd_id c) (cmd_payload c) of
             Err e \<Rightarrow> Err (ownership_error e)
           | Ok k \<Rightarrow> Ok k))"

definition on_ledger ::
  "(PipelineOwnershipState \<Rightarrow> 'a po_result) \<Rightarrow> PipelineOwnershipState \<Rightarrow> PushWorker
     \<Rightarrow> ('a, PushWorkerError) result \<times> PushWorker" where
  "on_ledger f l w =
     (case f l of
        (Err e, l') \<Rightarrow> (Err (ownership_error e), w\<lparr>progress := Some l'\<rparr>)
      | (Ok x, l') \<Rightarrow> (Ok x, w\<lparr>progress := Some l'\<rparr>))"

definition begin_command_ownership ::
  "push_env \<Rightarrow> Command \<Rightarrow> PushWorker \<Rightarrow> (CommandWorkKey option, PushWorkerError) result \<times> PushWorker" where
  "begin_command_ownership E c w =
     (case progress w of
        None \<Rightarrow> (Ok None, w)
      | Some l \<Rightarrow>
          (case command_key E c of
             Err e \<Rightarrow> (Err e, w)
           | Ok k \<Rightarrow>
               (case on_ledger (start_command k) l w of
                  (Err e, w') \<Rightarrow> (Err e, w')
                | (Ok _, w') \<Rightarrow> (Ok (Some k), w'))))"

definition finish_command_ownership :: "CommandWorkKey option \<Rightarrow> PushWorker \<Rightarrow> push_result \<times> PushWorker" where
  "finish_command_ownership key w =
     (case (progress w, key) of
        (Some l, Some k) \<Rightarrow> on_ledger (finish_command k) l w
      | (None, None) \<Rightarrow> (Ok (), w)
      | _ \<Rightarrow> (Err (missing ''command progress and work key must be present together''), w))"

definition finish_command_after_reply :: "bool \<Rightarrow> CommandWorkKey option \<Rightarrow> PushWorker \<Rightarrow> bool \<times> PushWorker" where
  "finish_command_after_reply delivered key w =
     (if \<not> delivered then (False, w)
      else case finish_command_ownership key w of (Ok _, w') \<Rightarrow> (True, w') | (Err _, w') \<Rightarrow> (False, w'))"

definition finish_pending :: "PipelineOwnershipState \<Rightarrow> unit po_result" where
  "finish_pending l =
     (case front (PipelineOwnershipState.pending_frames l) of
        None \<Rightarrow> (Err (InvalidTransition (lit ''pending-frame ownership is missing'')), l)
      | Some i \<Rightarrow> finish_pending_frame i l)"

definition acknowledge :: "u64 \<Rightarrow> PushWorker \<Rightarrow> push_result \<times> PushWorker" where
  "acknowledge s w =
     (case SequenceWindow_ack (window w) s of
        (Err e, win) \<Rightarrow> (Err (Window e), w\<lparr>window := win\<rparr>)
      | (Ok _, win) \<Rightarrow>
          let w' = w\<lparr>window := win, released := released w @ [hd (SequenceWindow_pending_frames (window w))]\<rparr>
          in case progress w' of None \<Rightarrow> (Ok (), w') | Some l \<Rightarrow> on_ledger finish_pending l w')"

section \<open>Sending\<close>

definition process_server_while_sending :: "push_env \<Rightarrow> ServerFrame \<Rightarrow> PushWorker \<Rightarrow> push_result \<times> PushWorker" where
  "process_server_while_sending E f w =
     (case f of
        SBatchAck s \<Rightarrow> (Ok (), snd (acknowledge s w))
      | _ \<Rightarrow>
          if length (deferred_server_frames w) \<ge> deferred_server_capacity w then
            (case (progress w, f) of
               (Some l, SCommand c) \<Rightarrow>
                 (case command_key E c of
                    Err e \<Rightarrow> (Err e, w)
                  | Ok k \<Rightarrow>
                      (case on_ledger (drop_command k) l w of
                         (Err e, w') \<Rightarrow> (Err e, w')
                       | (Ok _, w') \<Rightarrow> (Err (ServerInboundOverload (deferred_server_capacity w)), w')))
             | _ \<Rightarrow> (Err (ServerInboundOverload (deferred_server_capacity w)), w))
          else (Ok (), w\<lparr>deferred_server_frames := deferred_server_frames w @ [f]\<rparr>))"

definition no_batch :: "Await \<Rightarrow> bool" where
  "no_batch a \<longleftrightarrow> (case a of AwBatch _ \<Rightarrow> False | _ \<Rightarrow> True)"

definition no_write :: "Await \<Rightarrow> bool" where
  "no_write a \<longleftrightarrow> (case a of AwCancelled \<Rightarrow> True | AwServer _ \<Rightarrow> True | _ \<Rightarrow> False)"

lemma take_await_tape: "take_await P w = Some (a, w') \<Longrightarrow> length (tape w) = Suc (length (tape w'))"
  by (auto simp: take_await_def split: list.splits if_splits)

lemma on_ledger_tape [simp]: "tape (snd (on_ledger f l w)) = tape w"
  by (auto simp: on_ledger_def split: prod.splits result.splits)

lemma acknowledge_tape [simp]: "tape (snd (acknowledge s w)) = tape w"
  by (auto simp: acknowledge_def Let_def split: prod.splits result.splits option.splits)

lemma on_ledger_tapeD: "on_ledger f l w = (r, w') \<Longrightarrow> tape w' = tape w"
  using on_ledger_tape [of f l w] by simp

lemma while_sending_tape: "process_server_while_sending E f w = (r, w') \<Longrightarrow> tape w' = tape w"
  by (auto simp: process_server_while_sending_def dest!: on_ledger_tapeD
      split: ServerFrame.splits if_splits option.splits result.splits prod.splits)

function send_outbound :: "push_env \<Rightarrow> ClientFrame \<Rightarrow> PushWorker \<Rightarrow> push_result awaiting" where
  "send_outbound E f w =
     (case take_await no_batch w of
        None \<Rightarrow> None
      | Some (AwCancelled, w') \<Rightarrow> Some (Err Cancelled, w')
      | Some (AwSent delivered, w') \<Rightarrow>
          if delivered then Some (Ok (), w'\<lparr>outbound := outbound w' @ [f]\<rparr>) else Some (Err TransportClosed, w')
      | Some (AwServer None, w') \<Rightarrow> Some (Err TransportClosed, w')
      | Some (AwServer (Some g), w') \<Rightarrow>
          (case process_server_while_sending E g w' of
             (Err e, w'') \<Rightarrow> Some (Err e, w'')
           | (Ok _, w'') \<Rightarrow> send_outbound E f w'')
      | Some (AwBatch _, w') \<Rightarrow> None)"
  by pat_completeness auto
termination
  by (relation "measure (\<lambda>(E, f, w). length (tape w))")
    (auto dest!: take_await_tape while_sending_tape [OF sym])

declare send_outbound.simps [simp del]

definition send_encoded_frame :: "push_env \<Rightarrow> u8 list \<Rightarrow> PushWorker \<Rightarrow> push_result awaiting" where
  "send_encoded_frame E bytes w =
     (case decode E bytes of None \<Rightarrow> Some (Err Decode, w) | Some f \<Rightarrow> send_outbound E f w)"

lemma send_outbound_tape: "send_outbound E f w = Some (r, w') \<Longrightarrow> length (tape w') < length (tape w)"
proof (induction E f w arbitrary: r w' rule: send_outbound.induct)
  case (1 E f w)
  from "1.prems" obtain a w1 where a: "take_await no_batch w = Some (a, w1)"
    by (subst (asm) send_outbound.simps) (auto split: option.splits)
  note len = take_await_tape [OF a]
  show ?case
  proof (cases "\<exists>g w2. a = AwServer (Some g) \<and> process_server_while_sending E g w1 = (Ok (), w2)")
    case True
    then obtain g w2 where g: "a = AwServer (Some g)" "process_server_while_sending E g w1 = (Ok (), w2)" by blast
    then have "send_outbound E f w2 = Some (r, w')" using "1.prems" a by (subst (asm) send_outbound.simps) simp
    from "1.IH" [OF a refl g(1) refl g(2)[symmetric] refl this] show ?thesis
      using len while_sending_tape [OF g(2)] by simp
  next
    case False
    with "1.prems" a len show ?thesis
      by (subst (asm) send_outbound.simps)
        (auto dest!: while_sending_tape split: Await.splits option.splits if_splits prod.splits result.splits)
  qed
qed

section \<open>Pushing batches\<close>

text \<open>The work item a new batch belongs to: its own, or the oldest of the client queue.\<close>

definition take_work_id :: "BatchWorkId option \<Rightarrow> PushWorker \<Rightarrow> (BatchWorkId option, PushWorkerError) result" where
  "take_work_id i w =
     (case (progress w, i) of
        (Some _, Some i) \<Rightarrow> Ok (Some i)
      | (Some l, None) \<Rightarrow>
          (case front (PipelineOwnershipState.client_queued_batches l) of
             None \<Rightarrow> Err (missing ''client ownership is missing'')
           | Some i \<Rightarrow> Ok (Some i))
      | (None, None) \<Rightarrow> Ok None
      | (None, Some _) \<Rightarrow> Err (missing ''tracked batch requires pipeline progress''))"

definition start_snapshot_transaction :: "nat \<Rightarrow> PushWorker \<Rightarrow> push_result \<times> PushWorker" where
  "start_snapshot_transaction count w =
     (if count \<ge> 4294967296 then (Err (bad_transaction ''snapshot transaction has too many chunks''), w)
      else if count = 0 then (Err (bad_transaction ''snapshot transaction must have at least one chunk''), w)
      else case next_sequence (window w) of
        None \<Rightarrow> (Err (bad_transaction ''snapshot transaction cannot allocate a sequence''), w)
      | Some first \<Rightarrow>
          (Ok (), w\<lparr>snapshot_transaction :=
             Some (decimal (unat (stream_epoch w)) @ [45] @ decimal (unat first), 0, of_nat count)\<rparr>))"

definition current_transaction :: "PushWorker \<Rightarrow> SnapshotTransaction option" where
  "current_transaction w =
     map_option (\<lambda>(i, chunk, count).
       \<lparr>tx_id = i, tx_chunk_index = chunk, tx_chunk_count = count, tx_end = (u32_saturating_succ chunk = count)\<rparr>)
       (snapshot_transaction w)"

definition wire_entry :: "SnapshotEntryMsg \<Rightarrow> SnapshotEntryMsg SnapshotEntry" where
  "wire_entry e = \<lparr>SnapshotEntry.datasource_id = e_datasource_id e, contents = e\<rparr>"

definition batch_frame :: "push_env \<Rightarrow> AggregatedBatch \<Rightarrow> PushWorker \<Rightarrow> u64 \<Rightarrow> ClientFrame" where
  "batch_frame E b w s =
     CSnapshotBatch \<lparr>b_header = Some (make_header E w s), b_entries = map wire_entry (AggregatedBatch.entries b),
       SnapshotBatch.is_full_snapshot = AggregatedBatch.is_full_snapshot b, b_transaction = current_transaction w\<rparr>"

definition transfer_to_pending :: "BatchWorkId option \<Rightarrow> PushWorker \<Rightarrow> push_result \<times> PushWorker" where
  "transfer_to_pending i w =
     (case (progress w, i) of
        (Some l, Some i) \<Rightarrow> on_ledger (transfer_client_to_pending_frames i) l w
      | _ \<Rightarrow> (Ok (), w))"

definition advance_transaction :: "bool \<Rightarrow> PushWorker \<Rightarrow> push_result \<times> PushWorker" where
  "advance_transaction full w =
     (if \<not> full then (Ok (), w)
      else case snapshot_transaction w of
        None \<Rightarrow> (Err (bad_transaction ''full snapshot transaction progress disappeared''), w)
      | Some (i, chunk, count) \<Rightarrow>
          (let chunk = u32_saturating_succ chunk
           in (Ok (), w\<lparr>snapshot_transaction := (if chunk = count then None else Some (i, chunk, count))\<rparr>)))"

definition push_new_batch :: "push_env \<Rightarrow> AggregatedBatch \<Rightarrow> BatchWorkId option \<Rightarrow> PushWorker \<Rightarrow> push_result awaiting" where
  "push_new_batch E b i w =
     (case take_work_id i w of
        Err e \<Rightarrow> Some (Err e, w)
      | Ok i \<Rightarrow>
          (let full = AggregatedBatch.is_full_snapshot b
           in case (if full \<and> snapshot_transaction w = None then start_snapshot_transaction 1 w else (Ok (), w)) of
                (Err e, w1) \<Rightarrow> Some (Err e, w1)
              | (Ok _, w1) \<Rightarrow>
                  (case SequenceWindow_push_with (window w1) (\<lambda>s. encode E (batch_frame E b w1 s)) of
                     (Err e, win) \<Rightarrow> Some (Err (Window e), w1\<lparr>window := win\<rparr>)
                   | (Ok f, win) \<Rightarrow>
                       (case transfer_to_pending i (w1\<lparr>window := win\<rparr>) of
                          (Err e, w2) \<Rightarrow> Some (Err e, w2)
                        | (Ok _, w2) \<Rightarrow>
                            (case advance_transaction full w2 of
                               (Err e, w3) \<Rightarrow> Some (Err e, w3)
                             | (Ok _, w3) \<Rightarrow> send_encoded_frame E (encoded_frame f) w3)))))"

definition decode_pending_frame :: "push_env \<Rightarrow> PendingFrame \<Rightarrow> (ClientFrame, PushWorkerError) result" where
  "decode_pending_frame E f =
     (case decode E (encoded_frame f) of
        None \<Rightarrow> Err Decode
      | Some frame \<Rightarrow>
          (case frame of
             CSnapshotBatch b \<Rightarrow>
               (case b_header b of
                  None \<Rightarrow> Err ResendWithoutSnapshotHeader
                | Some h \<Rightarrow>
                    if h_sequence h \<noteq> sequence f then Err (ResendSequenceMismatch (sequence f) (h_sequence h))
                    else Ok frame)
           | _ \<Rightarrow> Err ResendWithoutSnapshotHeader))"

definition push_resend :: "push_env \<Rightarrow> PendingFrame \<Rightarrow> PushWorker \<Rightarrow> push_result awaiting" where
  "push_resend E f w =
     (case decode_pending_frame E f of
        Err e \<Rightarrow> Some (Err e, w)
      | Ok frame \<Rightarrow>
          (case SequenceWindow_restore (window w) f of
             (Err e, win) \<Rightarrow> Some (Err (Window e), w\<lparr>window := win\<rparr>)
           | (Ok _, win) \<Rightarrow>
               (case progress w of
                  None \<Rightarrow> send_outbound E frame (w\<lparr>window := win\<rparr>)
                | Some l \<Rightarrow>
                    (case verify_pending_frames (length (SequenceWindow.pending win)) l of
                       Err e \<Rightarrow> Some (Err (ownership_error e), w\<lparr>window := win\<rparr>)
                     | Ok _ \<Rightarrow> send_outbound E frame (w\<lparr>window := win\<rparr>)))))"

definition mark_first :: "AggregatedBatch \<Rightarrow> PushWorker \<Rightarrow> AggregatedBatch \<times> PushWorker" where
  "mark_first b w =
     (if force_first_batch_full_snapshot w
      then (b\<lparr>AggregatedBatch.is_full_snapshot := True\<rparr>, w\<lparr>force_first_batch_full_snapshot := False\<rparr>) else (b, w))"

fun process_push_event :: "push_env \<Rightarrow> PushEvent \<Rightarrow> PushWorker \<Rightarrow> push_result awaiting" where
  "process_push_event E (Batch b) w = (case mark_first b w of (b, w) \<Rightarrow> push_new_batch E b None w)"
| "process_push_event E (BatchAt i g b) w = (case mark_first b w of (b, w) \<Rightarrow> push_new_batch E b (Some i) w)"
| "process_push_event E (Resend f) w = push_resend E f w"

section \<open>Waiting for acknowledgements\<close>

text \<open>
  A server frame while the worker waits: an acknowledgement must succeed, a command is refused with
  the given message, a resync or a closing error ends the wait.
\<close>

definition refuse_command :: "push_env \<Rightarrow> string \<Rightarrow> Command \<Rightarrow> PushWorker \<Rightarrow> push_result awaiting" where
  "refuse_command E refusal c w =
     (case begin_command_ownership E c w of
        (Err e, w1) \<Rightarrow> Some (Err e, w1)
      | (Ok key, w1) \<Rightarrow>
          (case send_outbound E (make_command_ack E w1 (cmd_id c) (Err (lit refusal))) w1 of
             None \<Rightarrow> None
           | Some (Err e, w2) \<Rightarrow> Some (Err e, w2)
           | Some (Ok _, w2) \<Rightarrow> Some (finish_command_ownership key w2)))"

definition frame_while_waiting :: "push_env \<Rightarrow> string \<Rightarrow> ServerFrame \<Rightarrow> PushWorker \<Rightarrow> push_result awaiting" where
  "frame_while_waiting E refusal f w =
     (case f of
        SBatchAck s \<Rightarrow> Some (acknowledge s w)
      | SCommand c \<Rightarrow> refuse_command E refusal c w
      | SServerError code m close_stream \<Rightarrow>
          if close_stream then Some (Err (ServerInterrupted m), w) else Some (Ok (), w)
      | SResyncRequired reason expected \<Rightarrow> Some (Err (ServerInterrupted reason), w\<lparr>resync_required := True\<rparr>)
      | SHelloAck \<Rightarrow> Some (Ok (), w)
      | SEmpty \<Rightarrow> Some (Ok (), w))"

text \<open>One await of such a loop and the handling of what it returns.\<close>

definition await_server :: "push_env \<Rightarrow> string \<Rightarrow> PushWorker \<Rightarrow> push_result awaiting" where
  "await_server E refusal w =
     (case take_await no_write w of
        None \<Rightarrow> None
      | Some (AwServer None, w') \<Rightarrow> Some (Err TransportClosed, w')
      | Some (AwServer (Some f), w') \<Rightarrow> frame_while_waiting E refusal f w'
      | Some (_, w') \<Rightarrow> Some (Err Cancelled, w'))"

lemma begin_command_tape: "begin_command_ownership E c w = (r, w') \<Longrightarrow> tape w' = tape w"
  by (auto simp: begin_command_ownership_def dest: on_ledger_tapeD split: option.splits result.splits prod.splits)

lemma finish_command_tape: "finish_command_ownership key w = (r, w') \<Longrightarrow> tape w' = tape w"
  by (auto simp: finish_command_ownership_def dest: on_ledger_tapeD split: option.splits)

lemma refuse_command_tape:
  assumes "refuse_command E m c w = Some (r, w')"
  shows "length (tape w') \<le> length (tape w)"
proof (cases "begin_command_ownership E c w")
  case (Pair b w1)
  note same = begin_command_tape [OF Pair]
  show ?thesis
  proof (cases b)
    case (Ok key)
    then obtain r2 w2 where sent: "send_outbound E (make_command_ack E w1 (cmd_id c) (Err (lit m))) w1 = Some (r2, w2)"
      using assms Pair by (auto simp: refuse_command_def split: option.splits)
    with assms Pair Ok have "tape w' = tape w2"
      by (auto simp: refuse_command_def split: result.splits intro: finish_command_tape)
    with send_outbound_tape [OF sent] same show ?thesis by simp
  qed (use assms Pair same in \<open>simp add: refuse_command_def\<close>)
qed

lemma frame_while_waiting_tape:
  "frame_while_waiting E m f w = Some (r, w') \<Longrightarrow> length (tape w') \<le> length (tape w)"
  by (auto simp: frame_while_waiting_def dest: refuse_command_tape split: ServerFrame.splits if_splits)
    (metis acknowledge_tape order_refl snd_conv)

lemma await_server_tape: "await_server E m w = Some (r, w') \<Longrightarrow> length (tape w') < length (tape w)"
  by (fastforce simp: await_server_def dest: take_await_tape frame_while_waiting_tape
      split: option.splits Await.splits)

definition window_full :: "PushWorker \<Rightarrow> bool" where
  "window_full w = SequenceWindow_is_full (window w)"

definition window_empty :: "PushWorker \<Rightarrow> bool" where
  "window_empty w \<longleftrightarrow> SequenceWindow.pending (window w) = []"

function wait_for_window_capacity :: "push_env \<Rightarrow> PushWorker \<Rightarrow> push_result awaiting" where
  "wait_for_window_capacity E w =
     (if \<not> window_full w then Some (Ok (), w)
      else case await_server E ''full snapshot command is waiting for ACK capacity'' w of
        None \<Rightarrow> None
      | Some (Err e, w') \<Rightarrow> Some (Err e, w')
      | Some (Ok _, w') \<Rightarrow> wait_for_window_capacity E w')"
  by pat_completeness auto
termination
  by (relation "measure (\<lambda>(E, w). length (tape w))") (auto dest: await_server_tape)

declare wait_for_window_capacity.simps [simp del]

lemma wait_capacity_tape: "wait_for_window_capacity E w = Some (r, w') \<Longrightarrow> length (tape w') \<le> length (tape w)"
proof (induction E w arbitrary: r w' rule: wait_for_window_capacity.induct)
  case (1 E w)
  show ?case
  proof (cases "window_full w \<and> (\<exists>w1. await_server E ''full snapshot command is waiting for ACK capacity'' w = Some (Ok (), w1))")
    case True
    then obtain w1 where step: "window_full w" "await_server E ''full snapshot command is waiting for ACK capacity'' w = Some (Ok (), w1)"
      by blast
    with "1.prems" have "wait_for_window_capacity E w1 = Some (r, w')"
      by (subst (asm) wait_for_window_capacity.simps) simp
    from "1.IH" [OF _ step(2) refl refl this] step(1) await_server_tape [OF step(2)] show ?thesis by simp
  next
    case False
    with "1.prems" show ?thesis
      by (subst (asm) wait_for_window_capacity.simps)
        (auto dest: await_server_tape split: if_splits option.splits result.splits)
  qed
qed

function wait_for_pending_frames_empty :: "push_env \<Rightarrow> PushWorker \<Rightarrow> push_result awaiting" where
  "wait_for_pending_frames_empty E w =
     (if window_empty w then Some (Ok (), w)
      else case wait_for_window_capacity E w of
        None \<Rightarrow> None
      | Some (Err e, w1) \<Rightarrow> Some (Err e, w1)
      | Some (Ok _, w1) \<Rightarrow>
          if window_empty w1 then Some (Ok (), w1)
          else (case await_server E ''authoritative full snapshot is waiting for ACKs'' w1 of
                  None \<Rightarrow> None
                | Some (Err e, w2) \<Rightarrow> Some (Err e, w2)
                | Some (Ok _, w2) \<Rightarrow> wait_for_pending_frames_empty E w2))"
  by pat_completeness auto
termination
  by (relation "measure (\<lambda>(E, w). length (tape w))")
    (auto dest!: await_server_tape wait_capacity_tape)

declare wait_for_pending_frames_empty.simps [simp del]

section \<open>Draining the queues of a session\<close>

lemma send_encoded_tape:
  assumes "send_encoded_frame E bytes w = Some (r, w')"
  shows "length (tape w') \<le> length (tape w)" "r = Ok u \<Longrightarrow> length (tape w') < length (tape w)"
  using assms by (auto simp: send_encoded_frame_def dest: send_outbound_tape split: option.splits)

lemma transfer_to_pending_tape: "transfer_to_pending i w = (r, w') \<Longrightarrow> tape w' = tape w"
  by (auto simp: transfer_to_pending_def dest: on_ledger_tapeD split: option.splits)

lemma advance_transaction_tape: "advance_transaction full w = (r, w') \<Longrightarrow> tape w' = tape w"
  by (auto simp: advance_transaction_def Let_def split: option.splits if_splits)

lemma start_transaction_tape: "start_snapshot_transaction n w = (r, w') \<Longrightarrow> tape w' = tape w"
  by (auto simp: start_snapshot_transaction_def split: option.splits if_splits)

lemma push_new_batch_tape:
  assumes "push_new_batch E b i w = Some (r, w')"
  shows "length (tape w') \<le> length (tape w)" "r = Ok u \<Longrightarrow> length (tape w') < length (tape w)"
  using assms
  by (auto simp: push_new_batch_def Let_def
      dest!: transfer_to_pending_tape advance_transaction_tape start_transaction_tape
        transfer_to_pending_tape [OF sym] advance_transaction_tape [OF sym] start_transaction_tape [OF sym]
      dest: send_encoded_tape split: result.splits prod.splits if_splits)

lemma push_resend_tape:
  assumes "push_resend E f w = Some (r, w')"
  shows "length (tape w') \<le> length (tape w)" "r = Ok u \<Longrightarrow> length (tape w') < length (tape w)"
  using assms
  by (auto simp: push_resend_def dest: send_outbound_tape split: result.splits prod.splits option.splits)

lemma mark_first_tape: "mark_first b w = (b', w') \<Longrightarrow> tape w' = tape w"
  by (auto simp: mark_first_def split: if_splits)

lemma process_push_event_tape:
  assumes "process_push_event E v w = Some (r, w')"
  shows "length (tape w') \<le> length (tape w)" "r = Ok u \<Longrightarrow> length (tape w') < length (tape w)"
  using assms push_new_batch_tape push_resend_tape
  by (cases v; fastforce simp: mark_first_def split: if_splits)+

text \<open>
  A batch whose push failed is kept for the next session when the window holds as many frames as before
  the push.
\<close>

function drain_initial :: "push_env \<Rightarrow> PushWorker \<Rightarrow> push_result awaiting" where
  "drain_initial E w =
     (if initial_batches w = [] then Some (Ok (), w)
      else case wait_for_window_capacity E w of
        None \<Rightarrow> None
      | Some (Err e, w1) \<Rightarrow> Some (Err e, w1)
      | Some (Ok _, w1) \<Rightarrow>
          (let b = hd (initial_batches w1);
               before = length (SequenceWindow.pending (window w1))
           in case push_new_batch E b None (w1\<lparr>initial_batches := tl (initial_batches w1)\<rparr>) of
                None \<Rightarrow> None
              | Some (Err e, w2) \<Rightarrow>
                  Some (Err e, if length (SequenceWindow.pending (window w2)) = before
                               then w2\<lparr>initial_batches := b # initial_batches w2\<rparr> else w2)
              | Some (Ok _, w2) \<Rightarrow> drain_initial E w2))"
  by pat_completeness auto
termination
  by (relation "measure (\<lambda>(E, w). length (tape w))")
    (auto dest!: wait_capacity_tape push_new_batch_tape(2) [OF _ refl])

declare drain_initial.simps [simp del]

definition drain_authoritative_batches :: "push_env \<Rightarrow> PushWorker \<Rightarrow> push_result awaiting" where
  "drain_authoritative_batches E w =
     (let remaining = length (initial_batches w)
      in if remaining = 0 then drain_initial E w
         else case snapshot_transaction w of
           None \<Rightarrow>
             (case start_snapshot_transaction remaining w of
                (Err e, w1) \<Rightarrow> Some (Err e, w1)
              | (Ok _, w1) \<Rightarrow> drain_initial E w1)
         | Some (i, chunk, count) \<Rightarrow>
             if unat count - unat chunk \<noteq> remaining
             then Some (Err (bad_transaction ''restored snapshot transaction does not match remaining chunks''), w)
             else drain_initial E w)"

function drain_preserved_live_events :: "push_env \<Rightarrow> PushWorker \<Rightarrow> push_result awaiting" where
  "drain_preserved_live_events E w =
     (if preserved_live_events w = [] then Some (Ok (), w)
      else case wait_for_window_capacity E w of
        None \<Rightarrow> None
      | Some (Err e, w1) \<Rightarrow> Some (Err e, w1)
      | Some (Ok _, w1) \<Rightarrow>
          (let v = hd (preserved_live_events w1);
               before = length (SequenceWindow.pending (window w1))
           in case process_push_event E v (w1\<lparr>preserved_live_events := tl (preserved_live_events w1)\<rparr>) of
                None \<Rightarrow> None
              | Some (Err e, w2) \<Rightarrow>
                  Some (Err e, if length (SequenceWindow.pending (window w2)) = before
                               then w2\<lparr>preserved_live_events := v # preserved_live_events w2\<rparr> else w2)
              | Some (Ok _, w2) \<Rightarrow> drain_preserved_live_events E w2))"
  by pat_completeness auto
termination
  by (relation "measure (\<lambda>(E, w). length (tape w))")
    (auto dest!: wait_capacity_tape process_push_event_tape(2) [OF _ refl])

declare drain_preserved_live_events.simps [simp del]

section \<open>Remote commands\<close>

definition advance_full_snapshot_command :: "push_env \<Rightarrow> PushWorker \<Rightarrow> bool awaiting" where
  "advance_full_snapshot_command E w =
     (let reply = (\<lambda>i w. case send_outbound E (make_command_ack E w i (Ok ())) w of
                           None \<Rightarrow> None
                         | Some (Err _, w') \<Rightarrow> Some (False, w')
                         | Some (Ok _, w') \<Rightarrow> Some (True, w'\<lparr>reply_sent_this_session := True\<rparr>))
      in case full_snapshot_command w of
        None \<Rightarrow> Some (True, w)
      | Some (ReplyReady i) \<Rightarrow> reply i w
      | Some (PendingChunks i) \<Rightarrow>
          (case drain_authoritative_batches E w of
             None \<Rightarrow> None
           | Some (Err _, w1) \<Rightarrow> Some (False, w1)
           | Some (Ok _, w1) \<Rightarrow>
               (case wait_for_pending_frames_empty E w1 of
                  None \<Rightarrow> None
                | Some (Err _, w2) \<Rightarrow> Some (False, w2)
                | Some (Ok _, w2) \<Rightarrow>
                    reply i (w2\<lparr>full_snapshot_command := Some (ReplyReady i),
                                command_journal := CommandJournal_complete (command_journal w2) i (Ok ())\<rparr>))))"

definition reply_confirmation_ready :: "PushWorker \<Rightarrow> bool" where
  "reply_confirmation_ready w \<longleftrightarrow>
     reply_sent_this_session w \<and> (case full_snapshot_command w of Some (ReplyReady _) \<Rightarrow> True | _ \<Rightarrow> False)"

text \<open>A reply, and the end of the command's ownership when it was sent.\<close>

definition reply_and_finish ::
  "push_env \<Rightarrow> ClientFrame \<Rightarrow> CommandWorkKey option \<Rightarrow> PushWorker \<Rightarrow> bool awaiting" where
  "reply_and_finish E f key w =
     (case send_outbound E f w of
        None \<Rightarrow> None
      | Some (r, w') \<Rightarrow> Some (finish_command_after_reply (r = Ok ()) key w'))"

fun journal_message :: "JournalError \<Rightarrow> rust_str" where
  "journal_message EmptyCommandId = lit ''empty command ID''"
| "journal_message ConflictingPayload = lit ''command ID has a conflicting canonical payload''"
| "journal_message (JournalFull n) = lit ''command journal full: capacity '' @ decimal n"

definition executor_missing :: rust_str where
  "executor_missing = lit ''datasource registry is not configured''"

definition execute_command :: "push_env \<Rightarrow> Command \<Rightarrow> PushWorker \<Rightarrow> CommandResult" where
  "execute_command E c w =
     (case cmd_payload c of
        Some (CommandPayload.ResetStats ids) \<Rightarrow>
          if command_executor w then reset_at E (length (tape w)) ids else Err executor_missing
      | Some RequestFullSnapshot \<Rightarrow> Err (lit ''full snapshot command must use the durable path'')
      | None \<Rightarrow> Err (lit ''empty command payload''))"

definition handle_command :: "push_env \<Rightarrow> Command \<Rightarrow> PushWorker \<Rightarrow> ClientFrame \<times> PushWorker" where
  "handle_command E c w =
     (let i = cmd_id c;
          (r, j) =
            (case canonical_command_payload (cmd_payload c) of
               Err e \<Rightarrow> (Err e, command_journal w)
             | Ok canonical \<Rightarrow>
                 (case CommandJournal_begin (command_journal w) i canonical of
                    (Err e, j) \<Rightarrow> (Err (journal_message e), j)
                  | (Ok (False, Some r), j) \<Rightarrow> (r, j)
                  | (Ok (False, None), j) \<Rightarrow> (Err (lit ''command is already executing''), j)
                  | (Ok (True, None), j) \<Rightarrow>
                      (let r = execute_command E c w in (r, CommandJournal_complete j i r))
                  | (Ok (True, Some _), j) \<Rightarrow> (Err (lit ''new command unexpectedly had a result''), j)))
      in (make_command_ack E w i r, w\<lparr>command_journal := j\<rparr>))"

text \<open>The durable path of a full snapshot.\<close>

definition own_authoritative :: "nat \<Rightarrow> PushWorker \<Rightarrow> push_result \<times> PushWorker" where
  "own_authoritative count w =
     (case progress w of
        None \<Rightarrow> (Ok (), w)
      | Some l \<Rightarrow> on_ledger (queue_client_batches_front count) l w)"

definition start_full_snapshot :: "push_env \<Rightarrow> rust_str \<Rightarrow> AggregatedBatch list \<Rightarrow> PushWorker \<Rightarrow> bool awaiting" where
  "start_full_snapshot E i batches w =
     (case own_authoritative (length batches) w of
        (Err _, w1) \<Rightarrow> Some (False, w1)
      | (Ok _, w1) \<Rightarrow>
          (case advance_full_snapshot_command E
                  (w1\<lparr>full_snapshot_command := Some (PendingChunks i), initial_batches := initial_batches w1 @ batches\<rparr>) of
             None \<Rightarrow> None
           | Some (advanced, w2) \<Rightarrow> Some (advanced \<and> \<not> reply_confirmation_ready w2, w2)))"

definition handle_full_snapshot_command ::
  "push_env \<Rightarrow> Command \<Rightarrow> CommandWorkKey option \<Rightarrow> PushWorker \<Rightarrow> bool awaiting" where
  "handle_full_snapshot_command E c key w =
     (let i = cmd_id c; answer = (\<lambda>r w. reply_and_finish E (make_command_ack E w i r) key w)
      in case canonical_command_payload (cmd_payload c) of
        Err e \<Rightarrow> answer (Err e) w
      | Ok canonical \<Rightarrow>
          (case CommandJournal_begin (command_journal w) i canonical of
             (Err e, j) \<Rightarrow> answer (Err (journal_message e)) (w\<lparr>command_journal := j\<rparr>)
           | (Ok (execute, existing), j) \<Rightarrow>
               (let w1 = w\<lparr>command_journal := j\<rparr>
                in case full_snapshot_command w1 of
                  Some state \<Rightarrow>
                    if state_command_id state = i then
                      (case state of
                         ReplyReady _ \<Rightarrow>
                           (case send_outbound E (make_command_ack E w1 i (Ok ())) w1 of
                              None \<Rightarrow> None
                            | Some (Ok _, w2) \<Rightarrow> Some (False, w2\<lparr>reply_sent_this_session := True\<rparr>)
                            | Some (Err _, w2) \<Rightarrow> Some (False, w2))
                       | PendingChunks _ \<Rightarrow> Some (True, w1))
                    else answer (Err (lit ''full snapshot command '' @ state_command_id state @ lit '' is still pending'')) w1
                | None \<Rightarrow>
                    if \<not> execute then
                      answer (case existing of Some r \<Rightarrow> r
                                | None \<Rightarrow> Err (lit ''full snapshot command is already executing'')) w1
                    else (case (if command_executor w1 then full_at E (length (tape w1)) else Err executor_missing) of
                            Err e \<Rightarrow>
                              answer (Err e) (w1\<lparr>command_journal := CommandJournal_complete (command_journal w1) i (Err e)\<rparr>)
                          | Ok batches \<Rightarrow> start_full_snapshot E i batches w1))))"

section \<open>Server frames\<close>

definition wants_full_snapshot :: "Command \<Rightarrow> bool" where
  "wants_full_snapshot c \<longleftrightarrow> cmd_payload c = Some RequestFullSnapshot"

definition answer_owned ::
  "push_env \<Rightarrow> Command \<Rightarrow> (CommandWorkKey option \<Rightarrow> PushWorker \<Rightarrow> bool awaiting) \<Rightarrow> PushWorker \<Rightarrow> bool awaiting" where
  "answer_owned E c handle w =
     (case begin_command_ownership E c w of (Err _, w1) \<Rightarrow> Some (False, w1) | (Ok key, w1) \<Rightarrow> handle key w1)"

definition process_server_frame :: "push_env \<Rightarrow> ServerFrame \<Rightarrow> PushWorker \<Rightarrow> bool awaiting" where
  "process_server_frame E f w =
     (case f of
        SBatchAck s \<Rightarrow> Some (True, snd (acknowledge s w))
      | SCommand c \<Rightarrow>
          if window_full w \<and> wants_full_snapshot c then
            (if SequenceWindow.capacity (window w) = 0 then
               answer_owned E c (\<lambda>key w. reply_and_finish E
                 (make_command_ack E w (cmd_id c) (Err (lit ''ACK window capacity is zero''))) key w) w
             else if deferred_server_frames w = [] then Some (True, w\<lparr>deferred_server_frames := [f]\<rparr>)
             else answer_owned E c (\<lambda>key w. reply_and_finish E
                 (make_command_ack E w (cmd_id c)
                    (Err (lit ''another full snapshot command is waiting for ACK capacity''))) key w) w)
          else if wants_full_snapshot c then answer_owned E c (handle_full_snapshot_command E c) w
          else answer_owned E c (\<lambda>key w. case handle_command E c w of (reply, w) \<Rightarrow> reply_and_finish E reply key w) w
      | SHelloAck \<Rightarrow> Some (True, w)
      | SEmpty \<Rightarrow> Some (True, w)
      | SResyncRequired reason expected \<Rightarrow> Some (False, w\<lparr>resync_required := True\<rparr>)
      | SServerError code m close_stream \<Rightarrow> Some (\<not> close_stream, w))"

text \<open>
  A server frame that does not consume the tape leaves the deferred frames alone, except for the command
  that waits for a place in the window.
\<close>

lemma wait_empty_tape: "wait_for_pending_frames_empty E w = Some (r, w') \<Longrightarrow> length (tape w') \<le> length (tape w)"
proof (induction E w arbitrary: r w' rule: wait_for_pending_frames_empty.induct)
  case (1 E w)
  let ?await = "await_server E ''authoritative full snapshot is waiting for ACKs''"
  show ?case
  proof (cases "\<exists>w1 w2. \<not> window_empty w \<and> wait_for_window_capacity E w = Some (Ok (), w1) \<and> \<not> window_empty w1
      \<and> ?await w1 = Some (Ok (), w2)")
    case True
    then obtain w1 w2 where step: "\<not> window_empty w" "wait_for_window_capacity E w = Some (Ok (), w1)"
      "\<not> window_empty w1" "?await w1 = Some (Ok (), w2)" by blast
    with "1.prems" have "wait_for_pending_frames_empty E w2 = Some (r, w')"
      by (subst (asm) wait_for_pending_frames_empty.simps) simp
    from "1.IH" [OF step(1,2) refl refl step(3,4) refl refl this] wait_capacity_tape [OF step(2)]
      await_server_tape [OF step(4)]
    show ?thesis by simp
  next
    case False
    with "1.prems" show ?thesis
      by (subst (asm) wait_for_pending_frames_empty.simps)
        (fastforce dest: await_server_tape wait_capacity_tape split: if_splits option.splits result.splits)
  qed
qed

lemma drain_initial_tape: "drain_initial E w = Some (r, w') \<Longrightarrow> length (tape w') \<le> length (tape w)"
proof (induction E w arbitrary: r w' rule: drain_initial.induct)
  case (1 E w)
  let ?push = "\<lambda>w1. push_new_batch E (hd (initial_batches w1)) None (w1\<lparr>initial_batches := tl (initial_batches w1)\<rparr>)"
  show ?case
  proof (cases "\<exists>w1 w2. initial_batches w \<noteq> [] \<and> wait_for_window_capacity E w = Some (Ok (), w1)
      \<and> ?push w1 = Some (Ok (), w2)")
    case True
    then obtain w1 w2 where step: "initial_batches w \<noteq> []" "wait_for_window_capacity E w = Some (Ok (), w1)"
      "?push w1 = Some (Ok (), w2)" by blast
    with "1.prems" have "drain_initial E w2 = Some (r, w')"
      by (subst (asm) drain_initial.simps) (simp add: Let_def)
    from "1.IH" [OF step(1,2) refl refl refl refl step(3) refl refl this] wait_capacity_tape [OF step(2)]
      push_new_batch_tape(1) [OF step(3)]
    show ?thesis by simp
  next
    case False
    with "1.prems" show ?thesis
      by (subst (asm) drain_initial.simps)
        (fastforce simp: Let_def dest: wait_capacity_tape push_new_batch_tape(1) split: if_splits option.splits result.splits)
  qed
qed

lemma drain_authoritative_tape:
  "drain_authoritative_batches E w = Some (r, w') \<Longrightarrow> length (tape w') \<le> length (tape w)"
  by (auto simp: drain_authoritative_batches_def Let_def dest!: drain_initial_tape start_transaction_tape
      start_transaction_tape [OF sym] split: option.splits if_splits prod.splits result.splits)

lemma advance_command_tape: "advance_full_snapshot_command E w = Some (r, w') \<Longrightarrow> length (tape w') \<le> length (tape w)"
  by (fastforce simp: advance_full_snapshot_command_def Let_def
      dest: send_outbound_tape drain_authoritative_tape wait_empty_tape
      split: option.splits FullSnapshotCommandState.splits prod.splits result.splits)

lemma reply_and_finish_tape: "reply_and_finish E f key w = Some (r, w') \<Longrightarrow> length (tape w') < length (tape w)"
  by (auto simp: reply_and_finish_def finish_command_after_reply_def dest!: send_outbound_tape finish_command_tape
      split: option.splits if_splits prod.splits result.splits)

lemma on_ledger_deferred: "on_ledger f l w = (r, w') \<Longrightarrow> deferred_server_frames w' = deferred_server_frames w"
  by (auto simp: on_ledger_def split: prod.splits result.splits)

lemma acknowledge_deferred [simp]: "deferred_server_frames (snd (acknowledge s w)) = deferred_server_frames w"
  by (auto simp: acknowledge_def Let_def on_ledger_def split: prod.splits result.splits option.splits)

lemma begin_command_deferred:
  "begin_command_ownership E c w = (r, w') \<Longrightarrow> deferred_server_frames w' = deferred_server_frames w"
  by (auto simp: begin_command_ownership_def dest: on_ledger_deferred split: option.splits result.splits prod.splits)

definition quick :: "PushWorker \<Rightarrow> PushWorker \<Rightarrow> bool" where
  "quick w w' \<longleftrightarrow> length (tape w') < length (tape w)
     \<or> tape w' = tape w \<and> deferred_server_frames w' = deferred_server_frames w"

lemma handle_full_snapshot_quick:
  assumes "handle_full_snapshot_command E c key w = Some (r, w')"
  shows "quick w w' \<or> (\<exists>i bs j. start_full_snapshot E i bs (w\<lparr>command_journal := j\<rparr>) = Some (r, w'))"
  using assms
  by (fastforce simp: handle_full_snapshot_command_def Let_def quick_def
      dest: reply_and_finish_tape send_outbound_tape
      split: result.splits prod.splits option.splits if_splits FullSnapshotCommandState.splits)

lemma advance_command_consumes:
  assumes "advance_full_snapshot_command E w = Some (True, w')" and "full_snapshot_command w \<noteq> None"
  shows "length (tape w') < length (tape w)"
  using assms
  by (fastforce simp: advance_full_snapshot_command_def Let_def
      dest: send_outbound_tape drain_authoritative_tape wait_empty_tape
      split: option.splits FullSnapshotCommandState.splits prod.splits result.splits)

lemma own_authoritative_tape: "own_authoritative n w = (r, w') \<Longrightarrow> tape w' = tape w"
  by (auto simp: own_authoritative_def dest: on_ledger_tapeD split: option.splits)

lemma start_full_snapshot_tape:
  assumes "start_full_snapshot E i bs w = Some (r, w')"
  shows "length (tape w') \<le> length (tape w)" "r \<Longrightarrow> length (tape w') < length (tape w)"
proof -
  obtain o1 w1 where own: "own_authoritative (length bs) w = (o1, w1)" by fastforce
  note same = own_authoritative_tape [OF own]
  have "length (tape w') \<le> length (tape w) \<and> (r \<longrightarrow> length (tape w') < length (tape w))"
  proof (cases o1)
    case (Ok u)
    let ?v = "w1\<lparr>full_snapshot_command := Some (PendingChunks i), initial_batches := initial_batches w1 @ bs\<rparr>"
    from Ok assms own obtain advanced where
      step: "advance_full_snapshot_command E ?v = Some (advanced, w')" and r: "r \<longrightarrow> advanced"
      by (auto simp: start_full_snapshot_def split: option.splits)
    have "advanced \<Longrightarrow> length (tape w') < length (tape ?v)" using step by (intro advance_command_consumes) simp_all
    with advance_command_tape [OF step] r same show ?thesis by auto
  qed (use assms own same in \<open>simp add: start_full_snapshot_def\<close>)
  then show "length (tape w') \<le> length (tape w)" "r \<Longrightarrow> length (tape w') < length (tape w)" by blast+
qed

lemma handle_full_snapshot_tape:
  assumes "handle_full_snapshot_command E c key w = Some (r, w')"
  shows "length (tape w') \<le> length (tape w)" "r \<Longrightarrow> quick w w'"
proof -
  from handle_full_snapshot_quick [OF assms]
  have "length (tape w') \<le> length (tape w) \<and> (r \<longrightarrow> quick w w')"
  proof (elim disjE exE)
    fix i bs j assume start: "start_full_snapshot E i bs (w\<lparr>command_journal := j\<rparr>) = Some (r, w')"
    from start_full_snapshot_tape [OF start] show ?thesis by (auto simp: quick_def)
  qed (auto simp: quick_def)
  then show "length (tape w') \<le> length (tape w)" "r \<Longrightarrow> quick w w'" by blast+
qed

lemma answer_owned_cases:
  assumes "answer_owned E c handle w = Some (r, w')"
  obtains w1 where "quick w w1" "tape w1 = tape w" "\<not> r" "w' = w1"
  | key w1 where "tape w1 = tape w" "deferred_server_frames w1 = deferred_server_frames w" "handle key w1 = Some (r, w')"
proof (cases "begin_command_ownership E c w")
  case (Pair b w1)
  note same = begin_command_tape [OF Pair] begin_command_deferred [OF Pair]
  show thesis
  proof (cases b)
    case (Ok key)
    show thesis
      by (rule that(2) [of w1 key]) (use assms Pair Ok same in \<open>simp_all add: answer_owned_def\<close>)
  next
    case (Err e)
    show thesis
      by (rule that(1) [of w1]) (use assms Pair Err same in \<open>simp_all add: answer_owned_def quick_def\<close>)
  qed
qed

lemma handle_command_same:
  "handle_command E c w = (f, w') \<Longrightarrow> tape w' = tape w \<and> deferred_server_frames w' = deferred_server_frames w"
  by (auto simp: handle_command_def Let_def split: prod.splits)

lemma process_server_frame_tape:
  assumes "process_server_frame E f w = Some (r, w')"
  shows "length (tape w') \<le> length (tape w)" "r \<Longrightarrow> quick w w' \<or> window_full w \<and> (\<exists>c. f = SCommand c)"
proof -
  have "length (tape w') \<le> length (tape w) \<and> (r \<longrightarrow> quick w w' \<or> window_full w \<and> (\<exists>c. f = SCommand c))"
  proof (cases f)
    case (SCommand c)
    show ?thesis
    proof (cases "window_full w \<and> wants_full_snapshot c \<and> SequenceWindow.capacity (window w) \<noteq> 0
        \<and> deferred_server_frames w = []")
      case True
      with assms SCommand show ?thesis by (auto simp: process_server_frame_def)
    next
      case False
      then obtain handle where owned: "answer_owned E c handle w = Some (r, w')"
        and handle: "\<And>key v v'. handle key v = Some (r, v') \<Longrightarrow> length (tape v') \<le> length (tape v) \<and> (r \<longrightarrow> quick v v')"
      proof -
        have reply: "reply_and_finish E g key v = Some (r, v') \<Longrightarrow>
            length (tape v') \<le> length (tape v) \<and> (r \<longrightarrow> quick v v')" for g key v v'
          by (auto dest: reply_and_finish_tape simp: quick_def)
        have normal: "(case handle_command E c v of (g, u) \<Rightarrow> reply_and_finish E g key u) = Some (r, v') \<Longrightarrow>
            length (tape v') \<le> length (tape v) \<and> (r \<longrightarrow> quick v v')" for key v v'
          by (auto dest!: handle_command_same reply_and_finish_tape simp: quick_def split: prod.splits)
        let ?refuse = "\<lambda>m key w. reply_and_finish E (make_command_ack E w (cmd_id c) (Err (lit m))) key w"
        let ?normal = "\<lambda>key w. case handle_command E c w of (reply, w) \<Rightarrow> reply_and_finish E reply key w"
        from assms SCommand False consider
          m where "answer_owned E c (?refuse m) w = Some (r, w')"
        | "answer_owned E c (handle_full_snapshot_command E c) w = Some (r, w')"
        | "answer_owned E c ?normal w = Some (r, w')"
          by (auto simp: process_server_frame_def split: if_splits)
        then show thesis
        proof cases
          case 1
          from that [OF this] reply show thesis by blast
        next
          case 2
          from that [OF this] handle_full_snapshot_tape show thesis by blast
        next
          case 3
          from that [OF this] normal show thesis by blast
        qed
      qed
      from owned show ?thesis
        by (rule answer_owned_cases) (auto simp: quick_def dest!: handle)
    qed
  qed (use assms in \<open>auto simp: process_server_frame_def quick_def\<close>)
  then show "length (tape w') \<le> length (tape w)" "r \<Longrightarrow> quick w w' \<or> window_full w \<and> (\<exists>c. f = SCommand c)"
    by blast+
qed

section \<open>A session\<close>

definition ends_session :: "ServerFrame \<Rightarrow> bool" where
  "ends_session f \<longleftrightarrow>
     (case f of SResyncRequired _ _ \<Rightarrow> True | SServerError _ _ close_stream \<Rightarrow> close_stream | _ \<Rightarrow> False)"

definition next_deferred :: "PushWorker \<Rightarrow> nat option" where
  "next_deferred w =
     (if window_full w then position ends_session (deferred_server_frames w)
      else if deferred_server_frames w \<noteq> [] then Some 0 else None)"

definition session_select :: "bool \<Rightarrow> PushWorker \<Rightarrow> Await \<Rightarrow> bool" where
  "session_select batch_input_closed w a \<longleftrightarrow>
     (case a of AwCancelled \<Rightarrow> True | AwServer _ \<Rightarrow> True | AwSent _ \<Rightarrow> False
      | AwBatch _ \<Rightarrow> \<not> window_full w \<and> \<not> batch_input_closed)"

definition keep_event :: "nat \<Rightarrow> PushEvent \<Rightarrow> PushWorker \<Rightarrow> PushWorker" where
  "keep_event before v w =
     (if length (SequenceWindow.pending (window w)) = before
      then w\<lparr>preserved_live_events := v # preserved_live_events w\<rparr> else w)"

lemma deferred_step:
  assumes "next_deferred w = Some i"
    and "process_server_frame E (deferred_server_frames w ! i)
           (w\<lparr>deferred_server_frames := remove_at i (deferred_server_frames w)\<rparr>) = Some (True, w')"
  shows "length (tape w') < length (tape w)
    \<or> tape w' = tape w \<and> length (deferred_server_frames w') < length (deferred_server_frames w)"
proof -
  let ?v = "w\<lparr>deferred_server_frames := remove_at i (deferred_server_frames w)\<rparr>"
  have i: "i < length (deferred_server_frames w)" and kind: "window_full w \<Longrightarrow> ends_session (deferred_server_frames w ! i)"
    using assms(1) by (auto simp: next_deferred_def dest: position_Some split: if_splits)
  have "window_full ?v = window_full w" by (simp add: window_full_def)
  with kind have "\<not> (window_full ?v \<and> (\<exists>c. deferred_server_frames w ! i = SCommand c))"
    by (auto simp: ends_session_def)
  with process_server_frame_tape(2) [OF assms(2) TrueI] have "quick ?v w'" by blast
  with i show ?thesis by (auto simp: quick_def length_remove_at)
qed

lemma session_server_step:
  "take_await P w = Some (a, w1) \<Longrightarrow> process_server_frame E f w1 = Some (r, w2) \<Longrightarrow> length (tape w2) < length (tape w)"
  by (auto dest!: take_await_tape process_server_frame_tape(1))

lemma session_event_step:
  "take_await P w = Some (a, w1) \<Longrightarrow> process_push_event E v w1 = Some (r, w2) \<Longrightarrow> length (tape w2) < length (tape w)"
  by (auto dest!: take_await_tape process_push_event_tape(1))

function session_loop :: "push_env \<Rightarrow> bool \<Rightarrow> PushWorker \<Rightarrow> PushWorker option" where
  "session_loop E batch_input_closed w =
     (if batch_input_closed \<and> window_empty w then Some w
      else case next_deferred w of
        Some i \<Rightarrow>
          (case process_server_frame E (deferred_server_frames w ! i)
                  (w\<lparr>deferred_server_frames := remove_at i (deferred_server_frames w)\<rparr>) of
             None \<Rightarrow> None
           | Some (continue, w') \<Rightarrow> if continue then session_loop E batch_input_closed w' else Some w')
      | None \<Rightarrow>
          (case take_await (session_select batch_input_closed w) w of
             None \<Rightarrow> None
           | Some (AwCancelled, w') \<Rightarrow> Some w'
           | Some (AwBatch None, w') \<Rightarrow> session_loop E True w'
           | Some (AwServer (Some f), w') \<Rightarrow>
               (case process_server_frame E f w' of
                  None \<Rightarrow> None
                | Some (continue, w'') \<Rightarrow> if continue then session_loop E batch_input_closed w'' else Some w'')
           | Some (AwServer None, w') \<Rightarrow> Some w'
           | Some (AwBatch (Some v), w') \<Rightarrow>
               (case process_push_event E v w' of
                  None \<Rightarrow> None
                | Some (Err _, w'') \<Rightarrow> Some (keep_event (length (SequenceWindow.pending (window w'))) v w'')
                | Some (Ok _, w'') \<Rightarrow> session_loop E batch_input_closed w'')
           | Some (AwSent _, w') \<Rightarrow> None))"
  by pat_completeness auto
termination
  by (relation "measures [\<lambda>(E, c, w). length (tape w), \<lambda>(E, c, w). length (deferred_server_frames w)]")
    (auto dest: take_await_tape deferred_step session_server_step session_event_step)

declare session_loop.simps [simp del]

record PushWorkerExit =
  x_pending_frames :: "PendingFrame list"
  x_next_sequence :: "u64 option"
  x_authoritative_batches :: "AggregatedBatch list"
  x_resync_required :: bool
  x_full_snapshot_command :: "FullSnapshotCommandState option"
  x_completed_full_snapshot_commands :: "rust_str list"
  x_reply_sent_this_session :: bool
  x_preserved_live_events :: "PushEvent list"
  x_successor_commands :: "ServerFrame list"
  x_snapshot_transaction :: "(rust_str \<times> u32 \<times> u32) option"

definition is_command :: "ServerFrame \<Rightarrow> bool" where
  "is_command f \<longleftrightarrow> (case f of SCommand _ \<Rightarrow> True | _ \<Rightarrow> False)"

definition into_exit :: "PushWorker \<Rightarrow> PushWorkerExit" where
  "into_exit w =
     \<lparr>x_pending_frames = SequenceWindow_pending_frames (window w), x_next_sequence = next_sequence (window w),
      x_authoritative_batches = initial_batches w, x_resync_required = resync_required w,
      x_full_snapshot_command = full_snapshot_command w,
      x_completed_full_snapshot_commands = completed_full_snapshot_commands w,
      x_reply_sent_this_session = reply_sent_this_session w, x_preserved_live_events = preserved_live_events w,
      x_successor_commands = filter is_command (deferred_server_frames w),
      x_snapshot_transaction = snapshot_transaction w\<rparr>"

text \<open>The frames of the last session go out again before anything new.\<close>

fun replay :: "push_env \<Rightarrow> PendingFrame list \<Rightarrow> PushWorker \<Rightarrow> push_result awaiting" where
  "replay E [] w = Some (Ok (), w)"
| "replay E (f # fs) w =
     (case send_encoded_frame E (encoded_frame f) (w\<lparr>replay_frames := fs\<rparr>) of
        None \<Rightarrow> None
      | Some (Err e, w') \<Rightarrow> Some (Err e, w')
      | Some (Ok _, w') \<Rightarrow> replay E fs w')"

text \<open>The worker at the end of a session, before its state is handed over.\<close>

definition session :: "push_env \<Rightarrow> PushWorker \<Rightarrow> PushWorker option" where
  "session E w =
     (case replay E (replay_frames w) w of
        None \<Rightarrow> None
      | Some (Err _, w1) \<Rightarrow> Some w1
      | Some (Ok _, w1) \<Rightarrow>
          (case drain_authoritative_batches E w1 of
             None \<Rightarrow> None
           | Some (Err _, w2) \<Rightarrow> Some w2
           | Some (Ok _, w2) \<Rightarrow>
               (case advance_full_snapshot_command E w2 of
                  None \<Rightarrow> None
                | Some (advanced, w3) \<Rightarrow>
                    if \<not> advanced \<or> reply_confirmation_ready w3 then Some w3
                    else (case drain_preserved_live_events E w3 of
                            None \<Rightarrow> None
                          | Some (Err _, w4) \<Rightarrow> Some w4
                          | Some (Ok _, w4) \<Rightarrow> session_loop E False w4))))"

definition run_session :: "push_env \<Rightarrow> PushWorker \<Rightarrow> PushWorkerExit option" where
  "run_session E w = map_option into_exit (session E w)"

definition run_frames :: "push_env \<Rightarrow> PushWorker \<Rightarrow> PendingFrame list option" where
  "run_frames E w = map_option x_pending_frames (run_session E w)"

section \<open>Handing a session over\<close>

definition worker_validate_transaction :: "SnapshotTransaction \<Rightarrow> push_result" where
  "worker_validate_transaction t =
     (let is_last = (tx_chunk_index t \<noteq> - 1 \<and> tx_chunk_index t + 1 = tx_chunk_count t)
      in if str_trim (tx_id t) = [] \<or> tx_chunk_count t = 0 \<or> tx_chunk_index t \<ge> tx_chunk_count t \<or> tx_end t \<noteq> is_last
         then Err (bad_transaction ''transaction ID/index/count/end combination is invalid'') else Ok ())"

text \<open>The transaction a stored frame leaves open; frames are checked before any of them is restored.\<close>

definition transaction_after ::
  "ClientFrame \<Rightarrow> (rust_str \<times> u32 \<times> u32) option \<Rightarrow> ((rust_str \<times> u32 \<times> u32) option, PushWorkerError) result" where
  "transaction_after frame current =
     (case frame of
        CSnapshotBatch b \<Rightarrow>
          if \<not> SnapshotBatch.is_full_snapshot b then Ok current
          else (case b_transaction b of
                  None \<Rightarrow> Err (bad_transaction ''stored full snapshot is missing transaction metadata'')
                | Some t \<Rightarrow>
                    (case worker_validate_transaction t of
                       Err e \<Rightarrow> Err e
                     | Ok _ \<Rightarrow>
                         Ok (if tx_end t then None
                             else Some (tx_id t, u32_saturating_succ (tx_chunk_index t), tx_chunk_count t))))
      | _ \<Rightarrow> Ok current)"

fun validate_stored ::
  "push_env \<Rightarrow> PendingFrame list \<Rightarrow> (rust_str \<times> u32 \<times> u32) option
     \<Rightarrow> ((rust_str \<times> u32 \<times> u32) option, PushWorkerError) result" where
  "validate_stored E [] t = Ok t"
| "validate_stored E (f # fs) t =
     (case decode_pending_frame E f of
        Err e \<Rightarrow> Err e
      | Ok frame \<Rightarrow> (case transaction_after frame t of Err e \<Rightarrow> Err e | Ok t' \<Rightarrow> validate_stored E fs t'))"

definition with_pending_frames :: "push_env \<Rightarrow> PendingFrame list \<Rightarrow> PushWorker \<Rightarrow> (PushWorker, PushWorkerError) result" where
  "with_pending_frames E fs w =
     (case validate_stored E fs (snapshot_transaction w) of
        Err e \<Rightarrow> Err e
      | Ok t \<Rightarrow>
          (case restore_all (window w) fs of
             (Err e, _) \<Rightarrow> Err (Window e)
           | (Ok _, win) \<Rightarrow> Ok (w\<lparr>snapshot_transaction := t, window := win, replay_frames := fs\<rparr>)))"

definition with_next_sequence :: "u64 option \<Rightarrow> PushWorker \<Rightarrow> PushWorker" where
  "with_next_sequence n w = w\<lparr>window := SequenceWindow_with_next_sequence (SequenceWindow.capacity (window w)) n\<rparr>"

definition with_initial_batches :: "AggregatedBatch list \<Rightarrow> PushWorker \<Rightarrow> PushWorker" where
  "with_initial_batches bs w = w\<lparr>initial_batches := bs\<rparr>"

definition with_snapshot_transaction :: "(rust_str \<times> u32 \<times> u32) option \<Rightarrow> PushWorker \<Rightarrow> PushWorker" where
  "with_snapshot_transaction t w = (if t \<noteq> None then w\<lparr>snapshot_transaction := t\<rparr> else w)"

definition with_progress :: "PipelineOwnershipState \<Rightarrow> PushWorker \<Rightarrow> (PushWorker, PushWorkerError) result" where
  "with_progress l w =
     (case verify_pending_frames (length (SequenceWindow.pending (window w))) l of
        Err e \<Rightarrow> Err (ownership_error e)
      | Ok _ \<Rightarrow> Ok (w\<lparr>progress := Some l\<rparr>))"

definition with_full_snapshot_command_state ::
  "FullSnapshotCommandState option \<Rightarrow> rust_str list \<Rightarrow> PushWorker \<Rightarrow> PushWorker" where
  "with_full_snapshot_command_state st ids w =
     w\<lparr>full_snapshot_command := st, completed_full_snapshot_commands := ids\<rparr>"

definition with_preserved_live_events :: "PushEvent list \<Rightarrow> PushWorker \<Rightarrow> PushWorker" where
  "with_preserved_live_events vs w = w\<lparr>preserved_live_events := vs\<rparr>"

definition with_first_batch_full_snapshot :: "bool \<Rightarrow> PushWorker \<Rightarrow> PushWorker" where
  "with_first_batch_full_snapshot required w = w\<lparr>force_first_batch_full_snapshot := required\<rparr>"

definition with_command_executor :: "PushWorker \<Rightarrow> PushWorker" where
  "with_command_executor w = w\<lparr>command_executor := True\<rparr>"

definition with_command_journal :: "CommandJournal \<Rightarrow> PushWorker \<Rightarrow> PushWorker" where
  "with_command_journal j w = w\<lparr>command_journal := j\<rparr>"

definition with_successor_commands :: "ServerFrame list \<Rightarrow> PushWorker \<Rightarrow> (PushWorker, PushWorkerError) result" where
  "with_successor_commands fs w =
     (if length fs > deferred_server_capacity w then Err (SuccessorCommandOverflow (deferred_server_capacity w))
      else if \<exists>f\<in>set fs. \<not> is_command f then Err InvalidSuccessorFrame
      else Ok (w\<lparr>deferred_server_frames := deferred_server_frames w @ fs\<rparr>))"

text \<open>The confirmation of a reply by an orderly end of the connection.\<close>

definition confirm_full_snapshot_command_reply :: "nat \<Rightarrow> PushWorkerExit \<Rightarrow> PushWorkerExit" where
  "confirm_full_snapshot_command_reply replay_capacity x =
     (if \<not> x_reply_sent_this_session x then x
      else case x_full_snapshot_command x of
        Some (ReplyReady i) \<Rightarrow>
          (let ids = x_completed_full_snapshot_commands x @ [i]
           in x\<lparr>x_full_snapshot_command := None,
                x_completed_full_snapshot_commands := drop (length ids - max replay_capacity 1) ids,
                x_reply_sent_this_session := False\<rparr>)
      | _ \<Rightarrow> x\<lparr>x_full_snapshot_command := None\<rparr>)"

end
