(* ===== verification/Push_Worker_Properties.thy ===== *)
theory Push_Worker_Properties
  imports Push_Worker
begin

text \<open>
  What a session of the push worker guarantees. A relation between workers that every elementary change
  keeps is kept by a whole session (the locale \<open>worker_relation\<close>); it is interpreted with the growth of
  the window, in which no frame is lost or renumbered, and with the bound on deferred frames.
\<close>

section \<open>Relations that every operation keeps\<close>

locale waiting_relation =
  fixes R :: "PushWorker \<Rightarrow> PushWorker \<Rightarrow> bool"
  assumes keeps_refl: "R w w"
    and keeps_trans: "R w w1 \<Longrightarrow> R w1 w2 \<Longrightarrow> R w w2"
    and awaited: "take_await P w = Some (a, w') \<Longrightarrow> R w w'"
    and acked: "SequenceWindow_ack (window w) s = (Ok u, win) \<Longrightarrow>
      R w (w\<lparr>window := win, released := released w @ [hd (SequenceWindow_pending_frames (window w))]\<rparr>)"
    and deferred: "length (deferred_server_frames w) < deferred_server_capacity w \<or> deferred_server_frames w = [] \<Longrightarrow>
      R w (w\<lparr>deferred_server_frames := deferred_server_frames w @ [g]\<rparr>)"
    and ledger: "R w (w\<lparr>progress := l\<rparr>)"
    and answered: "R w (w\<lparr>outbound := outbound w @ [CCommandAck h i x m]\<rparr>)"
    and resynced: "R w (w\<lparr>resync_required := x\<rparr>)"
begin

lemma on_ledger_keeps: "on_ledger f l w = (r, w') \<Longrightarrow> R w w'"
  by (auto simp: on_ledger_def intro: ledger split: prod.splits result.splits)

lemma ack_failed: "SequenceWindow_ack win s = (Err e, win') \<Longrightarrow> win' = win"
  by (rule ack_Err)

lemma acknowledge_keeps: "R w (snd (acknowledge s w))"
proof (cases "SequenceWindow_ack (window w) s")
  case (Pair r win)
  show ?thesis
  proof (cases r)
    case (Ok u)
    let ?v = "w\<lparr>window := win, released := released w @ [hd (SequenceWindow_pending_frames (window w))]\<rparr>"
    have "R w ?v" using Pair Ok acked by simp
    moreover have "R ?v (snd (on_ledger finish_pending l ?v))" for l
      using on_ledger_keeps [of finish_pending l ?v] by (metis prod.collapse)
    ultimately show ?thesis using Pair Ok
      by (auto simp: acknowledge_def Let_def intro: keeps_trans split: option.split)
  next
    case (Err e)
    with Pair ack_Err have "win = window w" by metis
    then show ?thesis using Pair Err by (simp add: acknowledge_def keeps_refl)
  qed
qed

lemma acknowledge_keeps': "acknowledge s w = (r, w') \<Longrightarrow> R w w'"
  using acknowledge_keeps [of w s] by simp

lemma while_sending_keeps: "process_server_while_sending E f w = (r, w') \<Longrightarrow> R w w'"
  using acknowledge_keeps [of w]
  by (auto simp: process_server_while_sending_def keeps_refl intro: deferred on_ledger_keeps
      split: ServerFrame.splits if_splits option.splits result.splits prod.splits)

lemma send_outbound_rule:
  "send_outbound E f w = Some (r, w') \<Longrightarrow> (\<And>v. R v (v\<lparr>outbound := outbound v @ [f]\<rparr>)) \<Longrightarrow> R w w'"
proof (induction E f w arbitrary: r w' rule: send_outbound.induct)
  case (1 E f w)
  from "1.prems"(1) obtain a w1 where a: "take_await no_batch w = Some (a, w1)"
    by (subst (asm) send_outbound.simps) (auto split: option.splits)
  note first = awaited [OF a]
  show ?case
  proof (cases "\<exists>g w2. a = AwServer (Some g) \<and> process_server_while_sending E g w1 = (Ok (), w2)")
    case True
    then obtain g w2 where g: "a = AwServer (Some g)" "process_server_while_sending E g w1 = (Ok (), w2)" by blast
    then have "send_outbound E f w2 = Some (r, w')" using "1.prems"(1) a by (subst (asm) send_outbound.simps) simp
    from "1.IH" [OF a refl g(1) refl g(2)[symmetric] refl this "1.prems"(2)] show ?thesis
      using first while_sending_keeps [OF g(2)] by (blast intro: keeps_trans)
  next
    case False
    have more: "R w1 w2 \<Longrightarrow> R w w2" for w2 by (rule keeps_trans [OF first])
    from False "1.prems"(1) a first show ?thesis
      by (subst (asm) send_outbound.simps)
        (auto intro: more "1.prems"(2) while_sending_keeps
          split: Await.splits option.splits if_splits prod.splits result.splits)
  qed
qed

lemma send_reply_keeps: "send_outbound E (make_command_ack E v i x) w = Some (r, w') \<Longrightarrow> R w w'"
  by (erule send_outbound_rule) (simp add: make_command_ack_def answered)

lemma begin_command_keeps: "begin_command_ownership E c w = (r, w') \<Longrightarrow> R w w'"
  by (auto simp: begin_command_ownership_def keeps_refl intro: on_ledger_keeps
      split: option.splits result.splits prod.splits)

lemma finish_command_keeps: "finish_command_ownership key w = (r, w') \<Longrightarrow> R w w'"
  by (auto simp: finish_command_ownership_def keeps_refl intro: on_ledger_keeps split: option.splits)

lemma finish_reply_keeps: "finish_command_after_reply x key w = (r, w') \<Longrightarrow> R w w'"
  by (auto simp: finish_command_after_reply_def keeps_refl intro: finish_command_keeps split: if_splits prod.splits result.splits)

lemma refuse_command_keeps:
  assumes "refuse_command E m c w = Some (r, w')"
  shows "R w w'"
proof (cases "begin_command_ownership E c w")
  case (Pair b w1)
  note w1 = begin_command_keeps [OF Pair]
  show ?thesis
  proof (cases b)
    case (Ok key)
    then obtain r2 w2 where send: "send_outbound E (make_command_ack E w1 (cmd_id c) (Err (lit m))) w1 = Some (r2, w2)"
      using assms Pair by (auto simp: refuse_command_def split: option.splits)
    note w2 = keeps_trans [OF w1 send_reply_keeps [OF send]]
    from assms Pair Ok send have "w' = w2 \<or> finish_command_ownership key w2 = (r, w')"
      by (auto simp: refuse_command_def split: result.splits)
    with w2 show ?thesis by (blast intro: keeps_trans finish_command_keeps)
  qed (use assms Pair w1 in \<open>simp add: refuse_command_def\<close>)
qed

lemma frame_while_waiting_keeps: "frame_while_waiting E m f w = Some (r, w') \<Longrightarrow> R w w'"
  by (auto simp: frame_while_waiting_def keeps_refl intro: acknowledge_keeps' refuse_command_keeps resynced
      split: ServerFrame.splits if_splits)

lemma await_server_keeps:
  assumes "await_server E m w = Some (r, w')"
  shows "R w w'"
proof (cases "take_await no_write w")
  case (Some x)
  obtain a w1 where a: "take_await no_write w = Some (a, w1)" using Some by (cases x) auto
  note first = awaited [OF a]
  from assms a first show ?thesis
    by (auto simp: await_server_def intro: keeps_trans [OF first frame_while_waiting_keeps]
        split: option.splits Await.splits)
qed (use assms in \<open>simp add: await_server_def\<close>)

lemma wait_capacity_keeps: "wait_for_window_capacity E w = Some (r, w') \<Longrightarrow> R w w'"
proof (induction E w arbitrary: r w' rule: wait_for_window_capacity.induct)
  case (1 E w)
  let ?await = "await_server E ''full snapshot command is waiting for ACK capacity''"
  show ?case
  proof (cases "window_full w \<and> (\<exists>w1. ?await w = Some (Ok (), w1))")
    case True
    then obtain w1 where step: "window_full w" "?await w = Some (Ok (), w1)" by blast
    with "1.prems" have "wait_for_window_capacity E w1 = Some (r, w')"
      by (subst (asm) wait_for_window_capacity.simps) simp
    from "1.IH" [OF _ step(2) HOL.refl HOL.refl this] step(1) await_server_keeps [OF step(2)]
    show ?thesis by (blast intro: keeps_trans)
  next
    case False
    with "1.prems" show ?thesis
      by (subst (asm) wait_for_window_capacity.simps)
        (auto simp: keeps_refl intro: await_server_keeps split: if_splits option.splits result.splits)
  qed
qed

lemma wait_empty_keeps: "wait_for_pending_frames_empty E w = Some (r, w') \<Longrightarrow> R w w'"
proof (induction E w arbitrary: r w' rule: wait_for_pending_frames_empty.induct)
  case (1 E w)
  let ?await = "await_server E ''authoritative full snapshot is waiting for ACKs''"
  show ?case
  proof (cases "\<exists>w1 w2. \<not> window_empty w \<and> wait_for_window_capacity E w = Some (Ok (), w1) \<and> \<not> window_empty w1
      \<and> ?await w1 = Some (Ok (), w2)")
    case True
    then obtain w1 w2 where step: "\<not> window_empty w" "wait_for_window_capacity E w = Some (Ok (), w1)"
      "\<not> window_empty w1" "?await w1 = Some (Ok (), w2)" by blast
    with "1.prems" have "wait_for_pending_frames_empty E w2 = Some (r, w')"
      by (subst (asm) wait_for_pending_frames_empty.simps) simp
    from "1.IH" [OF step(1,2) HOL.refl HOL.refl step(3,4) HOL.refl HOL.refl this] wait_capacity_keeps [OF step(2)]
      await_server_keeps [OF step(4)]
    show ?thesis by (blast intro: keeps_trans)
  next
    case False
    with "1.prems" show ?thesis
      by (subst (asm) wait_for_pending_frames_empty.simps)
        (auto simp: keeps_refl dest!: wait_capacity_keeps await_server_keeps
          split: if_splits option.splits result.splits, (blast intro: keeps_trans)+)
  qed
qed

end

text \<open>
  What a wait leaves alone: the queues of the session, the state of the remote command, the
  transaction and an empty window.
\<close>

definition same_core :: "PushWorker \<Rightarrow> PushWorker \<Rightarrow> bool" where
  "same_core w w' \<longleftrightarrow> initial_batches w' = initial_batches w \<and> preserved_live_events w' = preserved_live_events w
     \<and> full_snapshot_command w' = full_snapshot_command w \<and> command_journal w' = command_journal w
     \<and> snapshot_transaction w' = snapshot_transaction w"

interpretation core: waiting_relation same_core
  by unfold_locales (auto simp: same_core_def take_await_def split: list.splits if_splits)

interpretation drained: waiting_relation "\<lambda>w w'. window_empty w \<longrightarrow> window_empty w'"
  by unfold_locales
    (auto simp: window_empty_def take_await_def window_simps split: list.splits if_splits)

locale pushing_relation = waiting_relation +
  fixes admitted :: "PushEvent \<Rightarrow> bool"
  assumes pushed: "SequenceWindow_push_with (window w) (\<lambda>s. encode E (batch_frame E b w s)) = (Ok f, win) \<Longrightarrow>
      R w (w\<lparr>window := win\<rparr>)"
    and restored: "admitted (Resend f) \<Longrightarrow> SequenceWindow_restore (window w) f = (Ok u, win) \<Longrightarrow> R w (w\<lparr>window := win\<rparr>)"
    and transaction: "R w (w\<lparr>snapshot_transaction := t\<rparr>)"
    and marked: "R w (w\<lparr>force_first_batch_full_snapshot := x\<rparr>)"
    and batches: "R w (w\<lparr>initial_batches := bs\<rparr>)"
    and written: "R w (w\<lparr>outbound := outbound w @ [f']\<rparr>)"
begin

lemma send_outbound_keeps: "send_outbound E f w = Some (r, w') \<Longrightarrow> R w w'"
  by (erule send_outbound_rule) (rule written)

lemma send_encoded_keeps: "send_encoded_frame E bytes w = Some (r, w') \<Longrightarrow> R w w'"
  by (auto simp: send_encoded_frame_def keeps_refl intro: send_outbound_keeps split: option.splits)

lemma reply_and_finish_keeps:
  assumes "reply_and_finish E f key w = Some (r, w')"
  shows "R w w'"
proof -
  from assms obtain r1 w1 where "send_outbound E f w = Some (r1, w1)" "finish_command_after_reply (r1 = Ok ()) key w1 = (r, w')"
    by (auto simp: reply_and_finish_def split: option.splits)
  then show ?thesis by (blast intro: keeps_trans send_outbound_keeps finish_reply_keeps)
qed

lemma transfer_to_pending_keeps: "transfer_to_pending i w = (r, w') \<Longrightarrow> R w w'"
  by (auto simp: transfer_to_pending_def keeps_refl intro: on_ledger_keeps split: option.splits)

lemma start_transaction_keeps: "start_snapshot_transaction n w = (r, w') \<Longrightarrow> R w w'"
  by (auto simp: start_snapshot_transaction_def keeps_refl intro: transaction split: option.splits if_splits)

lemma advance_transaction_keeps: "advance_transaction full w = (r, w') \<Longrightarrow> R w w'"
  by (auto simp: advance_transaction_def Let_def keeps_refl intro: transaction split: option.splits if_splits)

lemma push_new_batch_keeps:
  assumes "push_new_batch E b i w = Some (r, w')"
  shows "R w w'"
proof (cases "take_work_id i w")
  case (Ok j)
  obtain r1 w1 where start: "(if AggregatedBatch.is_full_snapshot b \<and> snapshot_transaction w = None
      then start_snapshot_transaction 1 w else (Ok (), w)) = (r1, w1)" by fastforce
  then have w1: "R w w1" by (auto intro: start_transaction_keeps simp: keeps_refl split: if_splits)
  show ?thesis
  proof (cases r1)
    case r1: (Ok u)
    obtain r2 win where push: "SequenceWindow_push_with (window w1) (\<lambda>s. encode E (batch_frame E b w1 s)) = (r2, win)"
      by fastforce
    show ?thesis
    proof (cases r2)
      case r2: (Ok f)
      let ?v = "w1\<lparr>window := win\<rparr>"
      have v: "R w ?v" using w1 pushed push r2 by (blast intro: keeps_trans)
      obtain r3 w3 where transfer: "transfer_to_pending j ?v = (r3, w3)" by fastforce
      note w3 = keeps_trans [OF v transfer_to_pending_keeps [OF transfer]]
      obtain r4 w4 where adv: "advance_transaction (AggregatedBatch.is_full_snapshot b) w3 = (r4, w4)" by fastforce
      note w4 = keeps_trans [OF w3 advance_transaction_keeps [OF adv]]
      show ?thesis
        using assms Ok start r1 push r2 transfer adv w3 w4
        by (auto simp: push_new_batch_def Let_def intro: keeps_trans send_encoded_keeps split: result.splits)
    next
      case (Err e)
      with push push_with_Err have "win = window w1" by metis
      then show ?thesis using assms Ok start r1 push Err w1 by (simp add: push_new_batch_def)
    qed
  qed (use assms Ok start w1 in \<open>simp add: push_new_batch_def\<close>)
qed (use assms in \<open>simp add: push_new_batch_def keeps_refl\<close>)

lemma restore_failed: "SequenceWindow_restore win f = (Err e, win') \<Longrightarrow> win' = win"
  by (auto simp: window_simps Let_def split: option.splits if_splits)

lemma push_resend_keeps: "admitted (Resend f) \<Longrightarrow> push_resend E f w = Some (r, w') \<Longrightarrow> R w w'"
  by (auto simp: push_resend_def keeps_refl dest!: restore_failed
      intro: keeps_trans [OF restored send_outbound_keeps] restored
      split: result.splits prod.splits option.splits)

lemma mark_first_keeps: "mark_first b w = (b', w') \<Longrightarrow> R w w'"
  by (auto simp: mark_first_def keeps_refl intro: marked split: if_splits)

lemma process_push_event_keeps:
  assumes "admitted v" "process_push_event E v w = Some (r, w')"
  shows "R w w'"
proof (cases v)
  case (Resend f)
  then show ?thesis using assms push_resend_keeps by simp
qed (use assms in \<open>auto split: prod.splits intro: keeps_trans [OF mark_first_keeps push_new_batch_keeps]\<close>)

lemma drain_initial_keeps: "drain_initial E w = Some (r, w') \<Longrightarrow> R w w'"
proof (induction E w arbitrary: r w' rule: drain_initial.induct)
  case (1 E w)
  let ?popped = "\<lambda>w1. w1\<lparr>initial_batches := tl (initial_batches w1)\<rparr>"
  let ?push = "\<lambda>w1. push_new_batch E (hd (initial_batches w1)) None (?popped w1)"
  show ?case
  proof (cases "initial_batches w \<noteq> [] \<and> (\<exists>w1. wait_for_window_capacity E w = Some (Ok (), w1))")
    case True
    then obtain w1 where step: "initial_batches w \<noteq> []" "wait_for_window_capacity E w = Some (Ok (), w1)" by blast
    with "1.prems" obtain r2 w2 where push: "?push w1 = Some (r2, w2)"
      by (subst (asm) drain_initial.simps) (auto simp: Let_def split: option.splits)
    have w2: "R w w2"
      using wait_capacity_keeps [OF step(2)] batches push_new_batch_keeps [OF push] by (blast intro: keeps_trans)
    show ?thesis
    proof (cases r2)
      case (Ok u)
      with "1.prems" step push have "drain_initial E w2 = Some (r, w')"
        by (subst (asm) drain_initial.simps) (simp add: Let_def)
      from "1.IH" [OF step(1,2) HOL.refl HOL.refl HOL.refl HOL.refl push [unfolded Ok] HOL.refl HOL.refl this] w2
      show ?thesis by (blast intro: keeps_trans)
    next
      case (Err e)
      with "1.prems" step push w2 show ?thesis
        by (subst (asm) drain_initial.simps) (auto simp: Let_def intro: keeps_trans [OF w2 batches] split: if_splits)
    qed
  next
    case False
    with "1.prems" show ?thesis
      by (subst (asm) drain_initial.simps)
        (auto simp: keeps_refl intro: wait_capacity_keeps split: if_splits option.splits result.splits)
  qed
qed

lemma drain_authoritative_keeps: "drain_authoritative_batches E w = Some (r, w') \<Longrightarrow> R w w'"
  by (auto simp: drain_authoritative_batches_def Let_def keeps_refl dest: sym
      intro: drain_initial_keeps keeps_trans [OF start_transaction_keeps drain_initial_keeps] start_transaction_keeps
      split: option.splits if_splits prod.splits result.splits)

end

text \<open>Pushing leaves the state of the remote command alone.\<close>

interpretation pushes: pushing_relation
  "\<lambda>w w'. full_snapshot_command w' = full_snapshot_command w \<and> command_journal w' = command_journal w" "\<lambda>_. True"
  by unfold_locales (auto simp: take_await_def split: list.splits if_splits)

locale worker_relation = pushing_relation +
  assumes taken: "i < length (deferred_server_frames w) \<Longrightarrow>
      R w (w\<lparr>deferred_server_frames := remove_at i (deferred_server_frames w)\<rparr>)"
    and journal: "R w (w\<lparr>command_journal := j\<rparr>)"
    and command: "R w (w\<lparr>full_snapshot_command := c\<rparr>)"
    and replied: "R w (w\<lparr>reply_sent_this_session := x\<rparr>)"
    and replaying: "R w (w\<lparr>replay_frames := fs\<rparr>)"
begin

lemma reply_keeps:
  assumes "(case send_outbound E f w of None \<Rightarrow> None | Some (Err e, w') \<Rightarrow> Some (False, w')
      | Some (Ok u, w') \<Rightarrow> Some (x, w'\<lparr>reply_sent_this_session := True\<rparr>)) = Some (r, w')"
  shows "R w w'"
  using assms by (auto intro: send_outbound_keeps keeps_trans [OF send_outbound_keeps replied]
      split: option.splits result.splits)

lemma advance_command_keeps:
  assumes "advance_full_snapshot_command E w = Some (r, w')"
  shows "R w w'"
proof (cases "full_snapshot_command w")
  case (Some c)
  show ?thesis
  proof (cases c)
    case (PendingChunks i)
    with assms Some obtain r1 w1 where drain: "drain_authoritative_batches E w = Some (r1, w1)"
      by (auto simp: advance_full_snapshot_command_def Let_def split: option.splits)
    note w1 = drain_authoritative_keeps [OF drain]
    show ?thesis
    proof (cases r1)
      case r1: (Ok u)
      with assms Some PendingChunks drain obtain r2 w2 where wait: "wait_for_pending_frames_empty E w1 = Some (r2, w2)"
        by (auto simp: advance_full_snapshot_command_def Let_def split: option.splits)
      note w2 = keeps_trans [OF w1 wait_empty_keeps [OF wait]]
      show ?thesis
      proof (cases r2)
        case (Ok u)
        let ?v = "w2\<lparr>full_snapshot_command := Some (ReplyReady i),
          command_journal := CommandJournal_complete (command_journal w2) i (Ok ())\<rparr>"
        have "R w2 ?v" by (rule keeps_trans [OF command journal])
        moreover have "R ?v w'"
          using assms Some PendingChunks drain r1 wait Ok
          by (intro reply_keeps [where r = r and x = True]) (simp add: advance_full_snapshot_command_def Let_def)
        ultimately show ?thesis using w2 by (blast intro: keeps_trans)
      qed (use assms Some PendingChunks drain r1 wait w2 in \<open>simp add: advance_full_snapshot_command_def Let_def\<close>)
    qed (use assms Some PendingChunks drain w1 in \<open>simp add: advance_full_snapshot_command_def Let_def\<close>)
  next
    case (ReplyReady i)
    with assms Some show ?thesis
      by (intro reply_keeps [where r = r and x = True]) (simp add: advance_full_snapshot_command_def Let_def)
  qed
qed (use assms in \<open>simp add: advance_full_snapshot_command_def keeps_refl\<close>)

lemma handle_command_keeps: "handle_command E c w = (f, w') \<Longrightarrow> R w w'"
  by (auto simp: handle_command_def Let_def intro: journal split: prod.splits)

lemma start_full_snapshot_keeps:
  assumes "start_full_snapshot E i bs w = Some (r, w')"
  shows "R w w'"
proof -
  obtain o1 w1 where own: "own_authoritative (length bs) w = (o1, w1)" by fastforce
  have w1: "R w w1"
    using own by (auto simp: own_authoritative_def keeps_refl intro: on_ledger_keeps split: option.splits)
  show ?thesis
  proof (cases o1)
    case (Ok u)
    let ?v = "w1\<lparr>full_snapshot_command := Some (PendingChunks i), initial_batches := initial_batches w1 @ bs\<rparr>"
    have "R w1 ?v" by (rule keeps_trans [OF command batches])
    moreover from Ok assms own obtain x where "advance_full_snapshot_command E ?v = Some (x, w')"
      by (auto simp: start_full_snapshot_def split: option.splits)
    ultimately show ?thesis using w1 advance_command_keeps by (blast intro: keeps_trans)
  qed (use assms own w1 in \<open>simp add: start_full_snapshot_def\<close>)
qed

lemma handle_full_snapshot_keeps:
  assumes "handle_full_snapshot_command E c key w = Some (r, w')"
  shows "R w w'"
proof -
  let ?journal = "\<lambda>j. w\<lparr>command_journal := j\<rparr>"
  have reply: "reply_and_finish E f key (?journal j) = Some (r, w') \<Longrightarrow> R w w'" for f j
    using journal reply_and_finish_keeps by (blast intro: keeps_trans)
  have reply0: "reply_and_finish E f key w = Some (r, w') \<Longrightarrow> R w w'" for f
    by (rule reply_and_finish_keeps)
  have start: "start_full_snapshot E i bs (?journal j) = Some (r, w') \<Longrightarrow> R w w'" for i bs j
    using journal start_full_snapshot_keeps by (blast intro: keeps_trans)
  have confirm: "send_outbound E f (?journal j) = Some (q, v) \<Longrightarrow> R w v"
    "send_outbound E f (?journal j) = Some (q, v) \<Longrightarrow> R w (v\<lparr>reply_sent_this_session := x\<rparr>)" for f j q v x
    using journal replied send_outbound_keeps by (blast intro: keeps_trans)+
  show ?thesis
    using assms journal
    by (auto simp: handle_full_snapshot_command_def Let_def intro: reply reply0 start confirm
        split: result.splits prod.splits if_splits option.splits FullSnapshotCommandState.splits)
qed

lemma answer_owned_keeps:
  assumes "answer_owned E c handle w = Some (r, w')"
    and "\<And>key v. handle key v = Some (r, w') \<Longrightarrow> R v w'"
  shows "R w w'"
proof (cases "begin_command_ownership E c w")
  case (Pair b w1)
  note w1 = begin_command_keeps [OF Pair]
  show ?thesis
  proof (cases b)
    case (Ok key)
    with assms(1) Pair have "handle key w1 = Some (r, w')" by (simp add: answer_owned_def)
    from keeps_trans [OF w1 assms(2) [OF this]] show ?thesis .
  qed (use assms(1) Pair w1 in \<open>simp add: answer_owned_def\<close>)
qed

lemma process_server_frame_keeps:
  assumes "process_server_frame E f w = Some (r, w')"
  shows "R w w'"
proof (cases f)
  case (SCommand c)
  have normal: "(case handle_command E c v of (g, u) \<Rightarrow> reply_and_finish E g key u) = Some (r, w') \<Longrightarrow> R v w'" for key v
    by (auto intro: keeps_trans [OF handle_command_keeps reply_and_finish_keeps] split: prod.splits)
  have wait: "deferred_server_frames w = [] \<Longrightarrow> R w (w\<lparr>deferred_server_frames := [f]\<rparr>)"
    using deferred [of w f] by simp
  show ?thesis
    using assms SCommand wait
    by (auto simp: process_server_frame_def split: if_splits
        intro: answer_owned_keeps normal reply_and_finish_keeps handle_full_snapshot_keeps)
qed (use assms acknowledge_keeps in \<open>auto simp: process_server_frame_def keeps_refl intro: resynced\<close>)

end

text \<open>The loops over events need every event to be admitted, which \<open>good\<close> states of the worker.\<close>

locale session_relation = worker_relation +
  fixes good :: "PushWorker \<Rightarrow> bool"
  assumes good_step: "R w w' \<Longrightarrow> good w \<Longrightarrow> good w'"
    and event_admitted: "good w \<Longrightarrow> take_await P w = Some (AwBatch (Some v), w') \<Longrightarrow> admitted v"
    and preserved_admitted: "good w \<Longrightarrow> preserved_live_events w = v # vs \<Longrightarrow> admitted v"
    and unpreserved: "preserved_live_events w = v # vs \<Longrightarrow> R w (w\<lparr>preserved_live_events := vs\<rparr>)"
    and preserved: "admitted v \<Longrightarrow> R w (w\<lparr>preserved_live_events := v # preserved_live_events w\<rparr>)"
begin

lemma drain_preserved_keeps: "good w \<Longrightarrow> drain_preserved_live_events E w = Some (r, w') \<Longrightarrow> R w w'"
proof (induction E w arbitrary: r w' rule: drain_preserved_live_events.induct)
  case (1 E w)
  show ?case
  proof (cases "preserved_live_events w \<noteq> [] \<and> (\<exists>w1. wait_for_window_capacity E w = Some (Ok (), w1))")
    case True
    then obtain w1 where step: "preserved_live_events w \<noteq> []" "wait_for_window_capacity E w = Some (Ok (), w1)" by blast
    note w1 = wait_capacity_keeps [OF step(2)]
    then have good1: "good w1" using good_step "1.prems"(1) by blast
    have "preserved_live_events w1 \<noteq> []"
      using step(1) core.wait_capacity_keeps [OF step(2)] by (simp add: same_core_def)
    then obtain v vs where v: "preserved_live_events w1 = v # vs" by (meson neq_Nil_conv)
    let ?popped = "w1\<lparr>preserved_live_events := vs\<rparr>"
    note popped = unpreserved [OF v]
    from "1.prems"(2) step v obtain r2 w2 where push: "process_push_event E v ?popped = Some (r2, w2)"
      by (subst (asm) drain_preserved_live_events.simps) (auto simp: Let_def split: option.splits)
    have v_ok: "admitted v" using preserved_admitted [OF good1 v] .
    have w2: "R w w2" using w1 popped process_push_event_keeps [OF v_ok push] by (blast intro: keeps_trans)
    show ?thesis
    proof (cases r2)
      case (Ok u)
      with "1.prems"(2) step push v have "drain_preserved_live_events E w2 = Some (r, w')"
        by (subst (asm) drain_preserved_live_events.simps) (simp add: Let_def)
      moreover have "process_push_event E (hd (preserved_live_events w1))
          (w1\<lparr>preserved_live_events := tl (preserved_live_events w1)\<rparr>) = Some (Ok u, w2)"
        using push Ok v by simp
      note "1.IH" [OF step(1,2) HOL.refl HOL.refl HOL.refl HOL.refl this HOL.refl HOL.refl good_step [OF w2 "1.prems"(1)]]
      ultimately show ?thesis using w2 by (blast intro: keeps_trans)
    next
      case (Err e)
      with "1.prems"(2) step push w2 v v_ok show ?thesis
        by (subst (asm) drain_preserved_live_events.simps)
          (auto simp: Let_def intro: keeps_trans [OF w2 preserved] split: if_splits)
    qed
  next
    case False
    with "1.prems"(2) show ?thesis
      by (subst (asm) drain_preserved_live_events.simps)
        (auto simp: keeps_refl intro: wait_capacity_keeps split: if_splits option.splits result.splits)
  qed
qed

lemma session_loop_keeps: "good w \<Longrightarrow> session_loop E closed w = Some w' \<Longrightarrow> R w w'"
proof (induction E closed w arbitrary: w' rule: session_loop.induct)
  case (1 E closed w)
  note prems = "1.prems"
  show ?case
  proof (cases "closed \<and> window_empty w")
    case True
    then show ?thesis using prems(2) by (subst (asm) session_loop.simps) (simp add: keeps_refl)
  next
    case going: False
    show ?thesis
    proof (cases "next_deferred w")
      case (Some i)
      let ?v = "w\<lparr>deferred_server_frames := remove_at i (deferred_server_frames w)\<rparr>"
      have "i < length (deferred_server_frames w)"
        using Some by (auto simp: next_deferred_def dest: position_Some split: if_splits)
      note v = taken [OF this]
      from prems(2) going Some obtain go w1 where frame: "process_server_frame E (deferred_server_frames w ! i) ?v = Some (go, w1)"
        by (subst (asm) session_loop.simps) (auto split: option.splits)
      note w1 = keeps_trans [OF v process_server_frame_keeps [OF frame]]
      show ?thesis
      proof (cases go)
        case True
        with prems(2) going Some frame have "session_loop E closed w1 = Some w'"
          by (subst (asm) session_loop.simps) simp
        from "1.IH"(4) [OF going Some frame HOL.refl True good_step [OF w1 prems(1)] this] w1
        show ?thesis by (blast intro: keeps_trans)
      next
        case False
        with prems(2) going Some frame w1 show ?thesis by (subst (asm) session_loop.simps) simp
      qed
    next
      case None
      from prems(2) going None obtain a w1 where a: "take_await (session_select closed w) w = Some (a, w1)"
        by (subst (asm) session_loop.simps) (auto split: option.splits)
      note w1 = awaited [OF a] and good1 = good_step [OF awaited [OF a] prems(1)]
      note loop = prems(2) [unfolded session_loop.simps [of E closed w], unfolded if_not_P [OF going], unfolded None option.case a prod.case]
      show ?thesis
      proof (cases a)
        case (AwServer m)
        show ?thesis
        proof (cases m)
          case (Some f)
          with loop AwServer obtain go w2 where frame: "process_server_frame E f w1 = Some (go, w2)"
            by (auto split: option.splits)
          note w2 = keeps_trans [OF w1 process_server_frame_keeps [OF frame]]
          show ?thesis
          proof (cases go)
            case True
            with loop AwServer Some frame have "session_loop E closed w2 = Some w'" by simp
            from "1.IH"(1) [OF going None a HOL.refl AwServer Some frame HOL.refl True good_step [OF w2 prems(1)] this] w2
            show ?thesis by (blast intro: keeps_trans)
          qed (use loop AwServer Some frame w2 in simp)
        qed (use loop AwServer w1 in simp)
      next
        case (AwBatch m)
        show ?thesis
        proof (cases m)
          case None': None
          with loop AwBatch have "session_loop E True w1 = Some w'" by simp
          from "1.IH"(2) [OF going None a HOL.refl AwBatch None' good1 this] w1
          show ?thesis by (blast intro: keeps_trans)
        next
          case (Some v)
          have v: "admitted v" using event_admitted [OF prems(1)] a AwBatch Some by simp
          from loop AwBatch Some obtain r2 w2 where push: "process_push_event E v w1 = Some (r2, w2)"
            by (auto split: option.splits)
          note w2 = keeps_trans [OF w1 process_push_event_keeps [OF v push]]
          show ?thesis
          proof (cases r2)
            case (Ok u)
            with loop AwBatch Some push have "session_loop E closed w2 = Some w'" by simp
            from "1.IH"(3) [OF going None a HOL.refl AwBatch Some push HOL.refl Ok good_step [OF w2 prems(1)] this] w2
            show ?thesis by (blast intro: keeps_trans)
          next
            case (Err e)
            with loop AwBatch Some push w2 v show ?thesis
              by (auto simp: keep_event_def intro: keeps_trans [OF w2 preserved])
          qed
        qed
      qed (use loop w1 in simp_all)
    qed
  qed
qed

lemma replay_keeps: "replay E fs w = Some (r, w') \<Longrightarrow> R w w'"
proof (induction fs arbitrary: w)
  case (Cons f fs)
  then obtain r1 w1 where send: "send_encoded_frame E (encoded_frame f) (w\<lparr>replay_frames := fs\<rparr>) = Some (r1, w1)"
    by (auto split: option.splits)
  note w1 = keeps_trans [OF replaying send_encoded_keeps [OF send]]
  from Cons send w1 show ?case by (cases r1) (auto intro: keeps_trans)
qed (simp add: keeps_refl)

theorem session_keeps:
  assumes "good w" and "session E w = Some w'"
  shows "R w w'"
proof -
  from assms(2) obtain r1 w1 where replay: "replay E (replay_frames w) w = Some (r1, w1)"
    by (auto simp: session_def split: option.splits)
  note w1 = replay_keeps [OF replay]
  show ?thesis
  proof (cases r1)
    case r1: (Ok u1)
    with assms(2) replay obtain r2 w2 where drain: "drain_authoritative_batches E w1 = Some (r2, w2)"
      by (auto simp: session_def split: option.splits)
    note w2 = keeps_trans [OF w1 drain_authoritative_keeps [OF drain]]
    show ?thesis
    proof (cases r2)
      case r2: (Ok u2)
      with assms(2) replay r1 drain obtain go w3 where advance: "advance_full_snapshot_command E w2 = Some (go, w3)"
        by (auto simp: session_def split: option.splits)
      note w3 = keeps_trans [OF w2 advance_command_keeps [OF advance]]
      show ?thesis
      proof (cases "\<not> go \<or> reply_confirmation_ready w3")
        case False
        with assms(2) replay r1 drain r2 advance obtain r4 w4 where live: "drain_preserved_live_events E w3 = Some (r4, w4)"
          by (auto simp: session_def split: option.splits)
        note w4 = keeps_trans [OF w3 drain_preserved_keeps [OF good_step [OF w3 assms(1)] live]]
        from assms(2) replay r1 drain r2 advance False live w4 show ?thesis
          by (cases r4) (auto simp: session_def intro: keeps_trans session_loop_keeps [OF good_step [OF w4 assms(1)]])
      qed (use assms(2) replay r1 drain r2 advance w3 in \<open>simp add: session_def\<close>)
    qed (use assms(2) replay r1 drain w2 in \<open>simp add: session_def\<close>)
  qed (use assms(2) replay w1 in \<open>simp add: session_def\<close>)
qed

end

section \<open>The window of a session\<close>

definition frames :: "PushWorker \<Rightarrow> PendingFrame list" where
  "frames w = SequenceWindow_pending_frames (window w)"

text \<open>New frames carry the next numbers, and the counter does not wrap.\<close>

definition numbered :: "u64 option \<Rightarrow> PendingFrame list \<Rightarrow> u64 option \<Rightarrow> bool" where
  "numbered n fs n' \<longleftrightarrow>
     (case n of
        None \<Rightarrow> fs = [] \<and> n' = None
      | Some k \<Rightarrow> map sequence fs = map (\<lambda>i. k + of_nat i) [0..<length fs] \<and> n' = Some (k + of_nat (length fs))
          \<and> unat k + length fs < 2 ^ 64)"

definition no_resend :: "PushWorker \<Rightarrow> bool" where
  "no_resend w \<longleftrightarrow>
     (\<forall>f. Resend f \<notin> set (preserved_live_events w) \<and> (\<forall>ops. (ops, AwBatch (Some (Resend f))) \<notin> set (tape w)))"

definition grows :: "PushWorker \<Rightarrow> PushWorker \<Rightarrow> bool" where
  "grows w w' \<longleftrightarrow>
     (no_resend w \<longrightarrow> no_resend w') \<and>
     (window_ok (window w) \<longrightarrow>
        window_ok (window w') \<and> SequenceWindow.capacity (window w') = SequenceWindow.capacity (window w) \<and>
        (\<exists>news. released w' @ frames w' = released w @ frames w @ news
           \<and> numbered (next_sequence (window w)) news (next_sequence (window w'))))"

lemma unat_u64_less: "unat (w :: u64) < 18446744073709551616"
  using unsigned_less [of w] by simp

lemma numbered_same [simp]: "numbered n [] n"
  using unat_u64_less [of "the n"] by (cases n) (auto simp: numbered_def)

lemma numbered_append:
  assumes "numbered n xs n1" "numbered n1 ys n2"
  shows "numbered n (xs @ ys) n2"
proof (cases n)
  case (Some k)
  with assms have xs: "map sequence xs = map (\<lambda>i. k + of_nat i) [0..<length xs]" "n1 = Some (k + of_nat (length xs))"
    "unat k + length xs < 2 ^ 64" by (auto simp: numbered_def)
  with assms(2) have ys: "map sequence ys = map (\<lambda>i. k + of_nat (length xs) + of_nat i) [0..<length ys]"
    "n2 = Some (k + of_nat (length xs) + of_nat (length ys))"
    "unat (k + of_nat (length xs)) + length ys < 2 ^ 64" by (auto simp: numbered_def)
  have top: "unat (k + of_nat (length xs)) = unat k + length xs"
    using xs(3) by (simp add: unat_word_ariths unat_of_nat take_bit_eq_mod)
  have shift: "map (\<lambda>i. k + of_nat (length xs) + of_nat i) [0..<length ys]
      = map (\<lambda>i. k + of_nat i) [length xs..<length xs + length ys]"
    by (rule nth_equalityI) (simp_all add: add.assoc)
  have "map sequence (xs @ ys) = map (\<lambda>i. k + of_nat i) [0..<length (xs @ ys)]"
    by (simp only: map_append xs(1) ys(1) shift length_append upt_add_eq_append [OF le0] plus_nat.add_0)
  moreover have "n2 = Some (k + of_nat (length (xs @ ys)))" using ys(2) by (simp only: length_append of_nat_add add.assoc)
  moreover have "unat k + length (xs @ ys) < 2 ^ 64" using ys(3) top by simp
  ultimately show ?thesis using Some by (simp only: numbered_def option.case)
qed (use assms in \<open>auto simp: numbered_def\<close>)

lemma growsI:
  assumes "no_resend w \<Longrightarrow> no_resend w'"
    and "window_ok (window w) \<Longrightarrow> window_ok (window w') \<and> SequenceWindow.capacity (window w') = SequenceWindow.capacity (window w)
      \<and> (\<exists>news. released w' @ frames w' = released w @ frames w @ news
           \<and> numbered (next_sequence (window w)) news (next_sequence (window w')))"
  shows "grows w w'"
  using assms unfolding grows_def by blast

lemma grows_same:
  "no_resend w \<longrightarrow> no_resend w' \<Longrightarrow> window w' = window w \<Longrightarrow> released w' = released w \<Longrightarrow> grows w w'"
  by (rule growsI) (auto simp: frames_def)

lemma grows_trans:
  assumes "grows w w1" "grows w1 w2"
  shows "grows w w2"
proof (rule growsI)
  assume "no_resend w"
  with assms show "no_resend w2" by (simp add: grows_def)
next
  assume "window_ok (window w)"
  with assms obtain news1 news2 where ok: "window_ok (window w1)" "window_ok (window w2)"
    and cap: "SequenceWindow.capacity (window w1) = SequenceWindow.capacity (window w)"
      "SequenceWindow.capacity (window w2) = SequenceWindow.capacity (window w1)"
    and fs: "released w1 @ frames w1 = released w @ frames w @ news1" "released w2 @ frames w2 = released w1 @ frames w1 @ news2"
    and num: "numbered (next_sequence (window w)) news1 (next_sequence (window w1))"
      "numbered (next_sequence (window w1)) news2 (next_sequence (window w2))"
    unfolding grows_def by blast
  have "released w2 @ frames w2 = released w @ frames w @ (news1 @ news2)"
    using fs by (metis append.assoc)
  with ok cap numbered_append [OF num] show "window_ok (window w2) \<and> SequenceWindow.capacity (window w2) = SequenceWindow.capacity (window w)
      \<and> (\<exists>news. released w2 @ frames w2 = released w @ frames w @ news
           \<and> numbered (next_sequence (window w)) news (next_sequence (window w2)))" by metis
qed

lemma grows_ack:
  assumes "SequenceWindow_ack (window w) s = (Ok u, win)"
  shows "grows w (w\<lparr>window := win, released := released w @ [hd (SequenceWindow_pending_frames (window w))]\<rparr>)"
proof (rule growsI)
  assume ok: "window_ok (window w)"
  from ack_Ok [OF ok assms] obtain f r where "SequenceWindow.pending (window w) = (s, f) # r"
    "win = window w\<lparr>SequenceWindow.pending := r\<rparr>" by blast
  with window_ok_ack [OF ok, of s] assms
  show "window_ok (window (w\<lparr>window := win, released := released w @ [hd (SequenceWindow_pending_frames (window w))]\<rparr>)) \<and>
    SequenceWindow.capacity (window (w\<lparr>window := win, released := released w @ [hd (SequenceWindow_pending_frames (window w))]\<rparr>))
      = SequenceWindow.capacity (window w) \<and>
    (\<exists>news. released (w\<lparr>window := win, released := released w @ [hd (SequenceWindow_pending_frames (window w))]\<rparr>)
        @ frames (w\<lparr>window := win, released := released w @ [hd (SequenceWindow_pending_frames (window w))]\<rparr>)
        = released w @ frames w @ news \<and>
      numbered (next_sequence (window w)) news
        (next_sequence (window (w\<lparr>window := win, released := released w @ [hd (SequenceWindow_pending_frames (window w))]\<rparr>))))"
    by (simp add: frames_def SequenceWindow_pending_frames_def)
qed (simp add: no_resend_def)

lemma grows_push:
  assumes "SequenceWindow_push_with (window w) enc = (Ok f, win)"
  shows "grows w (w\<lparr>window := win\<rparr>)"
proof (rule growsI)
  assume ok: "window_ok (window w)"
  note push = push_with_Ok [OF ok assms]
  have "unat (sequence f) + 1 < 2 ^ 64"
    using push(2) u64_Suc_no_wrap [of "sequence f"] unat_u64_less [of "sequence f + 1"] by simp
  then have "numbered (next_sequence (window w)) [f] (Some (sequence f + 1))"
    using push(1) by (simp add: numbered_def)
  with window_ok_push [OF ok, of enc] assms push(5)
  show "window_ok (window (w\<lparr>window := win\<rparr>)) \<and>
    SequenceWindow.capacity (window (w\<lparr>window := win\<rparr>)) = SequenceWindow.capacity (window w) \<and>
    (\<exists>news. released (w\<lparr>window := win\<rparr>) @ frames (w\<lparr>window := win\<rparr>) = released w @ frames w @ news \<and>
      numbered (next_sequence (window w)) news (next_sequence (window (w\<lparr>window := win\<rparr>))))"
    by (auto simp: frames_def SequenceWindow_pending_frames_def)
qed (simp add: no_resend_def)

lemma no_resend_await: "take_await P w = Some (a, w') \<Longrightarrow> no_resend w \<Longrightarrow> no_resend w'"
  by (auto simp: take_await_def no_resend_def split: list.splits if_splits)

interpretation growing: session_relation grows "\<lambda>v. \<forall>f. v \<noteq> Resend f" no_resend
proof unfold_locales
  show "grows w w'" if "take_await P w = Some (a, w')" for P w a w'
    using that no_resend_await [OF that] by (intro grows_same) (auto simp: take_await_def split: list.splits if_splits)
next
  show "\<forall>f. v \<noteq> Resend f" if "no_resend w" "take_await P w = Some (AwBatch (Some v), w')" for w P v w'
    using that by (fastforce simp: take_await_def no_resend_def split: list.splits if_splits)
next
  show "no_resend w'" if "grows w w'" "no_resend w" for w w'
    using that by (simp add: grows_def)
next
  show "grows w (w\<lparr>preserved_live_events := v # preserved_live_events w\<rparr>)" if "\<forall>f. v \<noteq> Resend f" for v w
    using that by (intro grows_same) (auto simp: no_resend_def)
qed (auto intro: grows_same grows_ack grows_push grows_trans simp: no_resend_def)

text \<open>The deferred frames stay within the bound the next session checks.\<close>

definition bounded :: "PushWorker \<Rightarrow> PushWorker \<Rightarrow> bool" where
  "bounded w w' \<longleftrightarrow> deferred_server_capacity w' = deferred_server_capacity w \<and>
     (1 \<le> deferred_server_capacity w \<longrightarrow> length (deferred_server_frames w) \<le> deferred_server_capacity w \<longrightarrow>
        length (deferred_server_frames w') \<le> deferred_server_capacity w)"

interpretation bounding: session_relation bounded "\<lambda>_. True" "\<lambda>_. True"
  by unfold_locales (auto simp: bounded_def take_await_def split: list.splits if_splits)


lemma wait_empty_done: "wait_for_pending_frames_empty E w = Some (Ok (), w') \<Longrightarrow> window_empty w'"
proof (induction E w arbitrary: w' rule: wait_for_pending_frames_empty.induct)
  case (1 E w)
  have again: "window_empty w'" if "\<not> window_empty w" "wait_for_window_capacity E w = Some (Ok (), w1)" "\<not> window_empty w1"
    "await_server E ''authoritative full snapshot is waiting for ACKs'' w1 = Some (Ok (), w2)"
    "wait_for_pending_frames_empty E w2 = Some (Ok (), w')" for w1 w2
    by (rule "1.IH" [OF that(1,2) HOL.refl HOL.refl that(3,4) HOL.refl HOL.refl that(5)])
  from "1.prems" show ?case
    by (subst (asm) wait_for_pending_frames_empty.simps)
      (auto split: if_splits option.splits result.splits, (rule again; assumption)+)
qed

lemma drain_initial_done: "drain_initial E w = Some (Ok (), w') \<Longrightarrow> initial_batches w' = []"
proof (induction E w arbitrary: w' rule: drain_initial.induct)
  case (1 E w)
  have again: "initial_batches w' = []" if "initial_batches w \<noteq> []" "wait_for_window_capacity E w = Some (Ok (), w1)"
    "push_new_batch E (hd (initial_batches w1)) None (w1\<lparr>initial_batches := tl (initial_batches w1)\<rparr>) = Some (Ok (), w2)"
    "drain_initial E w2 = Some (Ok (), w')" for w1 w2
    by (rule "1.IH" [OF that(1,2) HOL.refl HOL.refl HOL.refl HOL.refl that(3) HOL.refl HOL.refl that(4)])
  from "1.prems" show ?case
    by (subst (asm) drain_initial.simps)
      (auto simp: Let_def split: if_splits option.splits result.splits, (rule again; assumption)+)
qed

lemma drain_authoritative_done: "drain_authoritative_batches E w = Some (Ok u, w') \<Longrightarrow> initial_batches w' = []"
  by (auto simp: drain_authoritative_batches_def Let_def split: option.splits if_splits prod.splits result.splits
      intro: drain_initial_done)

lemma send_outbound_last: "send_outbound E f w = Some (Ok u, w') \<Longrightarrow> \<exists>fs. outbound w' = fs @ [f]"
proof (induction E f w arbitrary: w' rule: send_outbound.induct)
  case (1 E f w)
  from "1.prems" show ?case
    by (subst (asm) send_outbound.simps)
      (auto split: option.splits Await.splits if_splits prod.splits result.splits
        dest: "1.IH" [OF _ HOL.refl HOL.refl HOL.refl HOL.sym HOL.refl])
qed

text \<open>C15. The success of a remote full snapshot is reported only when all of it has arrived: when the step that completes
  the command goes through, every chunk has left the queue and the window is empty, that is, every chunk was
  acknowledged; the reply is the last frame written, and the command counts as completed in the journal.\<close>
theorem success_reply_after_last_ack:
  assumes "full_snapshot_command w = Some (PendingChunks i)" and "advance_full_snapshot_command E w = Some (True, w')"
  shows "initial_batches w' = [] \<and> SequenceWindow.pending (window w') = []
    \<and> full_snapshot_command w' = Some (ReplyReady i) \<and> reply_confirmation_ready w'
    \<and> (\<exists>fs v. outbound w' = fs @ [make_command_ack E v i (Ok ())])
    \<and> command_journal w' = CommandJournal_complete (command_journal w) i (Ok ())"
proof -
  from assms obtain w1 where drain: "drain_authoritative_batches E w = Some (Ok (), w1)"
    by (auto simp: advance_full_snapshot_command_def Let_def split: option.splits result.splits)
  with assms obtain w2 where wait: "wait_for_pending_frames_empty E w1 = Some (Ok (), w2)"
    by (auto simp: advance_full_snapshot_command_def Let_def split: option.splits result.splits)
  let ?v = "w2\<lparr>full_snapshot_command := Some (ReplyReady i),
    command_journal := CommandJournal_complete (command_journal w2) i (Ok ())\<rparr>"
  from assms drain wait obtain w3 where send: "send_outbound E (make_command_ack E ?v i (Ok ())) ?v = Some (Ok (), w3)"
    and w': "w' = w3\<lparr>reply_sent_this_session := True\<rparr>"
    by (auto simp: advance_full_snapshot_command_def Let_def split: option.splits result.splits)
  have same: "same_core w1 w2" "same_core ?v w3" "command_journal w1 = command_journal w"
    using core.wait_empty_keeps [OF wait] core.send_reply_keeps [OF send] pushes.drain_authoritative_keeps [OF drain]
    by auto
  have "window_empty ?v" using wait_empty_done [OF wait] by (simp add: window_empty_def)
  then have "window_empty w3" using drained.send_reply_keeps [OF send] by blast
  with same drain_authoritative_done [OF drain] send_outbound_last [OF send] w' show ?thesis
    by (auto simp: same_core_def window_empty_def reply_confirmation_ready_def)
qed

section \<open>A batch kept twice\<close>

lemma push_accepted:
  assumes "window_ok win" "length (SequenceWindow.pending win) < SequenceWindow.capacity win"
    "next_sequence win = Some n" "n \<noteq> - 1"
  shows "SequenceWindow_push_with win enc = (Ok \<lparr>sequence = n, encoded_frame = enc n\<rparr>,
    win\<lparr>SequenceWindow.pending := SequenceWindow.pending win @ [(n, \<lparr>sequence = n, encoded_frame = enc n\<rparr>)],
        next_sequence := Some (n + 1)\<rparr>)"
proof -
  obtain f win' where push: "SequenceWindow_push_with win enc = (Ok f, win')"
    using assms by (auto simp: window_simps Let_def)
  from push_with_Ok [OF assms(1) push] push assms(3) show ?thesis by (cases f) auto
qed

lemma ack_oldest:
  assumes "SequenceWindow.pending win = (s, g) # rest" "bt_invar (SequenceWindow.pending win)"
  shows "SequenceWindow_ack win s = (Ok (), win\<lparr>SequenceWindow.pending := rest\<rparr>)"
proof -
  have "bt_remove s ((s, g) # rest) = rest" using assms bt_remove_first by metis
  with assms(1) show ?thesis by (simp add: SequenceWindow_ack_def)
qed

text \<open>The push that fails after an acknowledgement arrived during its write.\<close>

lemma push_fails_after_ack:
  assumes codec: "decode E (encode E (batch_frame E b w n)) = Some (batch_frame E b w n)"
    and win: "window_ok (window w)" "SequenceWindow.pending (window w) = (s, g) # rest"
      "length (SequenceWindow.pending (window w)) < SequenceWindow.capacity (window w)"
      "next_sequence (window w) = Some n" "n \<noteq> - 1"
    and led: "progress w = Some l" "client_queued_batches l = i # is" "PipelineOwnershipState.pending_frames l = j # js"
    and batch: "\<not> AggregatedBatch.is_full_snapshot b" "\<not> force_first_batch_full_snapshot w"
    and tape: "tape w = ([], AwServer (Some (SBatchAck s))) # ([], AwSent False) # t"
  shows "\<exists>f w'. process_push_event E (BatchAt i gen b) w = Some (Err TransportClosed, w') \<and> sequence f = n
    \<and> SequenceWindow.pending (window w') = rest @ [(n, f)] \<and> next_sequence (window w') = Some (n + 1)
    \<and> SequenceWindow.capacity (window w') = SequenceWindow.capacity (window w)
    \<and> preserved_live_events w' = preserved_live_events w
    \<and> progress w' = Some (l\<lparr>client_queued_batches := is, PipelineOwnershipState.pending_frames := js @ [i]\<rparr>)"
proof -
  let ?f = "\<lparr>sequence = n, encoded_frame = encode E (batch_frame E b w n)\<rparr>"
  let ?win = "window w\<lparr>SequenceWindow.pending := (s, g) # rest @ [(n, ?f)], next_sequence := Some (n + 1)\<rparr>"
  let ?l = "l\<lparr>client_queued_batches := is, PipelineOwnershipState.pending_frames := j # js @ [i]\<rparr>"
  let ?w1 = "w\<lparr>window := ?win, progress := Some ?l\<rparr>"
  note push = push_accepted [OF win(1,3,4,5), of "\<lambda>s. encode E (batch_frame E b w s)"]
  have ok: "window_ok ?win" using window_ok_push [OF win(1), of "\<lambda>s. encode E (batch_frame E b w s)"] push win(2) by simp
  have event: "process_push_event E (BatchAt i gen b) w = send_outbound E (batch_frame E b w n) ?w1"
    using push win(2) led batch codec
    by (simp add: push_new_batch_def mark_first_def take_work_id_def transfer_to_pending_def on_ledger_def
        transfer_client_to_pending_frames_def advance_transaction_def send_encoded_frame_def)
  let ?l2 = "l\<lparr>client_queued_batches := is, PipelineOwnershipState.pending_frames := js @ [i]\<rparr>"
  let ?w2 = "\<lambda>t. ?w1\<lparr>tape := t, window := ?win\<lparr>SequenceWindow.pending := rest @ [(n, ?f)]\<rparr>,
    released := released w @ [g], progress := Some ?l2\<rparr>"
  have ack: "acknowledge s (?w1\<lparr>tape := t\<rparr>) = (Ok (), ?w2 t)" for t
    using ack_oldest [of ?win s g "rest @ [(n, ?f)]"] window_okD(1) [OF ok]
    by (simp add: acknowledge_def SequenceWindow_pending_frames_def on_ledger_def finish_pending_def finish_pending_frame_def)
  have wait: "take_await no_batch ?w1 = Some (AwServer (Some (SBatchAck s)), ?w1\<lparr>tape := ([], AwSent False) # t\<rparr>)"
    using tape by (simp add: take_await_def no_batch_def)
  have "send_outbound E (batch_frame E b w n) ?w1 = send_outbound E (batch_frame E b w n) (?w2 (([], AwSent False) # t))"
    by (subst send_outbound.simps) (simp only: wait process_server_while_sending_def ack option.case prod.case
      Await.case ServerFrame.case result.case snd_conv)
  also have "\<dots> = Some (Err TransportClosed, ?w2 t)"
    by (subst send_outbound.simps) (simp add: take_await_def no_batch_def)
  finally show ?thesis using event by (intro exI [of _ ?f] exI [of _ "?w2 t"]) simp
qed

lemma push_disowned:
  assumes win: "window_ok (window v)" "length (SequenceWindow.pending (window v)) < SequenceWindow.capacity (window v)"
      "next_sequence (window v) = Some m" "m \<noteq> - 1"
    and led: "progress v = Some l" "i \<notin> set (client_queued_batches l)"
      "length (PipelineOwnershipState.pending_frames l) = length (SequenceWindow.pending (window v))"
    and batch: "\<not> AggregatedBatch.is_full_snapshot b" "\<not> force_first_batch_full_snapshot v"
  shows "\<exists>e v' e'. process_push_event E (BatchAt i gen b) v = Some (Err e, v') \<and> progress v' = Some l
    \<and> (\<forall>u. SequenceWindow.pending (window u) = SequenceWindow.pending (window v') \<longrightarrow> with_progress l u = Err e')"
proof -
  have "front (client_queued_batches l) \<noteq> Some i" using led(2) by (cases "client_queued_batches l") auto
  then show ?thesis
    using push_accepted [OF win, of "\<lambda>s. encode E (batch_frame E b v s)"] led(1,3) batch
    by (simp add: push_new_batch_def mark_first_def take_work_id_def transfer_to_pending_def on_ledger_def
        transfer_client_to_pending_frames_def invalid_def with_progress_def verify_pending_frames_def)
qed

text \<open>C16. A live batch can be kept twice: when the server acknowledges an older frame while the write of a new one
  waits, and the write then fails, the window is as long as before the push, so the batch is put back although
  its frame is already pending. The next session sends the frame again and then the event, whose work item no longer waits
  in the client queue: the event fails, and the window it leaves no longer matches the ledger, so that the session
  after it is refused.\<close>
theorem acknowledged_push_is_kept_twice:
  assumes "\<forall>t. decode E (encode E (batch_frame E b (w\<lparr>tape := t\<rparr>) n)) = Some (batch_frame E b (w\<lparr>tape := t\<rparr>) n)"
    and "window_ok (window w)" and "SequenceWindow.pending (window w) = (s, g) # rest"
    and "length (SequenceWindow.pending (window w)) < SequenceWindow.capacity (window w)"
    and "next_sequence (window w) = Some n" and "n \<noteq> - 1" and "n + 1 \<noteq> - 1"
    and "progress w = Some l" and "client_queued_batches l = i # is" and "distinct (i # is)"
    and "length (PipelineOwnershipState.pending_frames l) = length (SequenceWindow.pending (window w))"
    and "\<not> AggregatedBatch.is_full_snapshot b" and "\<not> force_first_batch_full_snapshot w"
    and "deferred_server_frames w = []"
    and "tape w = ([], AwBatch (Some (BatchAt i gen b))) # ([], AwServer (Some (SBatchAck s))) # ([], AwSent False) # t"
  shows "\<exists>w' f. session_loop E False w = Some w' \<and> sequence f = n \<and> f \<in> set (x_pending_frames (into_exit w'))
    \<and> x_preserved_live_events (into_exit w') = BatchAt i gen b # preserved_live_events w
    \<and> (\<forall>v. window v = window w' \<longrightarrow> progress v = progress w' \<longrightarrow> \<not> force_first_batch_full_snapshot v \<longrightarrow>
         (\<exists>e v' l' e'. process_push_event E (BatchAt i gen b) v = Some (Err e, v') \<and> progress v' = Some l'
            \<and> (\<forall>u. SequenceWindow.pending (window u) = SequenceWindow.pending (window v') \<longrightarrow> with_progress l' u = Err e')))"
proof -
  let ?w1 = "w\<lparr>tape := ([], AwServer (Some (SBatchAck s))) # ([], AwSent False) # t\<rparr>"
  let ?l' = "l\<lparr>client_queued_batches := is, PipelineOwnershipState.pending_frames := tl (PipelineOwnershipState.pending_frames l) @ [i]\<rparr>"
  have full: "\<not> window_full w" using assms(4) by (simp add: window_full_def window_simps)
  have "window_full w = False" "next_deferred w = None" using full assms(14) by (simp_all add: next_deferred_def)
  moreover have "take_await (session_select False w) w = Some (AwBatch (Some (BatchAt i gen b)), ?w1)"
    using assms(8,15) full by (simp add: take_await_def session_select_def)
  moreover obtain j js where js: "PipelineOwnershipState.pending_frames l = j # js"
    using assms(3,11) by (cases "PipelineOwnershipState.pending_frames l") auto
  moreover obtain f w2 where push: "process_push_event E (BatchAt i gen b) ?w1 = Some (Err TransportClosed, w2)"
    and f: "sequence f = n" "SequenceWindow.pending (window w2) = rest @ [(n, f)]" "next_sequence (window w2) = Some (n + 1)"
      "SequenceWindow.capacity (window w2) = SequenceWindow.capacity (window w)"
      "preserved_live_events w2 = preserved_live_events w" "progress w2 = Some ?l'"
    using push_fails_after_ack [of E b ?w1 n s g rest l i "is" j js t gen] assms js by auto
  let ?w' = "w2\<lparr>preserved_live_events := BatchAt i gen b # preserved_live_events w\<rparr>"
  have loop: "session_loop E False w = Some ?w'"
    using calculation(2,3) push f(2,5) assms(3) by (subst session_loop.simps) (simp add: keep_event_def)
  have ok: "window_ok (window ?w')"
    using growing.process_push_event_keeps [OF _ push] assms(2) by (auto simp: grows_def)
  have later: "\<exists>e v' l' e'. process_push_event E (BatchAt i gen b) v = Some (Err e, v') \<and> progress v' = Some l'
      \<and> (\<forall>u. SequenceWindow.pending (window u) = SequenceWindow.pending (window v') \<longrightarrow> with_progress l' u = Err e')"
    if "window v = window ?w'" "progress v = progress ?w'" "\<not> force_first_batch_full_snapshot v" for v
  proof -
    have "\<exists>e v' e'. process_push_event E (BatchAt i gen b) v = Some (Err e, v') \<and> progress v' = Some ?l'
        \<and> (\<forall>u. SequenceWindow.pending (window u) = SequenceWindow.pending (window v') \<longrightarrow> with_progress ?l' u = Err e')"
      by (rule push_disowned [of v "n + 1"]) (use that ok f assms(3,4,7,10,11,12) js in simp_all)
    then show ?thesis by blast
  qed
  show ?thesis
    using loop later f(1,2)
    by (intro exI [of _ ?w'] exI [of _ f]) (simp add: into_exit_def SequenceWindow_pending_frames_def)
qed

section \<open>Concrete sessions\<close>

text \<open>One batch of a small client, and a codec that knows its frame only.\<close>

definition live_batch :: AggregatedBatch where
  "live_batch = \<lparr>AggregatedBatch.entries = [], AggregatedBatch.is_full_snapshot = False\<rparr>"

definition live_env :: push_env where
  "live_env =
     \<lparr>encode = (\<lambda>_. []),
      decode = (\<lambda>_. Some (CSnapshotBatch \<lparr>b_header = Some \<lparr>protocol_version = 1, h_service_name = [115],
          h_instance_id = [105], h_boot_id = [98], h_stream_epoch = 1, h_sequence = 2, emitted_at_unix_ms = 7\<rparr>,
        b_entries = [], SnapshotBatch.is_full_snapshot = False, b_transaction = None\<rparr>)),
      b64 = map unat, now_at = (\<lambda>_. 7), reset_at = (\<lambda>_ _. Ok ()), full_at = (\<lambda>_. Ok [])\<rparr>"

definition live_worker :: "(PipelineOp list \<times> Await) list \<Rightarrow> PushWorker" where
  "live_worker t = with_identity 2 2 [115] [105] [98] 1 t"

definition two_pushes :: "(PipelineOp list \<times> Await) list" where
  "two_pushes = map (Pair []) [AwBatch (Some (Batch live_batch)), AwSent True, AwBatch (Some (Batch live_batch)), AwSent False]"

lemma live_worker_record:
  "live_worker t =
     \<lparr>window = SequenceWindow_new 2, service_name = [115], instance_id = [105], boot_id = [98],
      stream_epoch = 1, command_executor = False, deferred_server_frames = [],
      deferred_server_capacity = 4, replay_frames = [],
      force_first_batch_full_snapshot = False, initial_batches = [], progress = None, resync_required = False,
      full_snapshot_command = None, completed_full_snapshot_commands = [], reply_sent_this_session = False,
      preserved_live_events = [], snapshot_transaction = None,
      command_journal = CommandJournal_new 2, tape = t, outbound = [], released = []\<rparr>"
  by (simp add: live_worker_def with_identity_def usize_limit_def)

lemmas session_steps = session_loop.simps send_outbound.simps next_deferred_def take_await_def session_select_def
  no_batch_def no_write_def window_full_def window_empty_def push_new_batch_def take_work_id_def mark_first_def
  transfer_to_pending_def advance_transaction_def send_encoded_frame_def keep_event_def into_exit_def
  live_worker_record live_batch_def live_env_def window_simps SequenceWindow_pending_frames_def Let_def

lemma two_pushes_session:
  "map_option (\<lambda>w'. (map sequence (x_pending_frames (into_exit w')), x_next_sequence (into_exit w'), released w'))
     (session live_env (live_worker two_pushes)) = Some ([1, 2], Some 3, [])"
  by (simp add: session_def drain_authoritative_batches_def drain_initial.simps
      advance_full_snapshot_command_def reply_confirmation_ready_def drain_preserved_live_events.simps
      two_pushes_def session_steps)


definition snapshot_worker :: PushWorker where
  "snapshot_worker = (live_worker (map (Pair []) [AwSent True, AwServer (Some (SBatchAck 1)), AwSent True]))
     \<lparr>initial_batches := [live_batch\<lparr>AggregatedBatch.is_full_snapshot := True\<rparr>], full_snapshot_command := Some (PendingChunks [7])\<rparr>"

lemma snapshot_worker_advances:
  "map_option fst (advance_full_snapshot_command live_env snapshot_worker) = Some True"
  by (simp add: snapshot_worker_def advance_full_snapshot_command_def drain_authoritative_batches_def drain_initial.simps
      wait_for_pending_frames_empty.simps wait_for_window_capacity.simps await_server_def frame_while_waiting_def
      acknowledge_def start_snapshot_transaction_def SequenceWindow_ack_def bt_remove_def u32_saturating_succ_def session_steps)

lemma success_reply_after_last_ack_witness:
  "\<exists>w'. advance_full_snapshot_command live_env snapshot_worker = Some (True, w')
     \<and> SequenceWindow.pending (window w') = [] \<and> initial_batches w' = []"
proof -
  obtain w' where w': "advance_full_snapshot_command live_env snapshot_worker = Some (True, w')"
    using snapshot_worker_advances by auto
  have "full_snapshot_command snapshot_worker = Some (PendingChunks [7])" by (simp add: snapshot_worker_def)
  from success_reply_after_last_ack [OF this w'] w' show ?thesis by blast
qed

definition raced_worker :: PushWorker where
  "raced_worker = (live_worker (map (Pair []) [AwBatch (Some (BatchAt 1 5 live_batch)), AwServer (Some (SBatchAck 1)), AwSent False]))
     \<lparr>window := \<lparr>SequenceWindow.pending = [(1, \<lparr>sequence = 1, encoded_frame = []\<rparr>)], SequenceWindow.capacity = 2, next_sequence = Some 2\<rparr>,
      progress := Some (PipelineOwnership_new\<lparr>client_queued_batches := [1], PipelineOwnershipState.pending_frames := [0]\<rparr>)\<rparr>"

lemma acknowledged_push_is_kept_twice_witness:
  "\<exists>w' f. session_loop live_env False raced_worker = Some w' \<and> sequence f = 2 \<and> f \<in> set (x_pending_frames (into_exit w'))
     \<and> x_preserved_live_events (into_exit w') = [BatchAt 1 5 live_batch]"
proof -
  have "\<forall>t. decode live_env (encode live_env (batch_frame live_env live_batch (raced_worker\<lparr>tape := t\<rparr>) 2))
      = Some (batch_frame live_env live_batch (raced_worker\<lparr>tape := t\<rparr>) 2)"
    by (simp add: raced_worker_def live_worker_record live_env_def live_batch_def batch_frame_def make_header_def
        clock_now_def current_transaction_def)
  moreover have "window_ok (window raced_worker)" by (auto simp: raced_worker_def window_ok_def)
  ultimately show ?thesis
    using acknowledged_push_is_kept_twice [of live_env live_batch raced_worker 2 1 "\<lparr>sequence = 1, encoded_frame = []\<rparr>" "[]"
        "PipelineOwnership_new\<lparr>client_queued_batches := [1], PipelineOwnershipState.pending_frames := [0]\<rparr>" 1 "[]" 5 "[]"]
    by (auto simp: raced_worker_def live_worker_record live_batch_def)
qed

end
