(* ===== verification/Client_Server.thy ===== *)
theory Client_Server
  imports Push_Worker_Properties
begin

text \<open>
  The push worker and the ingest handler together. The snapshot frames that a worker writes while it drains
  an authoritative full snapshot are the chunks of one transaction, whatever the server sends
  meanwhile; a server that receives them commits them once.
\<close>

section \<open>The frames a worker writes\<close>

definition batches_of :: "ClientFrame list \<Rightarrow> SnapshotEntryMsg SnapshotBatch list" where
  "batches_of fs = concat (map (\<lambda>f. case f of CSnapshotBatch b \<Rightarrow> [b] | _ \<Rightarrow> []) fs)"

lemma batches_of_simps [simp]:
  "batches_of (fs @ gs) = batches_of fs @ batches_of gs"
  "batches_of [CSnapshotBatch b] = [b]"
  "batches_of [CCommandAck h i x m] = []"
  by (simp_all add: batches_of_def)

definition chunk_header :: "PushWorker \<Rightarrow> u64 \<Rightarrow> FrameHeader" where
  "chunk_header w t = \<lparr>protocol_version = 1, h_service_name = service_name w, h_instance_id = instance_id w,
     h_boot_id = boot_id w, h_stream_epoch = stream_epoch w, h_sequence = 0, emitted_at_unix_ms = t\<rparr>"

definition chunk_entries :: "AggregatedBatch list \<Rightarrow> SnapshotEntryMsg SnapshotEntry list list" where
  "chunk_entries bs = map (\<lambda>b. map wire_entry (AggregatedBatch.entries b)) bs"

text \<open>The \<open>j\<close>-th chunk of the batches \<open>bs\<close>, sent at time \<open>t\<close> by a worker with the identity of \<open>w\<close>.\<close>

definition chunk_of :: "PushWorker \<Rightarrow> AggregatedBatch list \<Rightarrow> rust_str \<Rightarrow> nat \<Rightarrow> nat \<Rightarrow> u64 \<Rightarrow> SnapshotEntryMsg SnapshotBatch" where
  "chunk_of w bs tid q j t = chunk_batch (chunk_header w t) tid (length bs) q j (chunk_entries bs ! j)"

definition same_identity :: "PushWorker \<Rightarrow> PushWorker \<Rightarrow> bool" where
  "same_identity w w' \<longleftrightarrow> service_name w' = service_name w \<and> instance_id w' = instance_id w \<and> boot_id w' = boot_id w
     \<and> stream_epoch w' = stream_epoch w"

lemma chunk_header_same: "same_identity w w' \<Longrightarrow> chunk_header w' = chunk_header w"
  by (simp add: chunk_header_def same_identity_def fun_eq_iff)

lemma batch_frame_chunk:
  assumes "snapshot_transaction w = Some (tid, of_nat j, of_nat (length bs))" "AggregatedBatch.is_full_snapshot (bs ! j)"
    and "j < length bs" "length bs < 4294967296"
  shows "batch_frame E (bs ! j) w (of_nat (q + j)) = CSnapshotBatch (chunk_of w bs tid q j (clock_now E w))"
proof -
  have "u32_saturating_succ (of_nat j) = of_nat (length bs) \<longleftrightarrow> Suc j = length bs"
    using assms(3,4) u32_succ [of j] of_nat_u32_eq_iff [of "Suc j" "length bs"] by (simp del: of_nat_Suc)
  with assms(1-3) show ?thesis
    by (simp add: batch_frame_def chunk_of_def chunk_batch_def current_transaction_def chunk_entries_def
        chunk_header_def make_header_def)
qed

text \<open>What a worker that waits keeps: all of \<open>same_core\<close>, its identity, the next number and the batches written.\<close>

definition calm :: "PushWorker \<Rightarrow> PushWorker \<Rightarrow> bool" where
  "calm w w' \<longleftrightarrow> same_core w w' \<and> same_identity w w' \<and> batches_of (outbound w') = batches_of (outbound w)
     \<and> next_sequence (window w') = next_sequence (window w) \<and> (window_ok (window w) \<longrightarrow> window_ok (window w'))"

lemma ack_next_sequence: "SequenceWindow_ack win s = (r, win') \<Longrightarrow> next_sequence win' = next_sequence win"
  by (auto simp: window_simps split: list.splits if_splits option.splits)

interpretation calm: waiting_relation calm
proof unfold_locales
  show "calm w (w\<lparr>window := win, released := released w @ [hd (SequenceWindow_pending_frames (window w))]\<rparr>)"
    if "SequenceWindow_ack (window w) s = (Ok u, win)" for w s u win
    using ack_next_sequence [OF that] window_ok_ack [of "window w" s] that
    by (simp add: calm_def same_core_def same_identity_def)
qed (auto simp: calm_def same_core_def same_identity_def take_await_def split: list.splits if_splits)

text \<open>A write that succeeds adds its frame at the end, after what a wait may add.\<close>

lemma send_outbound_writes:
  "send_outbound E f w = Some (Ok u, w') \<Longrightarrow> \<exists>v. calm w v \<and> w' = v\<lparr>outbound := outbound v @ [f]\<rparr>"
proof (induction E f w arbitrary: w' rule: send_outbound.induct)
  case (1 E f w)
  have again: "\<exists>v. calm w v \<and> w' = v\<lparr>outbound := outbound v @ [f]\<rparr>"
    if step: "take_await no_batch w = Some (AwServer (Some g), w1)" "process_server_while_sending E g w1 = (Ok (), w2)"
      "send_outbound E f w2 = Some (Ok u, w')" for g w1 w2
  proof -
    from "1.IH" [OF step(1) HOL.refl HOL.refl HOL.refl step(2) [symmetric] HOL.refl step(3)]
    obtain v where v: "calm w2 v" "w' = v\<lparr>outbound := outbound v @ [f]\<rparr>" by blast
    have "calm w w2" using calm.awaited [OF step(1)] calm.while_sending_keeps [OF step(2)] by (rule calm.keeps_trans)
    with v calm.keeps_trans show ?thesis by blast
  qed
  from "1.prems" show ?case
    by (subst (asm) send_outbound.simps)
      (auto split: option.splits Await.splits if_splits prod.splits result.splits dest: calm.awaited again)
qed

lemma transfer_same:
  assumes "transfer_to_pending i w = (r, w')"
  shows "calm w w'" "window w' = window w"
  using assms by (auto simp: transfer_to_pending_def on_ledger_def calm_def same_core_def same_identity_def
      split: option.splits result.splits prod.splits)

section \<open>Draining a full snapshot\<close>

text \<open>The state of a worker before it pushes chunk \<open>j\<close> of \<open>n\<close>.\<close>

definition at_chunk :: "rust_str \<Rightarrow> nat \<Rightarrow> nat \<Rightarrow> nat \<Rightarrow> PushWorker \<Rightarrow> bool" where
  "at_chunk tid q n j w \<longleftrightarrow> window_ok (window w) \<and>
     (j < n \<longrightarrow> snapshot_transaction w = Some (tid, of_nat j, of_nat n) \<and> next_sequence (window w) = Some (of_nat (q + j)))"

lemma at_chunk_calm: "calm w w' \<Longrightarrow> at_chunk tid q n j w \<Longrightarrow> at_chunk tid q n j w'"
  by (simp add: at_chunk_def calm_def same_core_def)

lemma push_chunk:
  assumes push: "push_new_batch E (bs ! j) None w = Some (Ok u, w')"
    and full: "AggregatedBatch.is_full_snapshot (bs ! j)" and j: "j < length bs" "length bs < 4294967296"
    and at: "at_chunk tid q (length bs) j w"
    and codec: "\<forall>t\<in>range (now_at E). decode E (encode E (CSnapshotBatch (chunk_of w bs tid q j t))) = Some (CSnapshotBatch (chunk_of w bs tid q j t))"
  shows "at_chunk tid q (length bs) (Suc j) w' \<and> same_identity w w' \<and> initial_batches w' = initial_batches w
    \<and> batches_of (outbound w') = batches_of (outbound w) @ [chunk_of w bs tid q j (clock_now E w)]"
proof -
  let ?c = "CSnapshotBatch (chunk_of w bs tid q j (clock_now E w))"
  from at j have tx: "snapshot_transaction w = Some (tid, of_nat j, of_nat (length bs))"
    and next_j: "next_sequence (window w) = Some (of_nat (q + j))" and ok: "window_ok (window w)" by (auto simp: at_chunk_def)
  have frame: "batch_frame E (bs ! j) w (of_nat (q + j)) = ?c" by (rule batch_frame_chunk [OF tx full j])
  from push obtain i where i: "take_work_id None w = Ok i" by (auto simp: push_new_batch_def split: result.splits)
  with push tx obtain f win where p: "SequenceWindow_push_with (window w) (\<lambda>s. encode E (batch_frame E (bs ! j) w s)) = (Ok f, win)"
    by (auto simp: push_new_batch_def Let_def split: result.splits prod.splits)
  note pushed = push_with_Ok [OF ok p]
  have f: "encoded_frame f = encode E ?c" and f_seq: "sequence f = of_nat (q + j)" using pushed(1,3) next_j frame by simp_all
  have win: "next_sequence win = Some (of_nat (q + Suc j))" "window_ok win"
    using pushed(5) f_seq window_ok_push [OF ok, of "\<lambda>s. encode E (batch_frame E (bs ! j) w s)"] p by simp_all
  from push i tx p obtain w2 where t: "transfer_to_pending i (w\<lparr>window := win\<rparr>) = (Ok (), w2)"
    by (auto simp: push_new_batch_def Let_def split: result.splits prod.splits)
  note w2 = transfer_same [OF t]
  then have tx2: "snapshot_transaction w2 = snapshot_transaction w" by (simp add: calm_def same_core_def)
  let ?chunk = "u32_saturating_succ (of_nat j)"
  let ?w3 = "w2\<lparr>snapshot_transaction := (if ?chunk = of_nat (length bs) then None else Some (tid, ?chunk, of_nat (length bs)))\<rparr>"
  have "decode E (encoded_frame f) = Some ?c" using codec f by (simp add: clock_now_def)
  with push i tx p t full tx2 have "send_outbound E ?c ?w3 = Some (Ok u, w')"
    by (simp add: push_new_batch_def advance_transaction_def Let_def send_encoded_frame_def)
  then obtain v where v: "calm ?w3 v" "w' = v\<lparr>outbound := outbound v @ [?c]\<rparr>" using send_outbound_writes by blast
  have succ: "?chunk = of_nat (Suc j)" using u32_succ [of j] j by (simp del: of_nat_Suc)
  have "Suc j < length bs \<Longrightarrow> (of_nat (Suc j) :: u32) \<noteq> of_nat (length bs)"
    using of_nat_u32_eq_iff [of "Suc j" "length bs"] j(2) by (simp del: of_nat_Suc)
  with v w2 win succ show ?thesis
    by (auto simp: at_chunk_def calm_def same_core_def same_identity_def simp del: of_nat_Suc)
qed

lemma drain_chunks:
  assumes "drain_initial E w = Some (Ok u, w')" and "initial_batches w = drop j bs" and "j \<le> length bs"
    and "at_chunk tid q (length bs) j w" and "same_identity w0 w"
    and "\<forall>b\<in>set bs. AggregatedBatch.is_full_snapshot b" and "length bs < 4294967296"
    and "\<forall>i<length bs. \<forall>t\<in>range (now_at E). decode E (encode E (CSnapshotBatch (chunk_of w0 bs tid q i t))) = Some (CSnapshotBatch (chunk_of w0 bs tid q i t))"
  shows "\<exists>t. batches_of (outbound w') = batches_of (outbound w) @ map (\<lambda>i. chunk_of w0 bs tid q i (t i)) [j..<length bs]"
  using assms(1-5,8)
proof (induction E w arbitrary: j w' rule: drain_initial.induct)
  case (1 E w)
  show ?case
  proof (cases "j = length bs")
    case True
    with "1.prems" show ?thesis by (subst (asm) drain_initial.simps) simp
  next
    case False
    with "1.prems"(3) have j: "j < length bs" by simp
    then have head: "drop j bs = bs ! j # drop (Suc j) bs" by (simp add: Cons_nth_drop_Suc)
    with "1.prems"(2) have some: "initial_batches w \<noteq> []" by simp
    with "1.prems"(1) obtain w1 where wait: "wait_for_window_capacity E w = Some (Ok (), w1)"
      by (subst (asm) drain_initial.simps) (auto split: option.splits result.splits)
    have calm1: "calm w w1" by (rule calm.wait_capacity_keeps [OF wait])
    then have batches1: "initial_batches w1 = bs ! j # drop (Suc j) bs" using "1.prems"(2) head by (simp add: calm_def same_core_def)
    let ?v = "w1\<lparr>initial_batches := drop (Suc j) bs\<rparr>"
    from "1.prems"(1) some wait batches1 obtain w2 where push: "push_new_batch E (bs ! j) None ?v = Some (Ok (), w2)"
      and rest: "drain_initial E w2 = Some (Ok u, w')"
      by (subst (asm) drain_initial.simps) (auto simp: Let_def split: option.splits result.splits)
    have id: "same_identity w0 ?v" using "1.prems"(5) calm1 by (simp add: calm_def same_identity_def)
    then have same: "chunk_of ?v bs tid q i t = chunk_of w0 bs tid q i t" for i t
      using chunk_header_same by (simp add: chunk_of_def)
    have at: "at_chunk tid q (length bs) j ?v"
      using at_chunk_calm [OF calm1 "1.prems"(4)] by (simp add: at_chunk_def)
    have codec: "\<forall>t\<in>range (now_at E). decode E (encode E (CSnapshotBatch (chunk_of ?v bs tid q j t)))
        = Some (CSnapshotBatch (chunk_of ?v bs tid q j t))"
      unfolding same by (rule mp [OF spec [OF "1.prems"(6)] j])
    have full: "AggregatedBatch.is_full_snapshot (bs ! j)" using assms(6) j by simp
    note step = push_chunk [OF push full j assms(7) at codec]
    have id2: "same_identity w0 w2" using id step by (simp add: same_identity_def)
    have push': "push_new_batch E (hd (initial_batches w1)) None (w1\<lparr>initial_batches := tl (initial_batches w1)\<rparr>) = Some (Ok (), w2)"
      using push batches1 by simp
    have "initial_batches w2 = drop (Suc j) bs" "Suc j \<le> length bs" using step j by simp_all
    from "1.IH" [OF some wait HOL.refl HOL.refl HOL.refl HOL.refl push' HOL.refl HOL.refl rest this _ id2 "1.prems"(6)] step
    obtain t where t: "batches_of (outbound w') = batches_of (outbound w2) @ map (\<lambda>i. chunk_of w0 bs tid q i (t i)) [Suc j..<length bs]"
      by blast
    let ?t = "t(j := clock_now E ?v)"
    have "batches_of (outbound w2) = batches_of (outbound w) @ [chunk_of w0 bs tid q j (?t j)]"
      using step calm1 same by (simp add: calm_def)
    moreover have "map (\<lambda>i. chunk_of w0 bs tid q i (t i)) [Suc j..<length bs] = map (\<lambda>i. chunk_of w0 bs tid q i (?t i)) [Suc j..<length bs]"
      by (rule map_cong) auto
    ultimately have "batches_of (outbound w') = batches_of (outbound w) @ map (\<lambda>i. chunk_of w0 bs tid q i (?t i)) [j..<length bs]"
      using t j by (simp add: upt_conv_Cons del: fun_upd_apply)
    then show ?thesis by blast
  qed
qed

definition transaction_name :: "PushWorker \<Rightarrow> nat \<Rightarrow> rust_str" where
  "transaction_name w q = decimal (unat (stream_epoch w)) @ [45] @ decimal q"

lemma drain_authoritative_chunks:
  assumes "drain_authoritative_batches E w = Some (Ok u, w')" and "initial_batches w = bs" and "bs \<noteq> []"
    and "snapshot_transaction w = None" and "window_ok (window w)"
  obtains q where "next_sequence (window w) = Some (of_nat q)" "0 < q" "q < 18446744073709551616" "length bs < 4294967296"
    "drain_initial E (w\<lparr>snapshot_transaction := Some (transaction_name w q, 0, of_nat (length bs))\<rparr>) = Some (Ok u, w')"
proof -
  from assms obtain w1 where start: "start_snapshot_transaction (length bs) w = (Ok (), w1)" and drain: "drain_initial E w1 = Some (Ok u, w')"
    by (auto simp: drain_authoritative_batches_def Let_def split: prod.splits result.splits)
  then obtain first where first: "next_sequence (window w) = Some first" and n: "length bs < 4294967296"
    and w1: "w1 = w\<lparr>snapshot_transaction := Some (decimal (unat (stream_epoch w)) @ [45] @ decimal (unat first), 0, of_nat (length bs))\<rparr>"
    by (auto simp: start_snapshot_transaction_def split: if_splits option.splits)
  have "first \<noteq> 0" using assms(5) first by (auto simp: window_ok_def)
  then have "0 < unat first" using unat_gt_0 by blast
  with that [of "unat first"] first n w1 drain unat_u64_less [of first] show thesis by (simp add: transaction_name_def)
qed

section \<open>The server that receives them\<close>

fun serve ::
  "b64_encoder \<Rightarrow> (nat \<Rightarrow> clock) \<Rightarrow> 'p commit \<Rightarrow> ServiceIdentity option \<Rightarrow> nat \<Rightarrow> 'p SnapshotBatch list \<Rightarrow> 'p IngestHandler
     \<Rightarrow> ServerPayload option list \<times> 'p IngestHandler \<times> ('p SnapshotEntry list \<times> bool) list" where
  "serve enc clk commit sid i [] h = ([], h, [])"
| "serve enc clk commit sid i (b # bs) h =
     (case handle_snapshot_batch enc (clk i) commit b sid h of
        (r, h1, calls) \<Rightarrow>
          (case serve enc clk commit sid (Suc i) bs h1 of (rs, h2, calls') \<Rightarrow> (r # rs, h2, calls @ calls')))"

lemma serve_chunks:
  "i \<le> length ess \<Longrightarrow>
   serve enc clk commit sid i (map (\<lambda>i. chunk_batch (hdr i) tid n q i (ess ! i)) [i..<length ess]) h
     = send_chunks enc clk commit sid hdr tid n q i (drop i ess) h"
proof (induction "length ess - i" arbitrary: i h)
  case (Suc k)
  then have i: "i < length ess" by simp
  then have "drop i ess = ess ! i # drop (Suc i) ess" by (simp add: Cons_nth_drop_Suc)
  with Suc i show ?case by (simp add: upt_conv_Cons split: prod.split)
qed simp

lemma stream_key_header:
  "stream_key enc (chunk_header w t) sid = stream_key enc (chunk_header w t') sid"
  by (simp add: stream_key_def chunk_header_def split: option.split result.split)

lemma transaction_name_visible: "str_trim (transaction_name w q) \<noteq> []"
  by (simp add: str_trim_Nil_iff transaction_name_def char_is_whitespace_def)

text \<open>C17. A full snapshot arrives once and whole: when the worker has drained the batches of an authoritative full
  snapshot, whatever acknowledgements and commands the server sent meanwhile, the snapshot frames it wrote are
  the chunks of one transaction; a server that expects the sequence of the first of them acknowledges each of
  them, commits once the entries of all batches in order, and then shows exactly these entries.\<close>
theorem client_snapshot_commits_once:
  assumes "drain_authoritative_batches E w = Some (Ok u, w')" and "initial_batches w = bs" and "bs \<noteq> []"
    and "snapshot_transaction w = None" and "window_ok (window w)"
    and "\<forall>b\<in>set bs. AggregatedBatch.is_full_snapshot b"
    and "next_sequence (window w) = Some first" and "unat first + length bs < 2 ^ 64"
    and "\<forall>i<length bs. \<forall>t\<in>range (now_at E).
           decode E (encode E (CSnapshotBatch (chunk_of w bs (transaction_name w (unat first)) (unat first) i t)))
             = Some (CSnapshotBatch (chunk_of w bs (transaction_name w (unat first)) (unat first) i t))"
    and "stream_key enc (chunk_header w 0) sid = Ok k" and "map_of (streams h) k = Some s"
    and "prune_at (clk 0) - last_seen s < stream_ttl h"
    and "\<forall>j. prune_at (clk (Suc j)) - seen_at (clk j) < stream_ttl h"
    and "expected_seq s = first"
    and "length bs \<le> max_snapshot_entries h" and "length (concat (chunk_entries bs)) \<le> max_snapshot_entries h"
    and "commit (concat (chunk_entries bs)) True"
  shows "\<exists>sent rs h' s'. batches_of (outbound w') = batches_of (outbound w) @ sent
    \<and> serve enc clk commit sid 0 sent h = (rs, h', [(concat (chunk_entries bs), True)])
    \<and> (\<forall>j<length bs. \<exists>hdr. rs ! j = Some (make_batch_ack (clk j) hdr (first + of_nat j)))
    \<and> map_of (streams h') k = Some s' \<and> expected_seq s' = first + of_nat (length bs)
    \<and> Ingest.snapshot_transaction s' = None \<and> initialized s' \<and> snapshots s' = collect_by_id (concat (chunk_entries bs))"
proof -
  let ?q = "unat first" let ?n = "length bs" let ?tid = "transaction_name w ?q" let ?ess = "chunk_entries bs"
  obtain q where q: "next_sequence (window w) = Some (of_nat q)" "0 < q" "q < 18446744073709551616" and n: "?n < 4294967296"
    and drain: "drain_initial E (w\<lparr>snapshot_transaction := Some (transaction_name w q, 0, of_nat ?n)\<rparr>) = Some (Ok u, w')"
    using drain_authoritative_chunks [OF assms(1-5)] by blast
  have first: "first = of_nat q" "?q = q" using assms(7) q unat_of_nat_u64 [of q] by simp_all
  let ?w1 = "w\<lparr>snapshot_transaction := Some (?tid, 0, of_nat ?n)\<rparr>"
  have start: "drain_initial E ?w1 = Some (Ok u, w')" "initial_batches ?w1 = drop 0 bs" "0 \<le> ?n"
    "at_chunk ?tid ?q ?n 0 ?w1" "same_identity w ?w1"
    using drain first assms(2,5) q(1) by (simp_all add: at_chunk_def same_identity_def)
  obtain t where t: "batches_of (outbound w') = batches_of (outbound ?w1) @ map (\<lambda>i. chunk_of w bs ?tid ?q i (t i)) [0..<?n]"
    using drain_chunks [OF start assms(6) n assms(9)] by blast
  let ?sent = "map (\<lambda>i. chunk_of w bs ?tid ?q i (t i)) [0..<?n]" let ?hdr = "\<lambda>i. chunk_header w (t i)"
  have len: "length ?ess = ?n" "?ess \<noteq> []" using assms(3) by (simp_all add: chunk_entries_def)
  have served: "serve enc clk commit sid 0 ?sent h = send_chunks enc clk commit sid ?hdr ?tid ?n ?q 0 ?ess h"
    using serve_chunks [of 0 ?ess enc clk commit sid ?hdr ?tid ?n ?q h] len(1) by (simp add: chunk_of_def)
  have key: "stream_key enc (?hdr j) sid = Ok k" for j using assms(10) stream_key_header by metis
  have staged: "staged_before ?tid ?n ?q 0 [] s" using assms(14) first by (simp add: staged_before_def)
  obtain h' s' where run: "send_chunks enc clk commit sid ?hdr ?tid ?n ?q 0 ?ess h =
      (map (\<lambda>j. Some (make_batch_ack (clk j) (?hdr j\<lparr>h_sequence := of_nat (?q + j)\<rparr>) (of_nat (?q + j)))) [0..<?n],
       h', [([] @ concat ?ess, True)])"
    and s': "map_of (streams h') k = Some s'" "expected_seq s' = of_nat (?q + ?n)" "Ingest.snapshot_transaction s' = None"
      "initialized s'" "snapshots s' = collect_by_id ([] @ concat ?ess)"
    using send_chunks_from [of enc ?hdr sid k h s clk 0 ?tid ?n ?q "[]" ?ess commit, OF key assms(11,12) _ staged]
      transaction_name_visible [of w ?q] assms(8,13,15,16,17) len n q(2) first by auto
  show ?thesis
    by (intro exI [of _ ?sent] exI [of _ h'] exI [of _ s'] exI conjI, use t served run s' first in auto)
qed

section \<open>A small run\<close>

definition arrival_batches :: "AggregatedBatch list" where
  "arrival_batches = [live_batch\<lparr>AggregatedBatch.is_full_snapshot := True\<rparr>]"

definition arrival_worker :: PushWorker where
  "arrival_worker = (live_worker [([], AwSent True)])\<lparr>PushWorker.service_name := lit ''a'', PushWorker.instance_id := lit ''b'',
     PushWorker.boot_id := lit ''c'', stream_epoch := 7, initial_batches := arrival_batches\<rparr>"

definition arrival_env :: push_env where
  "arrival_env = live_env\<lparr>decode := \<lambda>_. Some (CSnapshotBatch
     (chunk_of arrival_worker arrival_batches (transaction_name arrival_worker 1) 1 0 7))\<rparr>"

definition arrival_stream :: "SnapshotEntryMsg StreamState" where
  "arrival_stream = \<lparr>last_seen = 5, expected_seq = 1, initialized = False, snapshots = [],
     StreamState.snapshot_transaction = None\<rparr>"

definition arrival_handler :: "SnapshotEntryMsg IngestHandler" where
  "arrival_handler = \<lparr>streams = [(sample_key, arrival_stream)], pending_commands = {}, ingest_count = 0,
     command_counter = 0, max_streams = 4, max_snapshot_entries = 8, stream_ttl = 100\<rparr>"

lemma arrival_drains: "map_option fst (drain_authoritative_batches arrival_env arrival_worker) = Some (Ok ())"
  by (simp add: arrival_worker_def arrival_env_def arrival_batches_def drain_authoritative_batches_def drain_initial.simps
      wait_for_window_capacity.simps start_snapshot_transaction_def u32_saturating_succ_def session_steps)

lemma client_snapshot_commits_once_witness:
  "\<exists>w' rs h' s'. drain_authoritative_batches arrival_env arrival_worker = Some (Ok (), w')
     \<and> serve b64_url_encode (\<lambda>_. sample_clock) (\<lambda>_ _. True) (Some sample_identity) 0 (batches_of (outbound w')) arrival_handler
         = (rs, h', [(concat (chunk_entries arrival_batches), True)])
     \<and> map_of (streams h') sample_key = Some s' \<and> expected_seq s' = 2 \<and> initialized s'"
proof -
  obtain w' where w': "drain_authoritative_batches arrival_env arrival_worker = Some (Ok (), w')"
    using arrival_drains by auto
  have start: "window_ok (window arrival_worker)" "initial_batches arrival_worker = arrival_batches"
    "PushWorker.snapshot_transaction arrival_worker = None" "next_sequence (window arrival_worker) = Some 1"
    "outbound arrival_worker = []" "arrival_batches \<noteq> []" "length arrival_batches = 1"
    "\<forall>b\<in>set arrival_batches. AggregatedBatch.is_full_snapshot b" "concat (chunk_entries arrival_batches) = []"
    by (simp_all add: arrival_worker_def live_worker_record window_simps window_ok_def arrival_batches_def
        chunk_entries_def live_batch_def)
  have codec: "\<forall>i<length arrival_batches. \<forall>t\<in>range (now_at arrival_env). decode arrival_env (encode arrival_env (CSnapshotBatch
       (chunk_of arrival_worker arrival_batches (transaction_name arrival_worker (unat (1 :: u64))) (unat (1 :: u64)) i t)))
     = Some (CSnapshotBatch (chunk_of arrival_worker arrival_batches (transaction_name arrival_worker (unat (1 :: u64))) (unat (1 :: u64)) i t))"
    using start(7) by (simp add: arrival_env_def live_env_def)
  have server: "stream_key b64_url_encode (chunk_header arrival_worker 0) (Some sample_identity) = Ok sample_key"
    "map_of (streams arrival_handler) sample_key = Some arrival_stream"
    by (simp_all add: stream_key_def chunk_header_def arrival_worker_def arrival_handler_def sample_defs)
  from client_snapshot_commits_once [OF w' start(2,6,3,1,8,4) _ codec server, of "\<lambda>_. sample_clock" "\<lambda>_ _. True"] start(5,7,9) w'
  show ?thesis
    by (auto simp: arrival_stream_def arrival_handler_def sample_clock_def batches_of_def)
qed

end
