(* ===== verification/Spec2Isabelle.thy ===== *)
theory Spec2Isabelle
  imports Pool_Properties Ingest Sequence_Window Exception_Sorters
    Xa_Branch Two_Phase Statement_Cache Sql_Lexer_Properties Sql_Numbers Registry_Steps Metrics_Registry
    Sanitizer Gregorian Client_Server
begin

text \<open>
  Verification of druid-rust, a Rust port of the Alibaba Druid connection pool and its monitoring
  pipeline. The workspace has five crates: \<open>druid\<close> (the pool, the SQL lexer and firewall, the
  statistics), \<open>druid-rdbc\<close> (driver-neutral traits and governance policies), \<open>druid-metrics\<close> (the
  client and the server side of metric reporting), \<open>druid-admin\<close> (the console) and
  \<open>druid-wrapper\<close> (adapters). A program borrows connections from a \<open>DruidPool\<close>; background tasks
  shrink, refill and close physical connections; a reporter sends statistics frames to a server
  that deduplicates them and commits full snapshots atomically.

  \<^bold>\<open>Layout.\<close>

  \<^item> \<open>Prelude\<close>: results, machine words, strings as lists of Unicode scalar values, list lemmas.
  \<^item> \<open>Ordered_Map\<close>: the contract of \<open>BTreeMap\<close> as the locale \<open>ordered_map\<close>, and sorted
    association lists as its instance.
  \<^item> \<open>Utf8\<close>: the UTF-8 encoding of the standard library and its decoder.
  \<^item> \<open>Connection_Holder\<close>: \<open>druid/src/core/druid_connection_holder.rs\<close> (state machine and
    timestamps of one connection) and \<open>connection_recycle_disposition.rs\<close>.
  \<^item> \<open>Shrink_Policy\<close>: \<open>druid-rdbc/src/governance/shrink_policy.rs\<close>.
  \<^item> \<open>Pool_State\<close>, \<open>Pool_Recycle\<close>, \<open>Pool_Acquire\<close>, \<open>Pool_Shrink\<close>: \<open>druid/src/pool\<close>, that is
    \<open>pool_inner.rs\<close>, \<open>pool_inner/state.rs\<close>, \<open>recycle.rs\<close>, \<open>create.rs\<close>, the borrow loop of
    \<open>druid_pool/acquire.rs\<close> and the guards of \<open>druid_pool.rs\<close>. The record \<open>PoolInner\<close> has the
    fields of the struct; each method is a function on it with the name it has in the code.
  \<^item> \<open>Pool_Steps\<close>: the same operations cut into the sections between which other threads run, as
    an inductive step relation on worlds (the pool and everything tasks and borrowers own).
  \<^item> \<open>Pool_Properties\<close>: what the operations achieve when one task runs them.
  \<^item> \<open>Exception_Sorters\<close>: the value \<open>SqlException\<close> of \<open>druid-rdbc/src/error\<close> and the vendor
    sorters \<open>druid/src/core/*_exception_sorter.rs\<close>, with their contract as two locales.
  \<^item> \<open>Statement_Cache\<close>: the prepared-statement cache of one connection and its key
    (\<open>standard_prepared_statement_cache.rs\<close>, \<open>prepared_statement_key.rs\<close>), with the least-recently-used
    list as its contract.
  \<^item> \<open>Resource_Registry\<close>: \<open>druid/src/core/standard_resource_registry\<close>, the statements, result sets and
    large objects opened under one lease of a connection and the coordinator that closes them;
    \<open>Registry_Steps\<close>: its critical sections as a step relation.
  \<^item> \<open>Xa_Branch\<close>: \<open>druid/src/core/xa.rs\<close> and \<open>druid-rdbc/src/data_source/xid.rs\<close>; \<open>Two_Phase\<close>:
    \<open>druid-rdbc/src/governance/two_phase\<close>.
  \<^item> \<open>Sql_Features\<close>, \<open>Sql_Keywords\<close>, \<open>Sql_Lexer\<close>, \<open>Sql_Numbers\<close>: the feature masks, keyword tables,
    character classes and the lexer of \<open>druid/src/sql\<close> (\<open>dialect_feature.rs\<close>, \<open>sql_parser_feature.rs\<close>,
    \<open>keywords.rs\<close>, \<open>char_types.rs\<close>, \<open>lexer.rs\<close> and \<open>lexer/*.rs\<close>). The record \<open>Lexer\<close> has the fields of the
    struct, texts are lists of UTF-16 units and a token is the name of its constant;
    \<open>Sql_Lexer_Properties\<close> holds what the single scanners compute.
  \<^item> \<open>Sequence_Window\<close>, \<open>Command_Journal\<close>, \<open>Service_Identity\<close>, \<open>Ingest\<close>: the files of the same
    name under \<open>druid-metrics/src\<close> (\<open>Command_Journal\<close> also holds
    \<open>snapshot_transaction_state.rs\<close>).
  \<^item> \<open>Pipeline_Ownership\<close>: \<open>druid-metrics/src/pipeline_ownership.rs\<close> and \<open>command_payload.rs\<close>, the ledger of
    who owns a batch or a command; \<open>Snapshot_Encoder\<close>: \<open>config.rs\<close>, \<open>snapshot_encoder.rs\<close>, \<open>timeline.rs\<close>
    and the snapshot structs of \<open>druid/src/stats\<close>; \<open>Aggregator\<close>: the event loop of \<open>aggregator.rs\<close>
    over that ledger; \<open>Metrics_Registry\<close>: \<open>registry.rs\<close>, \<open>sampler.rs\<close> and the registration part of
    \<open>runtime.rs\<close>; \<open>Sanitizer\<close>: \<open>sanitizer.rs\<close>.
  \<^item> \<open>Push_Worker\<close>: \<open>druid-metrics/src/push_worker.rs\<close>, \<open>push_worker_a.rs\<close> and \<open>push_worker_b.rs\<close>, one network
    session of the client over \<open>Sequence_Window\<close>, \<open>Command_Journal\<close> and the ledger; the record \<open>PushWorker\<close> has the
    fields of the struct. \<open>Push_Worker_Properties\<close>: relations that every operation of a session keeps, as
    locales, and what follows from them; \<open>Client_Server\<close>: the worker and the ingest handler together.
  \<^item> \<open>Jdbc_Datetime\<close>: \<open>druid-rdbc/src/types/jdbc_datetime_ext.rs\<close> and \<open>timestamp.rs\<close>, over records of the
    functions of the crates \<open>chrono\<close> and \<open>jiff\<close>; \<open>Jdbc_Datetime_Properties\<close>: what the code relies on of the
    calendar (\<open>chrono_ok\<close>) and what follows; \<open>Gregorian\<close>: the proleptic Gregorian calendar and UTC, which
    satisfy it.

  \<^bold>\<open>Conventions.\<close> Counters of connections are natural numbers, bounded by the proved invariant;
  statistics are 64-bit words that wrap; the fatal-error counters are 32-bit words read as signed
  integers. Clock readings and the answers of drivers, repositories and base64 engines are
  arguments. A hash map is an association list updated with \<open>AList\<close>, a \<open>BTreeMap\<close> a sorted one. A
  loop whose length the environment decides consumes a list of answers, one per round, and yields
  \<open>None\<close> while it still runs; a theorem about its result shows that it returns. In the push worker this list is
  the tape: the values its awaits return (cancellation, end of a write, server frame, batch), each with what
  other tasks did to the ledger meanwhile; its functions terminate because every round takes an entry or
  removes a deferred frame, and a safety theorem about a session holds for every tape that lets it end.

  \<^bold>\<open>What is shown.\<close>

  \<^item> Pool: under every interleaving the total number of connections is exactly accounted for and
    at most \<open>max_open\<close>; a creation takes a slot exactly when it succeeds; a return queues or
    retires a connection under exactly stated conditions and, in the step model, is a run of
    sections; connections are reused last in, first out; \<open>fill\<close> returns and reaches its target;
    the shrink scan loses nothing and evicts within the policy; the fatal-error gate opens at its
    threshold across counter wrap-around; a closed, drained pool stays empty once no return is
    half-way. Two theorems record defects: a return that races with \<open>close\<close> leaves a connection
    in a closed pool, and every borrow adds two to \<open>connectCount\<close>.
  \<^item> Leases: no resource that was registered is lost under any interleaving; \<open>close_all\<close> returns success only
    when every accepted resource is closed; the next lease starts only when nothing of the last one is
    left; a request to close is answered or has a coordinator at work unless one died; on a quiet registry
    \<open>close_all\<close> returns after one round, newest resource first, with the first failure.
  \<^item> Exceptions: what the hierarchy calls a lost connection is fatal for the sorters that look at the
    SQL state; configured Oracle codes are read exactly, and their sign does not matter.
  \<^item> Statements and transactions: the cache refines a least-recently-used list and loses no handle; a
    branch commits only through the protocol, its decision is final and its audit trail a path of the
    state diagram; recovery repeats only decisions that are in the log and completes after one round.
    A theorem records that an unknown participant does not stop a replay.
  \<^item> SQL lexer: the loops end, no slice leaves the text, and one call per unit and one more read a text to
    its end or to a syntax error, for texts without the unit 256 (at which the character classes panic)
    and without accented Latin-1 letters, at which the lexer provably stops moving. String literals and
    decimal integers read back as what they spell, operators by longest match, keywords by hash in any
    letter case.
  \<^item> Metrics: the sequence window hands out consecutive sequences, classifies acknowledgements and
    restores its frames after a reconnect; the journal runs a command at most once; a service
    identity is injective and parses only from its canonical form; the ingest handler keeps its
    bounds for any frames, ignores duplicates, keeps its state when the repository rejects a batch,
    and publishes a chunked snapshot once and as a whole.
  \<^item> Metrics pipeline: a batch is owned by exactly one stage, moves only forward and never comes back; a
    command is processed once per durable reply. The aggregator returns from every flush, accounts for
    every entry and keeps the newest snapshot of every source through every sequence of events. Remote
    resets and full snapshots happen completely or not at all. The sanitizer prunes exactly what the policy
    forbids; a theorem records that the camel-case \<open>bindValues\<close> is not among it.
  \<^item> Metrics client session: whatever the server, the other tasks and the cancellation do, no frame is lost,
    reordered or renumbered; the success of a remote full snapshot is reported after its last
    acknowledgement; the chunks a client writes while it drains a full snapshot are committed by the server
    once and as a whole. A theorem records a defect: a write that fails after an older frame was
    acknowledged during it keeps its batch twice, and the ledger no longer matches the window.
  \<^item> Dates and times: timestamps of the years 0 to 9999 read back as printed, down to the nanosecond;
    fields out of range carry over on one linear scale; the order by milliseconds and nanoseconds is the
    order of the instants. Two theorems record defects: the fraction of a time before 1970 wraps in
    \<open>Timestamp\<close>, and the smallest day overflows.

  \<^bold>\<open>Not modelled.\<close> Driver I/O, the tokio runtime, TLS and HTTP, generated protobuf code, the admin
  console and the adapters, the firewall and everything else that works on syntax trees of the
  third-party parser, the callback for comments and the diagnostic texts. The filter chain around a physical connect is one answer of the
  environment. The tasks of the metrics runtime appear as the environment of the aggregator and of the push worker and
  as steps on the ledger; the gRPC connection loop that runs one session after another is not modelled, nor is what
  starts and joins the tasks. Wake-ups are recorded in order but the scheduler that reacts to them is not modelled.
\<close>

end
